(* ===== verification/Allow_Prelude.thy ===== *)
theory Allow_Prelude
  imports Main "HOL-Library.Word" "HOL-Library.Sublist"
begin

text \<open>
  Shared vocabulary of the development: the types the components exchange, the
  lemma collections their proofs use, and the generic facts about association
  lists, sorted lists and option chains that more than one component needs.

  Byte strings (\<open>std::string\<close>, \<open>QByteArray\<close>) are lists of characters (a HOL
  \<open>char\<close> is one byte).  A \<open>QString\<close> is its list of UTF-16 code units.
\<close>

unbundle bit_operations_syntax

type_synonym bytes = string
type_synonym qstring = "16 word list"

text \<open>\<open>guard_defs\<close> collects the definitions of the guard predicates;
  \<open>slice_simps\<close> the rewrite rules of the slice containers.\<close>

named_theorems guard_defs
named_theorems slice_simps

section \<open>Literals\<close>

text \<open>A \<open>u"..."_q\<close> or \<open>QLatin1String\<close> literal as a \<open>QString\<close>.\<close>

definition qlit :: "string \<Rightarrow> qstring" where
  "qlit s = map of_char s"

section \<open>Ordered associative containers\<close>

text \<open>
  \<open>std::map\<close> and \<open>base::flat_map\<close> keep their entries ordered by key, one entry
  per key.  Where the iteration order matters the model is a list of pairs with
  strictly increasing keys; \<open>upsert\<close> is \<open>m[k] = v\<close>, \<open>emplace\<close> leaves an entry
  that is there alone, \<open>remove_key\<close> is \<open>erase(k)\<close>.
\<close>

definition map_ok :: "('k::linorder \<times> 'v) list \<Rightarrow> bool" where
  "map_ok m \<longleftrightarrow> sorted_wrt (<) (map fst m)"

fun upsert :: "'k::linorder \<Rightarrow> 'v \<Rightarrow> ('k \<times> 'v) list \<Rightarrow> ('k \<times> 'v) list" where
  "upsert k v [] = [(k, v)]"
| "upsert k v ((k', v') # m) =
     (if k < k' then (k, v) # (k', v') # m
      else if k = k' then (k, v) # m
      else (k', v') # upsert k v m)"

definition emplace :: "'k::linorder \<Rightarrow> 'v \<Rightarrow> ('k \<times> 'v) list \<Rightarrow> ('k \<times> 'v) list" where
  "emplace k v m = (case map_of m k of None \<Rightarrow> upsert k v m | Some _ \<Rightarrow> m)"

definition remove_key :: "'k \<Rightarrow> ('k \<times> 'v) list \<Rightarrow> ('k \<times> 'v) list" where
  "remove_key k m = filter (\<lambda>e. fst e \<noteq> k) m"

lemma map_ok_Nil [simp]: "map_ok []"
  by (simp add: map_ok_def)

lemma map_ok_Cons [simp]:
  "map_ok ((k, v) # m) \<longleftrightarrow> (\<forall>e \<in> set m. k < fst e) \<and> map_ok m"
  by (auto simp: map_ok_def)

lemma set_upsert_subset: "set (upsert k v m) \<subseteq> insert (k, v) (set m)"
  by (induction k v m rule: upsert.induct) auto

lemma fst_set_upsert: "fst ` set (upsert k v m) = insert k (fst ` set m)"
  by (induction k v m rule: upsert.induct) auto

lemma map_ok_upsert [simp, intro]: "map_ok m \<Longrightarrow> map_ok (upsert k v m)"
proof (induction k v m rule: upsert.induct)
  case (1 k v)
  then show ?case by simp
next
  case (2 k v k' v' m)
  show ?case
  proof (cases "k < k'")
    case True
    with "2.prems" show ?thesis by auto
  next
    case False
    show ?thesis
    proof (cases "k = k'")
      case True
      with "2.prems" show ?thesis by auto
    next
      case neq: False
      have "map_ok (upsert k v m)"
        using "2.IH" False neq "2.prems" by simp
      moreover have "\<forall>e \<in> set (upsert k v m). k' < fst e"
        using set_upsert_subset [of k v m] False neq "2.prems" by auto
      ultimately show ?thesis using False neq by simp
    qed
  qed
qed

lemma map_of_upsert [simp]:
  "map_ok m \<Longrightarrow> map_of (upsert k v m) = (map_of m)(k \<mapsto> v)"
proof (induction k v m rule: upsert.induct)
  case (1 k v)
  then show ?case by simp
next
  case (2 k v k' v' m)
  then show ?case by (auto simp: fun_eq_iff)
qed

lemma map_ok_remove_key [simp, intro]: "map_ok m \<Longrightarrow> map_ok (remove_key k m)"
  by (induction m) (auto simp: remove_key_def)

lemma map_of_remove_key [simp]: "map_of (remove_key k m) = (map_of m)(k := None)"
  by (induction m) (auto simp: remove_key_def fun_eq_iff)

lemma map_ok_emplace [simp, intro]: "map_ok m \<Longrightarrow> map_ok (emplace k v m)"
  by (auto simp: emplace_def split: option.split)

lemma map_of_emplace:
  "map_ok m \<Longrightarrow> map_of (emplace k v m) k' =
     (if k' = k then (case map_of m k of None \<Rightarrow> Some v | Some w \<Rightarrow> Some w) else map_of m k')"
  by (auto simp: emplace_def split: option.split)

lemma map_of_emplace_fun:
  "map_ok m \<Longrightarrow>
     map_of (emplace k v m) = (if map_of m k = None then (map_of m)(k \<mapsto> v) else map_of m)"
  by (auto simp: emplace_def split: option.split)

lemma map_ok_distinct_keys: "map_ok m \<Longrightarrow> distinct (map fst m)"
  by (simp add: map_ok_def strict_sorted_iff)

lemma map_ok_map_of_in:
  "map_ok m \<Longrightarrow> (k, v) \<in> set m \<longleftrightarrow> map_of m k = Some v"
  by (metis map_of_SomeD map_of_eq_Some_iff map_ok_distinct_keys)

lemma map_of_None_notin: "map_of m k = None \<longleftrightarrow> k \<notin> fst ` set m"
  by (simp add: map_of_eq_None_iff)

lemma map_ok_tl [simp, intro]: "map_ok m \<Longrightarrow> map_ok (tl m)"
  by (cases m) auto

lemma map_ok_drop [simp, intro]: "map_ok m \<Longrightarrow> map_ok (drop n m)"
  by (induction n arbitrary: m) (auto simp: drop_Suc)

lemma length_upsert_new: "map_of m k = None \<Longrightarrow> length (upsert k v m) = Suc (length m)"
  by (induction k v m rule: upsert.induct) (auto split: if_splits)

lemma length_emplace: "length (emplace k v m) = (if map_of m k = None then Suc (length m) else length m)"
  by (auto simp: emplace_def length_upsert_new split: option.split)

lemma set_upsert_new: "map_of m k = None \<Longrightarrow> set (upsert k v m) = insert (k, v) (set m)"
  by (induction k v m rule: upsert.induct) (auto split: if_splits)

lemma set_emplace_new: "map_of m k = None \<Longrightarrow> set (emplace k v m) = insert (k, v) (set m)"
  by (simp add: emplace_def set_upsert_new)

lemma map_ok_unique: "map_ok xs \<Longrightarrow> map_ok ys \<Longrightarrow> set xs = set ys \<Longrightarrow> xs = ys"
proof (induction xs arbitrary: ys)
  case Nil
  then show ?case by simp
next
  case (Cons x xs)
  then obtain y zs where ys: "ys = y # zs" by (cases ys) auto
  have sx: "\<forall>e \<in> set xs. fst x < fst e" "map_ok xs"
    and sy: "\<forall>e \<in> set zs. fst y < fst e" "map_ok zs"
    using Cons.prems by (auto simp: map_ok_def ys)
  have "x = y \<or> x \<in> set zs" "x = y \<or> y \<in> set xs" using Cons.prems(3) by (auto simp: ys)
  then have xy: "x = y" using sx(1) sy(1) less_asym by blast
  then have "set xs = set zs" using Cons.prems(3) sx(1) sy(1) by (force simp: ys)
  with Cons.IH sx(2) sy(2) xy show ?case by (simp add: ys)
qed

section \<open>Ordered sets\<close>

text \<open>\<open>std::set\<close> and \<open>base::flat_set\<close> as strictly increasing lists.\<close>

abbreviation ordered_set :: "'a::linorder list \<Rightarrow> bool" where
  "ordered_set xs \<equiv> sorted_wrt (<) xs"

lemma ordered_set_iff: "ordered_set xs \<longleftrightarrow> sorted xs \<and> distinct xs"
  by (simp add: strict_sorted_iff)

lemma ordered_set_insort_insert [simp, intro]:
  "ordered_set xs \<Longrightarrow> ordered_set (insort_insert x xs)"
  by (simp add: ordered_set_iff sorted_insort_insert distinct_insort_insert)

lemma set_insort_insert' [simp]: "set (insort_insert x xs) = insert x (set xs)"
  by (rule set_insort_insert)

lemma ordered_set_unique:
  "ordered_set xs \<Longrightarrow> ordered_set ys \<Longrightarrow> set xs = set ys \<Longrightarrow> xs = ys"
  by (rule strict_sorted_equal)

lemma length_insort_insert:
  "length (insort_insert x xs) = (if x \<in> set xs then length xs else Suc (length xs))"
  by (simp add: insort_insert_key_def)

lemma ordered_set_length: "ordered_set xs \<Longrightarrow> length xs = card (set xs)"
  by (simp add: ordered_set_iff distinct_card)

lemma length_filter_bound [intro]: "length xs \<le> n \<Longrightarrow> length (filter P xs) \<le> n"
  by (rule order_trans [OF length_filter_le])

section \<open>Searching\<close>

lemma find_SomeD: "find P xs = Some x \<Longrightarrow> x \<in> set xs \<and> P x"
  by (induction xs) (auto split: if_splits)

lemma find_ex: "x \<in> set xs \<Longrightarrow> P x \<Longrightarrow> \<exists>y. find P xs = Some y"
  by (induction xs) auto

section \<open>Prefix scans\<close>

lemma dropWhile_length_less:
  "xs \<noteq> [] \<Longrightarrow> P (hd xs) \<Longrightarrow> length (dropWhile P xs) < length xs"
  by (cases xs) (auto simp: le_imp_less_Suc length_dropWhile_le)


section \<open>Decimal text\<close>

text \<open>\<open>QString::number\<close> of an unsigned value, as ASCII text.\<close>

fun number_text :: "nat \<Rightarrow> string" where
  "number_text n =
     (if n < 10 then [char_of (48 + n)] else number_text (n div 10) @ [char_of (48 + n mod 10)])"

declare number_text.simps [simp del]

lemma number_text_nonempty [simp]: "number_text n \<noteq> []"
  by (subst number_text.simps) simp

lemma number_text_chars:
  "c \<in> set (number_text n) \<Longrightarrow> 48 \<le> (of_char c :: nat) \<and> (of_char c :: nat) \<le> 57"
proof (induction n rule: number_text.induct)
  case (1 n)
  show ?case
  proof (cases "n < 10")
    case True
    with "1.prems" have "c = char_of (48 + n)" by (subst (asm) number_text.simps) simp
    with True show ?thesis by simp
  next
    case False
    with "1.prems" have "c \<in> set (number_text (n div 10)) \<or> c = char_of (48 + n mod 10)"
      by (subst (asm) number_text.simps) auto
    with "1.IH" False show ?thesis by (auto simp: of_char_of mod_less)
  qed
qed

lemma length_number_text: "n < 10 ^ k \<Longrightarrow> 0 < k \<Longrightarrow> length (number_text n) \<le> k"
proof (induction n arbitrary: k rule: number_text.induct)
  case (1 n)
  show ?case
  proof (cases "n < 10")
    case True
    with "1.prems" show ?thesis by (subst number_text.simps) simp
  next
    case False
    then obtain j where k: "k = Suc j" "0 < j"
      using "1.prems" by (cases k; cases "k - 1") auto
    with "1.prems" have "n div 10 < 10 ^ j" by (simp add: less_mult_imp_div_less mult.commute)
    with "1.IH" False k have "length (number_text (n div 10)) \<le> j" by simp
    with False k show ?thesis by (subst number_text.simps) simp
  qed
qed

text \<open>\<open>QStringList::join('\n')\<close>.\<close>

fun join_lines :: "string list \<Rightarrow> string" where
  "join_lines [] = []"
| "join_lines [t] = t"
| "join_lines (t # u # ts) = t @ CHR 0x0A # join_lines (u # ts)"

lemma length_join_lines:
  "\<forall>t \<in> set ts. length t \<le> k \<Longrightarrow> length (join_lines ts) \<le> Suc k * length ts"
  by (induction ts rule: join_lines.induct) auto

end
