(* ===== verification/Allowlist_Policy.thy ===== *)
theory Allowlist_Policy
  imports Allow_Prelude
begin

text \<open>
  The allow-list parser and the pure permission rules: \<open>main/allowlist_policy.h\<close> and
  \<open>main/allowlist_policy.cpp\<close>, with the emoji table of
  \<open>main/allowlist_emoji_ranges.inc\<close>.  Input fields are byte strings; ids are
  \<open>uint64\<close> values, kept as naturals with the overflow of \<open>std::from_chars\<close> written
  out.  \<open>std::set<Entry>\<close> is a strictly increasing list, so \<open>Entry\<close> is a datatype
  with the member-wise order of its defaulted comparison.
\<close>

section \<open>Data\<close>

definition kMaximumEntries :: nat where "kMaximumEntries = 10000"
definition kMaximumInputBytes :: nat where "kMaximumInputBytes = 512 * 1024"
definition kMaximumBareId :: nat where "kMaximumBareId = 0xFFFFFFFFFFFF"
definition kChannelOffset :: nat where "kChannelOffset = 1000000000000"

lemmas policy_consts =
  kMaximumEntries_def kMaximumInputBytes_def kMaximumBareId_def kChannelOffset_def

datatype kind = User | Chat | Channel

datatype allow_error = NoError | Empty | InvalidId | WrongField | TooMany | TooLong

fun kind_rank :: "kind \<Rightarrow> nat" where
  "kind_rank User = 0"
| "kind_rank Chat = 1"
| "kind_rank Channel = 2"

lemma kind_rank_inject [simp]: "kind_rank a = kind_rank b \<longleftrightarrow> a = b"
  by (cases a; cases b) auto

instantiation kind :: linorder
begin

definition less_kind :: "kind \<Rightarrow> kind \<Rightarrow> bool" where
  "less_kind a b \<longleftrightarrow> kind_rank a < kind_rank b"

definition less_eq_kind :: "kind \<Rightarrow> kind \<Rightarrow> bool" where
  "less_eq_kind a b \<longleftrightarrow> kind_rank a \<le> kind_rank b"

instance
  by standard (auto simp: less_kind_def less_eq_kind_def)

end

datatype entry = Entry (entry_kind: kind) (entry_id: nat)

instantiation entry :: linorder
begin

definition less_entry :: "entry \<Rightarrow> entry \<Rightarrow> bool" where
  "less_entry a b \<longleftrightarrow>
     entry_kind a < entry_kind b \<or> entry_kind a = entry_kind b \<and> entry_id a < entry_id b"

definition less_eq_entry :: "entry \<Rightarrow> entry \<Rightarrow> bool" where
  "less_eq_entry a b \<longleftrightarrow>
     entry_kind a < entry_kind b \<or> entry_kind a = entry_kind b \<and> entry_id a \<le> entry_id b"

instance
  by standard (auto simp: less_entry_def less_eq_entry_def entry.expand)

end

record parse_result =
  pr_entries :: "entry list"
  pr_error :: allow_error
  pr_token :: bytes

section \<open>Operations\<close>

definition IsSeparator :: "char \<Rightarrow> bool" where
  "IsSeparator c \<longleftrightarrow>
     c \<in> {CHR '' '', CHR 0x09, CHR 0x0D, CHR 0x0A, CHR '','', CHR '';''}"

definition is_digit :: "char \<Rightarrow> bool" where
  "is_digit c \<longleftrightarrow> 48 \<le> (of_char c :: nat) \<and> (of_char c :: nat) \<le> 57"

definition digit_value :: "char \<Rightarrow> nat" where
  "digit_value c = of_char c - 48"

definition digits_value :: "string \<Rightarrow> nat" where
  "digits_value ds = foldl (\<lambda>a c. 10 * a + digit_value c) 0 ds"

text \<open>\<open>std::from_chars\<close> for \<open>uint64_t\<close>, base 10: the longest run of digits, an
  error when there is none or when its value does not fit; else the value and the
  characters behind it.\<close>

definition from_chars :: "string \<Rightarrow> (nat \<times> string) option" where
  "from_chars s =
     (let ds = takeWhile is_digit s
      in if ds = [] \<or> 2 ^ 64 \<le> digits_value ds then None
         else Some (digits_value ds, dropWhile is_digit s))"

text \<open>\<open>ParseEntry\<close> before the number: kind, digits and whether the token is marked
  with a minus; \<open>None\<close> is the unknown prefix.\<close>

definition entry_prefix :: "string \<Rightarrow> (kind \<times> string \<times> bool) option" where
  "entry_prefix token =
     (if CHR '':'' \<in> set token then
        let prefix = takeWhile (\<lambda>c. c \<noteq> CHR '':'') token;
            digits = tl (dropWhile (\<lambda>c. c \<noteq> CHR '':'') token)
        in if prefix = ''user'' then Some (User, digits, False)
           else if prefix = ''chat'' then Some (Chat, digits, False)
           else if prefix = ''channel'' then Some (Channel, digits, False)
           else None
      else if token \<noteq> [] \<and> hd token = CHR ''-'' then Some (Chat, tl token, True)
      else Some (User, token, False))"

definition ParseEntry :: "string \<Rightarrow> bool \<Rightarrow> allow_error + entry" where
  "ParseEntry token users =
     (case entry_prefix token of
        None \<Rightarrow> Inl InvalidId
      | Some (kind, digits, marked) \<Rightarrow>
          if digits = [] \<or> \<not> is_digit (hd digits) then Inl InvalidId
          else case from_chars digits of
            None \<Rightarrow> Inl InvalidId
          | Some (n, rest) \<Rightarrow>
              if rest \<noteq> [] \<or> n = 0 then Inl InvalidId
              else let (kind, n) =
                     (if marked \<and> kChannelOffset \<le> n then (Channel, n - kChannelOffset)
                      else (kind, n))
                in if n = 0 \<or> kMaximumBareId < n then Inl InvalidId
                   else if users \<noteq> (kind = User) then Inl WrongField
                   else Inr (Entry kind n))"

lemma parse_field_decreases:
  assumes "dropWhile P s \<noteq> []"
  shows "length (dropWhile (\<lambda>c. \<not> P c) (dropWhile P s)) < length s"
proof -
  have "length (dropWhile (\<lambda>c. \<not> P c) (dropWhile P s)) < length (dropWhile P s)"
    using assms hd_dropWhile [OF assms] by (intro dropWhile_length_less) auto
  also have "\<dots> \<le> length s" by (rule length_dropWhile_le)
  finally show ?thesis .
qed

text \<open>One iteration of \<open>ParseField\<close> consumes a run of separators and a token.  The
  error carries the first 80 characters of the offending token.\<close>

function ParseField ::
  "string \<Rightarrow> bool \<Rightarrow> entry list \<Rightarrow> allow_error \<times> string + entry list" where
  "ParseField input users es =
     (let cs = dropWhile IsSeparator input
      in if cs = [] then Inr es
         else let token = takeWhile (\<lambda>c. \<not> IsSeparator c) cs;
                  rest = dropWhile (\<lambda>c. \<not> IsSeparator c) cs
           in case ParseEntry token users of
                Inl e \<Rightarrow> Inl (e, take 80 token)
              | Inr en \<Rightarrow>
                  let es' = insort_insert en es
                  in if kMaximumEntries < length es' then Inl (TooMany, [])
                     else ParseField rest users es')"
  by pat_completeness auto

termination ParseField
  by (relation "measure (\<lambda>(input, users, es). length input)")
     (auto simp: parse_field_decreases)

declare ParseField.simps [simp del]

definition Parse :: "string \<Rightarrow> string \<Rightarrow> parse_result" where
  "Parse users groups =
     (if kMaximumInputBytes < length users \<or> kMaximumInputBytes < length groups
         \<or> kMaximumInputBytes < length users + length groups
      then \<lparr>pr_entries = [], pr_error = TooLong, pr_token = []\<rparr>
      else case ParseField users True [] of
        Inl (e, t) \<Rightarrow> \<lparr>pr_entries = [], pr_error = e, pr_token = t\<rparr>
      | Inr es \<Rightarrow>
        (case ParseField groups False es of
           Inl (e, t) \<Rightarrow> \<lparr>pr_entries = [], pr_error = e, pr_token = t\<rparr>
         | Inr es' \<Rightarrow>
             if es' = [] then \<lparr>pr_entries = [], pr_error = Empty, pr_token = []\<rparr>
             else \<lparr>pr_entries = es', pr_error = NoError, pr_token = []\<rparr>))"

definition CanPresentPeerProfile :: "kind \<Rightarrow> bool \<Rightarrow> bool" where
  "CanPresentPeerProfile kind conversationAllowed \<longleftrightarrow> kind \<noteq> User \<and> conversationAllowed"

definition CanStartUserSession :: "int \<Rightarrow> bool" where
  "CanStartUserSession authorizedAccounts \<longleftrightarrow> authorizedAccounts = 0"

definition CanCreateConversations :: bool where
  "CanCreateConversations \<longleftrightarrow> False"

definition CanUseCalls :: bool where
  "CanUseCalls \<longleftrightarrow> False"

definition CanJoinGroupCall :: "kind \<Rightarrow> bool \<Rightarrow> bool \<Rightarrow> bool \<Rightarrow> bool" where
  "CanJoinGroupCall kind conversationAllowed existing conference \<longleftrightarrow>
     kind \<noteq> User \<and> conversationAllowed \<and> existing \<and> \<not> conference"

definition CanCallUser :: "kind \<Rightarrow> bool \<Rightarrow> bool \<Rightarrow> bool \<Rightarrow> bool \<Rightarrow> bool" where
  "CanCallUser kind conversationAllowed knownUser self is_bot \<longleftrightarrow>
     kind = User \<and> conversationAllowed \<and> knownUser \<and> \<not> self \<and> \<not> is_bot"

section \<open>Emoji\<close>

definition emoji_ranges :: "(nat \<times> nat) list" where
  "emoji_ranges =
    [(0xA9, 0xA9), (0xAE, 0xAE), (0x203C, 0x203C), (0x2049, 0x2049),
     (0x20E3, 0x20E3), (0x2122, 0x2122), (0x2139, 0x2139), (0x2194, 0x2199),
     (0x21A9, 0x21AA), (0x231A, 0x231B), (0x2328, 0x2328), (0x23CF, 0x23CF),
     (0x23E9, 0x23F3), (0x23F8, 0x23FA), (0x24C2, 0x24C2), (0x25AA, 0x25AB),
     (0x25B6, 0x25B6), (0x25C0, 0x25C0), (0x25FB, 0x25FE), (0x2600, 0x2604),
     (0x260E, 0x260E), (0x2611, 0x2611), (0x2614, 0x2615), (0x2618, 0x2618),
     (0x261D, 0x261D), (0x2620, 0x2620), (0x2622, 0x2623), (0x2626, 0x2626),
     (0x262A, 0x262A), (0x262E, 0x262F), (0x2638, 0x263A), (0x2640, 0x2640),
     (0x2642, 0x2642), (0x2648, 0x2653), (0x265F, 0x2660), (0x2663, 0x2663),
     (0x2665, 0x2666), (0x2668, 0x2668), (0x267B, 0x267B), (0x267E, 0x267F),
     (0x2692, 0x2697), (0x2699, 0x2699), (0x269B, 0x269C), (0x26A0, 0x26A1),
     (0x26A7, 0x26A7), (0x26AA, 0x26AB), (0x26B0, 0x26B1), (0x26BD, 0x26BE),
     (0x26C4, 0x26C5), (0x26C8, 0x26C8), (0x26CE, 0x26CF), (0x26D1, 0x26D1),
     (0x26D3, 0x26D4), (0x26E9, 0x26EA), (0x26F0, 0x26F5), (0x26F7, 0x26FA),
     (0x26FD, 0x26FD), (0x2702, 0x2702), (0x2705, 0x2705), (0x2708, 0x270D),
     (0x270F, 0x270F), (0x2712, 0x2712), (0x2714, 0x2714), (0x2716, 0x2716),
     (0x271D, 0x271D), (0x2721, 0x2721), (0x2728, 0x2728), (0x2733, 0x2734),
     (0x2744, 0x2744), (0x2747, 0x2747), (0x274C, 0x274C), (0x274E, 0x274E),
     (0x2753, 0x2755), (0x2757, 0x2757), (0x2763, 0x2764), (0x2795, 0x2797),
     (0x27A1, 0x27A1), (0x27B0, 0x27B0), (0x27BF, 0x27BF), (0x2934, 0x2935),
     (0x2B05, 0x2B07), (0x2B1B, 0x2B1C), (0x2B50, 0x2B50), (0x2B55, 0x2B55),
     (0x3030, 0x3030), (0x303D, 0x303D), (0x3297, 0x3297), (0x3299, 0x3299),
     (0x1F004, 0x1F004), (0x1F0CF, 0x1F0CF), (0x1F170, 0x1F171), (0x1F17E, 0x1F17F),
     (0x1F18E, 0x1F18E), (0x1F191, 0x1F19A), (0x1F1E6, 0x1F1FF), (0x1F201, 0x1F202),
     (0x1F21A, 0x1F21A), (0x1F22F, 0x1F22F), (0x1F232, 0x1F23A), (0x1F250, 0x1F251),
     (0x1F300, 0x1F321), (0x1F324, 0x1F393), (0x1F396, 0x1F397), (0x1F399, 0x1F39B),
     (0x1F39E, 0x1F3F0), (0x1F3F3, 0x1F3F5), (0x1F3F7, 0x1F4FD), (0x1F4FF, 0x1F53D),
     (0x1F549, 0x1F54E), (0x1F550, 0x1F567), (0x1F56F, 0x1F570), (0x1F573, 0x1F57A),
     (0x1F587, 0x1F587), (0x1F58A, 0x1F58D), (0x1F590, 0x1F590), (0x1F595, 0x1F596),
     (0x1F5A4, 0x1F5A5), (0x1F5A8, 0x1F5A8), (0x1F5B1, 0x1F5B2), (0x1F5BC, 0x1F5BC),
     (0x1F5C2, 0x1F5C4), (0x1F5D1, 0x1F5D3), (0x1F5DC, 0x1F5DE), (0x1F5E1, 0x1F5E1),
     (0x1F5E3, 0x1F5E3), (0x1F5E8, 0x1F5E8), (0x1F5EF, 0x1F5EF), (0x1F5F3, 0x1F5F3),
     (0x1F5FA, 0x1F64F), (0x1F680, 0x1F6C5), (0x1F6CB, 0x1F6D2), (0x1F6D5, 0x1F6D7),
     (0x1F6DC, 0x1F6E5), (0x1F6E9, 0x1F6E9), (0x1F6EB, 0x1F6EC), (0x1F6F0, 0x1F6F0),
     (0x1F6F3, 0x1F6FC), (0x1F7E0, 0x1F7EB), (0x1F7F0, 0x1F7F0), (0x1F90C, 0x1F93A),
     (0x1F93C, 0x1F945), (0x1F947, 0x1F9FF), (0x1FA70, 0x1FA7C), (0x1FA80, 0x1FA89),
     (0x1FA8F, 0x1FAC6), (0x1FACE, 0x1FADC), (0x1FADF, 0x1FAE9), (0x1FAF0, 0x1FAF8)]"

text \<open>The inner loop of \<open>ContainsEmoji\<close>: it stops at the first range that starts
  behind the scalar.\<close>

fun scan_ranges :: "nat \<Rightarrow> (nat \<times> nat) list \<Rightarrow> bool" where
  "scan_ranges scalar [] = False"
| "scan_ranges scalar ((lo, hi) # ranges) =
     (if scalar < lo then False
      else if scalar \<le> hi then True
      else scan_ranges scalar ranges)"

fun ContainsEmoji :: "nat list \<Rightarrow> bool" where
  "ContainsEmoji [] = False"
| "ContainsEmoji (scalar # text) = (scan_ranges scalar emoji_ranges \<or> ContainsEmoji text)"


section \<open>Entries\<close>

definition valid_entry :: "entry \<Rightarrow> bool" where
  "valid_entry e \<longleftrightarrow> 0 < entry_id e \<and> entry_id e \<le> kMaximumBareId"

lemma ParseEntry_valid:
  "ParseEntry t users = Inr e \<Longrightarrow> valid_entry e \<and> (users \<longleftrightarrow> entry_kind e = User)"
  by (auto simp: ParseEntry_def valid_entry_def Let_def
      split: option.splits prod.splits if_splits)

section \<open>A reference tokenizer\<close>

text \<open>The input cut at every separator, and the non-empty pieces of it.\<close>

fun split_separators :: "string \<Rightarrow> string list" where
  "split_separators [] = [[]]"
| "split_separators (c # cs) =
     (if IsSeparator c then [] # split_separators cs
      else (c # hd (split_separators cs)) # tl (split_separators cs))"

definition tokens :: "string \<Rightarrow> string list" where
  "tokens s = filter (\<lambda>t. t \<noteq> []) (split_separators s)"

lemma split_separators_unfold:
  "split_separators s = takeWhile (\<lambda>c. \<not> IsSeparator c) s
     # (case dropWhile (\<lambda>c. \<not> IsSeparator c) s of [] \<Rightarrow> [] | _ # r \<Rightarrow> split_separators r)"
  by (induction s) auto

lemma tokens_Nil [simp]: "tokens [] = []"
  by (simp add: tokens_def)

lemma tokens_separator [simp]: "IsSeparator c \<Longrightarrow> tokens (c # s) = tokens s"
  by (simp add: tokens_def)

lemma tokens_dropWhile: "tokens (dropWhile IsSeparator s) = tokens s"
  by (induction s) auto

lemma tokens_word:
  assumes "s \<noteq> []" "\<not> IsSeparator (hd s)"
  shows "tokens s = takeWhile (\<lambda>c. \<not> IsSeparator c) s
    # tokens (dropWhile (\<lambda>c. \<not> IsSeparator c) s)"
proof -
  let ?w = "takeWhile (\<lambda>c. \<not> IsSeparator c) s" and ?r = "dropWhile (\<lambda>c. \<not> IsSeparator c) s"
  have w: "?w \<noteq> []" using assms by (cases s) auto
  have r: "?r = [] \<or> (\<exists>c cs. ?r = c # cs \<and> IsSeparator c)"
    using hd_dropWhile [of "\<lambda>c. \<not> IsSeparator c" s] by (cases ?r) auto
  have t: "tokens s = ?w # filter (\<lambda>t. t \<noteq> [])
      (case ?r of [] \<Rightarrow> [] | _ # r \<Rightarrow> split_separators r)"
    unfolding tokens_def by (subst split_separators_unfold) (simp add: w)
  from r show ?thesis
  proof
    assume "?r = []"
    then show ?thesis by (simp only: t list.case filter.simps tokens_Nil)
  next
    assume "\<exists>c cs. ?r = c # cs \<and> IsSeparator c"
    then obtain c cs where "?r = c # cs" "IsSeparator c" by blast
    then show ?thesis unfolding t by (simp add: tokens_def)
  qed
qed

lemma tokens_append_word:
  "w \<noteq> [] \<Longrightarrow> \<forall>c \<in> set w. \<not> IsSeparator c \<Longrightarrow> IsSeparator c' \<Longrightarrow>
     tokens (w @ c' # s) = w # tokens s"
  by (subst tokens_word) (auto simp: neq_Nil_conv takeWhile_append dropWhile_append)

lemma tokens_single_word:
  assumes "w \<noteq> []" "\<forall>c \<in> set w. \<not> IsSeparator c"
  shows "tokens w = [w]"
proof -
  have "dropWhile (\<lambda>c. \<not> IsSeparator c) w = []" using assms(2) by simp
  then have "tokens (dropWhile (\<lambda>c. \<not> IsSeparator c) w) = []" by (simp only: tokens_Nil)
  with assms show ?thesis by (simp add: tokens_word)
qed

text \<open>The tokens processed left to right, stopping at the first error.\<close>

fun parse_tokens ::
  "string list \<Rightarrow> bool \<Rightarrow> entry list \<Rightarrow> allow_error \<times> string + entry list" where
  "parse_tokens [] users es = Inr es"
| "parse_tokens (t # ts) users es =
     (case ParseEntry t users of
        Inl e \<Rightarrow> Inl (e, take 80 t)
      | Inr en \<Rightarrow>
          if kMaximumEntries < length (insort_insert en es) then Inl (TooMany, [])
          else parse_tokens ts users (insort_insert en es))"

lemma ParseField_tokens: "ParseField input users es = parse_tokens (tokens input) users es"
proof (induction input users es rule: ParseField.induct)
  case (1 input users es)
  let ?cs = "dropWhile IsSeparator input"
  show ?case
  proof (cases "?cs = []")
    case True
    then have "tokens input = []" using tokens_dropWhile [of input] by (simp only: tokens_Nil)
    with True show ?thesis by (simp add: ParseField.simps [of input users es])
  next
    case False
    then have "tokens input = takeWhile (\<lambda>c. \<not> IsSeparator c) ?cs
        # tokens (dropWhile (\<lambda>c. \<not> IsSeparator c) ?cs)"
      using tokens_word [of ?cs] hd_dropWhile [of IsSeparator input] tokens_dropWhile [of input]
      by simp
    with False "1.IH" show ?thesis
      by (auto simp: ParseField.simps [of input users es] Let_def split: sum.splits)
  qed
qed

lemma parse_tokens_entries:
  assumes "parse_tokens ts users es = Inr es'" "ordered_set es"
  shows "ordered_set es' \<and> set es' = set es \<union> {e. \<exists>t \<in> set ts. ParseEntry t users = Inr e}
    \<and> (\<forall>t \<in> set ts. \<exists>e. ParseEntry t users = Inr e)
    \<and> (length es \<le> kMaximumEntries \<longrightarrow> length es' \<le> kMaximumEntries)"
  using assms
proof (induction ts users es rule: parse_tokens.induct)
  case (1 users es)
  then show ?case by simp
next
  case (2 t ts users es)
  then obtain en where en: "ParseEntry t users = Inr en"
    and len: "length (insort_insert en es) \<le> kMaximumEntries"
    and rest: "parse_tokens ts users (insort_insert en es) = Inr es'"
    by (auto split: sum.splits if_splits)
  have "\<not> kMaximumEntries < length (insort_insert en es)" using len by simp
  from "2.IH" [OF en this rest ordered_set_insort_insert [OF "2.prems"(2)]] en len
  show ?case by auto
qed

section \<open>What a parse promises\<close>

text \<open>Evaluation of the parser on literals.\<close>

lemmas parse_eval =
  tokens_def IsSeparator_def ParseEntry_def entry_prefix_def from_chars_def is_digit_def
  digits_value_def digit_value_def policy_consts insort_insert_key_def
  less_entry_def less_eq_entry_def less_kind_def less_eq_kind_def

text \<open>C33: a list is returned only when every token of both fields is a well-formed
  identifier of the right kind, and then it is exactly the set of those identifiers:
  sorted, duplicate free, not empty, within the entry limit, each id in range.\<close>

theorem parse_success:
  assumes "Parse users groups = r" and "pr_error r = NoError"
  shows "ordered_set (pr_entries r) \<and> pr_entries r \<noteq> []
    \<and> length (pr_entries r) \<le> kMaximumEntries
    \<and> (\<forall>e \<in> set (pr_entries r). valid_entry e)
    \<and> set (pr_entries r) =
        {e. \<exists>t \<in> set (tokens users). ParseEntry t True = Inr e}
        \<union> {e. \<exists>t \<in> set (tokens groups). ParseEntry t False = Inr e}
    \<and> (\<forall>t \<in> set (tokens users). \<exists>e. ParseEntry t True = Inr e)
    \<and> (\<forall>t \<in> set (tokens groups). \<exists>e. ParseEntry t False = Inr e)"
proof -
  have none: "ParseEntry t u \<noteq> Inl NoError" for t u
    by (auto simp: ParseEntry_def Let_def split: option.splits prod.splits if_splits)
  have tok: "parse_tokens ts u es \<noteq> Inl (NoError, x)" for ts u es x
    by (induction ts u es rule: parse_tokens.induct) (auto simp: none split: sum.splits)
  from assms obtain es es' where u: "parse_tokens (tokens users) True [] = Inr es"
    and g: "parse_tokens (tokens groups) False es = Inr es'"
    and r: "pr_entries r = es'" "es' \<noteq> []"
    by (auto simp: Parse_def ParseField_tokens tok split: sum.splits if_splits)
  note U = parse_tokens_entries [OF u]
  note G = parse_tokens_entries [OF g]
  have "\<forall>e \<in> set es'. valid_entry e"
    using U G by (auto dest: ParseEntry_valid)
  with U G r show ?thesis by (simp add: kMaximumEntries_def)
qed

theorem parse_success_witness:
  "Parse ''42,7 user:42'' ''-100''
     = \<lparr>pr_entries = [Entry User 7, Entry User 42, Entry Chat 100], pr_error = NoError, pr_token = []\<rparr>
   \<and> valid_entry (Entry Chat 100)"
proof -
  have p: "Parse ''42,7 user:42'' ''-100''
     = \<lparr>pr_entries = [Entry User 7, Entry User 42, Entry Chat 100], pr_error = NoError, pr_token = []\<rparr>"
    by (simp add: Parse_def ParseField_tokens parse_eval)
  with parse_success [OF p] show ?thesis by simp
qed



section \<open>The emoji scan\<close>

text \<open>The early exit of the scan is right because the table is sorted and its ranges
  do not overlap.\<close>

fun ranges_ok :: "(nat \<times> nat) list \<Rightarrow> bool" where
  "ranges_ok [] = True"
| "ranges_ok [(a, b)] = (a \<le> b)"
| "ranges_ok ((a, b) # (c, d) # r) = (a \<le> b \<and> b < c \<and> ranges_ok ((c, d) # r))"

lemma ranges_ok_hd: "ranges_ok ((a, b) # r) \<Longrightarrow> a \<le> b"
  by (cases "(a, b) # r" rule: ranges_ok.cases) auto

lemma ranges_ok_tl: "ranges_ok (p # r) \<Longrightarrow> ranges_ok r"
  by (cases "p # r" rule: ranges_ok.cases) auto

lemma ranges_ok_above:
  "ranges_ok ((a, b) # r) \<Longrightarrow> (c, d) \<in> set r \<Longrightarrow> b < c"
proof (induction r arbitrary: a b)
  case Nil
  then show ?case by simp
next
  case (Cons p r)
  obtain e f where p: "p = (e, f)" by (cases p)
  with Cons.prems have "b < e" "ranges_ok ((e, f) # r)" by auto
  moreover have "f < c" if "(c, d) \<in> set r"
    using Cons.IH [of e f] that calculation by blast
  ultimately show ?case using Cons.prems(2) p ranges_ok_hd [of e f r] by auto
qed

lemma scan_ranges_iff:
  "ranges_ok r \<Longrightarrow> scan_ranges c r \<longleftrightarrow> (\<exists>(a, b) \<in> set r. a \<le> c \<and> c \<le> b)"
proof (induction c r rule: scan_ranges.induct)
  case (1 scalar)
  then show ?case by simp
next
  case (2 scalar lo hi ranges)
  note ok = "2.prems" and above = ranges_ok_above [OF "2.prems"]
  show ?case
  proof (cases "scalar < lo")
    case True
    with ranges_ok_hd [OF ok] show ?thesis by (auto dest!: above)
  next
    case False
    with "2.IH" ranges_ok_tl [OF ok] show ?thesis by auto
  qed
qed

lemma emoji_ranges_ok: "ranges_ok emoji_ranges"
  by (simp add: emoji_ranges_def)

text \<open>\<open>ContainsEmoji\<close>, with its early exit, says exactly whether some scalar of
  the text lies in some range of the table.\<close>

theorem ContainsEmoji_iff:
  "ContainsEmoji cs \<longleftrightarrow> (\<exists>c \<in> set cs. \<exists>(a, b) \<in> set emoji_ranges. a \<le> c \<and> c \<le> b)"
  by (induction cs) (auto simp: scan_ranges_iff [OF emoji_ranges_ok])

lemma ContainsEmoji_append:
  "ContainsEmoji (s @ t) \<longleftrightarrow> ContainsEmoji s \<or> ContainsEmoji t"
  by (induction s) auto

text \<open>Plain ASCII is never taken for an emoji.\<close>

lemma ascii_no_emoji: "\<forall>c \<in> set cs. c < 0xA9 \<Longrightarrow> \<not> ContainsEmoji cs"
proof (induction cs)
  case Nil
  then show ?case by simp
next
  case (Cons c cs)
  then have "\<not> scan_ranges c emoji_ranges" by (simp add: emoji_ranges_def)
  with Cons show ?case by simp
qed

end
