(* ===== verification/Peer_Ids.thy ===== *)
theory Peer_Ids
  imports Allow_Prelude
begin

text \<open>
  Peer and message identifiers: \<open>data/data_peer_id.h\<close>, \<open>data/data_peer_id.cpp\<close>
  and the identifier part of \<open>data/data_msg_id.h\<close>.  A \<open>PeerId\<close> packs a bare id
  (bits 0..47) and a type tag (bits 48..55) into one \<open>uint64\<close>; bit 55 is the
  reserved bit that marks the modern serialization.  A \<open>MsgId\<close> wraps an
  \<open>int64\<close>; the ranges below partition it into server, story and client ids.
  \<open>Expects\<close> is a crash, so the functions that start with one return an option.
\<close>

section \<open>Peer ids\<close>

type_synonym bare_id = "64 word"
type_synonym peer_id = "64 word"

text \<open>The template argument \<open>Shift\<close> of \<open>UserId\<close>, \<open>ChatId\<close>, \<open>ChannelId\<close>, \<open>FakeChatId\<close>.\<close>

definition user_shift :: "64 word" where "user_shift = 0"
definition chat_shift :: "64 word" where "chat_shift = 1"
definition channel_shift :: "64 word" where "channel_shift = 2"
definition fake_chat_shift :: "64 word" where "fake_chat_shift = 0x7F"
definition k_reserved_bit :: "64 word" where "k_reserved_bit = 0x80"
definition k_chat_type_mask :: "64 word" where "k_chat_type_mask = 0xFFFFFFFFFFFF"

lemmas shift_defs = user_shift_def chat_shift_def channel_shift_def fake_chat_shift_def

definition peer_of :: "64 word \<Rightarrow> bare_id \<Rightarrow> peer_id" where
  "peer_of shift bare = bare OR push_bit 48 shift"

definition peer_is :: "64 word \<Rightarrow> peer_id \<Rightarrow> bool" where
  "peer_is shift value \<longleftrightarrow> drop_bit 48 value AND 0xFF = shift"

definition peer_to :: "64 word \<Rightarrow> peer_id \<Rightarrow> bare_id" where
  "peer_to shift value = (if peer_is shift value then value AND k_chat_type_mask else 0)"

definition peerIsUser :: "peer_id \<Rightarrow> bool" where "peerIsUser = peer_is user_shift"
definition peerIsChat :: "peer_id \<Rightarrow> bool" where "peerIsChat = peer_is chat_shift"
definition peerIsChannel :: "peer_id \<Rightarrow> bool" where "peerIsChannel = peer_is channel_shift"
definition peerFromUser :: "bare_id \<Rightarrow> peer_id" where "peerFromUser = peer_of user_shift"
definition peerFromChat :: "bare_id \<Rightarrow> peer_id" where "peerFromChat = peer_of chat_shift"
definition peerFromChannel :: "bare_id \<Rightarrow> peer_id" where "peerFromChannel = peer_of channel_shift"
definition peerToUser :: "peer_id \<Rightarrow> bare_id" where "peerToUser = peer_to user_shift"
definition peerToChat :: "peer_id \<Rightarrow> bare_id" where "peerToChat = peer_to chat_shift"
definition peerToChannel :: "peer_id \<Rightarrow> bare_id" where "peerToChannel = peer_to channel_shift"

lemmas peer_defs =
  peerIsUser_def peerIsChat_def peerIsChannel_def
  peerFromUser_def peerFromChat_def peerFromChannel_def
  peerToUser_def peerToChat_def peerToChannel_def

definition peerToBareMTPInt :: "peer_id \<Rightarrow> 64 word" where
  "peerToBareMTPInt pid = pid AND k_chat_type_mask"

text \<open>The TL type \<open>Peer\<close> of \<open>mtproto/scheme/api.tl\<close>.\<close>

datatype mtp_peer = PeerUser "64 word" | PeerChat "64 word" | PeerChannel "64 word"

fun peerFromMTP :: "mtp_peer \<Rightarrow> peer_id" where
  "peerFromMTP (PeerUser user_id) = peerFromUser user_id"
| "peerFromMTP (PeerChat chat_id) = peerFromChat chat_id"
| "peerFromMTP (PeerChannel channel_id) = peerFromChannel channel_id"

definition peerToMTP :: "peer_id \<Rightarrow> mtp_peer" where
  "peerToMTP pid =
     (if peerIsUser pid then PeerUser (peerToBareMTPInt pid)
      else if peerIsChat pid then PeerChat (peerToBareMTPInt pid)
      else if peerIsChannel pid then PeerChannel (peerToBareMTPInt pid)
      else PeerUser 0)"

definition DeserializePeerId :: "64 word \<Rightarrow> peer_id" where
  "DeserializePeerId serialized =
     (let flag = push_bit 48 k_reserved_bit;
          legacy = (serialized AND push_bit 48 k_reserved_bit = 0);
          peer_id_mask = 0xFFFFFFFF;
          peer_id_type_mask = 0xF00000000;
          peer_id_user_shift = 0x000000000;
          peer_id_chat_shift = 0x100000000;
          peer_id_channel_shift = 0x200000000;
          peer_id_fake_shift = 0xF00000000
      in if \<not> legacy then serialized AND NOT flag
         else if serialized AND peer_id_type_mask = peer_id_user_shift
         then peerFromUser (serialized AND peer_id_mask)
         else if serialized AND peer_id_type_mask = peer_id_chat_shift
         then peerFromChat (serialized AND peer_id_mask)
         else if serialized AND peer_id_type_mask = peer_id_channel_shift
         then peerFromChannel (serialized AND peer_id_mask)
         else if serialized AND peer_id_type_mask = peer_id_fake_shift
         then peer_of fake_chat_shift (serialized AND peer_id_mask)
         else 0)"

definition SerializePeerId :: "peer_id \<Rightarrow> 64 word option" where
  "SerializePeerId pid =
     (if pid AND push_bit 48 k_reserved_bit = 0
      then Some (pid OR push_bit 48 k_reserved_bit)
      else None)"

subsection \<open>The three fields of a packed id\<close>

lemma mask_eqs:
  "k_chat_type_mask = mask 48" "(0xFF :: 64 word) = mask 8"
  by (simp_all add: k_chat_type_mask_def mask_eq_exp_minus_1)

lemma bare_bits:
  "(bare :: 64 word) AND k_chat_type_mask = bare \<Longrightarrow> bit bare n \<Longrightarrow> n < 48"
  by (metis bit_and_iff bit_mask_iff mask_eqs(1))

lemma peer_is_of:
  assumes "bare AND k_chat_type_mask = bare" and "shift AND 0xFF = shift"
  shows "peer_is shift' (peer_of shift bare) \<longleftrightarrow> shift' = shift"
proof -
  have "drop_bit 48 (peer_of shift bare) = drop_bit 48 (push_bit 48 shift)"
    by (rule bit_word_eqI)
       (use bare_bits [OF assms(1)] in \<open>force simp: peer_of_def bit_simps\<close>)
  also have "\<dots> AND 0xFF = shift"
  proof (rule bit_word_eqI)
    fix n :: nat
    assume n: "n < LENGTH(64)"
    have "bit shift n \<longrightarrow> n < 8"
      using arg_cong [OF assms(2), of "\<lambda>w. bit w n"] by (auto simp: mask_eqs bit_simps)
    then show "bit (drop_bit 48 (push_bit 48 shift) AND 0xFF) n = bit shift n"
      using n by (auto simp: mask_eqs bit_simps)
  qed
  finally show ?thesis by (auto simp: peer_is_def)
qed

lemma peer_bare_of:
  assumes "bare AND k_chat_type_mask = bare"
  shows "peer_of shift bare AND k_chat_type_mask = bare"
proof (rule bit_word_eqI)
  fix n :: nat
  assume n: "n < LENGTH(64)"
  then show "bit (peer_of shift bare AND k_chat_type_mask) n = bit bare n"
    using bare_bits [OF assms, of n] by (force simp: peer_of_def mask_eqs bit_simps)
qed

lemma shift_ok:
  "user_shift AND 0xFF = user_shift" "chat_shift AND 0xFF = chat_shift"
  "channel_shift AND 0xFF = channel_shift"
  by (simp_all add: shift_defs)

lemma peer_to_of:
  assumes "bare AND k_chat_type_mask = bare" and "shift AND 0xFF = shift"
  shows "peer_to shift' (peer_of shift bare) = (if shift' = shift then bare else 0)"
  by (simp add: peer_to_def peer_is_of [OF assms] peer_bare_of [OF assms(1)])

lemma peer_of_zero_iff:
  assumes "bare AND k_chat_type_mask = bare"
  shows "peer_of shift bare = 0 \<Longrightarrow> bare = 0"
  using peer_bare_of [OF assms, of shift] by auto

lemma peer_of_inject:
  assumes "a AND k_chat_type_mask = a" "b AND k_chat_type_mask = b"
    and "s AND 0xFF = s" "t AND 0xFF = t"
  shows "peer_of s a = peer_of t b \<longleftrightarrow> s = t \<and> a = b"
  by (metis assms peer_bare_of peer_is_of)

lemma bare_small:
  "unat (bare :: 64 word) < 2 ^ 48 \<Longrightarrow> bare AND k_chat_type_mask = bare"
  by (metis mask_eqs(1) take_bit_eq_mask take_bit_nat_eq_self unsigned_take_bit_eq word_eq_iff_unsigned)

lemma peer_id_kinds:
  assumes "bare AND k_chat_type_mask = bare"
  shows "peerToUser (peerFromUser bare) = bare" "peerToChat (peerFromChat bare) = bare"
    "peerToChannel (peerFromChannel bare) = bare"
    "peerIsUser (peerFromUser bare)" "peerIsChat (peerFromChat bare)"
    "peerIsChannel (peerFromChannel bare)"
    "\<not> peerIsUser (peerFromChat bare)" "\<not> peerIsUser (peerFromChannel bare)"
    "\<not> peerIsChat (peerFromUser bare)" "\<not> peerIsChat (peerFromChannel bare)"
    "\<not> peerIsChannel (peerFromUser bare)" "\<not> peerIsChannel (peerFromChat bare)"
  using peer_to_of [OF assms shift_ok(1)] peer_to_of [OF assms shift_ok(2)]
    peer_to_of [OF assms shift_ok(3)] peer_is_of [OF assms shift_ok(1)]
    peer_is_of [OF assms shift_ok(2)] peer_is_of [OF assms shift_ok(3)]
  by (simp_all add: peer_defs) (simp_all add: shift_defs)

text \<open>the packed identifier loses nothing: a bare id of at most 48 bits comes
  back from a \<open>PeerId\<close> of each of the three kinds, and only under its own kind.\<close>

theorem peer_id_roundtrip:
  assumes "bare AND k_chat_type_mask = bare"
  shows "peerToUser (peerFromUser bare) = bare \<and> peerToChat (peerFromChat bare) = bare
    \<and> peerToChannel (peerFromChannel bare) = bare
    \<and> \<not> peerIsUser (peerFromChat bare) \<and> \<not> peerIsUser (peerFromChannel bare)
    \<and> \<not> peerIsChat (peerFromUser bare) \<and> \<not> peerIsChat (peerFromChannel bare)
    \<and> \<not> peerIsChannel (peerFromUser bare) \<and> \<not> peerIsChannel (peerFromChat bare)"
  using peer_id_kinds [OF assms] by blast

theorem peer_id_roundtrip_witness:
  "(12345 :: 64 word) AND k_chat_type_mask = 12345
   \<and> peerToChannel (peerFromChannel 12345) = 12345"
proof -
  have "(12345 :: 64 word) AND k_chat_type_mask = 12345"
    by (simp add: k_chat_type_mask_def)
  with peer_id_roundtrip [OF this] show ?thesis by simp
qed


subsection \<open>Serialization\<close>

lemma modern_flag_roundtrip:
  fixes w f :: "64 word"
  assumes "w AND f = 0"
  shows "(w OR f) AND NOT f = w"
proof (rule bit_word_eqI)
  fix n :: nat
  show "bit ((w OR f) AND NOT f) n = bit w n" if "n < LENGTH(64)"
    using that arg_cong [OF assms, of "\<lambda>v. bit v n"] by (auto simp: bit_simps)
qed

lemma serialized_is_modern: "(w OR f) AND f = (f :: 64 word)"
  by (rule bit_word_eqI) (auto simp: bit_simps)

lemma peer_of_and_high:
  assumes "bare AND k_chat_type_mask = bare"
  shows "peer_of s bare AND push_bit 48 r = push_bit 48 (s AND r)"
  by (rule bit_word_eqI)
     (use bare_bits [OF assms] in \<open>force simp: peer_of_def bit_simps\<close>)

lemma DeserializePeerId_Serialize:
  assumes "SerializePeerId v = Some w" shows "DeserializePeerId w = v"
proof -
  let ?f = "push_bit 48 k_reserved_bit"
  have f: "?f \<noteq> 0" by (simp add: k_reserved_bit_def)
  from assms have v: "v AND ?f = 0" and w: "w = v OR ?f"
    by (auto simp: SerializePeerId_def split: if_splits)
  have "w AND ?f \<noteq> 0" using f by (simp only: w serialized_is_modern not_False_eq_True)
  then have "DeserializePeerId w = w AND NOT ?f"
    by (simp only: DeserializePeerId_def Let_def if_True not_False_eq_True)
  then show ?thesis using modern_flag_roundtrip [OF v] w by simp
qed

text \<open>what \<open>SerializePeerId\<close> writes, \<open>DeserializePeerId\<close> reads back, for
  every identifier it accepts; and an identifier built from a 48-bit bare id of any
  of the three kinds is accepted.\<close>

theorem peer_id_serialize_roundtrip:
  "(SerializePeerId v = Some w \<longrightarrow> DeserializePeerId w = v)
   \<and> (bare AND k_chat_type_mask = bare \<longrightarrow>
        SerializePeerId (peerFromUser bare) \<noteq> None
        \<and> SerializePeerId (peerFromChat bare) \<noteq> None
        \<and> SerializePeerId (peerFromChannel bare) \<noteq> None)"
proof -
  let ?f = "push_bit 48 k_reserved_bit"
  have f: "?f \<noteq> 0" "?f = 0x80000000000000"
    by (simp_all add: k_reserved_bit_def)
  have "DeserializePeerId w = v" if "SerializePeerId v = Some w"
    by (rule DeserializePeerId_Serialize [OF that])
  moreover have "SerializePeerId (peer_of s bare) \<noteq> None"
    if b: "bare AND k_chat_type_mask = bare" and s: "s AND 0x80 = 0" for s
  proof -
    have "peer_of s bare AND ?f = push_bit 48 (s AND k_reserved_bit)"
      by (rule peer_of_and_high [OF b])
    with s show ?thesis by (simp add: SerializePeerId_def k_reserved_bit_def)
  qed
  ultimately show ?thesis
    by (simp add: peer_defs shift_defs)
qed

text \<open>The witness packs user 777, serializes it and reads it back.\<close>

theorem peer_id_serialize_roundtrip_witness:
  "SerializePeerId (peerFromUser 777) = Some 0x80000000000309
   \<and> DeserializePeerId 0x80000000000309 = peerFromUser 777"
proof -
  have s: "SerializePeerId (peerFromUser 777) = Some 0x80000000000309"
    by (simp add: SerializePeerId_def peerFromUser_def peer_of_def shift_defs k_reserved_bit_def)
  with peer_id_serialize_roundtrip [of "peerFromUser 777" "0x80000000000309" 777]
  show ?thesis by simp
qed

lemma peerToMTP_FromMTP:
  assumes "bare AND k_chat_type_mask = bare"
    and "p = PeerUser bare \<or> p = PeerChat bare \<or> p = PeerChannel bare"
  shows "peerToMTP (peerFromMTP p) = p"
  using assms(2) peer_is_of [OF assms(1) shift_ok(1)] peer_is_of [OF assms(1) shift_ok(2)]
    peer_is_of [OF assms(1) shift_ok(3)] peer_bare_of [OF assms(1)]
  by (auto simp: peerToMTP_def peerToBareMTPInt_def peer_defs) (simp_all add: shift_defs)

section \<open>Message ids\<close>

type_synonym msg_id = int

definition StartClientMsgId :: msg_id where "StartClientMsgId = 1 - 2 ^ 58"
definition ClientMsgIds :: int where "ClientMsgIds = 2 ^ 31"
definition EndClientMsgId :: msg_id where "EndClientMsgId = StartClientMsgId + ClientMsgIds"
definition StartStoryMsgId :: msg_id where "StartStoryMsgId = EndClientMsgId + 1"
definition ServerMaxStoryId :: int where "ServerMaxStoryId = 2 ^ 30"
definition EndStoryMsgId :: msg_id where "EndStoryMsgId = StartStoryMsgId + ServerMaxStoryId"
definition ServerMaxMsgId :: msg_id where "ServerMaxMsgId = 2 ^ 56"

lemmas msg_id_consts =
  StartClientMsgId_def ClientMsgIds_def EndClientMsgId_def StartStoryMsgId_def
  ServerMaxStoryId_def EndStoryMsgId_def ServerMaxMsgId_def

definition IsClientMsgId :: "msg_id \<Rightarrow> bool" where
  "IsClientMsgId i \<longleftrightarrow> StartClientMsgId \<le> i \<and> i < EndClientMsgId"

text \<open>\<open>int(...)\<close> and \<open>StoryId(...)\<close> truncate to 32 bits, two's complement.\<close>

definition int32_of :: "int \<Rightarrow> int" where
  "int32_of i = sint (word_of_int i :: 32 word)"

definition ClientMsgIndex :: "msg_id \<Rightarrow> int option" where
  "ClientMsgIndex i = (if IsClientMsgId i then Some (int32_of (i - StartClientMsgId)) else None)"

definition ClientMsgByIndex :: "int \<Rightarrow> msg_id option" where
  "ClientMsgByIndex index = (if 0 \<le> index then Some (StartClientMsgId + index) else None)"

definition IsStoryMsgId :: "msg_id \<Rightarrow> bool" where
  "IsStoryMsgId i \<longleftrightarrow> StartStoryMsgId \<le> i \<and> i < EndStoryMsgId"

definition StoryIdFromMsgId :: "msg_id \<Rightarrow> int option" where
  "StoryIdFromMsgId i = (if IsStoryMsgId i then Some (int32_of (i - StartStoryMsgId)) else None)"

definition StoryIdToMsgId :: "int \<Rightarrow> msg_id option" where
  "StoryIdToMsgId i = (if 0 \<le> i then Some (StartStoryMsgId + i) else None)"

definition IsServerMsgId :: "msg_id \<Rightarrow> bool" where
  "IsServerMsgId i \<longleftrightarrow> 0 < i \<and> i < ServerMaxMsgId"

lemma int32_of_small: "0 \<le> i \<Longrightarrow> i < 2 ^ 31 \<Longrightarrow> int32_of i = i"
  by (simp add: int32_of_def signed_of_int signed_take_bit_int_eq_self)
 
text \<open>the three kinds of message id are disjoint, and the index of a client
  message and the id of a story are recovered from the message id they produce.\<close>

theorem msg_id_kinds:
  "\<not> (IsClientMsgId i \<and> IsStoryMsgId i) \<and> \<not> (IsClientMsgId i \<and> IsServerMsgId i)
   \<and> \<not> (IsStoryMsgId i \<and> IsServerMsgId i)
   \<and> (ClientMsgIndex i = Some k \<longrightarrow> ClientMsgByIndex k = Some i)
   \<and> (StoryIdFromMsgId i = Some k \<longrightarrow> StoryIdToMsgId k = Some i)"
  by (auto simp: IsClientMsgId_def IsStoryMsgId_def IsServerMsgId_def ClientMsgIndex_def
      ClientMsgByIndex_def StoryIdFromMsgId_def StoryIdToMsgId_def int32_of_small msg_id_consts
      split: if_splits)

theorem msg_id_kinds_witness:
  "ClientMsgIndex (StartClientMsgId + 5) = Some 5 \<and> ClientMsgByIndex 5 = Some (StartClientMsgId + 5)"
proof -
  have c: "ClientMsgIndex (StartClientMsgId + 5) = Some 5"
    by (simp add: ClientMsgIndex_def IsClientMsgId_def int32_of_small msg_id_consts)
  with msg_id_kinds [of "StartClientMsgId + 5" 5] show ?thesis by blast
qed

subsection \<open>Full message ids\<close>

text \<open>\<open>FullMsgId\<close> compares by peer, then by message (the defaulted \<open><=>\<close>).\<close>

datatype full_msg_id = FullMsgId (fm_peer: peer_id) (fm_msg: msg_id)

instantiation full_msg_id :: linorder
begin

definition less_full_msg_id :: "full_msg_id \<Rightarrow> full_msg_id \<Rightarrow> bool" where
  "less_full_msg_id a b \<longleftrightarrow>
     fm_peer a < fm_peer b \<or> fm_peer a = fm_peer b \<and> fm_msg a < fm_msg b"

definition less_eq_full_msg_id :: "full_msg_id \<Rightarrow> full_msg_id \<Rightarrow> bool" where
  "less_eq_full_msg_id a b \<longleftrightarrow>
     fm_peer a < fm_peer b \<or> fm_peer a = fm_peer b \<and> fm_msg a \<le> fm_msg b"

instance
  by standard (auto simp: less_full_msg_id_def less_eq_full_msg_id_def full_msg_id.expand)

end

end
