(* ===== verification/Chat_Picker.thy ===== *)
theory Chat_Picker
  imports Allowlist_Policy Peer_Ids
begin

text \<open>
  The chat picker that builds the first allow-list (\<open>main/allowlist_picker.h\<close>), the
  way its selection is written down (\<open>ToPeer\<close>, \<open>ToEntry\<close>, \<open>TypedId\<close> and \<open>submit\<close> of
  \<open>window/window_allowlist.cpp\<close>) and the session operations that store and consult
  the list (\<open>configureAllowlist\<close>, \<open>allowlistAllows\<close> and the permission checks of
  \<open>main/main_session.cpp\<close>).  A picker walks the pinned and the plain pages of two
  folders; the walk is bounded by 1000 pages.
\<close>

section \<open>The picker\<close>

record cursor =
  cu_folder :: int
  cu_pinned :: bool
  cu_peer :: entry
  cu_message :: int
  cu_date :: int

record dialog =
  dl_peer :: entry
  dl_message :: int
  dl_date :: int
  dl_title :: bytes
  dl_selectable :: bool

record page =
  pg_dialogs :: "dialog list"
  pg_complete :: bool

datatype picker_state = Loading | Ready | Failed

record picker =
  pk_state :: picker_state
  pk_cursor :: cursor
  pk_generation :: "64 word"
  pk_pages :: int
  pk_candidates :: "(entry \<times> bytes) list"
  pk_selected :: "entry list"
  pk_seen :: "cursor list"

definition initial_cursor :: cursor where
  "initial_cursor = \<lparr>cu_folder = 0, cu_pinned = True, cu_peer = Entry User 0,
     cu_message = 0, cu_date = 0\<rparr>"

definition initial_picker :: picker where
  "initial_picker = \<lparr>pk_state = Failed, pk_cursor = initial_cursor, pk_generation = 0,
     pk_pages = 0, pk_candidates = [], pk_selected = [], pk_seen = []\<rparr>"

definition start :: "picker \<Rightarrow> picker" where
  "start m = m\<lparr>pk_generation := pk_generation m + 1, pk_cursor := initial_cursor,
     pk_candidates := [], pk_selected := [], pk_seen := [], pk_pages := 0,
     pk_state := Loading\<rparr>"

definition cancel :: "picker \<Rightarrow> picker" where
  "cancel m = m\<lparr>pk_generation := pk_generation m + 1, pk_state := Failed, pk_selected := []\<rparr>"

definition fail :: "64 word \<Rightarrow> picker \<Rightarrow> picker" where
  "fail generation m =
     (if generation = pk_generation m \<and> pk_state m = Loading then m\<lparr>pk_state := Failed\<rparr> else m)"

text \<open>The row loop of \<open>accept\<close>; \<open>False\<close> is the early return after \<open>fail\<close>.\<close>

fun accept_rows :: "64 word \<Rightarrow> dialog list \<Rightarrow> picker \<Rightarrow> picker \<times> bool" where
  "accept_rows generation [] m = (m, True)"
| "accept_rows generation (row # rows) m =
     (if \<not> dl_selectable row then
        accept_rows generation rows
          (m\<lparr>pk_candidates := remove_key (dl_peer row) (pk_candidates m),
             pk_selected := filter (\<lambda>e. e \<noteq> dl_peer row) (pk_selected m)\<rparr>)
      else if entry_id (dl_peer row) = 0 \<or> kMaximumBareId < entry_id (dl_peer row)
           \<or> dl_title row = []
           \<or> (entry_kind (dl_peer row) \<noteq> User \<and> entry_kind (dl_peer row) \<noteq> Chat
              \<and> entry_kind (dl_peer row) \<noteq> Channel)
      then (fail generation m, False)
      else
        let m' = m\<lparr>pk_candidates := upsert (dl_peer row) (dl_title row) (pk_candidates m)\<rparr>
        in if 20000 < length (pk_candidates m') then (fail generation m', False)
           else accept_rows generation rows m')"

text \<open>The cursor loop of \<open>accept\<close>, over the page from its end; \<open>None\<close> is falling out
  of the loop.\<close>

fun advance :: "dialog list \<Rightarrow> picker \<Rightarrow> picker option" where
  "advance [] m = None"
| "advance (i # is) m =
     (if entry_id (dl_peer i) = 0 \<or> dl_message i \<le> 0 \<or> dl_date i \<le> 0 then advance is m
      else
        let next = \<lparr>cu_folder = cu_folder (pk_cursor m), cu_pinned = False,
              cu_peer = dl_peer i, cu_message = dl_message i, cu_date = dl_date i\<rparr>
        in if next = pk_cursor m \<or> next \<in> set (pk_seen m) then None
           else Some (m\<lparr>pk_seen := next # pk_seen m, pk_cursor := next\<rparr>))"

definition accept :: "64 word \<Rightarrow> page \<Rightarrow> picker \<Rightarrow> picker \<times> bool" where
  "accept generation page m =
     (if generation \<noteq> pk_generation m \<or> pk_state m \<noteq> Loading then (m, False)
      else
        let m = m\<lparr>pk_pages := pk_pages m + 1\<rparr>
        in if 1000 < pk_pages m then (fail generation m, False)
           else case accept_rows generation (pg_dialogs page) m of
             (m, False) \<Rightarrow> (m, False)
           | (m, True) \<Rightarrow>
               if cu_pinned (pk_cursor m)
               then (m\<lparr>pk_cursor := (pk_cursor m)\<lparr>cu_pinned := False\<rparr>\<rparr>, True)
               else if pg_complete page \<or> pg_dialogs page = []
               then (if cu_folder (pk_cursor m) = 0
                     then (m\<lparr>pk_cursor := initial_cursor\<lparr>cu_folder := 1\<rparr>\<rparr>, True)
                     else (m\<lparr>pk_state := Ready\<rparr>, True))
               else case advance (rev (pg_dialogs page)) m of
                 Some m' \<Rightarrow> (m', True)
               | None \<Rightarrow> (fail generation m, False))"

definition choose_chat :: "entry \<Rightarrow> bool \<Rightarrow> picker \<Rightarrow> picker \<times> bool" where
  "choose_chat peer checked m =
     (if pk_state m = Failed \<or> map_of (pk_candidates m) peer = None then (m, False)
      else if checked then
        (if kMaximumEntries \<le> length (pk_selected m) \<and> peer \<notin> set (pk_selected m)
         then (m, False)
         else (m\<lparr>pk_selected := insort_insert peer (pk_selected m)\<rparr>, True))
      else (m\<lparr>pk_selected := filter (\<lambda>e. e \<noteq> peer) (pk_selected m)\<rparr>, True))"

definition ready :: "picker \<Rightarrow> bool" where "ready m \<longleftrightarrow> pk_state m = Ready"
definition failed :: "picker \<Rightarrow> bool" where "failed m \<longleftrightarrow> pk_state m = Failed"
definition canSave :: "picker \<Rightarrow> bool" where "canSave m \<longleftrightarrow> ready m \<and> pk_selected m \<noteq> []"

section \<open>Its invariant\<close>

datatype picker_op = Start | Cancel | Fail "64 word" | Accept "64 word" page | Choose entry bool

fun picker_step :: "picker_op \<Rightarrow> picker \<Rightarrow> picker" where
  "picker_step Start m = start m"
| "picker_step Cancel m = cancel m"
| "picker_step (Fail g) m = fail g m"
| "picker_step (Accept g p) m = fst (accept g p m)"
| "picker_step (Choose e c) m = fst (choose_chat e c m)"

definition picker_inv :: "picker \<Rightarrow> bool" where
  "picker_inv m \<longleftrightarrow>
     map_ok (pk_candidates m)
     \<and> (\<forall>(e, title) \<in> set (pk_candidates m). valid_entry e \<and> title \<noteq> [])
     \<and> ordered_set (pk_selected m) \<and> set (pk_selected m) \<subseteq> fst ` set (pk_candidates m)
     \<and> length (pk_selected m) \<le> kMaximumEntries
     \<and> (pk_state m \<noteq> Failed \<longrightarrow> pk_pages m \<le> 1000 \<and> length (pk_candidates m) \<le> 20000)
     \<and> distinct (pk_seen m)"


lemma picker_invD:
  assumes "picker_inv m"
  shows "map_ok (pk_candidates m)" "ordered_set (pk_selected m)"
    "set (pk_selected m) \<subseteq> fst ` set (pk_candidates m)"
    "length (pk_selected m) \<le> kMaximumEntries"
  using assms by (auto simp: picker_inv_def)

lemma selected_valid:
  assumes "picker_inv m" "e \<in> set (pk_selected m)"
  shows "valid_entry e"
proof -
  from assms picker_invD(3) obtain t where "(e, t) \<in> set (pk_candidates m)" by fastforce
  with assms(1) show ?thesis by (auto simp: picker_inv_def)
qed

lemma fail_inv: "picker_inv m \<Longrightarrow> picker_inv (fail g m)"
  by (simp add: picker_inv_def fail_def)

text \<open>What the row loop keeps: everything but the bound on the candidates, which it
  restores by failing.\<close>

lemma accept_rows_fields:
  assumes "accept_rows g rows m = (m', ok)"
  shows "pk_generation m' = pk_generation m \<and> pk_pages m' = pk_pages m
    \<and> pk_cursor m' = pk_cursor m \<and> pk_seen m' = pk_seen m
    \<and> (ok \<longrightarrow> pk_state m' = pk_state m) \<and> (pk_state m' = pk_state m \<or> pk_state m' = Failed)"
  using assms
  by (induction g rows m rule: accept_rows.induct)
     (auto simp: Let_def fail_def split: if_splits)

lemma picker_inv_erase:
  assumes "picker_inv m"
  shows "picker_inv (m\<lparr>pk_candidates := remove_key p (pk_candidates m),
    pk_selected := filter (\<lambda>e. e \<noteq> p) (pk_selected m)\<rparr>)"
proof -
  have "set (filter (\<lambda>e. e \<noteq> p) (pk_selected m)) \<subseteq> fst ` set (remove_key p (pk_candidates m))"
    using picker_invD(3) [OF assms] by (force simp: remove_key_def)
  then show ?thesis
    using assms
    by (auto simp: picker_inv_def sorted_wrt_filter remove_key_def [of p "pk_candidates m"]
        intro: map_ok_remove_key [unfolded remove_key_def])
qed

lemma picker_inv_upsert:
  assumes "picker_inv m" "valid_entry p" "t \<noteq> []"
    and "length (upsert p t (pk_candidates m)) \<le> 20000 \<or> pk_state m = Failed"
  shows "picker_inv (m\<lparr>pk_candidates := upsert p t (pk_candidates m)\<rparr>)"
proof -
  have "set (pk_selected m) \<subseteq> fst ` set (upsert p t (pk_candidates m))"
    using picker_invD(3) [OF assms(1)] by (auto simp: fst_set_upsert)
  moreover have "\<forall>(e, title) \<in> set (upsert p t (pk_candidates m)). valid_entry e \<and> title \<noteq> []"
    using assms set_upsert_subset [of p t "pk_candidates m"] by (auto simp: picker_inv_def)
  ultimately show ?thesis using assms by (auto simp: picker_inv_def)
qed

lemma accept_rows_inv:
  assumes "accept_rows g rows m = (m', ok)" "picker_inv m"
    and "pk_state m = Loading" "g = pk_generation m"
  shows "picker_inv m'"
  using assms
proof (induction g rows m arbitrary: m' ok rule: accept_rows.induct)
  case (1 generation m)
  then show ?case by simp
next
  case (2 generation row rows m)
  let ?p = "dl_peer row" and ?t = "dl_title row"
  let ?up = "m\<lparr>pk_candidates := upsert ?p ?t (pk_candidates m)\<rparr>"
  consider (skip) "\<not> dl_selectable row"
    | (bad) "dl_selectable row" "m' = fail generation m"
    | (full) "dl_selectable row" "valid_entry ?p" "?t \<noteq> []" "m' = fail generation ?up"
    | (add) "dl_selectable row" "valid_entry ?p" "?t \<noteq> []"
        "length (upsert ?p ?t (pk_candidates m)) \<le> 20000"
        "accept_rows generation rows ?up = (m', ok)"
    using "2.prems"(1) by (auto simp: Let_def valid_entry_def not_le not_less split: if_splits)
  then show ?case
  proof cases
    case skip
    then have "accept_rows generation rows (m\<lparr>pk_candidates := remove_key ?p (pk_candidates m),
        pk_selected := filter (\<lambda>e. e \<noteq> ?p) (pk_selected m)\<rparr>) = (m', ok)"
      using "2.prems"(1) by simp
    from "2.IH"(1) [OF skip this picker_inv_erase [OF "2.prems"(2)]] "2.prems" show ?thesis
      by simp
  next
    case bad
    with fail_inv "2.prems" show ?thesis by simp
  next
    case full
    have "picker_inv (m\<lparr>pk_state := Failed\<rparr>)"
      using "2.prems"(2) by (simp add: picker_inv_def)
    from picker_inv_upsert [OF this full(2,3)] full(4) "2.prems"(3,4) show ?thesis
      by (simp add: fail_def picker_inv_def)
  next
    case add
    have *: "picker_inv ?up" by (rule picker_inv_upsert) (use add "2.prems" in auto)
    show ?thesis
      by (rule "2.IH"(2) [OF _ _ refl _ add(5) *])
         (use add "2.prems" in \<open>auto simp: valid_entry_def intro: kind.exhaust\<close>)
  qed
qed

lemma advance_fields:
  assumes "advance is m = Some m'"
  shows "\<exists>c. c \<notin> set (pk_seen m) \<and> m' = m\<lparr>pk_seen := c # pk_seen m, pk_cursor := c\<rparr>"
  using assms by (induction "is" m rule: advance.induct) (auto simp: Let_def split: if_splits)

lemma accept_inv:
  assumes "picker_inv m"
  shows "picker_inv (fst (accept g p m))"
proof (cases "g = pk_generation m \<and> pk_state m = Loading \<and> pk_pages m < 1000")
  case False
  have "picker_inv (fail g (m\<lparr>pk_pages := pk_pages m + 1\<rparr>))"
    if "g = pk_generation m" "pk_state m = Loading"
    using assms that by (simp add: picker_inv_def fail_def)
  with False assms show ?thesis
    by (auto simp: accept_def Let_def)
next
  case True
  let ?m = "m\<lparr>pk_pages := pk_pages m + 1\<rparr>"
  obtain m1 ok where r: "accept_rows g (pg_dialogs p) ?m = (m1, ok)"
    by (cases "accept_rows g (pg_dialogs p) ?m")
  have "picker_inv ?m" using assms True by (simp add: picker_inv_def)
  with r True have inv: "picker_inv m1" by (intro accept_rows_inv [OF r]) auto
  have cursor: "picker_inv (m1\<lparr>pk_cursor := c\<rparr>)" for c
    using inv by (simp add: picker_inv_def)
  have "pk_pages m1 \<le> 1000 \<and> length (pk_candidates m1) \<le> 20000" if ok
    using accept_rows_fields [OF r] inv that True by (auto simp: picker_inv_def)
  then have ready: "picker_inv (m1\<lparr>pk_state := Ready\<rparr>)" if ok
    using inv that by (simp add: picker_inv_def)
  have adv: "picker_inv m2" if "advance is m1 = Some m2" for "is" m2
    using advance_fields [OF that] inv by (auto simp: picker_inv_def)
  show ?thesis
    using True r inv
    by (auto simp: accept_def Let_def cursor ready adv fail_inv split: bool.split option.split)
qed

lemma choose_inv:
  assumes "picker_inv m"
  shows "picker_inv (fst (choose_chat e c m))"
proof -
  have "e \<in> fst ` set (pk_candidates m)" if "map_of (pk_candidates m) e \<noteq> None"
    using that by (simp add: map_of_None_notin)
  moreover have "length (insort_insert e (pk_selected m)) \<le> kMaximumEntries"
    if "\<not> (kMaximumEntries \<le> length (pk_selected m) \<and> e \<notin> set (pk_selected m))"
    using that assms by (auto simp: picker_inv_def length_insort_insert)
  ultimately show ?thesis
    using assms by (auto simp: choose_chat_def picker_inv_def sorted_wrt_filter)
qed

text \<open>in every state the picker can reach, the selection is a sorted set of valid
  identifiers that were offered as candidates and are still offered, of at most 10000
  entries; a walk that has not failed has read at most 1000 pages and holds at most
  20000 candidates, and no cursor position is visited twice.\<close>

theorem picker_reachable_inv: "picker_inv (fold picker_step ops initial_picker)"
proof -
  have step: "picker_inv (picker_step p m)" if "picker_inv m" for p m
    using that
    by (cases p)
       (simp_all add: fail_inv accept_inv choose_inv,
        simp_all add: picker_inv_def start_def cancel_def)
  have "picker_inv (fold picker_step ops m)" if "picker_inv m" for m
    using that by (induction ops arbitrary: m) (auto intro: step)
  moreover have "picker_inv initial_picker"
    by (simp add: picker_inv_def initial_picker_def)
  ultimately show ?thesis .
qed

end
