(* ===== verification/Session_Allowlist.thy ===== *)
theory Session_Allowlist
  imports Chat_Picker
begin

text \<open>
  From the picker's selection to the session's allow-list: \<open>ToPeer\<close>, \<open>ToEntry\<close>,
  \<open>TypedId\<close> and \<open>submit\<close> of \<open>window/window_allowlist.cpp\<close>, and the allow-list
  operations of \<open>main/main_session.cpp\<close>.  What the session looks up in its peer data
  (\<open>Selectable\<close>, the loaded user, the group call of a peer) and whether the settings
  file was written and read back are arguments.
\<close>

section \<open>Naming peers\<close>

fun ToPeer :: "entry \<Rightarrow> peer_id" where
  "ToPeer (Entry User n) = peerFromUser (of_nat n)"
| "ToPeer (Entry Chat n) = peerFromChat (of_nat n)"
| "ToPeer (Entry Channel n) = peerFromChannel (of_nat n)"

definition ToEntry :: "peer_id \<Rightarrow> entry" where
  "ToEntry peer =
     (if peerIsUser peer then Entry User (unat (peerToUser peer))
      else if peerIsChat peer then Entry Chat (unat (peerToChat peer))
      else Entry Channel (unat (peerToChannel peer)))"

definition TypedId :: "entry \<Rightarrow> string" where
  "TypedId e =
     (case entry_kind e of User \<Rightarrow> ''user:'' | Chat \<Rightarrow> ''chat:'' | Channel \<Rightarrow> ''channel:'')
     @ number_text (entry_id e)"

section \<open>The session's list\<close>

record session =
  se_user :: bare_id
  se_configured :: bool
  se_peers :: "peer_id list"
  se_changes :: nat \<comment> \<open>how often \<open>_allowlistChanges\<close> fired\<close>

datatype config_error = AlreadyConfigured | BadList allow_error bytes | SaveFailed

definition userPeerId :: "session \<Rightarrow> peer_id" where
  "userPeerId s = peerFromUser (se_user s)"

definition allowlistAllows :: "session \<Rightarrow> peer_id \<Rightarrow> bool" where
  "allowlistAllows s peer \<longleftrightarrow>
     se_configured s \<and> peer \<noteq> 0 \<and> peer \<noteq> userPeerId s \<and> peer \<in> set (se_peers s)"

definition entry_peers :: "entry list \<Rightarrow> peer_id list" where
  "entry_peers es = fold (\<lambda>e ps. insort_insert (ToPeer e) ps) es []"

definition configureAllowlist ::
  "(peer_id list \<Rightarrow> bool) \<Rightarrow> string \<Rightarrow> string \<Rightarrow> session \<Rightarrow> session \<times> config_error option" where
  "configureAllowlist written users groups s =
     (if se_configured s then (s, Some AlreadyConfigured)
      else let parsed = Parse users groups
        in if pr_error parsed \<noteq> NoError
           then (s, Some (BadList (pr_error parsed) (pr_token parsed)))
           else let peers = entry_peers (pr_entries parsed)
             in if \<not> written peers then (s, Some SaveFailed)
                else (s\<lparr>se_peers := peers, se_configured := True,
                        se_changes := se_changes s + 1\<rparr>, None))"

text \<open>\<open>AllowlistLockWidget::submit\<close>: \<open>None\<close> when a guard or a missing chat stops it.\<close>

definition submit ::
  "(peer_id list \<Rightarrow> bool) \<Rightarrow> (entry \<Rightarrow> bool) \<Rightarrow> picker \<Rightarrow> session
     \<Rightarrow> session \<times> config_error option option" where
  "submit written selectable m s =
     (if se_configured s \<or> \<not> canSave m then (s, None)
      else if \<exists>e \<in> set (pk_selected m). \<not> selectable e then (s, None)
      else let users = map TypedId (filter (\<lambda>e. entry_kind e = User) (pk_selected m));
               groups = map TypedId (filter (\<lambda>e. entry_kind e \<noteq> User) (pk_selected m));
               (s', r) = configureAllowlist written (join_lines users) (join_lines groups) s
        in (s', Some r))"

section \<open>Permissions of a session\<close>

record loaded_user =
  lu_loaded :: bool
  lu_inaccessible :: bool
  lu_service :: bool
  lu_bot :: bool

record group_call_info =
  gc_id :: "64 word"
  gc_schedule_date :: int
  gc_origin_group :: bool

definition canCallPeer :: "(bare_id \<Rightarrow> loaded_user option) \<Rightarrow> session \<Rightarrow> peer_id \<Rightarrow> bool" where
  "canCallPeer userLoaded s peer =
     (if \<not> peerIsUser peer then False
      else let user = userLoaded (peerToUser peer)
        in CanCallUser User (allowlistAllows s peer)
             (case user of None \<Rightarrow> False
              | Some u \<Rightarrow> lu_loaded u \<and> \<not> lu_inaccessible u \<and> \<not> lu_service u)
             (peer = userPeerId s)
             (case user of None \<Rightarrow> False | Some u \<Rightarrow> lu_bot u))"

definition kind_of_peer :: "peer_id \<Rightarrow> kind" where
  "kind_of_peer p = (if peerIsUser p then User else if peerIsChat p then Chat else Channel)"

definition canJoinGroupCall ::
  "(peer_id \<Rightarrow> group_call_info option) \<Rightarrow> session \<Rightarrow> peer_id \<Rightarrow> bool" where
  "canJoinGroupCall groupCall s pid =
     CanJoinGroupCall (kind_of_peer pid) (allowlistAllows s pid)
       (case groupCall pid of None \<Rightarrow> False
        | Some c \<Rightarrow> gc_id c \<noteq> 0 \<and> gc_schedule_date c = 0)
       (case groupCall pid of None \<Rightarrow> False | Some c \<Rightarrow> \<not> gc_origin_group c)"

definition canPresentPeerProfile :: "session \<Rightarrow> peer_id \<Rightarrow> bool" where
  "canPresentPeerProfile s peer = CanPresentPeerProfile (kind_of_peer peer) (allowlistAllows s peer)"

section \<open>Writing an entry down and reading it back\<close>

lemma number_text_digit: "c \<in> set (number_text n) \<Longrightarrow> is_digit c"
  using number_text_chars by (simp add: is_digit_def)

lemma takeWhile_number_text [simp]: "takeWhile is_digit (number_text n) = number_text n"
  using number_text_digit by (simp add: takeWhile_eq_all_conv)

lemma dropWhile_number_text [simp]: "dropWhile is_digit (number_text n) = []"
  using number_text_digit by (simp add: dropWhile_eq_Nil_conv)

lemma digits_value_append: "digits_value (ds @ [c]) = 10 * digits_value ds + digit_value c"
  by (simp add: digits_value_def)

lemma digits_value_number_text [simp]: "digits_value (number_text n) = n"
proof (induction n rule: number_text.induct)
  case (1 n)
  show ?case
  proof (cases "n < 10")
    case True
    then have "number_text n = [char_of (48 + n)]" by (simp add: number_text.simps)
    with True show ?thesis by (simp add: digits_value_def digit_value_def)
  next
    case False
    then have "number_text n = number_text (n div 10) @ [char_of (48 + n mod 10)]"
      by (subst number_text.simps) simp
    with False "1.IH" show ?thesis
      by (simp add: digits_value_append digit_value_def of_char_of mod_less)
  qed
qed

lemma from_chars_number_text: "n < 2 ^ 64 \<Longrightarrow> from_chars (number_text n) = Some (n, [])"
  by (simp add: from_chars_def Let_def)

lemma no_colon_number_text: "CHR '':'' \<notin> set (number_text n)"
  using number_text_chars by force

lemma entry_prefix_TypedId:
  "entry_prefix (TypedId e) = Some (entry_kind e, number_text (entry_id e), False)"
  by (cases "entry_kind e") (simp_all add: TypedId_def entry_prefix_def)

lemma ParseEntry_TypedId:
  assumes "valid_entry e" "u \<longleftrightarrow> entry_kind e = User"
  shows "ParseEntry (TypedId e) u = Inr e"
proof -
  have "entry_id e < 2 ^ 64" "entry_id e \<noteq> 0"
    using assms(1) by (auto simp: valid_entry_def kMaximumBareId_def)
  moreover have "is_digit (hd (number_text (entry_id e)))"
    by (rule number_text_digit [of _ "entry_id e"]) simp
  ultimately show ?thesis
    using assms by (cases e) (simp add: ParseEntry_def entry_prefix_TypedId from_chars_number_text
        valid_entry_def)
qed

lemma TypedId_word: "TypedId e \<noteq> [] \<and> (\<forall>c \<in> set (TypedId e). \<not> IsSeparator c)"
proof -
  have "\<not> IsSeparator c" if "c \<in> set (number_text (entry_id e))" for c
    using number_text_chars [OF that] by (auto simp: IsSeparator_def)
  then show ?thesis
    by (cases "entry_kind e") (auto simp: TypedId_def IsSeparator_def)
qed

lemma length_TypedId: "valid_entry e \<Longrightarrow> length (TypedId e) \<le> 23"
proof -
  assume "valid_entry e"
  then have "entry_id e < 10 ^ 15" by (simp add: valid_entry_def kMaximumBareId_def)
  from length_number_text [OF this] show ?thesis
    by (cases "entry_kind e") (auto simp: TypedId_def)
qed

lemma tokens_join_lines:
  "\<forall>t \<in> set ts. t \<noteq> [] \<and> (\<forall>c \<in> set t. \<not> IsSeparator c) \<Longrightarrow> tokens (join_lines ts) = ts"
  by (induction ts rule: join_lines.induct)
     (auto simp: tokens_single_word tokens_append_word IsSeparator_def)

lemma parse_tokens_fits:
  assumes "\<forall>t \<in> set ts. ParseEntry t u = Inr (f t)" "ordered_set es"
    and "card (set es \<union> f ` set ts) \<le> kMaximumEntries"
  shows "\<exists>es'. parse_tokens ts u es = Inr es'"
  using assms
proof (induction ts arbitrary: es)
  case Nil
  then show ?case by simp
next
  case (Cons t ts)
  let ?es = "insort_insert (f t) es"
  have o: "ordered_set ?es" using Cons.prems(2) by blast
  have "card (set ?es) \<le> card (set es \<union> f ` set (t # ts))"
    by (rule card_mono) auto
  then have "length ?es \<le> kMaximumEntries"
    using Cons.prems(3) ordered_set_length [OF o] by simp
  moreover have "\<exists>es'. parse_tokens ts u ?es = Inr es'"
    by (rule Cons.IH) (use Cons.prems o in \<open>auto simp: Un_insert_right\<close>)
  ultimately show ?case using Cons.prems(1) by simp
qed

lemma parse_typed_entries:
  assumes "\<forall>e \<in> set xs. valid_entry e \<and> (u \<longleftrightarrow> entry_kind e = User)" "ordered_set es"
    and "card (set es \<union> set xs) \<le> kMaximumEntries"
  shows "\<exists>es'. ParseField (join_lines (map TypedId xs)) u es = Inr es'
    \<and> ordered_set es' \<and> set es' = set es \<union> set xs"
proof -
  have tok: "tokens (join_lines (map TypedId xs)) = map TypedId xs"
    using TypedId_word by (intro tokens_join_lines) auto
  have parse: "ParseEntry (TypedId e) u = Inr e" if "e \<in> set xs" for e
    using assms(1) that by (auto intro: ParseEntry_TypedId)
  define f where "f t = (case ParseEntry t u of Inr e \<Rightarrow> e | Inl _ \<Rightarrow> Entry User 0)" for t
  have "f ` set (map TypedId xs) = set xs"
    using parse by (force simp: f_def)
  moreover have "\<forall>t \<in> set (map TypedId xs). ParseEntry t u = Inr (f t)"
    using parse by (auto simp: f_def)
  ultimately obtain es' where es': "parse_tokens (map TypedId xs) u es = Inr es'"
    using parse_tokens_fits [of "map TypedId xs" u f es] assms by metis
  have "{e. \<exists>t \<in> set (map TypedId xs). ParseEntry t u = Inr e} = set xs"
    using parse by force
  with parse_tokens_entries [OF es' assms(2)] es' show ?thesis
    by (auto simp: ParseField_tokens tok)
qed

text \<open>What the picker writes for a selection parses back to exactly that selection;
  ten thousand entries always fit the input limit.\<close>

lemma parse_selection:
  assumes o: "ordered_set es" and ne: "es \<noteq> []" and len: "length es \<le> kMaximumEntries"
    and valid: "\<forall>e \<in> set es. valid_entry e"
  shows "Parse (join_lines (map TypedId (filter (\<lambda>e. entry_kind e = User) es)))
      (join_lines (map TypedId (filter (\<lambda>e. entry_kind e \<noteq> User) es)))
    = \<lparr>pr_entries = es, pr_error = NoError, pr_token = []\<rparr>"
proof -
  let ?us = "filter (\<lambda>e. entry_kind e = User) es" and ?gs = "filter (\<lambda>e. entry_kind e \<noteq> User) es"
  let ?u = "join_lines (map TypedId ?us)" and ?g = "join_lines (map TypedId ?gs)"
  have card: "card (set es) \<le> kMaximumEntries"
    using len ordered_set_length [OF o] by simp
  have sub: "card (set ?us) \<le> card (set es)" by (rule card_mono) auto
  obtain e1 where e1: "ParseField ?u True [] = Inr e1" "ordered_set e1" "set e1 = set ?us"
    using parse_typed_entries [of ?us True "[]"] valid card sub by auto
  have un: "set e1 \<union> set ?gs = set es" using e1(3) by auto
  obtain e2 where e2: "ParseField ?g False e1 = Inr e2" "ordered_set e2" "set e2 = set es"
    using parse_typed_entries [of ?gs False e1] valid card un e1(2) by auto
  have "e2 = es" by (rule ordered_set_unique [OF e2(2) o e2(3)])
  moreover have "length ?u \<le> 24 * length ?us" "length ?g \<le> 24 * length ?gs"
    using length_join_lines [of "map TypedId ?us" 23] length_join_lines [of "map TypedId ?gs" 23]
      valid length_TypedId by auto
  moreover have "length ?us + length ?gs = length es"
    by (rule sum_length_filter_compl)
  ultimately show ?thesis
    using e1(1) e2(1) ne len
    by (simp add: Parse_def policy_consts)
qed


section \<open>From the picker to the permissions\<close>

lemma set_entry_peers: "set (entry_peers es) = ToPeer ` set es"
proof -
  have "set (fold (\<lambda>e ps. insort_insert (ToPeer e) ps) es ps) = ToPeer ` set es \<union> set ps" for ps
    by (induction es arbitrary: ps) auto
  then show ?thesis by (simp add: entry_peers_def)
qed

lemma ordered_entry_peers: "ordered_set (entry_peers es)"
proof -
  have "ordered_set (fold (\<lambda>e ps. insort_insert (ToPeer e) ps) es ps)" if "ordered_set ps" for ps
    using that by (induction es arbitrary: ps) auto
  then show ?thesis by (simp add: entry_peers_def)
qed

lemma valid_entry_bare:
  assumes "valid_entry (Entry k n)"
  shows "(of_nat n :: 64 word) AND k_chat_type_mask = of_nat n"
    and "unat (of_nat n :: 64 word) = n" and "(of_nat n :: 64 word) \<noteq> 0"
proof -
  have n: "0 < n" "n < 2 ^ 48"
    using assms by (auto simp: valid_entry_def kMaximumBareId_def)
  then show u: "unat (of_nat n :: 64 word) = n"
    by (simp add: unat_of_nat take_bit_nat_eq_self)
  then show "(of_nat n :: 64 word) AND k_chat_type_mask = of_nat n"
    using n(2) by (intro bare_small) simp
  show "(of_nat n :: 64 word) \<noteq> 0"
    using u n(1) by auto
qed

lemma entry_peer_nonzero:
  assumes "valid_entry e"
  shows "ToPeer e \<noteq> 0"
proof (cases e)
  case (Entry k n)
  note b = valid_entry_bare [OF assms [unfolded Entry]]
  show ?thesis
    using peer_of_zero_iff [OF b(1)] b(3) Entry by (cases k) (auto simp: peer_defs)
qed

text \<open>a peer id and the typed entry it stands for convert into each other without
  loss, for every entry the parser accepts, and such a peer id is never the null id.\<close>

theorem entry_peer_roundtrip:
  assumes "valid_entry e"
  shows "ToEntry (ToPeer e) = e \<and> ToPeer e \<noteq> 0"
proof (cases e)
  case (Entry k n)
  note b = valid_entry_bare [OF assms [unfolded Entry]]
  have "ToEntry (ToPeer e) = e"
    using peer_id_kinds [OF b(1)] b(2) Entry by (cases k) (auto simp: ToEntry_def)
  with entry_peer_nonzero [OF assms] show ?thesis by simp
qed

theorem entry_peer_roundtrip_witness:
  "valid_entry (Entry Channel 1234) \<and> ToEntry (ToPeer (Entry Channel 1234)) = Entry Channel 1234"
proof -
  have v: "valid_entry (Entry Channel 1234)" by (simp add: valid_entry_def kMaximumBareId_def)
  with entry_peer_roundtrip [OF v] show ?thesis by simp
qed

text \<open>saving the picker does what the user sees: when the picker can save, every
  selected chat is still selectable and the settings file is written, the session gets
  configured and from then on allows exactly the selected chats, the own account
  excepted.  The typed text written between the picker and the parser never overflows
  the parser's limits and never changes the set.\<close>

theorem submit_configures:
  assumes "picker_inv m" and "canSave m" and "\<forall>e \<in> set (pk_selected m). selectable e"
    and "\<not> se_configured s" and "written (entry_peers (pk_selected m))"
  shows "\<exists>s'. submit written selectable m s = (s', Some None) \<and> se_configured s'
    \<and> (\<forall>p. allowlistAllows s' p \<longleftrightarrow> p \<in> ToPeer ` set (pk_selected m) \<and> p \<noteq> userPeerId s)"
proof -
  let ?es = "pk_selected m"
  have ne: "?es \<noteq> []" using assms(2) by (simp add: canSave_def)
  have valid: "\<forall>e \<in> set ?es. valid_entry e" using selected_valid [OF assms(1)] by blast
  note parsed = parse_selection [OF picker_invD(2) [OF assms(1)] ne picker_invD(4) [OF assms(1)] valid]
  have "allowlistAllows (s\<lparr>se_peers := entry_peers ?es, se_configured := True,
      se_changes := se_changes s + 1\<rparr>) p
    \<longleftrightarrow> p \<in> ToPeer ` set ?es \<and> p \<noteq> userPeerId s" for p
    using entry_peer_nonzero valid
    by (auto simp: allowlistAllows_def userPeerId_def set_entry_peers)
  then show ?thesis
    using assms parsed by (auto simp: submit_def configureAllowlist_def Let_def)
qed


definition sample_picker :: picker where
  "sample_picker = initial_picker\<lparr>pk_state := Ready,
     pk_candidates := [(Entry User 7, ''Ann''), (Entry Chat 9, ''Team'')],
     pk_selected := [Entry User 7, Entry Chat 9]\<rparr>"

definition sample_session :: session where
  "sample_session = \<lparr>se_user = 5, se_configured = False, se_peers = [], se_changes = 0\<rparr>"

theorem submit_configures_witness:
  "picker_inv sample_picker \<and> canSave sample_picker
   \<and> (\<exists>s'. submit (\<lambda>_. True) (\<lambda>_. True) sample_picker sample_session = (s', Some None)
        \<and> se_configured s' \<and> allowlistAllows s' (peerFromUser 7)
        \<and> \<not> allowlistAllows s' (peerFromUser 8))"
proof -
  have m: "picker_inv sample_picker" "canSave sample_picker"
    by (simp_all add: sample_picker_def initial_picker_def picker_inv_def canSave_def ready_def
        valid_entry_def policy_consts less_entry_def less_kind_def)
  have p: "ToPeer ` set (pk_selected sample_picker) = {7, 0x1000000000009}"
    "userPeerId sample_session = 5" "\<not> se_configured sample_session" "peerFromUser 7 = 7" "peerFromUser 8 = 8"
    by (simp_all add: sample_picker_def sample_session_def userPeerId_def peer_defs shift_defs
        peer_of_def)
  show ?thesis
    using m submit_configures [OF m, of "\<lambda>_. True" sample_session "\<lambda>_. True"]
    by (auto simp: p)
qed

end
