(* ===== verification/Pts_Waiter.thy ===== *)
theory Pts_Waiter
  imports Allow_Prelude
begin

text \<open>
  The update sequencer \<open>PtsWaiter\<close> (\<open>data/data_pts_waiter.h\<close>, \<open>.cpp\<close>).  Every update
  of a common or channel message box carries \<open>pts\<close>, the box counter after it, and
  \<open>count\<close>, how far it moves the counter.  The waiter applies an update at once when no
  gap precedes it, and otherwise queues it and starts a timer.

  The payloads \<open>MTPUpdate\<close> and \<open>MTPUpdates\<close> and the channel are type variables.  What
  the waiter asks of its owner is recorded, in order, in \<open>pw_out\<close>; the payload of an
  apply call is \<open>None\<close> where \<open>operator[]\<close> would make up a default object.  \<open>pts\<close> and
  \<open>count\<close> are \<open>int32\<close> values, kept as integers: the signed additions of the code are
  undefined where they overflow.  The queue keys are \<open>uint64\<close> words.
\<close>

section \<open>State\<close>

datatype pts_skipped_queue = SkippedUpdate | SkippedUpdates

datatype ('u, 'v, 'c) pts_call =
    StartTimer 'c int
  | ApplyUpdate "'u option"
  | ApplyUpdates "'v option"

record ('u, 'v, 'c) pts_waiter =
  pw_queue :: "(64 word \<times> pts_skipped_queue) list"
  pw_updateQueue :: "(64 word \<times> 'u) list"
  pw_updatesQueue :: "(64 word \<times> 'v) list"
  pw_good :: int
  pw_last :: int
  pw_count :: int
  pw_applySkippedLevel :: int
  pw_requesting :: bool
  pw_waitingForSkipped :: bool
  pw_waitingForShortPoll :: bool
  pw_skippedKey :: "32 word"
  pw_out :: "('u, 'v, 'c) pts_call list"

definition kWaitForSkippedTimeout :: int where "kWaitForSkippedTimeout = 1000"

definition new_waiter :: "('u, 'v, 'c) pts_waiter" where
  "new_waiter = \<lparr>pw_queue = [], pw_updateQueue = [], pw_updatesQueue = [], pw_good = 0,
     pw_last = 0, pw_count = 0, pw_applySkippedLevel = 0, pw_requesting = False,
     pw_waitingForSkipped = False, pw_waitingForShortPoll = False, pw_skippedKey = 0,
     pw_out = []\<rparr>"

section \<open>Operations\<close>

definition owner_call ::
  "('u, 'v, 'c) pts_call \<Rightarrow> ('u, 'v, 'c) pts_waiter \<Rightarrow> ('u, 'v, 'c) pts_waiter" where
  "owner_call a w = w\<lparr>pw_out := pw_out w @ [a]\<rparr>"

definition clearSkippedUpdates :: "('u, 'v, 'c) pts_waiter \<Rightarrow> ('u, 'v, 'c) pts_waiter" where
  "clearSkippedUpdates w = w\<lparr>pw_queue := [], pw_updateQueue := [], pw_updatesQueue := [],
     pw_applySkippedLevel := 0\<rparr>"

definition pts_init :: "int \<Rightarrow> ('u, 'v, 'c) pts_waiter \<Rightarrow> ('u, 'v, 'c) pts_waiter" where
  "pts_init pts w =
     clearSkippedUpdates (w\<lparr>pw_good := pts, pw_last := pts, pw_count := pts\<rparr>)"

definition inited :: "('u, 'v, 'c) pts_waiter \<Rightarrow> bool" where
  "inited w \<longleftrightarrow> 0 < pw_good w"

definition setRequesting :: "bool \<Rightarrow> ('u, 'v, 'c) pts_waiter \<Rightarrow> ('u, 'v, 'c) pts_waiter" where
  "setRequesting isRequesting w =
     (let w = w\<lparr>pw_requesting := isRequesting\<rparr>
      in if isRequesting then clearSkippedUpdates w else w)"

definition pts_key :: "int \<Rightarrow> 32 word \<Rightarrow> 64 word" where
  "pts_key pts skipped = push_bit 32 (ucast (word_of_int pts :: 32 word)) OR ucast skipped"

text \<open>\<open>ptsKey\<close>: the new state and the key of the (possibly older) entry.\<close>

definition ptsKey ::
  "pts_skipped_queue \<Rightarrow> int \<Rightarrow> ('u, 'v, 'c) pts_waiter
     \<Rightarrow> ('u, 'v, 'c) pts_waiter \<times> 64 word" where
  "ptsKey queue pts w =
     (let skipped = pw_skippedKey w + 1; key = pts_key pts skipped
      in (w\<lparr>pw_skippedKey := skipped, pw_queue := emplace key queue (pw_queue w)\<rparr>, key))"

definition checkForWaiting ::
  "'c \<Rightarrow> ('u, 'v, 'c) pts_waiter \<Rightarrow> ('u, 'v, 'c) pts_waiter" where
  "checkForWaiting channel w =
     (if \<not> pw_waitingForSkipped w \<and> \<not> pw_waitingForShortPoll w
      then owner_call (StartTimer channel (- 1)) w else w)"

definition setWaitingForSkipped ::
  "'c \<Rightarrow> int \<Rightarrow> ('u, 'v, 'c) pts_waiter \<Rightarrow> ('u, 'v, 'c) pts_waiter" where
  "setWaitingForSkipped channel ms w =
     (if 0 \<le> ms then (owner_call (StartTimer channel ms) w)\<lparr>pw_waitingForSkipped := True\<rparr>
      else checkForWaiting channel (w\<lparr>pw_waitingForSkipped := False\<rparr>))"

definition setWaitingForShortPoll ::
  "'c \<Rightarrow> int \<Rightarrow> ('u, 'v, 'c) pts_waiter \<Rightarrow> ('u, 'v, 'c) pts_waiter" where
  "setWaitingForShortPoll channel ms w =
     (if 0 \<le> ms then (owner_call (StartTimer channel ms) w)\<lparr>pw_waitingForShortPoll := True\<rparr>
      else checkForWaiting channel (w\<lparr>pw_waitingForShortPoll := False\<rparr>))"

text \<open>The loop of \<open>applySkippedUpdates\<close> reads the two payload maps by key.\<close>

definition skipped_call ::
  "('u, 'v, 'c) pts_waiter \<Rightarrow> 64 word \<times> pts_skipped_queue \<Rightarrow> ('u, 'v, 'c) pts_call" where
  "skipped_call w i =
     (case snd i of
        SkippedUpdate \<Rightarrow> ApplyUpdate (map_of (pw_updateQueue w) (fst i))
      | SkippedUpdates \<Rightarrow> ApplyUpdates (map_of (pw_updatesQueue w) (fst i)))"

definition applySkippedUpdates ::
  "'c \<Rightarrow> ('u, 'v, 'c) pts_waiter \<Rightarrow> ('u, 'v, 'c) pts_waiter" where
  "applySkippedUpdates channel w =
     (if \<not> pw_waitingForSkipped w then w
      else let w = setWaitingForSkipped channel (- 1) w
        in if pw_queue w = [] then w
           else clearSkippedUpdates (w\<lparr>pw_out := pw_out w @ map (skipped_call w) (pw_queue w)\<rparr>))"

text \<open>\<open>check\<close>: \<open>False\<close> if the update is to be saved and applied later.\<close>

definition pts_check ::
  "'c \<Rightarrow> int \<Rightarrow> int \<Rightarrow> ('u, 'v, 'c) pts_waiter \<Rightarrow> ('u, 'v, 'c) pts_waiter \<times> bool" where
  "pts_check channel pts count w =
     (if \<not> inited w then (pts_init pts w, True)
      else let w = w\<lparr>pw_last := max (pw_last w) pts, pw_count := pw_count w + count\<rparr>
        in if pw_last w = pw_count w then (w\<lparr>pw_good := pw_last w\<rparr>, True)
           else if pw_last w < pw_count w
           then (setWaitingForSkipped channel 1 w, count = 0)
           else (setWaitingForSkipped channel kWaitForSkippedTimeout w, count = 0))"

definition save_updates ::
  "int \<Rightarrow> 'v \<Rightarrow> ('u, 'v, 'c) pts_waiter \<Rightarrow> ('u, 'v, 'c) pts_waiter" where
  "save_updates pts updates w =
     (let (w, key) = ptsKey SkippedUpdates pts w
      in w\<lparr>pw_updatesQueue := emplace key updates (pw_updatesQueue w)\<rparr>)"

definition save_update ::
  "int \<Rightarrow> 'u \<Rightarrow> ('u, 'v, 'c) pts_waiter \<Rightarrow> ('u, 'v, 'c) pts_waiter" where
  "save_update pts update w =
     (let (w, key) = ptsKey SkippedUpdate pts w
      in w\<lparr>pw_updateQueue := emplace key update (pw_updateQueue w)\<rparr>)"

text \<open>The three overloads of \<open>updated\<close> and of \<open>updateAndApply\<close>.\<close>

definition updated_updates ::
  "'c \<Rightarrow> int \<Rightarrow> int \<Rightarrow> 'v \<Rightarrow> ('u, 'v, 'c) pts_waiter \<Rightarrow> ('u, 'v, 'c) pts_waiter \<times> bool" where
  "updated_updates channel pts count updates w =
     (if pw_requesting w \<or> pw_applySkippedLevel w \<noteq> 0 then (w, True)
      else if pts \<le> pw_good w \<and> 0 < count then (w, False)
      else case pts_check channel pts count w of
        (w, True) \<Rightarrow> (w, True)
      | (w, False) \<Rightarrow> (save_updates pts updates w, False))"

definition updated_update ::
  "'c \<Rightarrow> int \<Rightarrow> int \<Rightarrow> 'u \<Rightarrow> ('u, 'v, 'c) pts_waiter \<Rightarrow> ('u, 'v, 'c) pts_waiter \<times> bool" where
  "updated_update channel pts count update w =
     (if pw_requesting w \<or> pw_applySkippedLevel w \<noteq> 0 then (w, True)
      else if pts \<le> pw_good w \<and> 0 < count then (w, False)
      else case pts_check channel pts count w of
        (w, True) \<Rightarrow> (w, True)
      | (w, False) \<Rightarrow> (save_update pts update w, False))"

definition updated_plain ::
  "'c \<Rightarrow> int \<Rightarrow> int \<Rightarrow> ('u, 'v, 'c) pts_waiter \<Rightarrow> ('u, 'v, 'c) pts_waiter \<times> bool" where
  "updated_plain channel pts count w =
     (if pw_requesting w \<or> pw_applySkippedLevel w \<noteq> 0 then (w, True)
      else if pts \<le> pw_good w \<and> 0 < count then (w, False)
      else pts_check channel pts count w)"

definition updateAndApply_updates ::
  "'c \<Rightarrow> int \<Rightarrow> int \<Rightarrow> 'v \<Rightarrow> ('u, 'v, 'c) pts_waiter \<Rightarrow> ('u, 'v, 'c) pts_waiter \<times> bool" where
  "updateAndApply_updates channel pts count updates w =
     (case updated_updates channel pts count updates w of
        (w, False) \<Rightarrow> (w, False)
      | (w, True) \<Rightarrow>
          if \<not> pw_waitingForSkipped w \<or> pw_queue w = []
          then (owner_call (ApplyUpdates (Some updates)) w, True)
          else (applySkippedUpdates channel (save_updates pts updates w), True))"

definition updateAndApply_update ::
  "'c \<Rightarrow> int \<Rightarrow> int \<Rightarrow> 'u \<Rightarrow> ('u, 'v, 'c) pts_waiter \<Rightarrow> ('u, 'v, 'c) pts_waiter \<times> bool" where
  "updateAndApply_update channel pts count update w =
     (case updated_update channel pts count update w of
        (w, False) \<Rightarrow> (w, False)
      | (w, True) \<Rightarrow>
          if \<not> pw_waitingForSkipped w \<or> pw_queue w = []
          then (owner_call (ApplyUpdate (Some update)) w, True)
          else (applySkippedUpdates channel (save_update pts update w), True))"

definition updateAndApply_plain ::
  "'c \<Rightarrow> int \<Rightarrow> int \<Rightarrow> ('u, 'v, 'c) pts_waiter \<Rightarrow> ('u, 'v, 'c) pts_waiter \<times> bool" where
  "updateAndApply_plain channel pts count w =
     (case updated_plain channel pts count w of
        (w, False) \<Rightarrow> (w, False)
      | (w, True) \<Rightarrow> (applySkippedUpdates channel w, True))"

lemmas pts_defs =
  owner_call_def clearSkippedUpdates_def pts_init_def setRequesting_def ptsKey_def
  checkForWaiting_def setWaitingForSkipped_def setWaitingForShortPoll_def
  applySkippedUpdates_def pts_check_def save_updates_def save_update_def
  updated_updates_def updated_update_def updated_plain_def
  updateAndApply_updates_def updateAndApply_update_def updateAndApply_plain_def

section \<open>The queue is consistent\<close>

datatype ('u, 'v, 'c) pts_op =
    OpInit int | OpRequesting bool | OpWaitSkipped 'c int | OpWaitShortPoll 'c int
  | OpUpdatedUpdates 'c int int 'v | OpUpdatedUpdate 'c int int 'u | OpUpdated 'c int int
  | OpApplyUpdates 'c int int 'v | OpApplyUpdate 'c int int 'u | OpApply 'c int int
  | OpApplySkipped 'c | OpClearSkipped

fun pts_step ::
  "('u, 'v, 'c) pts_op \<Rightarrow> ('u, 'v, 'c) pts_waiter \<Rightarrow> ('u, 'v, 'c) pts_waiter" where
  "pts_step (OpInit pts) w = pts_init pts w"
| "pts_step (OpRequesting b) w = setRequesting b w"
| "pts_step (OpWaitSkipped c ms) w = setWaitingForSkipped c ms w"
| "pts_step (OpWaitShortPoll c ms) w = setWaitingForShortPoll c ms w"
| "pts_step (OpUpdatedUpdates c p n v) w = fst (updated_updates c p n v w)"
| "pts_step (OpUpdatedUpdate c p n u) w = fst (updated_update c p n u w)"
| "pts_step (OpUpdated c p n) w = fst (updated_plain c p n w)"
| "pts_step (OpApplyUpdates c p n v) w = fst (updateAndApply_updates c p n v w)"
| "pts_step (OpApplyUpdate c p n u) w = fst (updateAndApply_update c p n u w)"
| "pts_step (OpApply c p n) w = fst (updateAndApply_plain c p n w)"
| "pts_step (OpApplySkipped c) w = applySkippedUpdates c w"
| "pts_step OpClearSkipped w = clearSkippedUpdates w"

definition real_call :: "('u, 'v, 'c) pts_call \<Rightarrow> bool" where
  "real_call a \<longleftrightarrow> a \<noteq> ApplyUpdate None \<and> a \<noteq> ApplyUpdates None"

lemma real_call_Some [simp]:
  "real_call (ApplyUpdates (Some v))" "real_call (ApplyUpdate (Some u))"
  "real_call (StartTimer c ms)"
  by (simp_all add: real_call_def)

definition queue_ok :: "('u, 'v, 'c) pts_waiter \<Rightarrow> bool" where
  "queue_ok w \<longleftrightarrow>
     map_ok (pw_queue w) \<and> map_ok (pw_updateQueue w) \<and> map_ok (pw_updatesQueue w)
     \<and> (\<forall>i \<in> set (pw_queue w). real_call (skipped_call w i))
     \<and> (\<forall>a \<in> set (pw_out w). real_call a)"


lemma set_emplace:
  assumes "e \<in> set (emplace k v m)"
  shows "e \<in> set m \<or> e = (k, v) \<and> map_of m k = None"
  using assms set_upsert_subset [of k v m] by (auto simp: emplace_def split: option.splits)

lemma real_skipped_iff:
  "real_call (skipped_call w i) \<longleftrightarrow>
     (snd i = SkippedUpdate \<longrightarrow> map_of (pw_updateQueue w) (fst i) \<noteq> None)
     \<and> (snd i = SkippedUpdates \<longrightarrow> map_of (pw_updatesQueue w) (fst i) \<noteq> None)"
  by (cases "snd i") (auto simp: real_call_def skipped_call_def)

lemma queue_ok_clear: "queue_ok w \<Longrightarrow> queue_ok (clearSkippedUpdates w)"
  by (simp add: queue_ok_def clearSkippedUpdates_def)

lemma queue_ok_waiting:
  "queue_ok w \<Longrightarrow> queue_ok (setWaitingForSkipped c ms w)"
  "queue_ok w \<Longrightarrow> queue_ok (setWaitingForShortPoll c ms w)"
  by (auto simp: queue_ok_def setWaitingForSkipped_def setWaitingForShortPoll_def
      checkForWaiting_def owner_call_def real_skipped_iff)

lemma queue_ok_call: "queue_ok w \<Longrightarrow> real_call a \<Longrightarrow> queue_ok (owner_call a w)"
  by (auto simp: queue_ok_def owner_call_def real_skipped_iff)

lemma queue_ok_numbers:
  "queue_ok w \<Longrightarrow> queue_ok (w\<lparr>pw_last := l, pw_count := n\<rparr>)"
  "queue_ok w \<Longrightarrow> queue_ok (w\<lparr>pw_good := g\<rparr>)"
  by (simp_all add: queue_ok_def real_skipped_iff)

lemma queue_ok_save:
  assumes "queue_ok w"
  shows "queue_ok (save_update pts u w)" and "queue_ok (save_updates pts v w)"
  using assms
  by (auto simp: queue_ok_def save_update_def save_updates_def ptsKey_def Let_def real_skipped_iff
      map_of_emplace split: option.splits dest!: set_emplace)

lemma queue_ok_apply:
  assumes "queue_ok w"
  shows "queue_ok (applySkippedUpdates c w)"
proof -
  let ?w = "setWaitingForSkipped c (- 1) w"
  have ok: "queue_ok ?w" by (rule queue_ok_waiting [OF assms])
  then have "queue_ok (clearSkippedUpdates
      (?w\<lparr>pw_out := pw_out ?w @ map (skipped_call ?w) (pw_queue ?w)\<rparr>))"
    by (auto simp: queue_ok_def clearSkippedUpdates_def)
  with ok assms show ?thesis by (simp add: applySkippedUpdates_def Let_def)
qed

lemma queue_ok_check:
  assumes "queue_ok w" "pts_check c pts n w = (w', r)"
  shows "queue_ok w'"
proof -
  have "queue_ok (pts_init pts w)"
    using assms(1) by (simp add: queue_ok_def pts_init_def clearSkippedUpdates_def)
  moreover note num = queue_ok_numbers(1)
    [OF assms(1), where l = "max (pw_last w) pts" and n = "pw_count w + n"]
  ultimately show ?thesis
    using assms(2) queue_ok_numbers(2) [OF num] queue_ok_waiting(1) [OF num]
    by (auto simp: pts_check_def Let_def split: if_splits)
qed

lemma queue_ok_updated:
  assumes "queue_ok w"
  shows "queue_ok (fst (updated_updates c pts n v w))"
    and "queue_ok (fst (updated_update c pts n u w))"
    and "queue_ok (fst (updated_plain c pts n w))"
proof -
  obtain w' r where ch: "pts_check c pts n w = (w', r)" by (cases "pts_check c pts n w")
  note ok = queue_ok_check [OF assms ch]
  show "queue_ok (fst (updated_updates c pts n v w))"
    using assms ok queue_ok_save(2) [OF ok]
    by (simp add: updated_updates_def ch split: bool.split)
  show "queue_ok (fst (updated_update c pts n u w))"
    using assms ok queue_ok_save(1) [OF ok]
    by (simp add: updated_update_def ch split: bool.split)
  show "queue_ok (fst (updated_plain c pts n w))"
    using assms ok by (simp add: updated_plain_def ch)
qed

lemma queue_ok_update_and_apply:
  assumes "queue_ok w"
  shows "queue_ok (fst (updateAndApply_updates c pts n v w))"
    and "queue_ok (fst (updateAndApply_update c pts n u w))"
    and "queue_ok (fst (updateAndApply_plain c pts n w))"
proof -
  show "queue_ok (fst (updateAndApply_updates c pts n v w))"
    using queue_ok_updated(1) [OF assms, of c pts n v]
    by (cases "updated_updates c pts n v w")
       (auto simp: updateAndApply_updates_def queue_ok_call queue_ok_apply queue_ok_save split: bool.split)
  show "queue_ok (fst (updateAndApply_update c pts n u w))"
    using queue_ok_updated(2) [OF assms, of c pts n u]
    by (cases "updated_update c pts n u w")
       (auto simp: updateAndApply_update_def queue_ok_call queue_ok_apply queue_ok_save split: bool.split)
  show "queue_ok (fst (updateAndApply_plain c pts n w))"
    using queue_ok_updated(3) [OF assms, of c pts n]
    by (cases "updated_plain c pts n w")
       (simp add: updateAndApply_plain_def queue_ok_apply split: bool.split)
qed

text \<open>over every sequence of operations, every queued entry has its payload: the
  \<open>operator[]\<close> lookups of \<open>applySkippedUpdates\<close> never make up an empty update, also when
  the 32-bit key counter has wrapped around and a key is reused.\<close>

theorem pts_never_applies_default:
  "queue_ok (fold pts_step ops new_waiter)"
proof -
  have "queue_ok (pts_step p w)" if "queue_ok w" for p w
    using that
    by (cases p)
       (simp_all add: queue_ok_updated queue_ok_update_and_apply queue_ok_apply queue_ok_waiting
          queue_ok_clear, simp_all add: queue_ok_def pts_init_def setRequesting_def
          clearSkippedUpdates_def Let_def real_skipped_iff)
  then have "queue_ok (fold pts_step ops w)" if "queue_ok w" for w
    using that by (induction ops arbitrary: w) auto
  moreover have "queue_ok new_waiter"
    by (simp add: queue_ok_def new_waiter_def)
  ultimately show ?thesis .
qed

section \<open>Duplicates and gaps\<close>

text \<open>an update the box has already counted is dropped without any effect, and an
  update behind a gap is neither applied nor counted as good: it is queued under its
  key and the one second timer is started.\<close>

theorem pts_duplicate_or_gap:
  assumes "inited w" and "\<not> pw_requesting w" and "pw_applySkippedLevel w = 0" and "0 < count"
  shows "(pts \<le> pw_good w \<longrightarrow> updateAndApply_update c pts count u w = (w, False))
    \<and> (pw_last w = pw_good w \<and> pw_count w = pw_good w \<and> pw_good w + count < pts \<longrightarrow>
        (\<exists>w'. updateAndApply_update c pts count u w = (w', False)
          \<and> pw_good w' = pw_good w \<and> pw_waitingForSkipped w'
          \<and> pw_out w' = pw_out w @ [StartTimer c kWaitForSkippedTimeout]
          \<and> pw_queue w' = emplace (pts_key pts (pw_skippedKey w + 1)) SkippedUpdate (pw_queue w)))"
  using assms
  by (auto simp: updateAndApply_update_def updated_update_def pts_check_def Let_def
      setWaitingForSkipped_def owner_call_def save_update_def ptsKey_def
      kWaitForSkippedTimeout_def)

theorem pts_duplicate_or_gap_witness:
  "updateAndApply_update () 9 1 ''u'' (pts_init 10 new_waiter) = (pts_init 10 new_waiter, False)
   \<and> (\<exists>w'. updateAndApply_update () 13 1 ''u'' (pts_init 10 new_waiter) = (w', False)
        \<and> pw_good w' = 10)"
proof -
  have h: "inited (pts_init 10 new_waiter)" "\<not> pw_requesting (pts_init 10 new_waiter)"
    "pw_applySkippedLevel (pts_init 10 new_waiter) = 0"
    by (simp_all add: inited_def pts_init_def new_waiter_def clearSkippedUpdates_def)
  have g: "pw_good (pts_init 10 new_waiter) = 10" "pw_last (pts_init 10 new_waiter) = 10"
    "pw_count (pts_init 10 new_waiter) = 10"
    by (simp_all add: pts_init_def new_waiter_def clearSkippedUpdates_def)
  have "updateAndApply_update () 9 1 ''u'' (pts_init 10 new_waiter) = (pts_init 10 new_waiter, False)"
    using pts_duplicate_or_gap [OF h, of 1 9 "()" "''u''"] by (simp add: g)
  moreover have "\<exists>w'. updateAndApply_update () 13 1 ''u'' (pts_init 10 new_waiter) = (w', False)
      \<and> pw_good w' = 10"
    using pts_duplicate_or_gap [OF h, of 1 13 "()" "''u''"] by (auto simp: g)
  ultimately show ?thesis ..
qed

end
