(* ===== verification/Pts_Order.thy ===== *)
theory Pts_Order
  imports Pts_Waiter
begin

text \<open>
  The contract of the update sequencer: whatever order a contiguous run of updates
  arrives in, the waiter applies all of them, once each, in the order of their \<open>pts\<close>,
  and ends with nothing queued.  The run is specified by \<open>chain\<close>, without reference to
  the waiter's counters.
\<close>

type_synonym 'u upd = "int \<times> int \<times> 'u"

abbreviation upd_pts :: "'u upd \<Rightarrow> int" where "upd_pts x \<equiv> fst x"
abbreviation upd_count :: "'u upd \<Rightarrow> int" where "upd_count x \<equiv> fst (snd x)"
abbreviation upd_payload :: "'u upd \<Rightarrow> 'u" where "upd_payload x \<equiv> snd (snd x)"

section \<open>Contiguous runs\<close>

fun chain :: "int \<Rightarrow> 'u upd list \<Rightarrow> bool" where
  "chain b [] = True"
| "chain b (x # xs) = (0 < upd_count x \<and> upd_pts x = b + upd_count x \<and> chain (upd_pts x) xs)"

fun run_end :: "int \<Rightarrow> 'u upd list \<Rightarrow> int" where
  "run_end b [] = b"
| "run_end b (x # xs) = run_end (upd_pts x) xs"

lemma chain_ConsD:
  assumes "chain b (x # xs)"
  shows "0 < upd_count x" and "upd_pts x = b + upd_count x" and "chain (upd_pts x) xs"
  using assms unfolding chain.simps by blast+

lemma chain_append: "chain b (xs @ ys) \<longleftrightarrow> chain b xs \<and> chain (run_end b xs) ys"
  by (induction xs arbitrary: b) auto

lemma run_end_append [simp]: "run_end b (xs @ ys) = run_end (run_end b xs) ys"
  by (induction xs arbitrary: b) auto

lemma chain_above: "chain b xs \<Longrightarrow> x \<in> set xs \<Longrightarrow> b < upd_pts x"
proof (induction xs arbitrary: b)
  case Nil
  then show ?case by simp
next
  case (Cons y ys)
  note y = chain_ConsD [OF Cons.prems(1)]
  then have "b < upd_pts y" by simp
  moreover have "x \<in> set ys \<Longrightarrow> upd_pts y < upd_pts x" by (rule Cons.IH [OF y(3)])
  ultimately show ?case using Cons.prems(2) by force
qed

lemma chain_end: "chain b xs \<Longrightarrow> b \<le> run_end b xs"
  by (induction xs arbitrary: b) fastforce+

lemma chain_below: "chain b xs \<Longrightarrow> x \<in> set xs \<Longrightarrow> upd_pts x \<le> run_end b xs"
proof (induction xs arbitrary: b)
  case Nil
  then show ?case by simp
next
  case (Cons y ys)
  then have "upd_pts y \<le> run_end (upd_pts y) ys" by (auto intro: chain_end)
  with Cons show ?case by auto
qed

lemma chain_sorted: "chain b xs \<Longrightarrow> sorted_wrt (\<lambda>x y. upd_pts x < upd_pts y) xs"
  by (induction xs arbitrary: b) (auto dest: chain_above)

lemma chain_inj: "chain b xs \<Longrightarrow> x \<in> set xs \<Longrightarrow> y \<in> set xs \<Longrightarrow> upd_pts x = upd_pts y \<Longrightarrow> x = y"
proof (induction xs arbitrary: b)
  case Nil
  then show ?case by simp
next
  case (Cons z zs)
  note zs = chain_ConsD(3) [OF Cons.prems(1)]
  have "v \<in> set zs \<Longrightarrow> upd_pts v \<noteq> upd_pts z" for v
    using chain_above [OF zs, of v] by linarith
  moreover have "x = z \<or> x \<in> set zs" "y = z \<or> y \<in> set zs" using Cons.prems(2,3) by simp_all
  ultimately show ?case using Cons.IH [OF zs] Cons.prems(4) by metis
qed

lemma chain_distinct: "chain b xs \<Longrightarrow> distinct xs"
proof (induction xs arbitrary: b)
  case Nil
  then show ?case by simp
next
  case (Cons x xs)
  note xs = chain_ConsD(3) [OF Cons.prems]
  then have "x \<notin> set xs" using chain_above [of "upd_pts x" xs x] by auto
  with Cons.IH [OF xs] show ?case by simp
qed

lemma chain_count_pos: "chain b xs \<Longrightarrow> x \<in> set xs \<Longrightarrow> 0 < upd_count x"
  by (induction xs arbitrary: b) auto

lemma chain_sum: "chain b xs \<Longrightarrow> (\<Sum>x \<in> set xs. upd_count x) = run_end b xs - b"
proof (induction xs arbitrary: b)
  case Nil
  then show ?case by simp
next
  case (Cons x xs)
  have "x \<notin> set xs" using chain_distinct [OF Cons.prems] by simp
  moreover have "sum upd_count (set xs) = run_end (upd_pts x) xs - upd_pts x"
    by (rule Cons.IH [OF chain_ConsD(3) [OF Cons.prems]])
  ultimately show ?case using Cons.prems by simp
qed

text \<open>Received updates fill the run up to their greatest \<open>pts\<close> exactly when their
  counts add up to it.\<close>

lemma chain_fill:
  assumes ch: "chain b xs" and Q: "Q \<subseteq> set xs" "Q \<noteq> {}"
  shows "\<exists>pre suf. xs = pre @ suf \<and> Q \<subseteq> set pre \<and> run_end b pre = Max (upd_pts ` Q)
    \<and> b + sum upd_count Q \<le> run_end b pre
    \<and> (b + sum upd_count Q = run_end b pre \<longleftrightarrow> Q = set pre)"
proof -
  have fin: "finite Q" using Q(1) finite_subset by blast
  then have "Max (upd_pts ` Q) \<in> upd_pts ` Q" using Q(2) by simp
  then obtain y where y: "y \<in> Q" "upd_pts y = Max (upd_pts ` Q)" by force
  then obtain l r where xs: "xs = l @ y # r" using Q(1) split_list by fastforce
  let ?pre = "l @ [y]"
  have pre: "chain b ?pre" "chain (upd_pts y) r" "run_end b ?pre = upd_pts y"
    using ch by (auto simp: xs chain_append)
  have sub: "Q \<subseteq> set ?pre"
  proof
    fix q assume q: "q \<in> Q"
    then have "upd_pts q \<le> upd_pts y" using y(2) fin by simp
    moreover have "q \<in> set xs" using q Q(1) by blast
    ultimately show "q \<in> set ?pre" using chain_above [OF pre(2), of q] by (auto simp: xs)
  qed
  have pos: "0 < upd_count x" "0 \<le> upd_count x" if "x \<in> set ?pre" for x
    using chain_count_pos [OF pre(1) that] by simp_all
  have le: "sum upd_count Q \<le> sum upd_count (set ?pre)"
    by (rule sum_mono2) (use sub pos(2) in blast)+
  have less: "sum upd_count Q < sum upd_count (set ?pre)" if ne: "Q \<noteq> set ?pre"
  proof -
    obtain z where z: "z \<in> set ?pre" "z \<notin> Q" using sub ne by blast
    show ?thesis
      by (rule sum_strict_mono2 [OF _ sub, of z]) (use z pos in blast)+
  qed
  have tot: "b + sum upd_count (set ?pre) = run_end b ?pre"
    using chain_sum [OF pre(1)] by (simp only: diff_eq_eq add.commute)
  have eq: "b + sum upd_count Q = run_end b ?pre \<longleftrightarrow> Q = set ?pre"
    using less tot by (metis add_left_cancel less_irrefl)
  have "xs = ?pre @ r" "run_end b ?pre = Max (upd_pts ` Q)"
    using xs pre(3) y(2) by simp_all
  moreover have "b + sum upd_count Q \<le> run_end b ?pre"
    using le tot by (metis add_left_mono)
  ultimately show ?thesis using sub eq by blast
qed

section \<open>Keys order like \<open>pts\<close>\<close>

lemma drop_pts_key: "drop_bit 32 (pts_key p s) = ucast (word_of_int p :: 32 word)"
  by (rule bit_word_eqI) (auto simp: pts_key_def bit_simps dest: bit_imp_le_length)

lemma unat_drop_pts_key:
  assumes "0 \<le> p" "p < 2 ^ 31"
  shows "unat (pts_key p s) div 2 ^ 32 = nat p"
proof -
  have "unat (ucast (word_of_int p :: 32 word) :: 64 word) = nat p"
    using assms by (simp add: unsigned_ucast_eq unsigned_of_int take_bit_int_eq_self)
  then show ?thesis
    by (metis drop_pts_key unat_drop_bit_eq drop_bit_eq_div)
qed

lemma pts_key_less:
  assumes "0 \<le> p" "p < q" "q < 2 ^ 31"
  shows "pts_key p s < pts_key q t"
proof -
  have "unat (pts_key p s) div 2 ^ 32 < unat (pts_key q t) div 2 ^ 32"
    using assms by (simp only: unat_drop_pts_key)
  then have "unat (pts_key p s) < unat (pts_key q t)"
    by (meson div_le_mono not_le)
  then show ?thesis by (simp add: word_less_nat_alt)
qed

section \<open>What the waiter holds\<close>

fun applied :: "('u, 'v, 'c) pts_call list \<Rightarrow> 'u list" where
  "applied [] = []"
| "applied (ApplyUpdate (Some u) # out) = u # applied out"
| "applied (_ # out) = applied out"

lemma applied_append [simp]: "applied (xs @ ys) = applied xs @ applied ys"
  by (induction xs rule: applied.induct) auto

text \<open>\<open>held b Q sk w\<close>: the waiter is at \<open>b\<close> and has exactly the updates \<open>Q\<close> queued, each
  under the key its \<open>pts\<close> and its skip number \<open>sk\<close> make.\<close>

definition ukey :: "('u upd \<Rightarrow> 32 word) \<Rightarrow> 'u upd \<Rightarrow> 64 word" where
  "ukey sk x = pts_key (upd_pts x) (sk x)"

definition stored :: "'u upd set \<Rightarrow> ('u upd \<Rightarrow> 32 word) \<Rightarrow> ('u, 'v, 'c) pts_waiter \<Rightarrow> bool" where
  "stored Q sk w \<longleftrightarrow>
     map_ok (pw_queue w) \<and> map_ok (pw_updateQueue w)
     \<and> set (pw_queue w) = (\<lambda>x. (ukey sk x, SkippedUpdate)) ` Q
     \<and> set (pw_updateQueue w) = (\<lambda>x. (ukey sk x, upd_payload x)) ` Q"

definition held ::
  "int \<Rightarrow> 'u upd set \<Rightarrow> ('u upd \<Rightarrow> 32 word) \<Rightarrow> ('u, 'v, 'c) pts_waiter \<Rightarrow> bool" where
  "held b Q sk w \<longleftrightarrow>
     \<not> pw_requesting w \<and> pw_applySkippedLevel w = 0 \<and> 0 < b \<and> pw_good w = b
     \<and> pw_last w = Max (insert b (upd_pts ` Q)) \<and> pw_count w = b + sum upd_count Q
     \<and> (Q \<noteq> {} \<longrightarrow> pw_waitingForSkipped w \<and> pw_count w < pw_last w) \<and> stored Q sk w"

lemma stored_save:
  assumes st: "stored Q sk w"
    and x: "0 \<le> upd_pts x" "upd_pts x < 2 ^ 31"
    and Q: "\<And>y. y \<in> Q \<Longrightarrow> 0 \<le> upd_pts y \<and> upd_pts y < 2 ^ 31 \<and> upd_pts y \<noteq> upd_pts x"
  shows "stored (insert x Q) (sk(x := pw_skippedKey w + 1))
    (save_update (upd_pts x) (upd_payload x) w)"
proof -
  let ?sk = "sk(x := pw_skippedKey w + 1)"
  let ?k = "ukey ?sk x"
  have xQ: "x \<notin> Q" using Q by blast
  then have old: "ukey ?sk y = ukey sk y" if "y \<in> Q" for y
    using that by (auto simp: ukey_def)
  have neq: "ukey sk y \<noteq> ?k" if "y \<in> Q" for y
    using Q [OF that] x pts_key_less [of "upd_pts x" "upd_pts y"]
      pts_key_less [of "upd_pts y" "upd_pts x"]
    by (metis less_irrefl linorder_neqE ukey_def)
  have "fst ` set (pw_queue w) = ukey sk ` Q" "fst ` set (pw_updateQueue w) = ukey sk ` Q"
    using st by (simp_all add: stored_def image_image)
  then have none: "map_of (pw_queue w) ?k = None" "map_of (pw_updateQueue w) ?k = None"
    unfolding map_of_None_notin using neq by (metis (no_types, lifting) imageE)+
  have k: "?k = pts_key (upd_pts x) (pw_skippedKey w + 1)"
    by (simp add: ukey_def)
  have img: "(\<lambda>y. (ukey ?sk y, g y)) ` insert x Q = insert (?k, g x) ((\<lambda>y. (ukey sk y, g y)) ` Q)"
    for g :: "'a upd \<Rightarrow> 'd"
    using old by (auto simp: image_iff)
  show ?thesis
    using st none set_emplace_new [OF none(1), of SkippedUpdate]
      set_emplace_new [OF none(2), of "upd_payload x"]
    unfolding stored_def img by (simp add: save_update_def ptsKey_def Let_def k)
qed

text \<open>The queue lists what is stored in the order of \<open>pts\<close>, so flushing it applies the
  updates of a complete prefix in order.\<close>

lemma stored_in_order:
  assumes st: "stored (set xs) sk w" and ch: "chain b xs" "0 \<le> b" "run_end b xs < 2 ^ 31"
  shows "pw_queue w = map (\<lambda>x. (ukey sk x, SkippedUpdate)) xs"
    and "applied (map (skipped_call w) (pw_queue w)) = map upd_payload xs"
proof -
  have less: "ukey sk x < ukey sk y" if "x \<in> set xs" "y \<in> set xs" "upd_pts x < upd_pts y" for x y
    using that chain_above [OF ch(1) that(1)] chain_below [OF ch(1) that(2)] ch(2,3)
    by (auto simp: ukey_def intro!: pts_key_less)
  have "sorted_wrt (\<lambda>x y. ukey sk x < ukey sk y) xs"
    by (rule sorted_wrt_mono_rel [OF _ chain_sorted [OF ch(1)]]) (rule less)
  then have ok: "map_ok (map (\<lambda>x. (ukey sk x, g x)) xs)" for g :: "'a upd \<Rightarrow> 'd"
    by (simp add: map_ok_def sorted_wrt_map)
  show q: "pw_queue w = map (\<lambda>x. (ukey sk x, SkippedUpdate)) xs"
    by (rule map_ok_unique) (use st ok in \<open>simp_all add: stored_def\<close>)
  have u: "map_of (pw_updateQueue w) (ukey sk x) = Some (upd_payload x)" if "x \<in> set xs" for x
    using st that by (subst map_ok_map_of_in [symmetric]) (auto simp: stored_def)
  have "applied (map (\<lambda>x. skipped_call w (ukey sk x, SkippedUpdate)) ys) = map upd_payload ys"
    if "set ys \<subseteq> set xs" for ys
    using that by (induction ys) (simp_all add: skipped_call_def u)
  then show "applied (map (skipped_call w) (pw_queue w)) = map upd_payload xs"
    by (simp add: q comp_def)
qed

section \<open>One update\<close>

lemma stored_waiting [simp]:
  "stored Q sk (w\<lparr>pw_last := l, pw_count := n\<rparr>) = stored Q sk w"
  "stored Q sk (w\<lparr>pw_good := g\<rparr>) = stored Q sk w"
  "stored Q sk (setWaitingForSkipped c ms w) = stored Q sk w"
  by (simp_all add: stored_def setWaitingForSkipped_def checkForWaiting_def owner_call_def)

lemma save_update_keeps [simp]:
  "pw_requesting (save_update p u w) = pw_requesting w"
  "pw_applySkippedLevel (save_update p u w) = pw_applySkippedLevel w"
  "pw_good (save_update p u w) = pw_good w"
  "pw_last (save_update p u w) = pw_last w"
  "pw_count (save_update p u w) = pw_count w"
  "pw_waitingForSkipped (save_update p u w) = pw_waitingForSkipped w"
  "pw_out (save_update p u w) = pw_out w"
  by (simp_all add: save_update_def ptsKey_def Let_def)

lemma setWaitingForSkipped_waits [simp]:
  "pw_waitingForSkipped (setWaitingForSkipped c kWaitForSkippedTimeout w)"
  by (simp add: setWaitingForSkipped_def owner_call_def kWaitForSkippedTimeout_def)

lemma setWaitingForSkipped_keeps [simp]:
  "pw_requesting (setWaitingForSkipped c ms w) = pw_requesting w"
  "pw_applySkippedLevel (setWaitingForSkipped c ms w) = pw_applySkippedLevel w"
  "pw_good (setWaitingForSkipped c ms w) = pw_good w"
  "pw_last (setWaitingForSkipped c ms w) = pw_last w"
  "pw_count (setWaitingForSkipped c ms w) = pw_count w"
  "pw_queue (setWaitingForSkipped c ms w) = pw_queue w"
  "pw_skippedKey (setWaitingForSkipped c ms w) = pw_skippedKey w"
  "applied (pw_out (setWaitingForSkipped c ms w)) = applied (pw_out w)"
  "skipped_call (setWaitingForSkipped c ms w) = skipped_call w"
  by (simp_all add: fun_eq_iff skipped_call_def setWaitingForSkipped_def checkForWaiting_def
      owner_call_def split: pts_skipped_queue.split)

lemma applySkippedUpdates_effect:
  assumes "pw_waitingForSkipped w" "pw_queue w \<noteq> []"
  shows "stored {} sk (applySkippedUpdates c w)"
    and "pw_requesting (applySkippedUpdates c w) = pw_requesting w"
    and "pw_applySkippedLevel (applySkippedUpdates c w) = 0"
    and "pw_good (applySkippedUpdates c w) = pw_good w"
    and "pw_last (applySkippedUpdates c w) = pw_last w"
    and "pw_count (applySkippedUpdates c w) = pw_count w"
    and "applied (pw_out (applySkippedUpdates c w))
      = applied (pw_out w) @ applied (map (skipped_call w) (pw_queue w))"
  using assms
  by (simp_all add: stored_def applySkippedUpdates_def Let_def clearSkippedUpdates_def)

abbreviation feed ::
  "'c \<Rightarrow> 'u upd \<Rightarrow> ('u, 'v, 'c) pts_waiter \<Rightarrow> ('u, 'v, 'c) pts_waiter" where
  "feed c x w \<equiv> fst (updateAndApply_update c (upd_pts x) (upd_count x) (upd_payload x) w)"

lemma feed_gap:
  assumes "held b Q sk w" "b < upd_pts x" "0 < upd_count x"
    and "pw_count w + upd_count x < max (pw_last w) (upd_pts x)"
  shows "feed c x w = save_update (upd_pts x) (upd_payload x)
    (setWaitingForSkipped c kWaitForSkippedTimeout
      (w\<lparr>pw_last := max (pw_last w) (upd_pts x), pw_count := pw_count w + upd_count x\<rparr>))"
  using assms less_not_sym [OF assms(4)] less_imp_neq [OF assms(4)]
  by (simp add: held_def updateAndApply_update_def updated_update_def pts_check_def inited_def
      Let_def del: max_less_iff_conj less_max_iff_disj)

lemma feed_complete:
  assumes "held b Q sk w" "b < upd_pts x" "0 < upd_count x"
    and "pw_count w + upd_count x = max (pw_last w) (upd_pts x)"
  defines "w' \<equiv> w\<lparr>pw_last := max (pw_last w) (upd_pts x), pw_count := pw_count w + upd_count x\<rparr>
    \<lparr>pw_good := max (pw_last w) (upd_pts x)\<rparr>"
  shows "feed c x w = (if Q = {} then owner_call (ApplyUpdate (Some (upd_payload x))) w'
    else applySkippedUpdates c (save_update (upd_pts x) (upd_payload x) w'))"
proof -
  have "pw_queue w = [] \<longleftrightarrow> Q = {}" using assms(1) by (auto simp: held_def stored_def)
  then show ?thesis
    using assms
    by (simp add: held_def updateAndApply_update_def updated_update_def pts_check_def inited_def
        Let_def)
qed

lemma held_step:
  assumes held: "held b Q sk w" and ch: "chain b xs" "run_end b xs < 2 ^ 31"
    and Q: "Q \<subseteq> set xs" and x: "x \<in> set xs" "x \<notin> Q"
  shows "\<exists>pre suf sk' Q'. xs = pre @ suf
    \<and> held (run_end b pre) Q' sk' (feed c x w) \<and> Q' \<subseteq> set suf \<and> insert x Q = set pre \<union> Q'
    \<and> applied (pw_out (feed c x w)) = applied (pw_out w) @ map upd_payload pre"
proof -
  let ?Q = "insert x Q" and ?sk = "sk(x := pw_skippedKey w + 1)"
  have fin: "finite Q" using Q finite_subset by blast
  have b: "0 < b" using held by (simp add: held_def)
  have up: "b < upd_pts y" "upd_pts y < 2 ^ 31" "0 < upd_count y" if "y \<in> set xs" for y
    using chain_above [OF ch(1) that] chain_below [OF ch(1) that] chain_count_pos [OF ch(1) that]
      ch(2) by simp_all
  note ux = up [OF x(1)]
  have uQ: "0 \<le> upd_pts y \<and> upd_pts y < 2 ^ 31 \<and> upd_pts y \<noteq> upd_pts x" if "y \<in> Q" for y
  proof -
    have "y \<in> set xs" "y \<noteq> x" using that Q x(2) by blast+
    then have "upd_pts y \<noteq> upd_pts x"
      using chain_inj [OF ch(1)] x(1) by blast
    with up [OF \<open>y \<in> set xs\<close>] b show ?thesis by simp
  qed
  obtain pre suf where ps: "xs = pre @ suf" "?Q \<subseteq> set pre" "run_end b pre = Max (upd_pts ` ?Q)"
    "b + sum upd_count ?Q \<le> run_end b pre" "b + sum upd_count ?Q = run_end b pre \<longleftrightarrow> ?Q = set pre"
    using chain_fill [OF ch(1), of ?Q] Q x(1) by blast
  have cnt: "pw_count w + upd_count x = b + sum upd_count ?Q"
    using held fin x(2) by (simp add: held_def)
  have "Max (insert b (upd_pts ` ?Q)) = max b (Max (upd_pts ` ?Q))"
    by (rule Max_insert) (use fin in simp_all)
  moreover have "upd_pts x \<le> Max (upd_pts ` ?Q)" by (rule Max_ge) (use fin in simp_all)
  ultimately have mx: "Max (insert b (upd_pts ` ?Q)) = run_end b pre"
    using ux(1) by (simp only: ps(3))
  have "max (pw_last w) (upd_pts x) = Max (insert (upd_pts x) (insert b (upd_pts ` Q)))"
    using held fin by (subst Max_insert) (simp_all add: held_def max.commute)
  then have lst: "max (pw_last w) (upd_pts x) = run_end b pre"
    using mx by (simp only: image_insert insert_commute)
  have sto: "stored ?Q ?sk (save_update (upd_pts x) (upd_payload x) v)"
    if "stored Q sk v" "pw_skippedKey v = pw_skippedKey w" for v :: "('a, 'b, 'c) pts_waiter"
    using stored_save [OF that(1), of x] ux b uQ that(2) by auto
  show ?thesis
  proof (cases "?Q = set pre")
    case False
    then have gap: "pw_count w + upd_count x < max (pw_last w) (upd_pts x)"
      using ps(4,5) cnt lst by simp
    note eff = feed_gap [OF held ux(1,3) gap, of c]
    have "held (run_end b []) ?Q ?sk (feed c x w)"
      using held lst cnt mx gap
      by (simp add: eff held_def sto del: Max_insert sum.insert image_insert)
    then show ?thesis
      by (intro exI [of _ "[]"] exI [of _ xs] exI [of _ ?sk] exI [of _ ?Q])
         (use Q x(1) in \<open>simp add: eff\<close>)
  next
    case True
    then have "pw_count w + upd_count x = max (pw_last w) (upd_pts x)"
      using ps(5) cnt lst by simp
    note eff = feed_complete [OF held ux(1,3) this, of c]
    have pre: "chain b pre" "run_end b pre < 2 ^ 31"
      using ch chain_end [of "run_end b pre" suf] by (auto simp: ps(1) chain_append)
    have held': "held (run_end b pre) {} sk (feed c x w)
      \<and> applied (pw_out (feed c x w)) = applied (pw_out w) @ map upd_payload pre"
    proof (cases "Q = {}")
      case Q0: True
      then have "pre = [x]"
        using True chain_distinct [OF pre(1)] 
        by (cases pre; cases "tl pre") auto
      then show ?thesis
        using held lst cnt ps(5) True Q0 b ux(1)
        by (simp add: eff held_def owner_call_def stored_def)
    next
      case Q0: False
      define v where "v = save_update (upd_pts x) (upd_payload x)
        (w\<lparr>pw_last := max (pw_last w) (upd_pts x), pw_count := pw_count w + upd_count x\<rparr>
          \<lparr>pw_good := max (pw_last w) (upd_pts x)\<rparr>)"
      have eff': "feed c x w = applySkippedUpdates c v"
        using Q0 by (simp add: eff v_def)
      have v: "\<not> pw_requesting v" "pw_good v = run_end b pre" "pw_last v = run_end b pre"
        "pw_count v = run_end b pre" "pw_waitingForSkipped v" "pw_out v = pw_out w"
        using held lst cnt ps(5) True Q0 by (simp_all add: v_def held_def)
      have st: "stored (set pre) ?sk v"
        using sto held by (simp add: True [symmetric] held_def v_def)
      note flush = stored_in_order [OF st pre(1) less_imp_le [OF b] pre(2)]
      have ne: "pw_queue v \<noteq> []" using True by (auto simp: flush(1))
      show ?thesis
        using v b chain_end [OF pre(1)]
        by (simp add: eff' held_def applySkippedUpdates_effect [OF v(5) ne] flush(2))
    qed
    show ?thesis
      by (intro exI [of _ pre] exI [of _ suf] exI [of _ sk] exI [of _ "{}"])
         (use held' True ps(1) in simp)
  qed
qed

section \<open>Any arrival order\<close>

lemma feed_all:
  assumes "held b Q sk w" "chain b ch" "run_end b ch < 2 ^ 31"
    and "distinct xs" "set xs = set ch - Q" "Q \<subseteq> set ch"
  shows "\<exists>sk'. held (run_end b ch) {} sk' (fold (feed c) xs w)
    \<and> applied (pw_out (fold (feed c) xs w)) = applied (pw_out w) @ map upd_payload ch"
  using assms
proof (induction xs arbitrary: b Q sk w ch)
  case Nil
  have "ch = []"
  proof (rule ccontr)
    assume ne: "ch \<noteq> []"
    have Q: "Q = set ch" using Nil.prems(5,6) by auto
    then have "b + sum upd_count Q < Max (insert b (upd_pts ` Q))"
      using Nil.prems(1) ne by (auto simp: held_def)
    also have "\<dots> \<le> run_end b ch"
      using chain_below [OF Nil.prems(2)] chain_end [OF Nil.prems(2)] by (auto simp: Q)
    also have "\<dots> = b + sum upd_count Q"
      using chain_sum [OF Nil.prems(2)] by (simp add: Q)
    finally show False by simp
  qed
  with Nil show ?case by auto
next
  case (Cons x xs)
  have x: "x \<in> set ch" "x \<notin> Q" using Cons.prems(5) by auto
  obtain pre suf sk' Q' where st: "ch = pre @ suf" "held (run_end b pre) Q' sk' (feed c x w)"
    "Q' \<subseteq> set suf" "insert x Q = set pre \<union> Q'"
    "applied (pw_out (feed c x w)) = applied (pw_out w) @ map upd_payload pre"
    using held_step [OF Cons.prems(1-3,6) x, of c] by blast
  have dis: "set pre \<inter> set suf = {}"
    using chain_distinct [OF Cons.prems(2)] by (simp add: st(1))
  have "set xs = set ch - insert x Q" using Cons.prems(4,5) by auto
  also have "\<dots> = set suf - Q'" using dis st(3) by (auto simp: st(1,4))
  finally have "set xs = set suf - Q'" .
  moreover have "chain (run_end b pre) suf" "run_end (run_end b pre) suf < 2 ^ 31"
    using Cons.prems(2,3) by (auto simp: st(1) chain_append)
  ultimately show ?case
    using Cons.IH [OF st(2) _ _ _ _ st(3)] Cons.prems(4) by (auto simp: st(1,5))
qed

text \<open>C32: a box that is up to date at \<open>b\<close> and then receives the updates of a contiguous
  run in any order applies all of them, each once and in the order of the run, and
  is left at the end of the run with nothing queued.\<close>

theorem pts_any_order:
  assumes w: "w = pts_init b w0" "\<not> pw_requesting w0" and b: "0 < b"
    and run: "chain b ch" "run_end b ch < 2 ^ 31"
    and arrival: "distinct xs" "set xs = set ch"
  shows "applied (pw_out (fold (feed c) xs w)) = applied (pw_out w) @ map upd_payload ch
    \<and> pw_good (fold (feed c) xs w) = run_end b ch
    \<and> pw_queue (fold (feed c) xs w) = []"
proof -
  have "held b {} (\<lambda>_. 0) w"
    using w b by (simp add: held_def stored_def pts_init_def clearSkippedUpdates_def)
  from feed_all [OF this run arrival(1), of c] arrival(2) show ?thesis
    by (auto simp: held_def stored_def)
qed

theorem pts_any_order_witness:
  "applied (pw_out (fold (feed ()) [(13, 1, ''c''), (12, 2, ''b''), (14, 1, ''d'')]
     (pts_init 10 new_waiter :: (string, unit, unit) pts_waiter))) = [''b'', ''c'', ''d'']"
proof -
  let ?ch = "[(12, 2, ''b''), (13, 1, ''c''), (14, 1, ''d'')] :: string upd list"
  let ?xs = "[(13, 1, ''c''), (12, 2, ''b''), (14, 1, ''d'')] :: string upd list"
  let ?w = "new_waiter :: (string, unit, unit) pts_waiter"
  have "\<not> pw_requesting ?w" "chain 10 ?ch" "run_end 10 ?ch < 2 ^ 31"
    "distinct ?xs" "set ?xs = set ?ch"
    by (auto simp: new_waiter_def)
  note order = pts_any_order [OF refl this(1) _ this(2-5), of "()"]
  have "pw_out (pts_init 10 ?w) = []"
    by (simp add: pts_init_def clearSkippedUpdates_def new_waiter_def)
  then have "applied (pw_out (pts_init 10 ?w)) = []" by simp
  with order show ?thesis by simp
qed

end
