(* ===== verification/Tl_Objects.thy ===== *)
theory Tl_Objects
  imports Peer_Ids
begin

text \<open>
  The TL objects the request guard inspects, after \<open>mtproto/scheme/api.tl\<close>.  The C++
  classes and their \<open>read\<close> methods are generated by the build from that schema (with
  the library \<open>lib_tl\<close>), so the readers are parameters of the model: a record of
  functions from a sequence of 32-bit primes to an object and the primes left.

  A constructor keeps the fields the guard looks at; an optional field of which only
  the presence is tested is a Boolean.  Constructors the guard treats alike through a
  generic lambda (\<open>const auto &\<close>) are one constructor named \<open>...Other\<close>.
\<close>

type_synonym prime = "32 word"
type_synonym type_id = "32 word"

section \<open>Peers\<close>

datatype input_peer =
    InputPeerEmpty | InputPeerSelf
  | InputPeerUser "64 word" | InputPeerChat "64 word" | InputPeerChannel "64 word"
  | InputPeerUserFromMessage input_peer "64 word"
  | InputPeerChannelFromMessage input_peer "64 word"

datatype input_user =
    InputUserEmpty | InputUserSelf | InputUser "64 word"
  | InputUserFromMessage input_peer "64 word"

datatype input_channel =
    InputChannelEmpty | InputChannel "64 word"
  | InputChannelFromMessage input_peer "64 word"

section \<open>Content\<close>

datatype message_entity =
    EntityCustomEmoji | EntityPre bytes | EntityTextUrl bytes | EntityOther

datatype document_attribute =
    AttributeImageSize | AttributeAnimated | AttributeSticker | AttributeVideo
  | AttributeAudio "bytes option" "bytes option" \<comment> \<open>title, performer\<close>
  | AttributeFilename bytes | AttributeHasStickers | AttributeCustomEmoji

datatype input_document = InputDocumentEmpty | InputDocument "64 word"

datatype input_file =
    InputFile "64 word" int bytes \<comment> \<open>id, parts, name\<close>
  | InputFileBig "64 word" int bytes
  | InputFileStoryDocument input_document

datatype input_media =
    InputMediaEmpty
  | InputMediaUploadedPhoto input_file bool bool \<comment> \<open>file, stickers, video\<close>
  | InputMediaPhoto bool \<comment> \<open>video\<close>
  | InputMediaUploadedDocument input_file bool bool bytes "document_attribute list"
      \<comment> \<open>file, stickers, nosound video, mime type, attributes\<close>
  | InputMediaDocument input_document "bytes option" \<comment> \<open>id, query\<close>
  | InputMediaGeoPoint | InputMediaGeoLive
  | InputMediaContact bytes bytes bytes bytes
      \<comment> \<open>phone number, first name, last name, vcard\<close>
  | InputMediaVenue bytes bytes \<comment> \<open>title, address\<close>
  | InputMediaWebPage
  | InputMediaPaidMedia "input_media list"
  | InputMediaOther

record single_media =
  sm_media :: input_media
  sm_message :: bytes
  sm_entities :: "message_entity list option"

datatype input_reply =
    InputReplyToMessage "input_peer option" "input_peer option" "bytes option"
      "message_entity list option"
      \<comment> \<open>monoforum peer, reply-to peer, quote text, quote entities\<close>
  | InputReplyToMonoForum input_peer
  | InputReplyToStory input_peer
  | InputReplyToEphemeralMessage

datatype send_action =
    SendTyping | SendCancel | SendRecordVideo | SendUploadVideo | SendRecordAudio
  | SendUploadAudio | SendUploadPhoto | SendUploadDocument | SendGeoLocation
  | SendChooseContact | SendRecordRound | SendUploadRound | SendStopDraft
  | SendTextDraft bytes "message_entity list"
  | SendActionOther

datatype reaction = ReactionEmpty | ReactionOther
datatype emoji_status = EmojiStatusEmpty | EmojiStatusOther
datatype bot_app = InputBotAppShortName input_user bytes | InputBotAppID

section \<open>Received messages\<close>

datatype mtp_document =
    MtpDocumentEmpty
  | MtpDocument "64 word" bytes "document_attribute list" \<comment> \<open>id, mime type, attributes\<close>

datatype message_media =
    MessageMediaEmpty
  | MessageMediaPhoto bool \<comment> \<open>video\<close>
  | MessageMediaDocument "mtp_document option" bool \<comment> \<open>document, alternative documents\<close>
  | MessageMediaOther

record mtp_message =
  mm_id :: int
  mm_peer :: mtp_peer
  mm_message :: bytes
  mm_rich :: bool
  mm_effect :: bool
  mm_markup :: bool
  mm_entities :: "message_entity list option"
  mm_media :: "message_media option"

section \<open>Calls\<close>

record call_protocol =
  cp_min_layer :: int
  cp_max_layer :: int
  cp_versions :: "bytes list"

record call_data =
  cd_id :: "64 word"
  cd_access_hash :: "64 word"
  cd_admin :: "64 word"
  cd_participant :: "64 word"
  cd_protocol :: call_protocol

datatype phone_call =
    PhoneCallEmpty "64 word"
  | PhoneCallWaiting call_data
  | PhoneCallRequested call_data bytes \<comment> \<open>\<open>g_a_hash\<close>\<close>
  | PhoneCallAccepted call_data
  | PhoneCallOngoing call_data \<comment> \<open>the constructor \<open>phoneCall\<close>\<close>
  | PhoneCallDiscarded "64 word"

datatype discard_reason = MigrateConferenceCall | DiscardReasonOther

datatype input_group_call =
    InputGroupCall "64 word" "64 word" \<comment> \<open>id, access hash\<close>
  | InputGroupCallSlug | InputGroupCallInviteMessage

datatype file_location = InputGroupCallStream input_group_call | FileLocationOther

section \<open>Readers\<close>

type_synonym 'a reader = "prime list \<Rightarrow> ('a \<times> prime list) option"

text \<open>\<open>rd_valid type from\<close> stands for \<open>ValidateRequest<Request>\<close>: the whole of \<open>from\<close>
  reads as the request class whose constructor is \<open>type\<close>.\<close>

record tl_basic_readers =
  rd_valid :: "type_id \<Rightarrow> prime list \<Rightarrow> bool"
  rd_int :: "prime reader"
  rd_long :: "64 word reader"
  rd_bytes :: "bytes reader"
  rd_string :: "bytes reader"
  rd_json :: "unit reader"
  rd_ints :: "prime list reader"
  rd_longs :: "64 word list reader"

record tl_peer_readers =
  rd_peer :: "input_peer reader"
  rd_user :: "input_user reader"
  rd_channel :: "input_channel reader"
  rd_reply :: "input_reply reader"
  rd_bot_app :: "bot_app reader"
  rd_group_call :: "input_group_call reader"
  rd_file_location :: "file_location reader"

record tl_content_readers =
  rd_media :: "input_media reader"
  rd_multi_media :: "single_media list reader"
  rd_entities :: "message_entity list reader"
  rd_action :: "send_action reader"
  rd_reaction :: "reaction reader"
  rd_reactions :: "reaction list reader"
  rd_emoji_status :: "emoji_status reader"

record tl_call_readers =
  rd_protocol :: "call_protocol reader"
  rd_phone_call :: "(64 word \<times> 64 word) reader" \<comment> \<open>\<open>InputPhoneCall\<close>: id, access hash\<close>
  rd_discard_reason :: "discard_reason reader"

record tl_readers =
  tl_basic :: tl_basic_readers
  tl_peer :: tl_peer_readers
  tl_content :: tl_content_readers
  tl_call :: tl_call_readers

text \<open>\<open>x.read(from, end) && f(x)\<close>: continue with the object and the primes left.\<close>

definition reads :: "'a reader \<Rightarrow> prime list \<Rightarrow> ('a \<Rightarrow> prime list \<Rightarrow> bool) \<Rightarrow> bool" where
  "reads r ws f = (case r ws of None \<Rightarrow> False | Some (x, ws') \<Rightarrow> f x ws')"

lemma reads_iff: "reads r ws f \<longleftrightarrow> (\<exists>x ws'. r ws = Some (x, ws') \<and> f x ws')"
  by (auto simp: reads_def split: option.split)

lemma readsD [elim]:
  assumes "reads r ws f"
  obtains x ws' where "r ws = Some (x, ws')" "f x ws'"
  using assms by (auto simp: reads_iff)

section \<open>Destinations\<close>

text \<open>The three overloads of \<open>Destination\<close>.\<close>

definition Destination :: "bare_id \<Rightarrow> input_peer \<Rightarrow> peer_id" where
  "Destination self peer =
     (case peer of
        InputPeerSelf \<Rightarrow> peerFromUser self
      | InputPeerUser user_id \<Rightarrow> peerFromUser user_id
      | InputPeerChat chat_id \<Rightarrow> peerFromChat chat_id
      | InputPeerChannel channel_id \<Rightarrow> peerFromChannel channel_id
      | InputPeerUserFromMessage _ user_id \<Rightarrow> peerFromUser user_id
      | InputPeerChannelFromMessage _ channel_id \<Rightarrow> peerFromChannel channel_id
      | InputPeerEmpty \<Rightarrow> 0)"

definition DestinationUser :: "bare_id \<Rightarrow> input_user \<Rightarrow> peer_id" where
  "DestinationUser self user =
     (case user of
        InputUserSelf \<Rightarrow> peerFromUser self
      | InputUser user_id \<Rightarrow> peerFromUser user_id
      | InputUserFromMessage _ user_id \<Rightarrow> peerFromUser user_id
      | InputUserEmpty \<Rightarrow> 0)"

definition DestinationChannel :: "input_channel \<Rightarrow> peer_id" where
  "DestinationChannel channel =
     (case channel of
        InputChannel channel_id \<Rightarrow> peerFromChannel channel_id
      | InputChannelFromMessage _ channel_id \<Rightarrow> peerFromChannel channel_id
      | InputChannelEmpty \<Rightarrow> 0)"

text \<open>\<open>AllowlistMessageAllowed\<close> of \<open>mtproto/allowlist_message_guard.h\<close>.\<close>

datatype received_message =
    ReceivedEmpty | ReceivedMessage mtp_peer | ReceivedService mtp_peer

fun AllowlistMessageAllowed :: "received_message \<Rightarrow> (peer_id \<Rightarrow> bool) \<Rightarrow> bool" where
  "AllowlistMessageAllowed ReceivedEmpty allows = False"
| "AllowlistMessageAllowed (ReceivedMessage peer) allows = allows (peerFromMTP peer)"
| "AllowlistMessageAllowed (ReceivedService peer) allows = allows (peerFromMTP peer)"

end
