(* ===== verification/Content_Guard.thy ===== *)
theory Content_Guard
  imports Tl_Objects Allowlist_Policy
begin

text \<open>
  What content may be sent: \<open>TextAllowed\<close>, \<open>EntitiesAllowed\<close>, \<open>ReplyAllowed\<close>,
  \<open>MediaAllowed\<close>, the document and upload checks and the class
  \<open>AllowlistContentContext\<close> of \<open>mtproto/allowlist_request_guard.cpp\<close>.

  The conversions of \<open>QString\<close> belong to Qt: they are the record \<open>text_ops\<close>, an
  argument of everything that looks at text.
\<close>

record text_ops =
  tx_fromUtf8 :: "bytes \<Rightarrow> qstring"
  tx_toUtf8 :: "qstring \<Rightarrow> bytes"
  tx_toUcs4 :: "qstring \<Rightarrow> nat list"
  tx_toLower :: "qstring \<Rightarrow> qstring"

text \<open>A concrete instance, exact on ASCII text.\<close>

definition ascii_ops :: text_ops where
  "ascii_ops = \<lparr>tx_fromUtf8 = map of_char, tx_toUtf8 = map (\<lambda>w. char_of (unat w)),
     tx_toUcs4 = map unat, tx_toLower = map (\<lambda>w. if 65 \<le> w \<and> w \<le> 90 then w + 32 else w)\<rparr>"

section \<open>Text and entities\<close>

definition TextAllowed :: "text_ops \<Rightarrow> bytes \<Rightarrow> bool" where
  "TextAllowed tx v =
     (let decoded = tx_fromUtf8 tx v
      in tx_toUtf8 tx decoded = v \<and> \<not> ContainsEmoji (tx_toUcs4 tx decoded))"

definition entity_forbidden :: "text_ops \<Rightarrow> message_entity \<Rightarrow> bool" where
  "entity_forbidden tx entity =
     (case entity of
        EntityCustomEmoji \<Rightarrow> True
      | EntityPre language \<Rightarrow> \<not> TextAllowed tx language
      | EntityTextUrl url \<Rightarrow> \<not> TextAllowed tx url
      | EntityOther \<Rightarrow> False)"

definition EntitiesAllowed :: "text_ops \<Rightarrow> message_entity list \<Rightarrow> bool" where
  "EntitiesAllowed tx entities = list_all (\<lambda>e. \<not> entity_forbidden tx e) entities"

definition ReplyAllowed ::
  "text_ops \<Rightarrow> bare_id \<Rightarrow> (peer_id \<Rightarrow> bool) \<Rightarrow> input_reply \<Rightarrow> bool" where
  "ReplyAllowed tx self allows reply =
     (case reply of
        InputReplyToMessage monoforum replyTo quote entities \<Rightarrow>
          pred_option (\<lambda>p. allows (Destination self p)) monoforum
          \<and> pred_option (\<lambda>p. allows (Destination self p)) replyTo
          \<and> pred_option (TextAllowed tx) quote
          \<and> pred_option (EntitiesAllowed tx) entities
      | InputReplyToMonoForum peer \<Rightarrow> allows (Destination self peer)
      | InputReplyToStory _ \<Rightarrow> True
      | InputReplyToEphemeralMessage \<Rightarrow> True)"

section \<open>Documents\<close>

definition ends_with :: "qstring \<Rightarrow> qstring \<Rightarrow> bool" where
  "ends_with e s \<longleftrightarrow> length e \<le> length s \<and> drop (length s - length e) s = e"

definition attribute_allowed :: "text_ops \<Rightarrow> document_attribute \<Rightarrow> bool" where
  "attribute_allowed tx attribute =
     (case attribute of
        AttributeAnimated \<Rightarrow> False
      | AttributeSticker \<Rightarrow> False
      | AttributeCustomEmoji \<Rightarrow> False
      | AttributeHasStickers \<Rightarrow> False
      | AttributeFilename name \<Rightarrow>
          let lower = tx_toLower tx (tx_fromUtf8 tx name)
          in TextAllowed tx name \<and> \<not> ends_with (qlit ''.gif'') lower
             \<and> \<not> ends_with (qlit ''.tgs'') lower \<and> \<not> ends_with (qlit ''.webm'') lower
      | AttributeImageSize \<Rightarrow> True
      | AttributeVideo \<Rightarrow> True
      | AttributeAudio title performer \<Rightarrow>
          pred_option (TextAllowed tx) title \<and> pred_option (TextAllowed tx) performer)"

definition AllowlistDocumentContentAllowed ::
  "text_ops \<Rightarrow> qstring \<Rightarrow> document_attribute list \<Rightarrow> bool" where
  "AllowlistDocumentContentAllowed tx mime attributes =
     (let normalized = tx_toLower tx mime
      in if normalized = [] \<or> normalized = qlit ''image/gif''
            \<or> normalized = qlit ''application/x-tgsticker''
            \<or> normalized = qlit ''application/x-tgsdice''
            \<or> normalized = qlit ''video/webm''
         then False
         else list_all (attribute_allowed tx) attributes)"

definition starts_with :: "bytes \<Rightarrow> bytes \<Rightarrow> bool" where
  "starts_with p b \<longleftrightarrow> take (length p) b = p"

fun contains_bytes :: "bytes \<Rightarrow> bytes \<Rightarrow> bool" where
  "contains_bytes p [] = (p = [])"
| "contains_bytes p (c # b) = (starts_with p (c # b) \<or> contains_bytes p b)"

definition AllowlistUploadPrefixAllowed :: "bytes \<Rightarrow> bool" where
  "AllowlistUploadPrefixAllowed b \<longleftrightarrow>
     b \<noteq> [] \<and> \<not> starts_with ''GIF87a'' b \<and> \<not> starts_with ''GIF89a'' b
     \<and> \<not> starts_with [CHR 0x1F, CHR 0x8B] b
     \<and> \<not> starts_with [CHR 0x1A, CHR 0x45, CHR 0xDF, CHR 0xA3] b
     \<and> \<not> (starts_with ''RIFF'' b \<and> take 4 (drop 8 b) = ''WEBP''
          \<and> (take 4 (drop 12 b) = ''VP8X'' \<and> 20 < length b \<and> bit (of_char (b ! 20) :: nat) 1
             \<or> contains_bytes ''ANIM'' b))"

section \<open>The content context\<close>

record upload_proof =
  up_allowed :: bool
  up_firstPartSize :: nat
  up_parts :: "int list"

record content_context =
  cc_resolveDocument :: "(64 word \<Rightarrow> bytes) option"
  cc_documents :: "64 word \<Rightarrow> bool option"
  cc_messages :: "peer_id \<times> int \<Rightarrow> bool option"
  cc_messageDocuments :: "peer_id \<times> int \<Rightarrow> 64 word option"
  cc_uploads :: "64 word \<Rightarrow> upload_proof option"

definition new_content :: "(64 word \<Rightarrow> bytes) option \<Rightarrow> content_context" where
  "new_content resolve = \<lparr>cc_resolveDocument = resolve, cc_documents = Map.empty,
     cc_messages = Map.empty, cc_messageDocuments = Map.empty, cc_uploads = Map.empty\<rparr>"

definition recordDocument ::
  "text_ops \<Rightarrow> 64 word \<Rightarrow> qstring \<Rightarrow> document_attribute list \<Rightarrow> content_context \<Rightarrow> content_context"
where
  "recordDocument tx n mime attributes c =
     c\<lparr>cc_documents := (cc_documents c)(n \<mapsto> AllowlistDocumentContentAllowed tx mime attributes)\<rparr>"

text \<open>The lambdas \<open>documentAllowed\<close> and \<open>mediaAllowed\<close> of \<open>recordMessage\<close>: the first
  also records the document.\<close>

definition message_document ::
  "text_ops \<Rightarrow> peer_id \<times> int \<Rightarrow> mtp_document \<Rightarrow> content_context \<Rightarrow> content_context \<times> bool" where
  "message_document tx key document c =
     (case document of
        MtpDocumentEmpty \<Rightarrow> (c, False)
      | MtpDocument n mime attributes \<Rightarrow>
          let c = c\<lparr>cc_messageDocuments := (cc_messageDocuments c)(key \<mapsto> n)\<rparr>
          in (recordDocument tx n (tx_fromUtf8 tx mime) attributes c,
              AllowlistDocumentContentAllowed tx (tx_fromUtf8 tx mime) attributes))"

definition message_media_allowed ::
  "text_ops \<Rightarrow> peer_id \<times> int \<Rightarrow> message_media \<Rightarrow> content_context \<Rightarrow> content_context \<times> bool" where
  "message_media_allowed tx key media c =
     (case media of
        MessageMediaEmpty \<Rightarrow> (c, True)
      | MessageMediaPhoto video \<Rightarrow> (c, \<not> video)
      | MessageMediaDocument None alt \<Rightarrow> (c, False)
      | MessageMediaDocument (Some document) alt \<Rightarrow>
          (case message_document tx key document c of (c, ok) \<Rightarrow> (c, ok \<and> \<not> alt))
      | MessageMediaOther \<Rightarrow> (c, False))"

definition message_key :: "bool \<Rightarrow> int \<Rightarrow> int" where
  "message_key scheduled n = (if scheduled then - n else n)"

definition recordMessage ::
  "text_ops \<Rightarrow> bool \<Rightarrow> mtp_message \<Rightarrow> content_context \<Rightarrow> content_context" where
  "recordMessage tx scheduled m c =
     (if mm_id m \<le> 0 then c
      else let key = (peerFromMTP (mm_peer m), message_key scheduled (mm_id m));
               c = c\<lparr>cc_messageDocuments := (cc_messageDocuments c)(key := None)\<rparr>;
               head = (TextAllowed tx (mm_message m) \<and> \<not> mm_rich m \<and> \<not> mm_effect m
                 \<and> \<not> mm_markup m \<and> pred_option (EntitiesAllowed tx) (mm_entities m));
               (c, ok) = (case mm_media m of
                   None \<Rightarrow> (c, head)
                 | Some media \<Rightarrow>
                     if head then message_media_allowed tx key media c else (c, False))
        in c\<lparr>cc_messages := (cc_messages c)(key \<mapsto> ok)\<rparr>)"

definition forgetMessage ::
  "peer_id \<Rightarrow> int \<Rightarrow> bool \<Rightarrow> content_context \<Rightarrow> content_context" where
  "forgetMessage peer n scheduled c =
     (if 0 < n
      then c\<lparr>cc_messages := (cc_messages c)((peer, message_key scheduled n) := None),
             cc_messageDocuments := (cc_messageDocuments c)((peer, message_key scheduled n) := None)\<rparr>
      else c)"

definition documentContentAllowed :: "content_context \<Rightarrow> 64 word \<Rightarrow> bool" where
  "documentContentAllowed c n \<longleftrightarrow>
     cc_documents c n = Some True
     \<and> (case cc_resolveDocument c of
          None \<Rightarrow> False
        | Some resolve \<Rightarrow> AllowlistUploadPrefixAllowed (resolve n))"

definition documentAllowed :: "content_context \<Rightarrow> input_document \<Rightarrow> bool" where
  "documentAllowed c document =
     (case document of InputDocument n \<Rightarrow> documentContentAllowed c n | InputDocumentEmpty \<Rightarrow> False)"

definition messageAllowed :: "content_context \<Rightarrow> peer_id \<Rightarrow> int \<Rightarrow> bool \<Rightarrow> bool" where
  "messageAllowed c peer n scheduled \<longleftrightarrow>
     0 < n \<and> cc_messages c (peer, message_key scheduled n) = Some True
     \<and> pred_option (documentContentAllowed c)
         (cc_messageDocuments c (peer, message_key scheduled n))"

text \<open>\<open>uploadAllowed\<close>; its generic lambda \<open>check\<close> reads the first and the last element
  of \<open>parts\<close>, which is not empty there: its size is \<open>parts > 0\<close>.\<close>

definition upload_check :: "text_ops \<Rightarrow> content_context \<Rightarrow> 64 word \<Rightarrow> int \<Rightarrow> bytes \<Rightarrow> bool" where
  "upload_check tx c n parts name =
     (case cc_uploads c n of
        None \<Rightarrow> False
      | Some proof \<Rightarrow>
          up_allowed proof \<and> TextAllowed tx name
          \<and> 0 < parts \<and> int (length (up_parts proof)) = parts
          \<and> hd (up_parts proof) = 0 \<and> last (up_parts proof) = parts - 1
          \<and> (parts = 1 \<or> 32 \<le> up_firstPartSize proof))"

definition uploadAllowed :: "text_ops \<Rightarrow> content_context \<Rightarrow> input_file \<Rightarrow> bool" where
  "uploadAllowed tx c file =
     (case file of
        InputFile n parts name \<Rightarrow> upload_check tx c n parts name
      | InputFileBig n parts name \<Rightarrow> upload_check tx c n parts name
      | InputFileStoryDocument _ \<Rightarrow> False)"

definition new_proof :: upload_proof where
  "new_proof = \<lparr>up_allowed = False, up_firstPartSize = 0, up_parts = []\<rparr>"

definition recordUploadPart ::
  "64 word \<Rightarrow> int \<Rightarrow> bytes \<Rightarrow> content_context \<Rightarrow> content_context \<times> bool" where
  "recordUploadPart n part b c =
     (if n = 0 \<or> part < 0 \<or> 16384 \<le> part \<or> b = [] then (c, False)
      else let proof = (case cc_uploads c n of None \<Rightarrow> new_proof | Some p \<Rightarrow> p);
               proof = (if part = 0
                 then proof\<lparr>up_allowed := AllowlistUploadPrefixAllowed b,
                            up_firstPartSize := length b\<rparr>
                 else proof)
        in if \<not> up_allowed proof
           then (c\<lparr>cc_uploads := (cc_uploads c)(n \<mapsto> proof)\<rparr>, False)
           else (c\<lparr>cc_uploads := (cc_uploads c)
                    (n \<mapsto> proof\<lparr>up_parts := insort_insert part (up_parts proof)\<rparr>)\<rparr>, True))"

text \<open>\<open>MediaAllowed\<close>; the context may be null.\<close>

fun MediaAllowed :: "text_ops \<Rightarrow> content_context option \<Rightarrow> input_media \<Rightarrow> bool" where
  "MediaAllowed tx content InputMediaEmpty = True"
| "MediaAllowed tx content (InputMediaUploadedPhoto file stickers video) =
     ((case content of None \<Rightarrow> False | Some c \<Rightarrow> uploadAllowed tx c file) \<and> \<not> stickers \<and> \<not> video)"
| "MediaAllowed tx content (InputMediaPhoto video) = (\<not> video)"
| "MediaAllowed tx content (InputMediaUploadedDocument file stickers nosound mime attributes) =
     ((case content of None \<Rightarrow> False | Some c \<Rightarrow> uploadAllowed tx c file)
      \<and> \<not> stickers \<and> \<not> nosound
      \<and> AllowlistDocumentContentAllowed tx (tx_fromUtf8 tx mime) attributes)"
| "MediaAllowed tx content (InputMediaDocument document query) =
     ((case content of None \<Rightarrow> False | Some c \<Rightarrow> documentAllowed c document)
      \<and> pred_option (TextAllowed tx) query)"
| "MediaAllowed tx content InputMediaGeoPoint = True"
| "MediaAllowed tx content InputMediaGeoLive = True"
| "MediaAllowed tx content (InputMediaContact phone first_name last_name vcard) =
     (TextAllowed tx phone \<and> TextAllowed tx first_name \<and> TextAllowed tx last_name
      \<and> TextAllowed tx vcard)"
| "MediaAllowed tx content (InputMediaVenue title address) =
     (TextAllowed tx title \<and> TextAllowed tx address)"
| "MediaAllowed tx content InputMediaWebPage = False"
| "MediaAllowed tx content (InputMediaPaidMedia nested) = list_all (MediaAllowed tx content) nested"
| "MediaAllowed tx content InputMediaOther = False"

section \<open>ASCII text\<close>

lemma ascii_text_allowed:
  assumes "\<forall>c \<in> set v. (of_char c :: nat) < 128"
  shows "TextAllowed ascii_ops v"
proof -
  have u: "unat (of_char c :: 16 word) = of_char c" if "c \<in> set v" for c
  proof -
    have "(of_char c :: nat) < 2 ^ 16" using assms that by fastforce
    then have "unat (of_nat (of_char c) :: 16 word) = of_char c"
      by (simp only: unsigned_of_nat len_num0 len_bit0 len_num1 mult_1_right) (simp add: take_bit_nat_eq_self)
    then show ?thesis by (simp only: of_nat_of_char)
  qed
  have "map (\<lambda>c. char_of (unat (of_char c :: 16 word))) v = v"
    by (rule map_idI) (simp add: u)
  moreover have "c < 0xA9" if "c \<in> set (map (\<lambda>c. unat (of_char c :: 16 word)) v)" for c
    using that u assms by fastforce
  then have "\<not> ContainsEmoji (map (\<lambda>c. unat (of_char c :: 16 word)) v)"
    by (intro ascii_no_emoji ballI)
  ultimately show ?thesis by (simp add: TextAllowed_def ascii_ops_def comp_def)
qed

end
