(* ===== verification/Revocation.thy ===== *)
theory Revocation
  imports Allow_Prelude
begin

text \<open>
  The contract the two call contexts share: a call that is no longer live stays so
  whatever is done, until an operation grants that very call again.  The interface is
  stated once; \<open>Call_Order\<close> and \<open>Group_Call_Guard\<close> provide it.
\<close>

text \<open>Some operation of the sequence grants \<open>k\<close> in the state it is applied to.\<close>

fun granted_in ::
  "('op \<Rightarrow> 's \<Rightarrow> 's) \<Rightarrow> ('op \<Rightarrow> 'k \<Rightarrow> 's \<Rightarrow> bool) \<Rightarrow> 'k \<Rightarrow> 'op list \<Rightarrow> 's \<Rightarrow> bool" where
  "granted_in step grants k [] s = False"
| "granted_in step grants k (p # ps) s = (grants p k s \<or> granted_in step grants k ps (step p s))"

locale revocation =
  fixes ok :: "'s \<Rightarrow> bool"
    and step :: "'op \<Rightarrow> 's \<Rightarrow> 's"
    and live :: "'k \<Rightarrow> 's \<Rightarrow> bool"
    and grants :: "'op \<Rightarrow> 'k \<Rightarrow> 's \<Rightarrow> bool"
    and denies :: "'op \<Rightarrow> 'k \<Rightarrow> 's \<Rightarrow> bool"
  assumes ok_step: "ok s \<Longrightarrow> ok (step p s)"
    and sticky: "ok s \<Longrightarrow> live k (step p s) \<Longrightarrow> live k s \<or> grants p k s"
    and denied: "ok s \<Longrightarrow> denies p k s \<Longrightarrow> \<not> live k (step p s)"
begin

lemma stays_dead:
  "ok s \<Longrightarrow> \<not> live k s \<Longrightarrow> \<not> granted_in step grants k ps s \<Longrightarrow> \<not> live k (fold step ps s)"
proof (induction ps arbitrary: s)
  case (Cons p ps)
  then show ?case using sticky [of s k p] ok_step [of s p] by auto
qed simp

lemma denial_is_final:
  assumes "ok s" "denies p k s" "\<not> granted_in step grants k ps (step p s)"
  shows "\<not> live k (fold step ps (step p s))"
  by (rule stays_dead [OF ok_step [OF assms(1)] denied [OF assms(1,2)] assms(3)])

lemma live_was_granted:
  assumes "ok s" "live k (fold step ps s)" "\<not> live k s"
  shows "granted_in step grants k ps s"
  using assms stays_dead by blast

lemma ok_fold: "ok s \<Longrightarrow> ok (fold step ps s)"
  by (induction ps arbitrary: s) (simp_all add: ok_step)

end

end
