(* ===== verification/Call_Guard.thy ===== *)
theory Call_Guard
  imports Tl_Objects Revocation
begin

text \<open>
  One-to-one calls: \<open>PrivateCallProtocolAllowed\<close> and the class \<open>AllowlistCallContext\<close> of
  \<open>mtproto/allowlist_request_guard.cpp\<close>.  A \<open>Proof\<close> is opened for an eligible peer, bound
  to one server call, and moved through the phases of the call; a peer that stops being
  eligible closes it for good.

  \<open>_eligible\<close> asks the session at the moment of the call, so every operation takes the
  predicate of that moment; a null callback behaves as the predicate that is always
  false.  \<open>std::map\<close> is a list in key order, the token counter a 64-bit word.
\<close>

section \<open>State\<close>

datatype call_phase = Pending | Exchanging | Active | Closing

record call_proof =
  pf_peer :: bare_id
  pf_id :: "64 word"
  pf_hash :: "64 word"
  pf_phase :: call_phase
  pf_outgoing :: bool

record call_context =
  ct_self :: bare_id
  ct_nextToken :: "64 word"
  ct_proofs :: "(64 word \<times> call_proof) list"
  ct_usedIds :: "64 word list"

definition new_calls :: "bare_id \<Rightarrow> call_context" where
  "new_calls self = \<lparr>ct_self = self, ct_nextToken = 0, ct_proofs = [], ct_usedIds = []\<rparr>"

definition mtpc_phone_discardCall :: type_id where "mtpc_phone_discardCall = 0xb2cbc1c0"
definition mtpc_phone_receivedCall :: type_id where "mtpc_phone_receivedCall = 0x17d54f61"
definition mtpc_phone_acceptCall :: type_id where "mtpc_phone_acceptCall = 0x3bd2b4a0"
definition mtpc_phone_confirmCall :: type_id where "mtpc_phone_confirmCall = 0x2efe1722"
definition mtpc_phone_sendSignalingData :: type_id where
  "mtpc_phone_sendSignalingData = 0xff7a9383"

lemmas call_types =
  mtpc_phone_discardCall_def mtpc_phone_receivedCall_def mtpc_phone_acceptCall_def
  mtpc_phone_confirmCall_def mtpc_phone_sendSignalingData_def

section \<open>Operations\<close>

definition PrivateCallProtocolAllowed :: "call_protocol \<Rightarrow> bool" where
  "PrivateCallProtocolAllowed data \<longleftrightarrow>
     0 < cp_min_layer data \<and> cp_min_layer data \<le> cp_max_layer data
     \<and> list_all (\<lambda>version. version \<noteq> []) (cp_versions data)"

definition call_begin ::
  "(bare_id \<Rightarrow> bool) \<Rightarrow> bare_id \<Rightarrow> bool \<Rightarrow> call_context \<Rightarrow> call_context \<times> 64 word" where
  "call_begin eligible peer outgoing c =
     (if ct_self c = 0 \<or> peer = 0 \<or> peer = ct_self c \<or> \<not> eligible peer then (c, 0)
      else let token = ct_nextToken c + 1
        in (c\<lparr>ct_nextToken := token,
              ct_proofs := emplace token \<lparr>pf_peer = peer, pf_id = 0, pf_hash = 0,
                pf_phase = Pending, pf_outgoing = outgoing\<rparr> (ct_proofs c)\<rparr>, token))"

text \<open>\<open>matches\<close>, with its generic lambda \<open>common\<close>.\<close>

definition match_common :: "bare_id \<Rightarrow> call_proof \<Rightarrow> call_data \<Rightarrow> bool" where
  "match_common self proof data \<longleftrightarrow>
     cd_id data \<noteq> 0 \<and> cd_access_hash data \<noteq> 0
     \<and> PrivateCallProtocolAllowed (cd_protocol data)
     \<and> (pf_id proof = 0 \<or> pf_id proof = cd_id data \<and> pf_hash proof = cd_access_hash data)
     \<and> cd_admin data = (if pf_outgoing proof then self else pf_peer proof)
     \<and> cd_participant data = (if pf_outgoing proof then pf_peer proof else self)"

definition call_matches :: "bare_id \<Rightarrow> call_proof \<Rightarrow> phone_call \<Rightarrow> bool" where
  "call_matches self proof call =
     (case call of
        PhoneCallRequested data g_a_hash \<Rightarrow>
          \<not> pf_outgoing proof \<and> match_common self proof data \<and> length g_a_hash = 32
      | PhoneCallWaiting data \<Rightarrow> match_common self proof data
      | PhoneCallAccepted data \<Rightarrow>
          pf_id proof \<noteq> 0 \<and> pf_outgoing proof \<and> match_common self proof data
      | PhoneCallOngoing data \<Rightarrow> pf_id proof \<noteq> 0 \<and> match_common self proof data
      | PhoneCallDiscarded n \<Rightarrow> pf_id proof \<noteq> 0 \<and> pf_id proof = n
      | PhoneCallEmpty n \<Rightarrow> pf_id proof \<noteq> 0 \<and> pf_id proof = n)"

definition set_proof :: "64 word \<Rightarrow> call_proof \<Rightarrow> call_context \<Rightarrow> call_context" where
  "set_proof token proof c = c\<lparr>ct_proofs := upsert token proof (ct_proofs c)\<rparr>"

definition closed_unless :: "bool \<Rightarrow> call_proof \<Rightarrow> call_proof" where
  "closed_unless ok proof = (if ok then proof else proof\<lparr>pf_phase := Closing\<rparr>)"

text \<open>The call data \<open>bind\<close> accepts: \<open>phoneCallWaiting\<close> for an outgoing proof,
  \<open>phoneCallRequested\<close> for an incoming one.\<close>

fun bindable :: "bool \<Rightarrow> phone_call \<Rightarrow> call_data option" where
  "bindable True (PhoneCallWaiting data) = Some data"
| "bindable False (PhoneCallRequested data _) = Some data"
| "bindable _ _ = None"

definition call_bind ::
  "(bare_id \<Rightarrow> bool) \<Rightarrow> 64 word \<Rightarrow> phone_call \<Rightarrow> call_context \<Rightarrow> call_context \<times> bool" where
  "call_bind eligible token call c =
     (case map_of (ct_proofs c) token of
        None \<Rightarrow> (c, False)
      | Some proof \<Rightarrow>
          if pf_id proof \<noteq> 0 then (c, False)
          else case bindable (pf_outgoing proof) call of
            None \<Rightarrow> (c, False)
          | Some data \<Rightarrow>
              if \<not> call_matches (ct_self c) proof call then (c, False)
              else if cd_id data \<in> set (ct_usedIds c) then (c, False)
              else (set_proof token
                      (closed_unless (eligible (pf_peer proof))
                        (proof\<lparr>pf_id := cd_id data, pf_hash := cd_access_hash data\<rparr>))
                      (c\<lparr>ct_usedIds := insort_insert (cd_id data) (ct_usedIds c)\<rparr>), True))"

definition authorized ::
  "(bare_id \<Rightarrow> bool) \<Rightarrow> 64 word \<Rightarrow> call_context \<Rightarrow> call_context \<times> bool" where
  "authorized eligible token c =
     (case map_of (ct_proofs c) token of
        None \<Rightarrow> (c, False)
      | Some proof \<Rightarrow>
          let proof = closed_unless (eligible (pf_peer proof)) proof
          in (set_proof token proof c, pf_phase proof \<noteq> Closing))"

definition call_validate ::
  "(bare_id \<Rightarrow> bool) \<Rightarrow> 64 word \<Rightarrow> phone_call \<Rightarrow> call_context \<Rightarrow> call_context \<times> bool" where
  "call_validate eligible token call c =
     (case map_of (ct_proofs c) token of
        None \<Rightarrow> (c, False)
      | Some proof \<Rightarrow>
          if \<not> call_matches (ct_self c) proof call then (c, False)
          else case call of
            PhoneCallDiscarded _ \<Rightarrow> (c, True)
          | PhoneCallEmpty _ \<Rightarrow> (c, True)
          | _ \<Rightarrow> authorized eligible token c)"

definition call_exchange ::
  "(bare_id \<Rightarrow> bool) \<Rightarrow> 64 word \<Rightarrow> call_context \<Rightarrow> call_context \<times> bool" where
  "call_exchange eligible token c =
     (case authorized eligible token c of
        (c, False) \<Rightarrow> (c, False)
      | (c, True) \<Rightarrow>
          let proof = the (map_of (ct_proofs c) token)
          in if pf_id proof = 0 then (c, False)
             else (set_proof token (proof\<lparr>pf_phase := Exchanging\<rparr>) c, True))"

definition call_activate ::
  "(bare_id \<Rightarrow> bool) \<Rightarrow> 64 word \<Rightarrow> call_context \<Rightarrow> call_context \<times> bool" where
  "call_activate eligible token c =
     (case authorized eligible token c of
        (c, False) \<Rightarrow> (c, False)
      | (c, True) \<Rightarrow>
          let proof = the (map_of (ct_proofs c) token)
          in if pf_phase proof \<noteq> Exchanging then (c, False)
             else (set_proof token (proof\<lparr>pf_phase := Active\<rparr>) c, True))"

definition call_close :: "64 word \<Rightarrow> call_context \<Rightarrow> call_context" where
  "call_close token c =
     (case map_of (ct_proofs c) token of
        None \<Rightarrow> c
      | Some proof \<Rightarrow> set_proof token (proof\<lparr>pf_phase := Closing\<rparr>) c)"

definition call_forget :: "64 word \<Rightarrow> call_context \<Rightarrow> call_context" where
  "call_forget token c = c\<lparr>ct_proofs := remove_key token (ct_proofs c)\<rparr>"

text \<open>The loops of \<open>bootstrapAllowed\<close> and \<open>outgoingAllowed\<close> stop at the first proof that
  is authorized; the ones before it that are not are closed on the way.\<close>

fun scan_authorized ::
  "(bare_id \<Rightarrow> bool) \<Rightarrow> (call_proof \<Rightarrow> bool) \<Rightarrow> (64 word \<times> call_proof) list \<Rightarrow> call_context
     \<Rightarrow> call_context \<times> bool" where
  "scan_authorized eligible wanted [] c = (c, False)"
| "scan_authorized eligible wanted ((token, proof) # rest) c =
     (if wanted proof
      then case authorized eligible token c of
          (c, True) \<Rightarrow> (c, True)
        | (c, False) \<Rightarrow> scan_authorized eligible wanted rest c
      else scan_authorized eligible wanted rest c)"

definition bootstrapAllowed ::
  "(bare_id \<Rightarrow> bool) \<Rightarrow> bare_id \<Rightarrow> call_context \<Rightarrow> call_context \<times> bool" where
  "bootstrapAllowed eligible self c =
     (if self \<noteq> ct_self c then (c, False)
      else scan_authorized eligible (\<lambda>_. True) (ct_proofs c) c)"

definition outgoingAllowed ::
  "(bare_id \<Rightarrow> bool) \<Rightarrow> bare_id \<Rightarrow> bare_id \<Rightarrow> call_context \<Rightarrow> call_context \<times> bool" where
  "outgoingAllowed eligible self peer c =
     (if self \<noteq> ct_self c then (c, False)
      else scan_authorized eligible
        (\<lambda>proof. pf_peer proof = peer \<and> pf_outgoing proof \<and> pf_id proof = 0) (ct_proofs c) c)"

text \<open>The switch at the end of \<open>requestAllowed\<close>.\<close>

definition phase_allows :: "type_id \<Rightarrow> call_proof \<Rightarrow> bool" where
  "phase_allows type proof =
     (if type = mtpc_phone_receivedCall then \<not> pf_outgoing proof \<and> pf_phase proof = Pending
      else if type = mtpc_phone_acceptCall
      then \<not> pf_outgoing proof \<and> pf_phase proof = Exchanging
      else if type = mtpc_phone_confirmCall
      then pf_outgoing proof \<and> pf_phase proof = Exchanging
      else if type = mtpc_phone_sendSignalingData then pf_phase proof = Active
      else False)"

fun scan_request ::
  "(bare_id \<Rightarrow> bool) \<Rightarrow> type_id \<Rightarrow> 64 word \<Rightarrow> 64 word \<Rightarrow> (64 word \<times> call_proof) list
     \<Rightarrow> call_context \<Rightarrow> call_context \<times> bool" where
  "scan_request eligible type n hash [] c = (c, False)"
| "scan_request eligible type n hash ((token, proof) # rest) c =
     (if pf_id proof \<noteq> n \<or> pf_hash proof \<noteq> hash then scan_request eligible type n hash rest c
      else if type = mtpc_phone_discardCall then (c, True)
      else case authorized eligible token c of
          (c, False) \<Rightarrow> (c, False)
        | (c, True) \<Rightarrow> (c, phase_allows type (the (map_of (ct_proofs c) token))))"

definition call_requestAllowed ::
  "(bare_id \<Rightarrow> bool) \<Rightarrow> bare_id \<Rightarrow> type_id \<Rightarrow> 64 word \<Rightarrow> 64 word \<Rightarrow> call_context
     \<Rightarrow> call_context \<times> bool" where
  "call_requestAllowed eligible self type n hash c =
     (if self \<noteq> ct_self c \<or> n = 0 \<or> hash = 0 then (c, False)
      else scan_request eligible type n hash (ct_proofs c) c)"

section \<open>Histories\<close>

datatype call_op =
    CallBegin "bare_id \<Rightarrow> bool" bare_id bool
  | CallBind "bare_id \<Rightarrow> bool" "64 word" phone_call
  | CallAuthorized "bare_id \<Rightarrow> bool" "64 word"
  | CallValidate "bare_id \<Rightarrow> bool" "64 word" phone_call
  | CallExchange "bare_id \<Rightarrow> bool" "64 word"
  | CallActivate "bare_id \<Rightarrow> bool" "64 word"
  | CallClose "64 word"
  | CallForget "64 word"
  | CallBootstrap "bare_id \<Rightarrow> bool" bare_id
  | CallOutgoing "bare_id \<Rightarrow> bool" bare_id bare_id
  | CallRequest "bare_id \<Rightarrow> bool" bare_id type_id "64 word" "64 word"

fun call_step :: "call_op \<Rightarrow> call_context \<Rightarrow> call_context" where
  "call_step (CallBegin e peer outgoing) c = fst (call_begin e peer outgoing c)"
| "call_step (CallBind e token call) c = fst (call_bind e token call c)"
| "call_step (CallAuthorized e token) c = fst (authorized e token c)"
| "call_step (CallValidate e token call) c = fst (call_validate e token call c)"
| "call_step (CallExchange e token) c = fst (call_exchange e token c)"
| "call_step (CallActivate e token) c = fst (call_activate e token c)"
| "call_step (CallClose token) c = call_close token c"
| "call_step (CallForget token) c = call_forget token c"
| "call_step (CallBootstrap e self) c = fst (bootstrapAllowed e self c)"
| "call_step (CallOutgoing e self peer) c = fst (outgoingAllowed e self peer c)"
| "call_step (CallRequest e self type n hash) c = fst (call_requestAllowed e self type n hash c)"

end
