(* ===== verification/Group_Call_Guard.thy ===== *)
theory Group_Call_Guard
  imports Tl_Objects Revocation "HOL-Library.Product_Lexorder"
begin

text \<open>
  Group calls: the class \<open>AllowlistGroupCallContext\<close> of
  \<open>mtproto/allowlist_request_guard.cpp\<close>.  The context owns the calls the session joined,
  by identifier and access hash; the flag of a call is whether it is being torn down.
  As in \<open>Call_Guard\<close> every operation takes the eligibility predicate of its moment, and
  \<open>std::map\<close> is a list in key order, which is the lexicographic order of the pairs.
\<close>

section \<open>State and operations\<close>

type_synonym group_key = "64 word \<times> 64 word"

record group_context =
  gr_self :: bare_id
  gr_owned :: "(group_key \<times> bool) list"

definition new_groups :: "bare_id \<Rightarrow> group_context" where
  "new_groups self = \<lparr>gr_self = self, gr_owned = []\<rparr>"

definition mtpc_phone_joinGroupCall :: type_id where "mtpc_phone_joinGroupCall = 0x8fb53057"
definition mtpc_phone_leaveGroupCall :: type_id where "mtpc_phone_leaveGroupCall = 0x500377f9"
definition mtpc_phone_getGroupCall :: type_id where "mtpc_phone_getGroupCall = 0x41845db"
definition mtpc_phone_getGroupParticipants :: type_id where
  "mtpc_phone_getGroupParticipants = 0xc558d8ab"
definition mtpc_phone_checkGroupCall :: type_id where "mtpc_phone_checkGroupCall = 0xb59cf977"
definition mtpc_phone_editGroupCallParticipant :: type_id where
  "mtpc_phone_editGroupCallParticipant = 0xa5273abf"
definition mtpc_phone_joinGroupCallPresentation :: type_id where
  "mtpc_phone_joinGroupCallPresentation = 0xcbea6bc4"
definition mtpc_phone_leaveGroupCallPresentation :: type_id where
  "mtpc_phone_leaveGroupCallPresentation = 0x1c50d144"
definition mtpc_phone_getGroupCallStreamChannels :: type_id where
  "mtpc_phone_getGroupCallStreamChannels = 0x1ab21940"

definition group_begin ::
  "(64 word \<Rightarrow> 64 word \<Rightarrow> bool) \<Rightarrow> 64 word \<Rightarrow> 64 word \<Rightarrow> group_context \<Rightarrow> group_context \<times> bool"
where
  "group_begin eligible n hash c =
     (if gr_self c = 0 \<or> n = 0 \<or> hash = 0 \<or> \<not> eligible n hash then (c, False)
      else let owned = (if 64 \<le> length (gr_owned c) then tl (gr_owned c) else gr_owned c)
        in (c\<lparr>gr_owned := upsert (n, hash) False owned\<rparr>, True))"

definition group_close :: "64 word \<Rightarrow> 64 word \<Rightarrow> group_context \<Rightarrow> group_context" where
  "group_close n hash c =
     (case map_of (gr_owned c) (n, hash) of
        None \<Rightarrow> c
      | Some _ \<Rightarrow> c\<lparr>gr_owned := upsert (n, hash) True (gr_owned c)\<rparr>)"

definition group_forget :: "64 word \<Rightarrow> 64 word \<Rightarrow> group_context \<Rightarrow> group_context" where
  "group_forget n hash c = c\<lparr>gr_owned := remove_key (n, hash) (gr_owned c)\<rparr>"

definition group_requestAllowed ::
  "(64 word \<Rightarrow> 64 word \<Rightarrow> bool) \<Rightarrow> bare_id \<Rightarrow> type_id \<Rightarrow> 64 word \<Rightarrow> 64 word \<Rightarrow> group_context
     \<Rightarrow> group_context \<times> bool" where
  "group_requestAllowed eligible self type n hash c =
     (if self = 0 \<or> self \<noteq> gr_self c \<or> n = 0 \<or> hash = 0 then (c, False)
      else let found = map_of (gr_owned c) (n, hash) \<noteq> None;
               ok = eligible n hash;
               c = (if \<not> ok \<and> found
                 then c\<lparr>gr_owned := upsert (n, hash) True (gr_owned c)\<rparr> else c)
        in if type = mtpc_phone_leaveGroupCall \<or> type = mtpc_phone_leaveGroupCallPresentation
           then (c, found)
           else if \<not> ok \<or> found \<and> map_of (gr_owned c) (n, hash) = Some True then (c, False)
           else if type = mtpc_phone_getGroupCall \<or> type = mtpc_phone_getGroupParticipants
           then (c, True)
           else if type = mtpc_phone_joinGroupCall \<or> type = mtpc_phone_checkGroupCall
             \<or> type = mtpc_phone_editGroupCallParticipant
             \<or> type = mtpc_phone_joinGroupCallPresentation
             \<or> type = mtpc_phone_getGroupCallStreamChannels
           then (c, found)
           else (c, False))"

section \<open>Histories\<close>

datatype group_op =
    GroupBegin "64 word \<Rightarrow> 64 word \<Rightarrow> bool" "64 word" "64 word"
  | GroupClose "64 word" "64 word"
  | GroupForget "64 word" "64 word"
  | GroupRequest "64 word \<Rightarrow> 64 word \<Rightarrow> bool" bare_id type_id "64 word" "64 word"

fun group_step :: "group_op \<Rightarrow> group_context \<Rightarrow> group_context" where
  "group_step (GroupBegin e n hash) c = fst (group_begin e n hash c)"
| "group_step (GroupClose n hash) c = group_close n hash c"
| "group_step (GroupForget n hash) c = group_forget n hash c"
| "group_step (GroupRequest e self type n hash) c = fst (group_requestAllowed e self type n hash c)"

definition groups_after :: "bare_id \<Rightarrow> group_op list \<Rightarrow> group_context" where
  "groups_after self ops = fold group_step ops (new_groups self)"

definition group_inv :: "group_context \<Rightarrow> bool" where
  "group_inv c \<longleftrightarrow> map_ok (gr_owned c) \<and> length (gr_owned c) \<le> 64"

lemma length_upsert_old: "map_ok m \<Longrightarrow> map_of m k \<noteq> None \<Longrightarrow> length (upsert k v m) = length m"
proof (induction k v m rule: upsert.induct)
  case (2 k v k' v' m)
  have "map_of m k = None" if "k < k'"
    using that "2.prems"(1) by (force simp: map_of_eq_None_iff)
  with 2 show ?case by (auto split: if_splits)
qed simp

lemma length_upsert_le: "length (upsert k v m) \<le> Suc (length m)"
  by (induction k v m rule: upsert.induct) auto

lemma length_remove_key_le: "length (remove_key k m) \<le> length m"
  by (simp add: remove_key_def)

lemma group_inv_step: "group_inv c \<Longrightarrow> group_inv (group_step p c)"
proof (cases p)
  case (GroupBegin e n hash)
  assume "group_inv c"
  then show ?thesis
    using length_upsert_le [of "(n, hash)" False "gr_owned c"]
      length_upsert_le [of "(n, hash)" False "tl (gr_owned c)"]
    by (auto simp: GroupBegin group_begin_def group_inv_def Let_def)
next
  case (GroupForget n hash)
  assume "group_inv c"
  then show ?thesis
    using length_remove_key_le [of "(n, hash)" "gr_owned c"]
    by (auto simp: GroupForget group_forget_def group_inv_def)
qed (auto simp: group_close_def group_requestAllowed_def group_inv_def Let_def length_upsert_old
    split: option.split)

lemma group_inv_new: "group_inv (new_groups self)"
  by (simp add: group_inv_def new_groups_def)

section \<open>Revocation\<close>

definition group_live :: "group_key \<Rightarrow> group_context \<Rightarrow> bool" where
  "group_live k c \<longleftrightarrow> map_of (gr_owned c) k = Some False"

fun group_grants :: "group_op \<Rightarrow> group_key \<Rightarrow> group_context \<Rightarrow> bool" where
  "group_grants (GroupBegin e n hash) k c = (k = (n, hash))"
| "group_grants _ k c = False"

fun group_denies :: "group_op \<Rightarrow> group_key \<Rightarrow> group_context \<Rightarrow> bool" where
  "group_denies (GroupClose n hash) k c = (k = (n, hash))"
| "group_denies (GroupForget n hash) k c = (k = (n, hash))"
| "group_denies (GroupRequest e self type n hash) k c =
     (k = (n, hash) \<and> \<not> e n hash \<and> self \<noteq> 0 \<and> self = gr_self c \<and> n \<noteq> 0 \<and> hash \<noteq> 0)"
| "group_denies _ k c = False"

lemma map_of_tl: "map_ok m \<Longrightarrow> map_of (tl m) k = Some v \<Longrightarrow> map_of m k = Some v"
  by (cases m) (force simp: map_ok_map_of_in [symmetric])+

interpretation group_rev: revocation group_inv group_step group_live group_grants group_denies
proof
  show "group_inv (group_step p c)" if "group_inv c" for p c
    by (rule group_inv_step [OF that])
  show "group_live k c \<or> group_grants p k c" if "group_inv c" "group_live k (group_step p c)" for k p c
    using that
    by (cases p) (auto simp: group_live_def group_inv_def group_begin_def group_close_def
        group_forget_def group_requestAllowed_def Let_def dest: map_of_tl
        split: if_splits option.splits)
  show "\<not> group_live k (group_step p c)" if "group_inv c" "group_denies p k c" for k p c
    using that
    by (cases p) (auto simp: group_live_def group_inv_def group_close_def group_forget_def
        group_requestAllowed_def Let_def split: option.splits)
qed

section \<open>Properties\<close>

text \<open>the context stays ordered and bounded: it never owns more than 64 calls,
  whatever is begun, closed, forgotten or asked.\<close>

theorem groups_bounded:
  "map_ok (gr_owned (groups_after self ops)) \<and> length (gr_owned (groups_after self ops)) \<le> 64"
  using group_rev.ok_fold [OF group_inv_new] by (simp add: groups_after_def group_inv_def)

text \<open>reading a call needs only that its peer is eligible and the call is not being torn
  down, taking part in it also that the session owns it, and leaving it exactly that.\<close>

theorem group_requestAllowed_iff:
  "snd (group_requestAllowed e s type n hash c) \<longleftrightarrow>
     s \<noteq> 0 \<and> s = gr_self c \<and> n \<noteq> 0 \<and> hash \<noteq> 0 \<and>
     (if type \<in> {mtpc_phone_leaveGroupCall, mtpc_phone_leaveGroupCallPresentation}
      then map_of (gr_owned c) (n, hash) \<noteq> None
      else e n hash \<and> (if type \<in> {mtpc_phone_getGroupCall, mtpc_phone_getGroupParticipants}
        then map_of (gr_owned c) (n, hash) \<noteq> Some True
        else group_live (n, hash) c \<and> type \<in> {mtpc_phone_joinGroupCall, mtpc_phone_checkGroupCall,
          mtpc_phone_editGroupCallParticipant, mtpc_phone_joinGroupCallPresentation,
          mtpc_phone_getGroupCallStreamChannels}))"
  by (cases "map_of (gr_owned c) (n, hash)")
     (auto simp: group_requestAllowed_def group_live_def Let_def)

text \<open>C35: a call that was closed, forgotten or found not eligible in a request can be joined
  again only after a new \<open>begin\<close> of that very call, also when its peer becomes eligible
  again.\<close>

theorem group_revocation_final:
  assumes "group_denies p (n, hash) (groups_after self ops)"
    and "\<forall>e. GroupBegin e n hash \<notin> set ps"
  shows "\<not> snd (group_requestAllowed e s mtpc_phone_joinGroupCall n hash
    (groups_after self (ops @ [p] @ ps)))"
proof -
  have "\<not> granted_in group_step group_grants (n, hash) ps c" for c
    using assms(2)
  proof (induction ps arbitrary: c)
    case (Cons q ps)
    then show ?case by (cases q) auto
  qed simp
  from group_rev.denial_is_final [OF group_rev.ok_fold [OF group_inv_new] _ this]
  have "\<not> group_live (n, hash) (groups_after self (ops @ [p] @ ps))"
    using assms(1) by (simp add: groups_after_def)
  then have "map_of (gr_owned (groups_after self (ops @ [p] @ ps))) (n, hash) \<in> {None, Some True}"
    by (cases "map_of (gr_owned (groups_after self (ops @ [p] @ ps))) (n, hash)")
       (auto simp: group_live_def)
  then show ?thesis
    by (auto simp: group_requestAllowed_def Let_def mtpc_phone_joinGroupCall_def
        mtpc_phone_leaveGroupCall_def mtpc_phone_leaveGroupCallPresentation_def
        mtpc_phone_getGroupCall_def mtpc_phone_getGroupParticipants_def)
qed

theorem group_revocation_final_witness:
  "\<not> snd (group_requestAllowed (\<lambda>_ _. True) 1 mtpc_phone_joinGroupCall 5 6
     (groups_after 1 ([GroupBegin (\<lambda>_ _. True) 5 6]
       @ [GroupRequest (\<lambda>_ _. False) 1 mtpc_phone_checkGroupCall 5 6] @ [GroupBegin (\<lambda>_ _. True) 5 7])))"
  by (rule group_revocation_final)
     (simp_all add: groups_after_def new_groups_def group_begin_def)

text \<open>when 64 calls are owned, beginning another one gives up the owned call with the
  least identifier, even when that call is live and not being torn down.\<close>

theorem group_begin_evicts_live:
  assumes "map_ok (gr_owned c)" "gr_owned c = (k, False) # rest" "length (gr_owned c) = 64"
    and "gr_self c \<noteq> 0" "n \<noteq> 0" "hash \<noteq> 0" "e n hash" "k \<noteq> (n, hash)"
  shows "group_live k c \<and> map_of (gr_owned (fst (group_begin e n hash c))) k = None"
proof -
  have "map_of rest k = None"
    using assms(1,2) by (force simp: map_of_eq_None_iff)
  then show ?thesis
    using assms by (auto simp: group_live_def group_begin_def Let_def)
qed

theorem group_begin_evicts_live_witness:
  "map_of (gr_owned (fst (group_begin (\<lambda>_ _. True) 99 1
     \<lparr>gr_self = 1, gr_owned = map (\<lambda>i. ((of_nat i, 1), False)) [1..<65]\<rparr>))) (1, 1) = None"
proof -
  let ?c = "\<lparr>gr_self = 1, gr_owned = map (\<lambda>i. ((of_nat i, 1), False)) [1..<65]\<rparr>"
  have ok: "map_ok (gr_owned ?c)" by (simp add: map_ok_def upt_rec)
  have "gr_owned ?c = ((1, 1), False) # map (\<lambda>i. ((of_nat i, 1), False)) [2..<65]"
    by (simp add: upt_rec)
  from group_begin_evicts_live [OF ok this, of 99 1 "\<lambda>_ _. True"] show ?thesis by simp
qed

end
