(* ===== verification/Request_Readers.thy ===== *)
theory Request_Readers
  imports Content_Guard Call_Guard Group_Call_Guard
begin

text \<open>
  The readers of \<open>mtproto/allowlist_request_guard.cpp\<close>: each parses one family of requests
  and decides whether it may be sent.  A request is its 32-bit primes, the type
  identifier first; \<open>template <typename Request>\<close> is that identifier, since a request class
  has exactly one.

  \<open>ge_allows\<close> is the predicate \<open>BodyAllowed\<close> receives; \<open>ge_knownBot\<close> is \<open>None\<close> for a null
  callback.  The predicates the two call contexts ask are part of the environment.
\<close>

section \<open>Environment\<close>

record guard_env =
  ge_tx :: text_ops
  ge_rd :: tl_readers
  ge_self :: bare_id
  ge_allows :: "peer_id \<Rightarrow> bool"
  ge_knownBot :: "(bare_id \<Rightarrow> bool) option"
  ge_callEligible :: "bare_id \<Rightarrow> bool"
  ge_groupEligible :: "64 word \<Rightarrow> 64 word \<Rightarrow> bool"

record guard_state =
  gs_content :: "content_context option"
  gs_calls :: "call_context option"
  gs_groups :: "group_context option"

abbreviation "valid_request e \<equiv> rd_valid (tl_basic (ge_rd e))"
abbreviation "read_int e \<equiv> rd_int (tl_basic (ge_rd e))"
abbreviation "read_long e \<equiv> rd_long (tl_basic (ge_rd e))"
abbreviation "read_bytes e \<equiv> rd_bytes (tl_basic (ge_rd e))"
abbreviation "read_string e \<equiv> rd_string (tl_basic (ge_rd e))"
abbreviation "read_json e \<equiv> rd_json (tl_basic (ge_rd e))"
abbreviation "read_ints e \<equiv> rd_ints (tl_basic (ge_rd e))"
abbreviation "read_longs e \<equiv> rd_longs (tl_basic (ge_rd e))"
abbreviation "read_peer e \<equiv> rd_peer (tl_peer (ge_rd e))"
abbreviation "read_user e \<equiv> rd_user (tl_peer (ge_rd e))"
abbreviation "read_channel e \<equiv> rd_channel (tl_peer (ge_rd e))"
abbreviation "read_reply e \<equiv> rd_reply (tl_peer (ge_rd e))"
abbreviation "read_bot_app e \<equiv> rd_bot_app (tl_peer (ge_rd e))"
abbreviation "read_group_call e \<equiv> rd_group_call (tl_peer (ge_rd e))"
abbreviation "read_file_location e \<equiv> rd_file_location (tl_peer (ge_rd e))"
abbreviation "read_media e \<equiv> rd_media (tl_content (ge_rd e))"
abbreviation "read_multi_media e \<equiv> rd_multi_media (tl_content (ge_rd e))"
abbreviation "read_entities e \<equiv> rd_entities (tl_content (ge_rd e))"
abbreviation "read_action e \<equiv> rd_action (tl_content (ge_rd e))"
abbreviation "read_reaction e \<equiv> rd_reaction (tl_content (ge_rd e))"
abbreviation "read_reactions e \<equiv> rd_reactions (tl_content (ge_rd e))"
abbreviation "read_emoji_status e \<equiv> rd_emoji_status (tl_content (ge_rd e))"
abbreviation "read_protocol e \<equiv> rd_protocol (tl_call (ge_rd e))"
abbreviation "read_phone_call e \<equiv> rd_phone_call (tl_call (ge_rd e))"
abbreviation "read_discard_reason e \<equiv> rd_discard_reason (tl_call (ge_rd e))"

abbreviation dest :: "guard_env \<Rightarrow> input_peer \<Rightarrow> peer_id" where
  "dest e \<equiv> Destination (ge_self e)"

text \<open>Type identifiers, from \<open>mtproto/scheme/api.tl\<close>.\<close>

abbreviation "mtpc_messages_setTyping \<equiv> 0x58943ee2 :: type_id"
abbreviation "mtpc_messages_sendInlineBotResult \<equiv> 0xc0cf7646 :: type_id"
abbreviation "mtpc_messages_sendQuickReplyMessages \<equiv> 0x6c750de1 :: type_id"
abbreviation "mtpc_messages_sendScheduledMessages \<equiv> 0xbd38850a :: type_id"
abbreviation "mtpc_messages_sendPaidReaction \<equiv> 0x58bbcb50 :: type_id"
abbreviation "mtpc_messages_sendReaction \<equiv> 0xd30d78d4 :: type_id"
abbreviation "mtpc_stories_sendReaction \<equiv> 0x7fd736b2 :: type_id"
abbreviation "mtpc_messages_uploadMedia \<equiv> 0x14967978 :: type_id"
abbreviation "mtpc_messages_sendMessage \<equiv> 0xfef48f62 :: type_id"
abbreviation "mtpc_messages_sendMedia \<equiv> 0x330e77f :: type_id"
abbreviation "mtpc_messages_editMessage \<equiv> 0xb106e66c :: type_id"
abbreviation "mtpc_messages_sendMultiMedia \<equiv> 0x1bf89d74 :: type_id"
abbreviation "mtpc_messages_forwardMessages \<equiv> 0x13704a7c :: type_id"
abbreviation "mtpc_messages_startBot \<equiv> 0xe6df7378 :: type_id"
abbreviation "mtpc_messages_getBotApp \<equiv> 0x34fdc5c3 :: type_id"
abbreviation "mtpc_messages_sendWebViewData \<equiv> 0xdc0242c8 :: type_id"
abbreviation "mtpc_messages_getAttachMenuBot \<equiv> 0x77216192 :: type_id"
abbreviation "mtpc_bots_canSendMessage \<equiv> 0x1359f4e6 :: type_id"
abbreviation "mtpc_bots_allowSendMessage \<equiv> 0xf132e3ef :: type_id"
abbreviation "mtpc_messages_requestWebView \<equiv> 0x269dc2c1 :: type_id"
abbreviation "mtpc_messages_prolongWebView \<equiv> 0xb0d81a83 :: type_id"
abbreviation "mtpc_messages_requestMainWebView \<equiv> 0xc9e01e7b :: type_id"
abbreviation "mtpc_messages_requestAppWebView \<equiv> 0x53618bce :: type_id"
abbreviation "mtpc_phone_requestCall \<equiv> 0x42ff96ed :: type_id"
abbreviation "mtpc_phone_getCallConfig \<equiv> 0x55451fa9 :: type_id"
abbreviation "mtpc_messages_getDhConfig \<equiv> 0x26cf8950 :: type_id"
abbreviation "mtpc_upload_getFile \<equiv> 0xbe5335be :: type_id"

section \<open>Requests to a peer\<close>

record peer_layout =
  pl_flags :: bool
  pl_replyFlag :: "32 word"
  pl_requiredReply :: bool
  pl_forbiddenFlags :: "32 word"
  pl_replyBeforePeer :: bool

text \<open>The lambdas of \<open>ReadPeerAllowed\<close>.\<close>

definition readReply :: "guard_env \<Rightarrow> bool \<Rightarrow> prime list \<Rightarrow> (prime list \<Rightarrow> bool) \<Rightarrow> bool" where
  "readReply e present ws k =
     (if present
      then reads (read_reply e) ws (\<lambda>reply ws.
             ReplyAllowed (ge_tx e) (ge_self e) (ge_allows e) reply \<and> k ws)
      else k ws)"

definition readMedia ::
  "guard_env \<Rightarrow> content_context option \<Rightarrow> prime list \<Rightarrow> (prime list \<Rightarrow> bool) \<Rightarrow> bool" where
  "readMedia e content ws k =
     reads (read_media e) ws (\<lambda>media ws. MediaAllowed (ge_tx e) content media \<and> k ws)"

definition readEntities :: "guard_env \<Rightarrow> 32 word \<Rightarrow> prime list \<Rightarrow> bool" where
  "readEntities e flags ws \<longleftrightarrow>
     \<not> bit flags 2
     \<and> (\<not> bit flags 3
        \<or> reads (read_entities e) ws (\<lambda>entities _. EntitiesAllowed (ge_tx e) entities))"

definition action_allowed :: "guard_env \<Rightarrow> send_action \<Rightarrow> bool" where
  "action_allowed e action =
     (case action of
        SendTextDraft v entities \<Rightarrow>
          TextAllowed (ge_tx e) v \<and> EntitiesAllowed (ge_tx e) entities
      | SendActionOther \<Rightarrow> False
      | _ \<Rightarrow> True)"

definition single_media_allowed ::
  "guard_env \<Rightarrow> content_context option \<Rightarrow> single_media \<Rightarrow> bool" where
  "single_media_allowed e content single \<longleftrightarrow>
     MediaAllowed (ge_tx e) content (sm_media single) \<and> TextAllowed (ge_tx e) (sm_message single)
     \<and> pred_option (EntitiesAllowed (ge_tx e)) (sm_entities single)"

definition readMessage :: "guard_env \<Rightarrow> 32 word \<Rightarrow> prime list \<Rightarrow> bool" where
  "readMessage e flags ws =
     reads (read_string e) ws (\<lambda>message ws. TextAllowed (ge_tx e) message
       \<and> reads (read_long e) ws (\<lambda>randomId ws. readEntities e flags ws))"

definition readEdit ::
  "guard_env \<Rightarrow> content_context option \<Rightarrow> 32 word \<Rightarrow> input_peer \<Rightarrow> prime list \<Rightarrow> bool" where
  "readEdit e content flags peer ws \<longleftrightarrow>
     \<not> bit flags 23 \<and> (\<not> bit flags 11 \<or> bit flags 1)
     \<and> reads (read_int e) ws (\<lambda>n ws.
         (\<not> bit flags 15 \<or>
           (case content of None \<Rightarrow> False | Some c \<Rightarrow> messageAllowed c (dest e peer) (sint n) True))
         \<and> (let media = (\<lambda>ws. if bit flags 14
                then readMedia e content ws (readEntities e flags) else readEntities e flags ws)
            in if bit flags 11
               then reads (read_string e) ws (\<lambda>message ws.
                      TextAllowed (ge_tx e) message \<and> media ws)
               else media ws))"

text \<open>What follows the peer, by \<open>if constexpr\<close> on the request class.\<close>

definition peer_payload ::
  "guard_env \<Rightarrow> content_context option \<Rightarrow> type_id \<Rightarrow> 32 word \<Rightarrow> input_peer \<Rightarrow> prime list \<Rightarrow> bool"
where
  "peer_payload e content type flags peer ws =
     (if type = mtpc_messages_setTyping
      then reads (read_action e) ws (\<lambda>action _. action_allowed e action)
      else if type = mtpc_messages_sendInlineBotResult \<or> type = mtpc_messages_sendQuickReplyMessages
        \<or> type = mtpc_messages_sendScheduledMessages \<or> type = mtpc_messages_sendPaidReaction
      then False
      else if type = mtpc_messages_sendReaction
      then reads (read_int e) ws (\<lambda>_ ws. \<not> bit flags 0
             \<or> reads (read_reactions e) ws (\<lambda>reactions _. reactions = []))
      else if type = mtpc_stories_sendReaction
      then reads (read_int e) ws (\<lambda>_ ws.
             reads (read_reaction e) ws (\<lambda>reaction _. reaction = ReactionEmpty))
      else if type = mtpc_messages_uploadMedia then readMedia e content ws (\<lambda>_. True)
      else if type = mtpc_messages_sendMessage
      then bit flags 1 \<and> \<not> bit flags 18 \<and> \<not> bit flags 23 \<and> readMessage e flags ws
      else if type = mtpc_messages_sendMedia
      then \<not> bit flags 18 \<and> \<not> bit flags 23 \<and> readMedia e content ws (readMessage e flags)
      else if type = mtpc_messages_editMessage then readEdit e content flags peer ws
      else if type = mtpc_messages_sendMultiMedia
      then \<not> bit flags 18
        \<and> reads (read_multi_media e) ws (\<lambda>media _. list_all (single_media_allowed e content) media)
      else True)"

definition peer_after_flags ::
  "guard_env \<Rightarrow> content_context option \<Rightarrow> type_id \<Rightarrow> peer_layout \<Rightarrow> 32 word \<Rightarrow> prime list \<Rightarrow> bool"
where
  "peer_after_flags e content type layout flags ws =
     (if flags AND pl_forbiddenFlags layout \<noteq> 0 then False
      else let hasReply = (pl_requiredReply layout \<or> flags AND pl_replyFlag layout \<noteq> 0)
        in readReply e (hasReply \<and> pl_replyBeforePeer layout) ws (\<lambda>ws.
             reads (read_peer e) ws (\<lambda>peer ws.
               ge_allows e (dest e peer)
               \<and> readReply e (hasReply \<and> \<not> pl_replyBeforePeer layout) ws
                   (peer_payload e content type flags peer))))"

definition ReadPeerAllowed ::
  "guard_env \<Rightarrow> content_context option \<Rightarrow> type_id \<Rightarrow> peer_layout \<Rightarrow> prime list \<Rightarrow> bool" where
  "ReadPeerAllowed e content type layout from \<longleftrightarrow>
     valid_request e type from
     \<and> (if pl_flags layout
        then reads (read_int e) (tl from) (peer_after_flags e content type layout)
        else peer_after_flags e content type layout 0 (tl from))"

section \<open>Forwarding, saved messages and bots\<close>

definition ReadForwardAllowed ::
  "guard_env \<Rightarrow> content_context option \<Rightarrow> prime list \<Rightarrow> bool" where
  "ReadForwardAllowed e content from \<longleftrightarrow>
     valid_request e mtpc_messages_forwardMessages from
     \<and> reads (read_int e) (tl from) (\<lambda>flags ws. \<not> bit flags 18
     \<and> reads (read_peer e) ws (\<lambda>source ws. ge_allows e (dest e source)
     \<and> reads (read_ints e) ws (\<lambda>ids ws.
       reads (read_longs e) ws (\<lambda>randomIds ws.
       reads (read_peer e) ws (\<lambda>destination ws. ge_allows e (dest e destination)
       \<and> (case content of
            None \<Rightarrow> False
          | Some c \<Rightarrow> ids \<noteq> [] \<and> length ids = length randomIds
              \<and> list_all (\<lambda>n. messageAllowed c (dest e source) (sint n) False) ids)
       \<and> (let reply = (\<lambda>ws. readReply e (bit flags 22) ws (\<lambda>_. True))
          in if bit flags 9 then reads (read_int e) ws (\<lambda>_ ws. reply ws) else reply ws))))))"

definition ReadSavedParentAllowed ::
  "guard_env \<Rightarrow> type_id \<Rightarrow> 32 word \<Rightarrow> prime list \<Rightarrow> bool" where
  "ReadSavedParentAllowed e type parentFlag from \<longleftrightarrow>
     valid_request e type from
     \<and> (let parent = (\<lambda>ws. reads (read_peer e) ws (\<lambda>parent _.
             let peer = dest e parent in peerIsChannel peer \<and> ge_allows e peer))
        in if parentFlag \<noteq> 0
           then reads (read_int e) (tl from) (\<lambda>flags ws. flags AND parentFlag \<noteq> 0 \<and> parent ws)
           else parent (tl from))"

definition ReadBotAllowed :: "guard_env \<Rightarrow> type_id \<Rightarrow> bool \<Rightarrow> bool \<Rightarrow> prime list \<Rightarrow> bool" where
  "ReadBotAllowed e type hasFlags hasPeer from \<longleftrightarrow>
     valid_request e type from
     \<and> (let final = (\<lambda>ws. if type = mtpc_messages_startBot
               then reads (read_long e) ws (\<lambda>_ ws.
                      reads (read_string e) ws (\<lambda>parameter _. TextAllowed (ge_tx e) parameter))
               else True);
            robot = (\<lambda>ws. reads (read_user e) ws (\<lambda>robot ws.
               ge_allows e (DestinationUser (ge_self e) robot)
               \<and> (if hasPeer
                  then reads (read_peer e) ws (\<lambda>peer ws. ge_allows e (dest e peer) \<and> final ws)
                  else final ws)))
        in if hasFlags then reads (read_int e) (tl from) (\<lambda>_ ws. robot ws) else robot (tl from))"

section \<open>Web views\<close>

fun WebViewPeerAllowed :: "bare_id \<Rightarrow> (peer_id \<Rightarrow> bool) \<Rightarrow> input_peer \<Rightarrow> nat \<Rightarrow> bool" where
  "WebViewPeerAllowed self allows (InputPeerUserFromMessage peer user_id) depth =
     (depth \<le> 8 \<and> allows (Destination self (InputPeerUserFromMessage peer user_id))
      \<and> WebViewPeerAllowed self allows peer (depth + 1))"
| "WebViewPeerAllowed self allows (InputPeerChannelFromMessage peer channel_id) depth =
     (depth \<le> 8 \<and> allows (Destination self (InputPeerChannelFromMessage peer channel_id))
      \<and> WebViewPeerAllowed self allows peer (depth + 1))"
| "WebViewPeerAllowed self allows peer depth = (depth \<le> 8 \<and> allows (Destination self peer))"

definition AllowlistWebViewAllowed ::
  "bare_id \<Rightarrow> bool \<Rightarrow> peer_id list \<Rightarrow> (peer_id \<Rightarrow> bool) \<Rightarrow> (bare_id \<Rightarrow> bool) option \<Rightarrow> bool" where
  "AllowlistWebViewAllowed robot sameAccount peers allows knownBot \<longleftrightarrow>
     sameAccount \<and> robot \<noteq> 0 \<and> (case knownBot of None \<Rightarrow> False | Some k \<Rightarrow> k robot)
     \<and> allows (peerFromUser robot) \<and> list_all (\<lambda>peer. peer \<noteq> 0 \<and> allows peer) peers"

definition AllowlistBotAppMatches ::
  "bare_id \<Rightarrow> bare_id \<Rightarrow> qstring \<Rightarrow> qstring \<Rightarrow> bool \<Rightarrow> bool" where
  "AllowlistBotAppMatches robot appBot requestedName resolvedName sameAccount \<longleftrightarrow>
     sameAccount \<and> robot \<noteq> 0 \<and> robot = appBot \<and> requestedName \<noteq> [] \<and> requestedName = resolvedName"

definition WebViewBotAllowed :: "guard_env \<Rightarrow> input_user \<Rightarrow> bool" where
  "WebViewBotAllowed e robot =
     (let n = DestinationUser (ge_self e) robot
      in if \<not> peerIsUser n
            \<or> \<not> AllowlistWebViewAllowed (peerToUser n) True [] (ge_allows e) (ge_knownBot e)
         then False
         else case robot of
           InputUserFromMessage peer _ \<Rightarrow> WebViewPeerAllowed (ge_self e) (ge_allows e) peer 0
         | _ \<Rightarrow> True)"

definition WebViewReplyAllowed :: "guard_env \<Rightarrow> input_reply \<Rightarrow> bool" where
  "WebViewReplyAllowed e reply =
     (let peerAllowed = (\<lambda>peer. WebViewPeerAllowed (ge_self e) (ge_allows e) peer 0)
      in case reply of
           InputReplyToMessage monoforum replyTo _ _ \<Rightarrow>
             pred_option peerAllowed replyTo \<and> pred_option peerAllowed monoforum
         | InputReplyToStory peer \<Rightarrow> peerAllowed peer
         | InputReplyToMonoForum peer \<Rightarrow> peerAllowed peer
         | InputReplyToEphemeralMessage \<Rightarrow> False)"

definition webview_no_flags :: "type_id list" where
  "webview_no_flags = [mtpc_messages_getBotApp, mtpc_messages_sendWebViewData,
     mtpc_messages_getAttachMenuBot, mtpc_bots_canSendMessage, mtpc_bots_allowSendMessage]"

definition webview_has_peer :: "type_id list" where
  "webview_has_peer = [mtpc_messages_requestWebView, mtpc_messages_prolongWebView,
     mtpc_messages_requestMainWebView, mtpc_messages_requestAppWebView]"

text \<open>The tail of a web view request: the reply and the peer to send as.\<close>

definition webview_tail :: "guard_env \<Rightarrow> 32 word \<Rightarrow> prime list \<Rightarrow> bool" where
  "webview_tail e flags ws =
     (let sendAs = (\<lambda>ws. if bit flags 13
            then reads (read_peer e) ws (\<lambda>peer _. WebViewPeerAllowed (ge_self e) (ge_allows e) peer 0)
            else True)
      in if bit flags 0
         then reads (read_reply e) ws (\<lambda>reply ws. WebViewReplyAllowed e reply \<and> sendAs ws)
         else sendAs ws)"

definition skip_if :: "bool \<Rightarrow> 'a reader \<Rightarrow> prime list \<Rightarrow> (prime list \<Rightarrow> bool) \<Rightarrow> bool" where
  "skip_if present r ws k = (if present then reads r ws (\<lambda>_ ws. k ws) else k ws)"

definition webview_fields :: "guard_env \<Rightarrow> type_id \<Rightarrow> 32 word \<Rightarrow> prime list \<Rightarrow> bool" where
  "webview_fields e type flags ws =
     (if type = mtpc_messages_requestWebView
      then skip_if (bit flags 1) (read_string e) ws (\<lambda>ws.
           skip_if (bit flags 3) (read_string e) ws (\<lambda>ws.
           skip_if (bit flags 2) (read_json e) ws (\<lambda>ws.
           skip_if True (read_string e) ws (webview_tail e flags))))
      else if type = mtpc_messages_prolongWebView
      then reads (read_long e) ws (\<lambda>queryId ws. queryId \<noteq> 0 \<and> webview_tail e flags ws)
      else True)"

definition webview_target :: "guard_env \<Rightarrow> type_id \<Rightarrow> 32 word \<Rightarrow> prime list \<Rightarrow> bool" where
  "webview_target e type flags ws =
     (if type = mtpc_messages_getBotApp \<or> type = mtpc_messages_requestAppWebView
      then reads (read_bot_app e) ws (\<lambda>app _.
             case app of
               InputBotAppShortName robot name \<Rightarrow> name \<noteq> [] \<and> WebViewBotAllowed e robot
             | InputBotAppID \<Rightarrow> False)
      else reads (read_user e) ws (\<lambda>robot ws.
             WebViewBotAllowed e robot \<and> webview_fields e type flags ws))"

definition ReadWebViewAllowed :: "guard_env \<Rightarrow> type_id \<Rightarrow> prime list \<Rightarrow> bool" where
  "ReadWebViewAllowed e type from \<longleftrightarrow>
     valid_request e type from
     \<and> (let peer = (\<lambda>flags ws. if type \<in> set webview_has_peer
               then reads (read_peer e) ws (\<lambda>peer ws.
                      WebViewPeerAllowed (ge_self e) (ge_allows e) peer 0
                      \<and> webview_target e type flags ws)
               else webview_target e type flags ws)
        in if type \<in> set webview_no_flags then peer 0 (tl from)
           else reads (read_int e) (tl from) peer)"

section \<open>Calls\<close>

text \<open>These readers end in a question to a call context, which may close calls.  A failed
  parse leaves the context as it is.\<close>

definition reads_st ::
  "'a reader \<Rightarrow> prime list \<Rightarrow> 's \<Rightarrow> ('a \<Rightarrow> prime list \<Rightarrow> 's \<times> bool) \<Rightarrow> 's \<times> bool" where
  "reads_st r ws s f = (case r ws of None \<Rightarrow> (s, False) | Some (x, ws') \<Rightarrow> f x ws')"

definition guard_st :: "bool \<Rightarrow> 's \<Rightarrow> 's \<times> bool \<Rightarrow> 's \<times> bool" where
  "guard_st ok s r = (if ok then r else (s, False))"

text \<open>The protocol, duration and reason fields after the call.\<close>

definition call_fields :: "guard_env \<Rightarrow> type_id \<Rightarrow> prime list \<Rightarrow> bool" where
  "call_fields e type ws =
     (if type = mtpc_phone_acceptCall
      then reads (read_bytes e) ws (\<lambda>_ ws.
             reads (read_protocol e) ws (\<lambda>protocol _. PrivateCallProtocolAllowed protocol))
      else if type = mtpc_phone_confirmCall
      then reads (read_bytes e) ws (\<lambda>_ ws. reads (read_long e) ws (\<lambda>_ ws.
             reads (read_protocol e) ws (\<lambda>protocol _. PrivateCallProtocolAllowed protocol)))
      else if type = mtpc_phone_discardCall
      then reads (read_int e) ws (\<lambda>duration ws. 0 \<le> sint duration
             \<and> reads (read_discard_reason e) ws (\<lambda>reason _. reason \<noteq> MigrateConferenceCall))
      else True)"

definition call_user_allowed :: "guard_env \<Rightarrow> input_user \<Rightarrow> bool" where
  "call_user_allowed e user =
     (let peer = DestinationUser (ge_self e) user
      in (case user of
            InputUserFromMessage origin _ \<Rightarrow> WebViewPeerAllowed (ge_self e) (ge_allows e) origin 0
          | InputUser _ \<Rightarrow> True
          | _ \<Rightarrow> False)
         \<and> peerIsUser peer \<and> ge_allows e peer)"

definition call_after_flags ::
  "guard_env \<Rightarrow> type_id \<Rightarrow> prime list \<Rightarrow> call_context \<Rightarrow> call_context \<times> bool" where
  "call_after_flags e type ws c =
     (if type = mtpc_phone_requestCall
      then reads_st (read_user e) ws c (\<lambda>user ws.
           reads_st (read_int e) ws c (\<lambda>_ ws.
           reads_st (read_bytes e) ws c (\<lambda>hash ws.
           guard_st (length hash = 32) c (
           reads_st (read_protocol e) ws c (\<lambda>protocol _.
           guard_st (PrivateCallProtocolAllowed protocol \<and> call_user_allowed e user) c
             (outgoingAllowed (ge_callEligible e) (ge_self e)
               (peerToUser (DestinationUser (ge_self e) user)) c))))))
      else reads_st (read_phone_call e) ws c (\<lambda>(n, hash) ws.
           guard_st (call_fields e type ws) c
             (call_requestAllowed (ge_callEligible e) (ge_self e) type n hash c)))"

definition ReadPrivateCallAllowed ::
  "guard_env \<Rightarrow> type_id \<Rightarrow> prime list \<Rightarrow> call_context \<Rightarrow> call_context \<times> bool" where
  "ReadPrivateCallAllowed e type from c =
     guard_st (valid_request e type from) c
       (if type = mtpc_phone_getCallConfig
        then bootstrapAllowed (ge_callEligible e) (ge_self e) c
        else if type = mtpc_messages_getDhConfig
        then reads_st (read_int e) (tl from) c (\<lambda>version ws.
             reads_st (read_int e) ws c (\<lambda>len _.
             guard_st (0 \<le> sint version \<and> len = 256) c
               (bootstrapAllowed (ge_callEligible e) (ge_self e) c)))
        else if type = mtpc_phone_requestCall \<or> type = mtpc_phone_discardCall
        then reads_st (read_int e) (tl from) c (\<lambda>flags ws.
             guard_st (flags AND NOT 1 = 0) c (call_after_flags e type ws c))
        else call_after_flags e type (tl from) c)"

fun own_kind :: "input_peer \<Rightarrow> bool" where
  "own_kind InputPeerSelf = True"
| "own_kind (InputPeerUser _) = True"
| "own_kind _ = False"

definition group_after_flags ::
  "guard_env \<Rightarrow> type_id \<Rightarrow> prime list \<Rightarrow> group_context \<Rightarrow> group_context \<times> bool" where
  "group_after_flags e type ws c =
     reads_st (read_group_call e) ws c (\<lambda>call ws.
       case call of
         InputGroupCall n hash \<Rightarrow>
           (let ask = group_requestAllowed (ge_groupEligible e) (ge_self e) type n hash c
            in if type = mtpc_phone_joinGroupCall \<or> type = mtpc_phone_editGroupCallParticipant
               then reads_st (read_peer e) ws c (\<lambda>peer _.
                      guard_st (own_kind peer \<and> dest e peer = peerFromUser (ge_self e)) c ask)
               else ask)
       | _ \<Rightarrow> (c, False))"

definition ReadGroupCallAllowed ::
  "guard_env \<Rightarrow> type_id \<Rightarrow> prime list \<Rightarrow> group_context \<Rightarrow> group_context \<times> bool" where
  "ReadGroupCallAllowed e type from c =
     guard_st (valid_request e type from) c
       (if type = mtpc_phone_joinGroupCall \<or> type = mtpc_phone_editGroupCallParticipant
        then reads_st (read_int e) (tl from) c (\<lambda>flags ws.
             guard_st (flags AND NOT (if type = mtpc_phone_joinGroupCall then 7 else 61) = 0) c
               (group_after_flags e type ws c))
        else group_after_flags e type (tl from) c)"

text \<open>The context may be null here: downloads that are no call stream do not need it.\<close>

definition stream_location ::
  "guard_env \<Rightarrow> prime list \<Rightarrow> group_context option \<Rightarrow> group_context option \<times> bool" where
  "stream_location e ws groups =
     reads_st (read_file_location e) ws groups (\<lambda>location _.
       case location of
         FileLocationOther \<Rightarrow> (groups, True)
       | InputGroupCallStream (InputGroupCall n hash) \<Rightarrow>
           (case groups of
              None \<Rightarrow> (groups, False)
            | Some c \<Rightarrow> (case group_requestAllowed (ge_groupEligible e) (ge_self e)
                  mtpc_phone_getGroupCallStreamChannels n hash c of (c, ok) \<Rightarrow> (Some c, ok)))
       | InputGroupCallStream _ \<Rightarrow> (groups, False))"

definition ReadGroupStreamAllowed ::
  "guard_env \<Rightarrow> type_id \<Rightarrow> prime list \<Rightarrow> group_context option \<Rightarrow> group_context option \<times> bool"
where
  "ReadGroupStreamAllowed e type from groups =
     guard_st (valid_request e type from) groups
       (if type = mtpc_upload_getFile
        then reads_st (read_int e) (tl from) groups (\<lambda>flags ws.
             guard_st (flags AND NOT 3 = 0) groups (stream_location e ws groups))
        else stream_location e (tl from) groups)"

end
