(* ===== verification/Request_Tables.thy ===== *)
theory Request_Tables
  imports Request_Readers
begin

text \<open>
  The request types the guard knows: \<open>mtproto/allowlist_safe_requests.inc\<close> (sent without a
  look at their content), the service requests named in \<open>BodyAllowed\<close> itself, and
  \<open>mtproto/allowlist_peer_requests.inc\<close> with the layout of each request to a peer.  The
  identifiers are those of \<open>mtproto/scheme/api.tl\<close> and \<open>mtproto.tl\<close>, in the order of the
  included files.
\<close>

section \<open>Requests without a destination\<close>

definition safe_account_auth :: "type_id list" where
  "safe_account_auth = [
     0xc1cbd5b6, 0x40f48462, 0x70c32edb, 0x2714d86c, 0x18201aae, 0x8fdf1920, 0x5f2178c3,
     0x4c9409f6, 0x53bc0020, 0xf5b5563f, 0xb880bc4b, 0x86a0765d, 0x1d2652ee, 0x8fc711d,
     0xb288bc7d, 0xa929597a, 0xe320c158, 0x56da0b3f, 0xadcbbcda, 0x76a86270, 0x6f70dde1,
     0x7727a7d5, 0x35a9e0d5, 0xd638de89, 0x2e7b4543, 0x4ea4c80f, 0x9f07c728, 0x8b9b4dae,
     0xa60ab9ce, 0xd6753386, 0x915860ae, 0xe2750328, 0xeb2b4cf6, 0x65ad71dc, 0x53577479,
     0x12b3ad31, 0x19ba4a67, 0xea1f0c52, 0x548a30f5, 0x9cd4eaf9, 0xdadbc950, 0x6dd654c,
     0xf578105, 0xe09d5faf, 0xe1902288, 0x73665bc2, 0x3a5869ec, 0x7206e458, 0x449e0b51,
     0xe42ce9c9, 0xfc8ddbea, 0x7967d36, 0x182e6d6f, 0x56655768, 0x429547e8, 0xc727bb3b,
     0xfeed5769, 0xca8ae8ba, 0xec86017a, 0x55b41fd6, 0x7a7f2a15, 0xdb7e1747, 0x9308ce1b,
     0xbb3b9804, 0x2d01b9ef, 0x682d2594, 0x5492e5ee, 0x76f36233, 0xd69b8361, 0x3dea5b03,
     0x899fe31d, 0xf257106c, 0x6c5a5b37, 0x82574ae5, 0x1b3faa88, 0x98e037bb, 0xa5a356f9,
     0x2442485e, 0xcff43f61, 0xb574b16b, 0x1edaaac2, 0xc9f81ce8, 0x316ce548, 0x60ed4229,
     0x6a0d3206, 0xcc6e0c11, 0x684d214e, 0x38df3532, 0x84be5b93, 0xa59b102f, 0x78515775,
     0x6628562c, 0x3e0bdd7c, 0x9adf82fe, 0x831a83a2, 0x32da4cf, 0x4dd3a7f6, 0xb2e8ba03,
     0xd1b4ab14, 0xabd59201, 0xe894ad4d, 0xcdd42a05, 0x1f040578, 0x56e59f9c, 0xd18b4d16,
     0xd36bf79, 0x8e48a188, 0xe5bfffcd, 0xb7e085fe, 0x2c85094c, 0x9857ad07, 0x783f6b56,
     0xa57a7dad, 0x67a3ff2c, 0x95ac5ce4, 0x2db873a9, 0x777df37a, 0x518ad0b7, 0x3e72ba19,
     0x37096c70, 0xcb9deff6, 0x8e39261e, 0xd897bc66, 0xcae47523, 0x7e960193, 0xa677244f,
     0x8d52a951, 0xaac7b717, 0x50077589, 0x87f2219b, 0x213853a3, 0xb0711d83, 0xe34c0dd6,
     0xdcd914fd, 0x9c60eb28, 0xa1b70815, 0xc2510192, 0x423ab3ad, 0xa2a5594d, 0xbf25b7f3]"

definition safe_channels_help :: "type_id list" where
  "safe_channels_help = [
     0x22567115, 0x10e6bd2c, 0x84c1fd4e, 0x33ddf480, 0xf8b036af, 0x25a71742, 0xa7f6bbb,
     0x8736a09, 0xf5dad378, 0x11e831ee, 0x8341ecc0, 0xece2a0e6, 0xad8c9a23, 0xa0ab6cc6,
     0x77ced9d0, 0xe785a43f, 0xcc104937, 0xeab5dc38, 0xf2c4f24d, 0x9738bb15, 0x41c10fff,
     0x89419521, 0xce03da83, 0xfdbcd714, 0xa663e830, 0xf87eabab, 0x93773344, 0xf831a20f,
     0xd9ba2e54, 0x2e2e8734, 0x29a8962c, 0x1013fd9e, 0x96a0e00, 0xba6705f0, 0xdaeda864,
     0x9a868f80, 0x7adc669d, 0x5dd69e12, 0x82f1e39f, 0xb6c8c393, 0xc4a353ee, 0x973478b6,
     0x2c800be5, 0x879537f1, 0x1ae373ac, 0x8af94344, 0x725afbbc, 0x5f58d0f, 0x94c65c76,
     0x8514bdda, 0xb550d328, 0x139f63fb, 0xdb9ac18d, 0x6847d0ab, 0xbe1e85ba, 0xee72f79a,
     0xf50dbaa1, 0x61e3f854, 0x522d5a7d, 0x52029342, 0xc4f9186b, 0x735787a8, 0x3fedc75f,
     0x4d392343, 0x1fb33026, 0xc661ad08, 0xda80f42f, 0xabcfa9fd, 0xb81b93d4, 0xc0977421,
     0x3dc0f114, 0x9cdf08cd, 0xd360e72c, 0x2ca51fd1, 0x49b30240, 0x38a08d3, 0x1e251c95,
     0x6f02f748, 0xcd984aa5, 0xf2f2330a, 0x6a596502, 0x42c6978f, 0xefea3803]"

definition safe_messages :: "type_id list" where
  "safe_messages = [
     0x3eadb1bb, 0x43fe19f3, 0x5dc60f03, 0xf1d0fbd3, 0xc9a47b0b, 0x7e58ee9c, 0x9dfeefb4,
     0xe58e95d2, 0xf9cbe409, 0x59ae2b16, 0x3920e6ef, 0x6a3f8d65, 0xb8a0a1a8, 0x57f17692,
     0x16fcc2cb, 0xcc5b67cc, 0xdea20a39, 0x18dea0ac, 0xdf04dd4e, 0x49e9528f, 0xe40ca104,
     0xd9ab0f54, 0x658b7188, 0xbdf93428, 0xefd48c89, 0x21202222, 0xa0f4cb4f, 0x446972fd,
     0xb1f2061f, 0xfb7e8ca7, 0x7488ce5b, 0x35a0e062, 0x1508b6af, 0x4e9963b2, 0x21a548f3,
     0x2ecd56cd, 0x1dd840f5, 0xfbfca18f, 0xd5b10c26, 0x73746f5c, 0xa2b5a3f6, 0x84f80814,
     0xb9cdc5ee, 0x4f1aaa9, 0xecf6736, 0x64780b14, 0x3ba47bff, 0xaf0a4a08, 0xaeb00b34,
     0x3b7d0ea6, 0xe822649d, 0xf635e1b, 0x640f82b8, 0xfda68d36, 0x461b3f48, 0x31c1c44f,
     0x63c66506, 0x8bba90e6, 0x5784d3e1, 0xd0b5e1fc, 0x7ed094a1, 0x6e2be050, 0x8c4bfe5d,
     0x472455aa, 0xe470bcfd, 0xefd9a6a2, 0x55fb0996, 0xd6b94df2, 0xeda3e33b, 0xb86e380e,
     0x857ebdb8, 0xd483f2a8, 0x94a495c3, 0x702a40e0, 0x39461db2, 0x9da9403b, 0x5cf09635,
     0x1cff7e08, 0x3d6ce850, 0xc8a0ec74, 0xd5a5d3a1, 0xa29cd42c, 0xbb8125ba, 0xf107e790,
     0x43286cf2, 0xbd7f90ac, 0x8c5006f8, 0xf731a9f4, 0x5b118126, 0x36a73f77, 0x1720b4d8,
     0x5a954c0, 0x55a5bb66, 0x3b1adf37, 0x5a6d7395, 0x4067c5e6, 0x2c11c0d7, 0x92b4494c,
     0x6126a43c, 0x107e31a0, 0x35705b8a, 0x29b1c66a, 0xfd2dda49, 0xa731e257, 0xe47cb579,
     0x1ad4a04a, 0xc563c1e4]"

definition safe_payments_users :: "type_id list" where
  "safe_payments_users = [
     0xc0c4edc9, 0x8e51b4c1, 0x2e79d779, 0xb7d998f0, 0x5869a553, 0xfd05dd00, 0xf4239425,
     0x37148dbb, 0x2478d1cc, 0x2757ba54, 0x7a5fa236, 0x227d824b, 0xb455a106, 0xa319e569,
     0xa5d0514d, 0x6ba2cbec, 0x5c9ff4d6, 0x981b91dd, 0x6d038b58, 0x9c9abcb1, 0xd06e93a8,
     0xc4563590, 0xd3c96bc8, 0xbd1efd3e, 0xd1d7efc5, 0xd91ffad6, 0x2433dc92, 0x4ea9b3bf,
     0x32512c5, 0xc00ec7d3, 0x69da4557, 0x2dca16b8, 0xd6b48f7, 0xa1974d72, 0x4365af6b,
     0xe9ce781c, 0x87cf7f2f, 0x91cd32a8, 0x9e82039, 0x388a3b5, 0x60f67660, 0x42f1f61, 0xbe77b4a,
     0x39854d1f, 0x778d902f, 0x10a698e8, 0xab42441a, 0xdcdf8607, 0x5f150144, 0xb6e0a3f5,
     0xc27dfa68, 0xa6437ef6, 0x374fef40, 0x621d5fa0, 0x284b3639, 0x57bbd166, 0xac806d61,
     0x25b3eac7, 0x9b5ae7f9, 0xeeb0d625, 0xa56a8b60, 0x78499170, 0x2c4ada50, 0x5821a5dc,
     0xb4352016, 0x5774ca74, 0x28e16cc8, 0xb9b2881f, 0x7ed23c57, 0xb2028afb, 0xa556dac8,
     0xd1810907, 0x7c2557c4, 0xbd0415c4, 0x3173d78, 0x19c2f763, 0xedd4882a, 0x395f69da,
     0x91dc3f31, 0x24e6818d, 0x9b2754a8, 0xb60f5918, 0xd89a83a3, 0x788d7fe3, 0x7573a4e9,
     0xd91a548]"

definition safe_requests :: "type_id list" where
  "safe_requests = safe_account_auth @ safe_channels_help @ safe_messages @ safe_payments_users"

definition service_requests :: "type_id list" where
  "service_requests = [
     0x60469778, 0xbe7e8ef1, 0xd712e4be, 0xf5045f1f, 0xd1435160, 0x58e4a740, 0xb921bd04,
     0x7abe77ec, 0xf3427b8c, 0xe7512126, 0x9299359f, 0x62d6b459, 0xda69fb52, 0x7d861a08]"

section \<open>Requests to a peer\<close>

text \<open>The fields of \<open>PeerRequestLayout\<close> in order: flags, reply flag, required reply, forbidden
  flags, reply before the peer.\<close>

definition layout :: "bool \<Rightarrow> 32 word \<Rightarrow> bool \<Rightarrow> 32 word \<Rightarrow> bool \<Rightarrow> peer_layout" where
  "layout flags replyFlag requiredReply forbiddenFlags replyBeforePeer =
     \<lparr>pl_flags = flags, pl_replyFlag = replyFlag, pl_requiredReply = requiredReply,
      pl_forbiddenFlags = forbiddenFlags, pl_replyBeforePeer = replyBeforePeer\<rparr>"

definition peer_requests_1 :: "(type_id \<times> peer_layout) list" where
  "peer_requests_1 = [
     (0x29ee847a, layout True 0 False 0 False),
     (0xe306d3a, layout False 0 False 0 False),
     (0xb08f922a, layout True 0 False 0 False),
     (0xf516760b, layout False 0 False 0 False),
     (0xbdbb0464, layout False 0 False 0 False),
     (0x22ddd30c, layout False 0 False 0 False),
     (0x1bbcf300, layout True 0 False 0 False),
     (0x6aa3f6bd, layout True 0 False 0 False),
     (0x9c7f2f10, layout True 0 False 0 False),
     (0x36e5bf4d, layout True 0 False 0 False),
     (0x9ec44f93, layout True 0 False 0 False),
     (0x4423e6c5, layout False 0 False 0 False),
     (0x501569cf, layout False 0 False 0 False),
     (0x58943ee2, layout True 0 False 0 False),
     (0xfef48f62, layout True 1 False 0 False),
     (0x330e77f, layout True 1 False 0 False),
     (0xc0cf7646, layout True 1 False 0 False),
     (0xb106e66c, layout True 0 False 0 False),
     (0x9342ca07, layout True 0 False 0 False)]"

definition peer_requests_2 :: "(type_id \<times> peer_layout) list" where
  "peer_requests_2 = [
     (0xad0fa15c, layout True 16 False 0 True),
     (0x8ef8ecc0, layout True 0 False 0 False),
     (0x14967978, layout True 0 False 1 False),
     (0xa1405817, layout False 0 True 0 False),
     (0x1bf89d74, layout True 1 False 0 False),
     (0xd2aaf7ec, layout True 0 False 0 False),
     (0x10ea6184, layout False 0 False 0 False),
     (0xbd38850a, layout False 0 False 0 False),
     (0xd30d78d4, layout True 0 False 0 False),
     (0x6c5cf2a7, layout True 0 False 0 False),
     (0x6c750de1, layout False 0 False 0 False),
     (0x58bbcb50, layout True 0 False 0 False),
     (0xd3e03124, layout False 0 False 0 False),
     (0x21a61057, layout False 0 False 0 False),
     (0x19bc4b6d, layout False 0 False 0 False),
     (0xac8505a5, layout False 0 False 0 False),
     (0x7fd736b2, layout True 0 False 0 False),
     (0x3fa464c8, layout True 0 False 0 False)]"

definition peer_requests :: "(type_id \<times> peer_layout) list" where
  "peer_requests = peer_requests_1 @ peer_requests_2"

end
