(* ===== verification/Request_Guard.thy ===== *)
theory Request_Guard
  imports Request_Tables
begin

text \<open>
  \<open>BodyAllowed\<close> and \<open>AllowlistRequestAllowed\<close> of \<open>mtproto/allowlist_request_guard.cpp\<close>: the
  decision about a whole serialized request, made before it leaves the program.
\<close>

abbreviation "mtpc_messages_requestSimpleWebView \<equiv> 0x413a3e73 :: type_id"
abbreviation "mtpc_messages_toggleBotInAttachMenu \<equiv> 0x69f59d69 :: type_id"
abbreviation "mtpc_messages_getSavedDialogs \<equiv> 0x1e91fc99 :: type_id"
abbreviation "mtpc_messages_getSavedDialogsByID \<equiv> 0x6f6f9c96 :: type_id"
abbreviation "mtpc_messages_getSavedHistory \<equiv> 0x998ab009 :: type_id"
abbreviation "mtpc_messages_deleteSavedHistory \<equiv> 0x4dc5085f :: type_id"
abbreviation "mtpc_messages_readSavedHistory \<equiv> 0xba4a3b5b :: type_id"
abbreviation "mtpc_upload_saveBigFilePart \<equiv> 0xde7b673d :: type_id"
abbreviation "mtpc_upload_getFileHashes \<equiv> 0x9156982a :: type_id"
abbreviation "mtpc_account_updateEmojiStatus \<equiv> 0xfbd3de6b :: type_id"
abbreviation "mtpc_upload_saveFilePart \<equiv> 0xb304a621 :: type_id"
abbreviation "mtpc_channels_joinChannel \<equiv> 0x7f6a1e22 :: type_id"
abbreviation "mtpc_messages_getInlineBotResults \<equiv> 0x514e999d :: type_id"
abbreviation "mtpc_invokeWithoutUpdates \<equiv> 0xbf9459b7 :: type_id"
abbreviation "mtpc_invokeAfterMsg \<equiv> 0xcb9f372d :: type_id"
abbreviation "mtpc_invokeWithLayer \<equiv> 0xda9b0d0d :: type_id"
abbreviation "mtpc_account_initTakeoutSession \<equiv> 0x8ef3eab0 :: type_id"
abbreviation "mtpc_invokeWithTakeout \<equiv> 0xaca9fd2e :: type_id"

section \<open>The switch on the request type\<close>

definition private_call_types :: "type_id list" where
  "private_call_types = [mtpc_phone_getCallConfig, mtpc_messages_getDhConfig,
     mtpc_phone_requestCall, mtpc_phone_receivedCall, mtpc_phone_acceptCall,
     mtpc_phone_confirmCall, mtpc_phone_sendSignalingData, mtpc_phone_discardCall]"

definition group_call_types :: "type_id list" where
  "group_call_types = [mtpc_phone_getGroupCall, mtpc_phone_getGroupParticipants,
     mtpc_phone_joinGroupCall, mtpc_phone_leaveGroupCall, mtpc_phone_checkGroupCall,
     mtpc_phone_editGroupCallParticipant, mtpc_phone_joinGroupCallPresentation,
     mtpc_phone_leaveGroupCallPresentation, mtpc_phone_getGroupCallStreamChannels]"

definition webview_types :: "type_id list" where
  "webview_types = [mtpc_messages_sendWebViewData, mtpc_messages_requestWebView,
     mtpc_messages_requestSimpleWebView, mtpc_messages_requestMainWebView,
     mtpc_messages_requestAppWebView, mtpc_messages_prolongWebView, mtpc_messages_getBotApp,
     mtpc_messages_getAttachMenuBot, mtpc_messages_toggleBotInAttachMenu,
     mtpc_bots_canSendMessage, mtpc_bots_allowSendMessage]"

text \<open>The saved-message requests with their parent flag.\<close>

definition saved_requests :: "(type_id \<times> 32 word) list" where
  "saved_requests = [(mtpc_messages_getSavedDialogs, 2), (mtpc_messages_getSavedDialogsByID, 2),
     (mtpc_messages_getSavedHistory, 1), (mtpc_messages_deleteSavedHistory, 1),
     (mtpc_messages_readSavedHistory, 0)]"

definition on_calls ::
  "guard_state \<Rightarrow> (call_context \<Rightarrow> call_context \<times> bool) \<Rightarrow> guard_state \<times> bool" where
  "on_calls st f =
     (case gs_calls st of
        None \<Rightarrow> (st, False)
      | Some c \<Rightarrow> (case f c of (c, ok) \<Rightarrow> (st\<lparr>gs_calls := Some c\<rparr>, ok)))"

definition on_groups ::
  "guard_state \<Rightarrow> (group_context \<Rightarrow> group_context \<times> bool) \<Rightarrow> guard_state \<times> bool" where
  "on_groups st f =
     (case gs_groups st of
        None \<Rightarrow> (st, False)
      | Some c \<Rightarrow> (case f c of (c, ok) \<Rightarrow> (st\<lparr>gs_groups := Some c\<rparr>, ok)))"

text \<open>The case of the two upload requests.\<close>

definition read_upload ::
  "guard_env \<Rightarrow> type_id \<Rightarrow> prime list \<Rightarrow> content_context \<Rightarrow> content_context \<times> bool" where
  "read_upload e type from c =
     guard_st (valid_request e type from) c
       (reads_st (read_long e) (tl from) c (\<lambda>n ws.
        reads_st (read_int e) ws c (\<lambda>part ws.
          (let store = (\<lambda>ws. reads_st (read_bytes e) ws c (\<lambda>b _. recordUploadPart n (sint part) b c))
           in if type = mtpc_upload_saveBigFilePart
              then reads_st (read_int e) ws c (\<lambda>_ ws. store ws) else store ws))))"

text \<open>The requests that are not wrappers.  The labels of the switch are distinct, so the
  order of the tests does not matter.\<close>

definition LeafAllowed ::
  "guard_env \<Rightarrow> type_id \<Rightarrow> prime list \<Rightarrow> guard_state \<Rightarrow> guard_state \<times> bool" where
  "LeafAllowed e type from st =
     (case map_of peer_requests type of
        Some lay \<Rightarrow> (st, ReadPeerAllowed e (gs_content st) type lay from)
      | None \<Rightarrow>
      if type = mtpc_messages_forwardMessages
      then (st, ReadForwardAllowed e (gs_content st) from)
      else if type \<in> set group_call_types
      then on_groups st (ReadGroupCallAllowed e type from)
      else if type = mtpc_upload_getFile \<or> type = mtpc_upload_getFileHashes
      then (case ReadGroupStreamAllowed e type from (gs_groups st) of
              (groups, ok) \<Rightarrow> (st\<lparr>gs_groups := groups\<rparr>, ok))
      else if type \<in> set private_call_types
      then on_calls st (ReadPrivateCallAllowed e type from)
      else if type = mtpc_account_updateEmojiStatus
      then (st, valid_request e type from
                \<and> reads (read_emoji_status e) (tl from) (\<lambda>status _. status = EmojiStatusEmpty))
      else if type = mtpc_upload_saveFilePart \<or> type = mtpc_upload_saveBigFilePart
      then (case gs_content st of
              None \<Rightarrow> (st, False)
            | Some c \<Rightarrow> (case read_upload e type from c of
                (c, ok) \<Rightarrow> (st\<lparr>gs_content := Some c\<rparr>, ok)))
      else (case map_of saved_requests type of
        Some parentFlag \<Rightarrow> (st, ReadSavedParentAllowed e type parentFlag from)
      | None \<Rightarrow>
      if type = mtpc_channels_joinChannel
      then (st, valid_request e type from
                \<and> reads (read_channel e) (tl from) (\<lambda>channel _.
                    ge_allows e (DestinationChannel channel)))
      else if type = mtpc_messages_startBot then (st, ReadBotAllowed e type False True from)
      else if type = mtpc_messages_getInlineBotResults
      then (st, ReadBotAllowed e type True True from)
      else if type \<in> set webview_types then (st, ReadWebViewAllowed e type from)
      else (st, type \<in> set safe_requests \<or> type \<in> set service_requests)))"

text \<open>How many primes a wrapper puts before the request it wraps.\<close>

definition wrapper_primes :: "type_id \<Rightarrow> nat option" where
  "wrapper_primes type =
     (if type = mtpc_invokeWithoutUpdates then Some 1
      else if type = mtpc_invokeAfterMsg then Some 3
      else if type = mtpc_invokeWithLayer then Some 2
      else None)"

text \<open>\<open>BodyAllowed\<close>; \<open>invokeWithTakeout\<close> and \<open>account.initTakeoutSession\<close> are refused.  A wrapper
  with nothing inside is refused by the inner call, which sees an empty request.\<close>

function BodyAllowed ::
  "guard_env \<Rightarrow> nat \<Rightarrow> prime list \<Rightarrow> guard_state \<Rightarrow> guard_state \<times> bool" where
  "BodyAllowed e depth from st =
     (case from of
        [] \<Rightarrow> (st, False)
      | type # _ \<Rightarrow>
          if 8 < depth then (st, False)
          else if type = mtpc_account_initTakeoutSession \<or> type = mtpc_invokeWithTakeout
          then (st, False)
          else case wrapper_primes type of
            Some n \<Rightarrow>
              if n < length from then BodyAllowed e (depth + 1) (drop n from) st else (st, False)
          | None \<Rightarrow> LeafAllowed e type from st)"
  by pat_completeness auto

termination BodyAllowed
  by (relation "measure (\<lambda>(e, depth, from, st). length from)")
     (auto simp: wrapper_primes_def split: if_splits)

declare BodyAllowed.simps [simp del]

section \<open>A serialized request\<close>

definition kMessageLengthPosition :: nat where "kMessageLengthPosition = 7"
definition kMessageBodyPosition :: nat where "kMessageBodyPosition = 8"

definition conversation_allowed :: "bare_id \<Rightarrow> (peer_id \<Rightarrow> bool) \<Rightarrow> peer_id \<Rightarrow> bool" where
  "conversation_allowed self allows peer \<longleftrightarrow> peer \<noteq> 0 \<and> peer \<noteq> peerFromUser self \<and> allows peer"

text \<open>\<open>size\<close> counts the bytes of the body; it is a signed prime.\<close>

definition AllowlistRequestAllowed ::
  "guard_env \<Rightarrow> prime list option \<Rightarrow> guard_state \<Rightarrow> guard_state \<times> bool" where
  "AllowlistRequestAllowed e request st =
     (case request of
        None \<Rightarrow> (st, False)
      | Some request \<Rightarrow>
          if length request \<le> kMessageBodyPosition then (st, False)
          else let size = sint (request ! kMessageLengthPosition)
            in if size \<le> 0 \<or> size mod 4 \<noteq> 0
                  \<or> size div 4 \<noteq> int (length request) - int kMessageBodyPosition
               then (st, False)
               else BodyAllowed (e\<lparr>ge_allows := conversation_allowed (ge_self e) (ge_allows e)\<rparr>) 0
                 (drop kMessageBodyPosition request) st)"

end
