(* ===== verification/Content_History.thy ===== *)
theory Content_History
  imports Content_Guard
begin

text \<open>
  What the content context knows is a function of the history of its operations: a
  message is allowed exactly when the last message recorded under its key was clean,
  and an upload exactly when all its parts went through with a harmless first part.
\<close>

section \<open>Histories\<close>

datatype content_op =
    RecordDocument "64 word" qstring "document_attribute list"
  | RecordMessage bool mtp_message
  | ForgetMessage peer_id int bool
  | UploadPart "64 word" int bytes

fun content_step :: "text_ops \<Rightarrow> content_op \<Rightarrow> content_context \<Rightarrow> content_context" where
  "content_step tx (RecordDocument n mime attributes) c = recordDocument tx n mime attributes c"
| "content_step tx (RecordMessage scheduled m) c = recordMessage tx scheduled m c"
| "content_step tx (ForgetMessage peer n scheduled) c = forgetMessage peer n scheduled c"
| "content_step tx (UploadPart n part b) c = fst (recordUploadPart n part b c)"

definition content_after ::
  "text_ops \<Rightarrow> (64 word \<Rightarrow> bytes) option \<Rightarrow> content_op list \<Rightarrow> content_context" where
  "content_after tx resolve ops = fold (content_step tx) ops (new_content resolve)"

lemma content_after_Nil [simp]: "content_after tx resolve [] = new_content resolve"
  by (simp add: content_after_def)

lemma content_after_snoc [simp]:
  "content_after tx resolve (ops @ [p]) = content_step tx p (content_after tx resolve ops)"
  by (simp add: content_after_def)

section \<open>Messages\<close>

text \<open>The last message recorded under a key and not forgotten since.\<close>

fun track_message ::
  "peer_id \<times> int \<Rightarrow> content_op \<Rightarrow> mtp_message option \<Rightarrow> mtp_message option" where
  "track_message key (RecordMessage scheduled m) old =
     (if 0 < mm_id m \<and> key = (peerFromMTP (mm_peer m), message_key scheduled (mm_id m))
      then Some m else old)"
| "track_message key (ForgetMessage peer n scheduled) old =
     (if 0 < n \<and> key = (peer, message_key scheduled n) then None else old)"
| "track_message key _ old = old"

definition last_message :: "content_op list \<Rightarrow> peer_id \<times> int \<Rightarrow> mtp_message option" where
  "last_message ops key = fold (track_message key) ops None"

lemma last_message_snoc [simp]:
  "last_message (ops @ [p]) key = track_message key p (last_message ops key)"
  "last_message [] key = None"
  by (simp_all add: last_message_def)

definition clean_head :: "text_ops \<Rightarrow> mtp_message \<Rightarrow> bool" where
  "clean_head tx m \<longleftrightarrow>
     TextAllowed tx (mm_message m) \<and> \<not> mm_rich m \<and> \<not> mm_effect m \<and> \<not> mm_markup m
     \<and> pred_option (EntitiesAllowed tx) (mm_entities m)"

definition clean_media :: "text_ops \<Rightarrow> message_media \<Rightarrow> bool" where
  "clean_media tx media =
     (case media of
        MessageMediaEmpty \<Rightarrow> True
      | MessageMediaPhoto video \<Rightarrow> \<not> video
      | MessageMediaDocument (Some (MtpDocument n mime attributes)) alt \<Rightarrow>
          AllowlistDocumentContentAllowed tx (tx_fromUtf8 tx mime) attributes \<and> \<not> alt
      | _ \<Rightarrow> False)"

definition clean_message :: "text_ops \<Rightarrow> mtp_message \<Rightarrow> bool" where
  "clean_message tx m \<longleftrightarrow> clean_head tx m \<and> pred_option (clean_media tx) (mm_media m)"

definition attached_document :: "text_ops \<Rightarrow> mtp_message \<Rightarrow> 64 word option" where
  "attached_document tx m =
     (case mm_media m of
        Some (MessageMediaDocument (Some (MtpDocument n mime attributes)) alt) \<Rightarrow>
          if clean_head tx m then Some n else None
      | _ \<Rightarrow> None)"

lemma message_media_allowed_effect:
  "message_media_allowed tx key media c = (c', ok) \<Longrightarrow>
     ok = clean_media tx media \<and> cc_messages c' = cc_messages c
     \<and> cc_messageDocuments c' =
         (case media of
            MessageMediaDocument (Some (MtpDocument n mime attributes)) alt \<Rightarrow>
              (cc_messageDocuments c)(key \<mapsto> n)
          | _ \<Rightarrow> cc_messageDocuments c)
     \<and> cc_uploads c' = cc_uploads c \<and> cc_resolveDocument c' = cc_resolveDocument c"
  by (auto simp: message_media_allowed_def message_document_def clean_media_def
      recordDocument_def Let_def split: message_media.splits option.splits mtp_document.splits)

lemma recordMessage_effect:
  assumes "0 < mm_id m" and key: "key = (peerFromMTP (mm_peer m), message_key scheduled (mm_id m))"
  shows "cc_messages (recordMessage tx scheduled m c) = (cc_messages c)(key \<mapsto> clean_message tx m)"
    and "cc_messageDocuments (recordMessage tx scheduled m c)
      = (cc_messageDocuments c)(key := attached_document tx m)"
proof -
  let ?c = "c\<lparr>cc_messageDocuments := (cc_messageDocuments c)(key := None)\<rparr>"
  have head: "(TextAllowed tx (mm_message m) \<and> \<not> mm_rich m \<and> \<not> mm_effect m \<and> \<not> mm_markup m
    \<and> pred_option (EntitiesAllowed tx) (mm_entities m)) = clean_head tx m"
    by (simp add: clean_head_def)
  have eff: "recordMessage tx scheduled m c =
    (let (c, ok) = (case mm_media m of
                   None \<Rightarrow> (?c, clean_head tx m)
                 | Some media \<Rightarrow>
                     if clean_head tx m then message_media_allowed tx key media ?c else (?c, False))
     in c\<lparr>cc_messages := (cc_messages c)(key \<mapsto> ok)\<rparr>)"
    using assms(1) unfolding recordMessage_def key [symmetric] Let_def head by simp
  show "cc_messages (recordMessage tx scheduled m c) = (cc_messages c)(key \<mapsto> clean_message tx m)"
    unfolding eff
    by (auto simp: clean_message_def split: option.split prod.split
        dest!: message_media_allowed_effect)
  show "cc_messageDocuments (recordMessage tx scheduled m c)
      = (cc_messageDocuments c)(key := attached_document tx m)"
    unfolding eff
    by (auto simp: attached_document_def fun_eq_iff split: option.split prod.split
        message_media.splits mtp_document.splits dest!: message_media_allowed_effect)
qed

lemma other_steps_messages:
  "cc_messages (recordDocument tx n mime attributes c) = cc_messages c"
  "cc_messageDocuments (recordDocument tx n mime attributes c) = cc_messageDocuments c"
  "cc_messages (fst (recordUploadPart n' part b c)) = cc_messages c"
  "cc_messageDocuments (fst (recordUploadPart n' part b c)) = cc_messageDocuments c"
  by (simp_all add: recordDocument_def recordUploadPart_def Let_def)

lemma content_messages:
  "cc_messages (content_after tx resolve ops) key = map_option (clean_message tx) (last_message ops key)
   \<and> cc_messageDocuments (content_after tx resolve ops) key
      = Option.bind (last_message ops key) (attached_document tx)"
proof (induction ops rule: rev_induct)
  case Nil
  then show ?case by (simp add: new_content_def)
next
  case (snoc p ops)
  show ?case
  proof (cases p)
    case (RecordMessage scheduled m)
    show ?thesis
    proof (cases "0 < mm_id m")
      case True
      then show ?thesis using snoc by (auto simp: RecordMessage recordMessage_effect [OF _ refl])
    next
      case False
      then show ?thesis using snoc by (simp add: RecordMessage recordMessage_def)
    qed
  next
    case (ForgetMessage peer n scheduled)
    then show ?thesis using snoc by (auto simp: forgetMessage_def)
  qed (use snoc in \<open>simp_all add: other_steps_messages\<close>)
qed

text \<open>C23: a message may be forwarded or edited exactly when the message last recorded
  under its identifier, and not forgotten since, is clean, and the document attached to
  it is known, allowed and resolves to harmless bytes.\<close>

theorem messageAllowed_iff:
  "messageAllowed (content_after tx resolve ops) peer n scheduled \<longleftrightarrow>
     0 < n \<and> (\<exists>m. last_message ops (peer, message_key scheduled n) = Some m \<and> clean_message tx m
       \<and> pred_option (documentContentAllowed (content_after tx resolve ops)) (attached_document tx m))"
  by (auto simp: messageAllowed_def content_messages)

section \<open>Uploads\<close>

text \<open>The bytes of the last accepted first part of an upload.\<close>

fun track_head :: "64 word \<Rightarrow> content_op \<Rightarrow> bytes option \<Rightarrow> bytes option" where
  "track_head n (UploadPart n' part b) old =
     (if n' = n \<and> n \<noteq> 0 \<and> part = 0 \<and> b \<noteq> [] then Some b else old)"
| "track_head n _ old = old"

definition last_head :: "content_op list \<Rightarrow> 64 word \<Rightarrow> bytes option" where
  "last_head ops n = fold (track_head n) ops None"

lemma last_head_snoc [simp]:
  "last_head (ops @ [p]) n = track_head n p (last_head ops n)"
  "last_head [] n = None"
  by (simp_all add: last_head_def)

definition proof_ok :: "content_op list \<Rightarrow> 64 word \<Rightarrow> upload_proof \<Rightarrow> bool" where
  "proof_ok ops n p \<longleftrightarrow>
     ordered_set (up_parts p)
     \<and> (\<forall>k \<in> set (up_parts p). 0 \<le> k \<and> k < 16384 \<and> (\<exists>b. b \<noteq> [] \<and> UploadPart n k b \<in> set ops))
     \<and> (up_allowed p \<longrightarrow> (\<exists>b. last_head ops n = Some b \<and> AllowlistUploadPrefixAllowed b
          \<and> up_firstPartSize p = length b))"

lemma recordMessage_uploads: "cc_uploads (recordMessage tx scheduled m c) = cc_uploads c"
  by (auto simp: recordMessage_def Let_def split: option.split prod.split if_splits
      dest!: message_media_allowed_effect)

lemma proof_ok_mono:
  "proof_ok ops n p \<Longrightarrow> track_head n q (last_head ops n) = last_head ops n \<Longrightarrow>
     proof_ok (ops @ [q]) n p"
  by (auto simp: proof_ok_def)

lemma proof_ok_part:
  assumes old: "\<forall>p. cc_uploads c n = Some p \<longrightarrow> proof_ok ops n p"
    and new: "cc_uploads (fst (recordUploadPart n' part b c)) n = Some p"
  shows "proof_ok (ops @ [UploadPart n' part b]) n p"
proof (cases "n' = n \<and> \<not> (n = 0 \<or> part < 0 \<or> 16384 \<le> part \<or> b = [])")
  case False
  then have "cc_uploads c n = Some p"
    using new by (auto simp: recordUploadPart_def Let_def split: if_splits)
  moreover from False have "track_head n (UploadPart n' part b) (last_head ops n) = last_head ops n"
    by auto
  ultimately show ?thesis using old by (blast intro: proof_ok_mono)
next
  case True
  define q where "q = (case cc_uploads c n of None \<Rightarrow> new_proof | Some p \<Rightarrow> p)"
  have q: "proof_ok ops n q"
    using old by (auto simp: q_def proof_ok_def new_proof_def split: option.split)
  define r where "r = (if part = 0 then q\<lparr>up_allowed := AllowlistUploadPrefixAllowed b,
    up_firstPartSize := length b\<rparr> else q)"
  have p: "p = (if up_allowed r then r\<lparr>up_parts := insort_insert part (up_parts r)\<rparr> else r)"
    using True new by (simp add: recordUploadPart_def Let_def q_def [symmetric] r_def [symmetric]
        split: if_splits)
  have r: "proof_ok (ops @ [UploadPart n' part b]) n r"
    using q True by (auto simp: proof_ok_def r_def)
  show ?thesis
    using r True by (auto simp: p proof_ok_def)
qed

lemma content_uploads:
  "cc_uploads (content_after tx resolve ops) n = Some p \<Longrightarrow> proof_ok ops n p"
proof (induction ops arbitrary: p rule: rev_induct)
  case Nil
  then show ?case by (simp add: new_content_def)
next
  case (snoc q ops)
  show ?case
  proof (cases q)
    case (UploadPart n' part b)
    show ?thesis
      using snoc.prems unfolding UploadPart
      by (intro proof_ok_part) (use snoc.IH in simp_all)
  qed (use snoc in \<open>auto simp: recordDocument_def recordMessage_uploads forgetMessage_def
    intro!: proof_ok_mono split: if_splits\<close>)
qed

text \<open>Sorted distinct part numbers from 0 to \<open>parts - 1\<close>, as many as there are parts, are
  all of them.\<close>

lemma all_parts:
  assumes "ordered_set (xs :: int list)" "int (length xs) = n" "0 < n" "hd xs = 0" "last xs = n - 1"
  shows "set xs = {0..<n}"
proof -
  have xs: "sorted xs" "distinct xs" "xs \<noteq> []"
    using assms(1-3) by (auto simp: ordered_set_iff)
  have "set xs \<subseteq> {0..<n}"
  proof
    fix x assume "x \<in> set xs"
    then have "hd xs \<le> x \<and> x \<le> last xs"
      using xs by (induction xs rule: induct_list012) (auto simp: last_ConsR)
    then show "x \<in> {0..<n}" using assms by simp
  qed
  moreover have "card (set xs) = card {0..<n}"
    using xs(2) assms(2,3) by (simp add: distinct_card)
  ultimately show ?thesis by (simp add: card_subset_eq)
qed



section \<open>Outgoing media\<close>

text \<open>The texts a media object carries to the other side, with those of nested media.\<close>

fun media_texts :: "input_media \<Rightarrow> bytes list" where
  "media_texts (InputMediaContact phone first_name last_name vcard) = [phone, first_name, last_name, vcard]"
| "media_texts (InputMediaVenue title address) = [title, address]"
| "media_texts (InputMediaDocument _ (Some query)) = [query]"
| "media_texts (InputMediaUploadedPhoto (InputFile _ _ name) _ _) = [name]"
| "media_texts (InputMediaUploadedDocument (InputFile _ _ name) _ _ _ attributes) =
     name # concat (map (\<lambda>a. case a of AttributeFilename n \<Rightarrow> [n] | _ \<Rightarrow> []) attributes)"
| "media_texts (InputMediaPaidMedia nested) = concat (map media_texts nested)"
| "media_texts _ = []"

lemma attributes_texts:
  "AllowlistDocumentContentAllowed tx mime attributes \<Longrightarrow> AttributeFilename n \<in> set attributes \<Longrightarrow>
     TextAllowed tx n"
  by (auto simp: AllowlistDocumentContentAllowed_def Let_def list_all_iff attribute_allowed_def
      split: if_splits)

text \<open>no text of an allowed media object, at any depth of paid media, contains an emoji
  or is other than what its UTF-8 bytes decode to.\<close>

theorem media_texts_allowed:
  "MediaAllowed tx content media \<Longrightarrow> t \<in> set (media_texts media) \<Longrightarrow>
     tx_toUtf8 tx (tx_fromUtf8 tx t) = t \<and> \<not> ContainsEmoji (tx_toUcs4 tx (tx_fromUtf8 tx t))"
proof -
  have "TextAllowed tx t" if "MediaAllowed tx content media" "t \<in> set (media_texts media)" for media
    using that
  proof (induction media rule: media_texts.induct)
    case (5 n parts name b1 b2 mime attributes)
    then show ?case
      by (auto simp: uploadAllowed_def upload_check_def split: option.splits document_attribute.splits
          intro: attributes_texts)
  next
    case (6 nested)
    then show ?case by (auto simp: list_all_iff)
  qed (auto simp: uploadAllowed_def upload_check_def split: option.splits)
  then show "MediaAllowed tx content media \<Longrightarrow> t \<in> set (media_texts media) \<Longrightarrow>
      tx_toUtf8 tx (tx_fromUtf8 tx t) = t \<and> \<not> ContainsEmoji (tx_toUcs4 tx (tx_fromUtf8 tx t))"
    by (auto simp: TextAllowed_def Let_def)
qed

theorem media_texts_allowed_witness:
  "\<not> ContainsEmoji (tx_toUcs4 ascii_ops (tx_fromUtf8 ascii_ops ''Main St''))"
proof -
  have "MediaAllowed ascii_ops None (InputMediaPaidMedia [InputMediaVenue ''Home'' ''Main St''])"
    by (simp add: ascii_text_allowed)
  from media_texts_allowed [OF this, of "''Main St''"] show ?thesis by simp
qed

end
