(* ===== verification/Call_Lifecycle.thy ===== *)
theory Call_Lifecycle
  imports Call_Guard
begin

text \<open>
  The life of a one-to-one call: the invariant of the context, what each request needs,
  the order in which a call becomes active, and that a revoked call stays closed.
\<close>

abbreviation proof_at :: "call_context \<Rightarrow> 64 word \<Rightarrow> call_proof option" where
  "proof_at c \<equiv> map_of (ct_proofs c)"

section \<open>Closing some proofs\<close>

text \<open>What a permission check may change: the phase of some proofs becomes \<open>Closing\<close>.\<close>

definition closed_some :: "('k \<Rightarrow> call_proof option) \<Rightarrow> ('k \<Rightarrow> call_proof option) \<Rightarrow> bool" where
  "closed_some m m' \<longleftrightarrow>
     (\<forall>t. m' t = m t \<or> (\<exists>p. m t = Some p \<and> m' t = Some (p\<lparr>pf_phase := Closing\<rparr>)))"

definition closings :: "call_context \<Rightarrow> call_context \<Rightarrow> bool" where
  "closings c c' \<longleftrightarrow>
     ct_self c' = ct_self c \<and> ct_nextToken c' = ct_nextToken c \<and> ct_usedIds c' = ct_usedIds c
     \<and> (map_ok (ct_proofs c) \<longrightarrow>
          map_ok (ct_proofs c') \<and> closed_some (proof_at c) (proof_at c'))"

lemma closed_some_trans: "closed_some m m' \<Longrightarrow> closed_some m' m'' \<Longrightarrow> closed_some m m''"
proof (unfold closed_some_def, rule allI)
  fix t
  assume "\<forall>t. m' t = m t \<or> (\<exists>p. m t = Some p \<and> m' t = Some (p\<lparr>pf_phase := Closing\<rparr>))"
    and "\<forall>t. m'' t = m' t \<or> (\<exists>p. m' t = Some p \<and> m'' t = Some (p\<lparr>pf_phase := Closing\<rparr>))"
  from this [THEN spec, of t] show "m'' t = m t \<or> (\<exists>p. m t = Some p \<and> m'' t = Some (p\<lparr>pf_phase := Closing\<rparr>))"
    by (cases "m t") auto
qed

lemma closings_refl [simp, intro]: "closings c c"
  by (simp add: closings_def closed_some_def)

lemma closings_trans: "closings a b \<Longrightarrow> closings b c \<Longrightarrow> closings a c"
  by (auto simp: closings_def intro: closed_some_trans)

lemma closings_at:
  assumes "closings c c'" "map_ok (ct_proofs c)" "proof_at c' t = Some q"
  obtains p where "proof_at c t = Some p" "q = p \<or> q = p\<lparr>pf_phase := Closing\<rparr>"
  using assms by (force simp: closings_def closed_some_def)

lemma authorized_at:
  assumes "map_ok (ct_proofs c)"
  shows "proof_at (fst (authorized e t c)) =
      (proof_at c)(t := map_option (\<lambda>p. closed_unless (e (pf_peer p)) p) (proof_at c t))"
    and "snd (authorized e t c) \<longleftrightarrow>
      (\<exists>p. proof_at c t = Some p \<and> e (pf_peer p) \<and> pf_phase p \<noteq> Closing)"
    and "closings c (fst (authorized e t c))"
  using assms
  by (auto simp: authorized_def set_proof_def Let_def closed_unless_def closings_def
      closed_some_def fun_eq_iff split: option.splits)

lemma closings_scan_authorized:
  "map_ok (ct_proofs c) \<Longrightarrow> closings c (fst (scan_authorized e wanted ps c))"
proof (induction ps arbitrary: c)
  case Nil
  then show ?case by simp
next
  case (Cons tp ps)
  obtain t p where tp: "tp = (t, p)" by (cases tp)
  note a = authorized_at(3) [OF Cons.prems, of e t]
  then have ok: "map_ok (ct_proofs (fst (authorized e t c)))"
    using Cons.prems by (simp add: closings_def)
  show ?case
    using Cons.IH [OF Cons.prems] closings_trans [OF a Cons.IH [OF ok]] a
    by (cases "authorized e t c") (simp add: tp split: bool.split)
qed

lemma closings_scan_request:
  "map_ok (ct_proofs c) \<Longrightarrow> closings c (fst (scan_request e type n hash ps c))"
  using authorized_at(3) [of c e]
  by (induction ps) (auto split: prod.split bool.split, (metis fst_conv)+)

section \<open>The invariant\<close>

definition proof_inv :: "call_context \<Rightarrow> call_proof \<Rightarrow> bool" where
  "proof_inv c p \<longleftrightarrow>
     pf_peer p \<noteq> 0 \<and> pf_peer p \<noteq> ct_self c
     \<and> (pf_id p \<noteq> 0 \<longrightarrow> pf_hash p \<noteq> 0 \<and> pf_id p \<in> set (ct_usedIds c))
     \<and> (pf_phase p = Exchanging \<or> pf_phase p = Active \<longrightarrow> pf_id p \<noteq> 0)"

definition unique_ids :: "('k \<Rightarrow> call_proof option) \<Rightarrow> bool" where
  "unique_ids m \<longleftrightarrow> (\<forall>t t' p p'. m t = Some p \<longrightarrow> m t' = Some p' \<longrightarrow>
     pf_id p = pf_id p' \<longrightarrow> pf_id p \<noteq> 0 \<longrightarrow> t = t')"

lemma unique_ids_upd:
  assumes "unique_ids m" "\<And>t' p. m t' = Some p \<Longrightarrow> t' \<noteq> t \<Longrightarrow> pf_id q \<noteq> 0 \<Longrightarrow> pf_id q \<noteq> pf_id p"
  shows "unique_ids (m(t \<mapsto> q))"
  using assms unfolding unique_ids_def by (simp split: if_splits) metis

lemma unique_ids_same:
  "unique_ids m \<Longrightarrow> m t = Some p \<Longrightarrow> pf_id q = pf_id p \<Longrightarrow> unique_ids (m(t \<mapsto> q))"
  by (rule unique_ids_upd) (auto simp: unique_ids_def)

lemma unique_ids_remove: "unique_ids m \<Longrightarrow> unique_ids (m(t := None))"
  by (simp add: unique_ids_def)

definition call_inv :: "call_context \<Rightarrow> bool" where
  "call_inv c \<longleftrightarrow>
     map_ok (ct_proofs c) \<and> ordered_set (ct_usedIds c) \<and> unique_ids (proof_at c)
     \<and> (\<forall>t p. proof_at c t = Some p \<longrightarrow> proof_inv c p)"

lemma call_invD:
  assumes "call_inv c"
  shows "map_ok (ct_proofs c)" and "proof_at c t = Some p \<Longrightarrow> proof_inv c p"
    and "proof_at c t = Some p \<Longrightarrow> proof_at c t' = Some p' \<Longrightarrow> pf_id p = pf_id p' \<Longrightarrow>
      pf_id p \<noteq> 0 \<Longrightarrow> t = t'"
    and "unique_ids (proof_at c)" and "ordered_set (ct_usedIds c)"
  using assms unfolding call_inv_def unique_ids_def by blast+

lemma call_inv_closings:
  assumes inv: "call_inv c" and cl: "closings c c'"
  shows "call_inv c'"
proof -
  note ok = call_invD(1) [OF inv]
  have old: "\<exists>p. proof_at c t = Some p \<and> (q = p \<or> q = p\<lparr>pf_phase := Closing\<rparr>)"
    if "proof_at c' t = Some q" for t q
    using closings_at [OF cl ok that] by blast
  have "proof_inv c' q" if "proof_at c' t = Some q" for t q
    using old [OF that] call_invD(2) [OF inv, of t] cl by (auto simp: proof_inv_def closings_def)
  moreover have "t = t'"
    if "proof_at c' t = Some q" "proof_at c' t' = Some q'" "pf_id q = pf_id q'" "pf_id q \<noteq> 0"
    for t t' q q'
    using old [OF that(1)] old [OF that(2)] that(3,4) call_invD(3) [OF inv, of t _ t'] by auto
  moreover have "map_ok (ct_proofs c')" "ordered_set (ct_usedIds c')"
    using cl ok inv by (simp_all add: closings_def call_inv_def)
  ultimately show ?thesis unfolding call_inv_def unique_ids_def by blast
qed

lemma call_inv_set_phase:
  assumes inv: "call_inv c" and t: "proof_at c t = Some p"
    and ph: "ph = Exchanging \<or> ph = Active \<longrightarrow> pf_id p \<noteq> 0"
  shows "call_inv (set_proof t (p\<lparr>pf_phase := ph\<rparr>) c)"
proof -
  have "unique_ids ((proof_at c)(t \<mapsto> p\<lparr>pf_phase := ph\<rparr>))"
    by (rule unique_ids_same [OF call_invD(4) [OF inv] t]) simp
  with assms show ?thesis
    by (auto simp: call_inv_def set_proof_def proof_inv_def split: if_splits)
qed

text \<open>Binding a call writes a new identifier into one proof.\<close>

lemma call_bind_cases:
  obtains (stop) "call_bind e t call c = (c, False)"
  | (bound) p data where "proof_at c t = Some p" "pf_id p = 0"
      "bindable (pf_outgoing p) call = Some data"
      "call_matches (ct_self c) p call" "cd_id data \<notin> set (ct_usedIds c)"
      "call_bind e t call c = (set_proof t (closed_unless (e (pf_peer p))
         (p\<lparr>pf_id := cd_id data, pf_hash := cd_access_hash data\<rparr>))
         (c\<lparr>ct_usedIds := insort_insert (cd_id data) (ct_usedIds c)\<rparr>), True)"
proof (cases "snd (call_bind e t call c)")
  case True
  then show ?thesis by (auto simp: call_bind_def split: option.splits if_splits intro!: bound)
next
  case False
  then have "call_bind e t call c = (c, False)"
    by (auto simp: call_bind_def split: option.splits if_splits)
  then show ?thesis by (rule stop)
qed

lemma bindable_matches:
  "bindable out call = Some data \<Longrightarrow> call_matches self p call \<Longrightarrow>
     cd_id data \<noteq> 0 \<and> cd_access_hash data \<noteq> 0"
  by (cases out; cases call; simp add: call_matches_def match_common_def)

lemma call_inv_bind:
  assumes inv: "call_inv c"
  shows "call_inv (fst (call_bind e t call c))"
proof (cases e t call c rule: call_bind_cases)
  case stop
  with inv show ?thesis by simp
next
  case (bound p data)
  let ?q = "closed_unless (e (pf_peer p)) (p\<lparr>pf_id := cd_id data, pf_hash := cd_access_hash data\<rparr>)"
  note data = bindable_matches [OF bound(3,4)]
  have q: "pf_id ?q = cd_id data" by (simp add: closed_unless_def)
  have new: "cd_id data \<noteq> pf_id p'" if "proof_at c t' = Some p'" for t' p'
    using call_invD(2) [OF inv that] bound(5) data by (auto simp: proof_inv_def)
  have uni: "unique_ids ((proof_at c)(t \<mapsto> ?q))"
    by (rule unique_ids_upd [OF call_invD(4) [OF inv]]) (simp add: q new)
  have pinv: "proof_inv c p" by (rule call_invD(2) [OF inv bound(1)])
  show ?thesis
    using inv data pinv bound(2) uni
    by (auto simp: bound(6) call_inv_def set_proof_def closed_unless_def proof_inv_def split: if_splits)
qed

lemma call_inv_begin:
  assumes inv: "call_inv c"
  shows "call_inv (fst (call_begin e peer outgoing c))"
proof -
  let ?t = "ct_nextToken c + 1"
  let ?p = "\<lparr>pf_peer = peer, pf_id = 0, pf_hash = 0, pf_phase = Pending, pf_outgoing = outgoing\<rparr>"
  have "unique_ids ((proof_at c)(?t \<mapsto> ?p))"
    by (rule unique_ids_upd [OF call_invD(4) [OF inv]]) simp
  with inv show ?thesis
    by (auto simp: call_begin_def Let_def call_inv_def proof_inv_def map_of_emplace_fun
        split: if_splits)
qed

lemma call_inv_forget: "call_inv c \<Longrightarrow> call_inv (call_forget t c)"
  by (auto simp: call_forget_def call_inv_def proof_inv_def unique_ids_remove split: if_splits)

lemma call_inv_close: "call_inv c \<Longrightarrow> call_inv (call_close t c)"
  by (auto simp: call_close_def intro: call_inv_set_phase split: option.split)

lemma authorized_True:
  assumes "call_inv c" "authorized e t c = (c', True)"
  obtains p where "proof_at c t = Some p" "e (pf_peer p)" "pf_phase p \<noteq> Closing"
    "proof_at c' = proof_at c" "call_inv c'"
proof -
  note a = authorized_at [OF call_invD(1) [OF assms(1)], of e t, unfolded assms(2) fst_conv snd_conv]
  from a(2) obtain p where p: "proof_at c t = Some p" "e (pf_peer p)" "pf_phase p \<noteq> Closing" by auto
  with a(1) have "proof_at c' = proof_at c" by (auto simp: closed_unless_def fun_eq_iff)
  with p show ?thesis using call_inv_closings [OF assms(1) a(3)] that by blast
qed

lemma authorized_inv: "call_inv c \<Longrightarrow> call_inv (fst (authorized e t c))"
  by (rule call_inv_closings [OF _ authorized_at(3)]) (simp_all add: call_invD)

lemma call_inv_exchange:
  assumes inv: "call_inv c"
  shows "call_inv (fst (call_exchange e t c))" and "call_inv (fst (call_activate e t c))"
proof -
  obtain c' r where a: "authorized e t c = (c', r)" by (cases "authorized e t c")
  have inv': "call_inv c'" using authorized_inv [OF inv, of e t] by (simp add: a)
  have p: "\<exists>p. proof_at c' t = Some p \<and> (pf_phase p = Exchanging \<longrightarrow> pf_id p \<noteq> 0)" if r
  proof -
    from that a have "authorized e t c = (c', True)" by simp
    from authorized_True [OF inv this] obtain p where "proof_at c' t = Some p" by metis
    moreover from call_invD(2) [OF inv' this] have "pf_phase p = Exchanging \<longrightarrow> pf_id p \<noteq> 0"
      by (simp add: proof_inv_def)
    ultimately show ?thesis by blast
  qed
  show "call_inv (fst (call_exchange e t c))" "call_inv (fst (call_activate e t c))"
    using inv' p by (cases r; auto simp: call_exchange_def call_activate_def a Let_def
        intro!: call_inv_set_phase)+
qed

lemma checks_closings:
  assumes "map_ok (ct_proofs c)"
  shows "closings c (fst (call_validate e t call c))"
    and "closings c (fst (bootstrapAllowed e self c))"
    and "closings c (fst (outgoingAllowed e self peer c))"
    and "closings c (fst (call_requestAllowed e self type n hash c))"
  using assms
  by (auto simp: call_validate_def bootstrapAllowed_def outgoingAllowed_def call_requestAllowed_def
      authorized_at(3) closings_scan_authorized closings_scan_request
      split: option.split phone_call.split)

lemma call_inv_step: "call_inv c \<Longrightarrow> call_inv (call_step p c)"
  by (cases p) (simp_all add: call_inv_begin call_inv_bind authorized_inv call_inv_exchange
      call_inv_close call_inv_forget call_inv_closings checks_closings call_invD(1))

definition calls_after :: "bare_id \<Rightarrow> call_op list \<Rightarrow> call_context" where
  "calls_after self ops = fold call_step ops (new_calls self)"

lemma calls_after_snoc [simp]:
  "calls_after self (ops @ [p]) = call_step p (calls_after self ops)"
  "calls_after self [] = new_calls self"
  by (simp_all add: calls_after_def)

lemma call_inv_new: "call_inv (new_calls self)"
  by (simp add: call_inv_def new_calls_def unique_ids_def)

lemma calls_after_inv: "call_inv (calls_after self ops)"
  by (induction ops rule: rev_induct) (simp_all add: call_inv_step call_inv_new)

text \<open>C36: whatever the order of operations, the context is well-formed: no two proofs
  share a server call, a call id is never reused, a proof concerns another user, and
  only a bound proof exchanges keys or is active.\<close>

theorem calls_reachable_inv: "call_inv (calls_after self ops)"
  by (rule calls_after_inv)

section \<open>What a request needs\<close>

lemma scan_request_result:
  assumes "map_ok (ct_proofs c)" "set ps \<subseteq> set (ct_proofs c)"
  shows "snd (scan_request e type n hash ps c) \<longleftrightarrow>
    (case find (\<lambda>tp. pf_id (snd tp) = n \<and> pf_hash (snd tp) = hash) ps of
       None \<Rightarrow> False
     | Some tp \<Rightarrow> type = mtpc_phone_discardCall
         \<or> e (pf_peer (snd tp)) \<and> pf_phase (snd tp) \<noteq> Closing \<and> phase_allows type (snd tp))"
  using assms(2)
proof (induction ps)
  case Nil
  then show ?case by simp
next
  case (Cons tp ps)
  obtain t p where tp: "tp = (t, p)" by (cases tp)
  have at: "proof_at c t = Some p"
    using Cons.prems by (simp add: tp map_ok_map_of_in [OF assms(1), symmetric])
  note a = authorized_at(1,2) [OF assms(1), of e t]
  show ?case
  proof (cases "pf_id p = n \<and> pf_hash p = hash")
    case True
    then show ?thesis
      using a at by (cases "authorized e t c") (auto simp: tp closed_unless_def split: bool.split)
  qed (use Cons in \<open>auto simp: tp\<close>)
qed

lemma call_request_spec:
  "snd (call_requestAllowed e s type n hash (calls_after self ops)) \<longleftrightarrow>
     s = ct_self (calls_after self ops) \<and> n \<noteq> 0 \<and> hash \<noteq> 0
     \<and> (\<exists>t p. proof_at (calls_after self ops) t = Some p \<and> pf_id p = n \<and> pf_hash p = hash
          \<and> (type = mtpc_phone_discardCall \<or> e (pf_peer p) \<and> phase_allows type p))"
proof -
  let ?c = "calls_after self ops"
  have inv: "call_inv ?c" by (rule calls_after_inv)
  note ok = call_invD(1) [OF inv]
  have ph: "phase_allows type p \<Longrightarrow> pf_phase p \<noteq> Closing" for p
    by (auto simp: phase_allows_def split: if_splits)
  let ?P = "\<lambda>tp. pf_id (snd tp) = n \<and> pf_hash (snd tp) = hash"
  have find: "find ?P (ct_proofs ?c) = Some (t, p)"
    if at: "proof_at ?c t = Some p" and p: "pf_id p = n" "pf_hash p = hash" "n \<noteq> 0" for t p
  proof -
    have "(t, p) \<in> set (ct_proofs ?c)" using at by (simp add: map_ok_map_of_in [OF ok])
    then obtain t' p' where f: "find ?P (ct_proofs ?c) = Some (t', p')"
      using find_ex [of "(t, p)" "ct_proofs ?c" ?P] p(1,2) by auto
    from find_SomeD [OF f] have in': "(t', p') \<in> set (ct_proofs ?c)" "pf_id p' = n" by simp_all
    then have "proof_at ?c t' = Some p'" by (simp add: map_ok_map_of_in [OF ok])
    with at p in'(2) call_invD(3) [OF inv at this] show ?thesis using f by auto
  qed
  have found: "proof_at ?c t = Some p \<and> pf_id p = n \<and> pf_hash p = hash"
    if "find ?P (ct_proofs ?c) = Some (t, p)" for t p
    using find_SomeD [OF that] by (simp add: map_ok_map_of_in [OF ok])
  have scan: "snd (scan_request e type n hash (ct_proofs ?c) ?c) \<longleftrightarrow>
      (\<exists>t p. proof_at ?c t = Some p \<and> pf_id p = n \<and> pf_hash p = hash
        \<and> (type = mtpc_phone_discardCall \<or> e (pf_peer p) \<and> phase_allows type p))" if "n \<noteq> 0"
  proof (cases "find ?P (ct_proofs ?c)")
    case None
    then have "\<not> (proof_at ?c t = Some p \<and> pf_id p = n \<and> pf_hash p = hash)" for t p
      using find [of t p] that by fastforce
    with None show ?thesis by (simp add: scan_request_result [OF ok order_refl]) blast
  next
    case (Some tp)
    obtain t p where tp: "tp = (t, p)" by (cases tp)
    note f = found [OF Some [unfolded tp]]
    have uniq: "p' = p" if "proof_at ?c t' = Some p'" "pf_id p' = n" "pf_hash p' = hash" for t' p'
      using find [OF that \<open>n \<noteq> 0\<close>] Some tp by simp
    have "snd (scan_request e type n hash (ct_proofs ?c) ?c)
        \<longleftrightarrow> type = mtpc_phone_discardCall \<or> e (pf_peer p) \<and> phase_allows type p"
      using ph by (auto simp: scan_request_result [OF ok order_refl] Some tp)
    also have "\<dots> \<longleftrightarrow> (\<exists>t p. proof_at ?c t = Some p \<and> pf_id p = n \<and> pf_hash p = hash
        \<and> (type = mtpc_phone_discardCall \<or> e (pf_peer p) \<and> phase_allows type p))"
      using f uniq by metis
    finally show ?thesis .
  qed
  show ?thesis
    unfolding call_requestAllowed_def using scan by (cases "s = ct_self ?c \<and> n \<noteq> 0 \<and> hash \<noteq> 0") auto
qed

text \<open>a call request is allowed exactly when it names the own account and a call that a
  proof is bound to, and it is a discard, or the peer is still eligible and the request
  fits the phase and direction of that proof.\<close>

theorem call_requestAllowed_iff:
  "snd (call_requestAllowed e s type n hash (calls_after self ops)) \<longleftrightarrow>
     s = ct_self (calls_after self ops) \<and> n \<noteq> 0 \<and> hash \<noteq> 0
     \<and> (\<exists>t p. proof_at (calls_after self ops) t = Some p \<and> pf_id p = n \<and> pf_hash p = hash
          \<and> (type = mtpc_phone_discardCall \<or> e (pf_peer p) \<and> phase_allows type p))"
  by (rule call_request_spec)

text \<open>The scan of \<open>bootstrapAllowed\<close> and \<open>outgoingAllowed\<close> finds a live eligible proof if there
  is one: the proofs it closes before are not candidates.\<close>

lemma scan_authorized_result:
  assumes "map_ok (ct_proofs c)" "\<forall>(t, p) \<in> set ps. proof_at c t = Some p" "distinct (map fst ps)"
  shows "snd (scan_authorized e wanted ps c) \<longleftrightarrow>
    (\<exists>(t, p) \<in> set ps. wanted p \<and> e (pf_peer p) \<and> pf_phase p \<noteq> Closing)"
  using assms
proof (induction ps arbitrary: c)
  case Nil
  then show ?case by simp
next
  case (Cons tp ps)
  obtain t p where tp: "tp = (t, p)" by (cases tp)
  have at: "proof_at c t = Some p" using Cons.prems(2) by (auto simp: tp)
  obtain c' r where a: "authorized e t c = (c', r)" by (cases "authorized e t c")
  note au = authorized_at [OF Cons.prems(1), of e t, unfolded a fst_conv snd_conv]
  have ok': "map_ok (ct_proofs c')" using au(3) Cons.prems(1) by (simp add: closings_def)
  have "\<forall>(u, q) \<in> set ps. proof_at c' u = Some q"
    using Cons.prems(2,3) au(1) by (force simp: tp)
  note IH = Cons.IH [OF ok' this] Cons.IH [OF Cons.prems(1)]
  show ?case
    using IH Cons.prems(2,3) au(2) at by (cases r) (auto simp: tp a)
qed

lemma outgoingAllowed_result:
  assumes "map_ok (ct_proofs c)"
  shows "snd (outgoingAllowed e self peer c) \<longleftrightarrow> self = ct_self c \<and>
    (\<exists>t p. proof_at c t = Some p \<and> pf_peer p = peer \<and> pf_outgoing p \<and> pf_id p = 0
      \<and> pf_phase p \<noteq> Closing \<and> e peer)"
proof -
  have "\<forall>(t, p) \<in> set (ct_proofs c). proof_at c t = Some p"
    using map_ok_map_of_in [OF assms] by auto
  from scan_authorized_result [OF assms this map_ok_distinct_keys [OF assms]] show ?thesis
    using map_ok_map_of_in [OF assms, symmetric] by (auto simp: outgoingAllowed_def)
qed

section \<open>The order of a call\<close>

definition kept_proof :: "call_context \<Rightarrow> 64 word \<Rightarrow> call_proof \<Rightarrow> bool" where
  "kept_proof c t q \<longleftrightarrow>
     (\<exists>p. proof_at c t = Some p \<and> (q = p \<or> q = p\<lparr>pf_phase := Closing\<rparr>))"

lemma call_exchange_at:
  assumes inv: "call_inv c" and q: "proof_at (fst (call_exchange e t' c)) t = Some q"
  shows "kept_proof c t q \<or> t' = t \<and> (\<exists>p. proof_at c t = Some p \<and> e (pf_peer p)
    \<and> pf_phase p \<noteq> Closing \<and> pf_id p \<noteq> 0 \<and> q = p\<lparr>pf_phase := Exchanging\<rparr>)"
proof -
  note ok = call_invD(1) [OF inv]
  obtain c' r where a: "authorized e t' c = (c', r)" by (cases "authorized e t' c")
  note cl = authorized_at(3) [OF ok, of e t', unfolded a fst_conv]
  have ok': "map_ok (ct_proofs c')" using cl ok by (simp add: closings_def)
  have kept: "kept_proof c t q" if "proof_at c' t = Some q"
    using closings_at [OF cl ok that] by (auto simp: kept_proof_def)
  show ?thesis
  proof (cases r)
    case False
    with q a kept show ?thesis by (simp add: call_exchange_def)
  next
    case True
    with a have "authorized e t' c = (c', True)" by simp
    from authorized_True [OF inv this] obtain p where p: "proof_at c t' = Some p" "e (pf_peer p)"
      "pf_phase p \<noteq> Closing" "proof_at c' = proof_at c" by metis
    show ?thesis
    proof (cases "pf_id p = 0 \<or> t' \<noteq> t")
      case True
      with q a \<open>r\<close> kept p ok' show ?thesis
        by (auto simp: call_exchange_def Let_def set_proof_def split: if_splits)
    next
      case False
      then have "q = p\<lparr>pf_phase := Exchanging\<rparr>"
        using q a \<open>r\<close> p ok' by (auto simp: call_exchange_def Let_def set_proof_def)
      with False p show ?thesis by auto
    qed
  qed
qed

lemma call_activate_at:
  assumes inv: "call_inv c" and q: "proof_at (fst (call_activate e t' c)) t = Some q"
  shows "kept_proof c t q \<or> t' = t \<and> (\<exists>p. proof_at c t = Some p \<and> e (pf_peer p)
    \<and> pf_phase p = Exchanging \<and> q = p\<lparr>pf_phase := Active\<rparr>)"
proof -
  note ok = call_invD(1) [OF inv]
  obtain c' r where a: "authorized e t' c = (c', r)" by (cases "authorized e t' c")
  note cl = authorized_at(3) [OF ok, of e t', unfolded a fst_conv]
  have ok': "map_ok (ct_proofs c')" using cl ok by (simp add: closings_def)
  have kept: "kept_proof c t q" if "proof_at c' t = Some q"
    using closings_at [OF cl ok that] by (auto simp: kept_proof_def)
  show ?thesis
  proof (cases r)
    case False
    with q a kept show ?thesis by (simp add: call_activate_def)
  next
    case True
    with a have "authorized e t' c = (c', True)" by simp
    from authorized_True [OF inv this] obtain p where p: "proof_at c t' = Some p" "e (pf_peer p)"
      "pf_phase p \<noteq> Closing" "proof_at c' = proof_at c" by metis
    show ?thesis
    proof (cases "pf_phase p \<noteq> Exchanging \<or> t' \<noteq> t")
      case True
      with q a \<open>r\<close> kept p ok' show ?thesis
        by (auto simp: call_activate_def Let_def set_proof_def split: if_splits)
    next
      case False
      then have "q = p\<lparr>pf_phase := Active\<rparr>"
        using q a \<open>r\<close> p ok' by (auto simp: call_activate_def Let_def set_proof_def)
      with False p show ?thesis by auto
    qed
  qed
qed

text \<open>How one operation changes the proof of one token.\<close>

lemma call_step_cases:
  assumes inv: "call_inv c" and q: "proof_at (call_step op c) t = Some q"
  obtains (kept) "kept_proof c t q"
  | (begun) e peer outgoing where "op = CallBegin e peer outgoing" "e peer"
      "t = ct_nextToken c + 1" "q = \<lparr>pf_peer = peer, pf_id = 0, pf_hash = 0, pf_phase = Pending,
         pf_outgoing = outgoing\<rparr>"
  | (bound) e call p data where "op = CallBind e t call" "proof_at c t = Some p"
      "bindable (pf_outgoing p) call = Some data" "q = closed_unless (e (pf_peer p))
         (p\<lparr>pf_id := cd_id data, pf_hash := cd_access_hash data\<rparr>)" "pf_id p = 0"
  | (exchanged) e p where "op = CallExchange e t" "proof_at c t = Some p" "e (pf_peer p)"
      "pf_phase p \<noteq> Closing" "pf_id p \<noteq> 0" "q = p\<lparr>pf_phase := Exchanging\<rparr>"
  | (activated) e p where "op = CallActivate e t" "proof_at c t = Some p" "e (pf_peer p)"
      "pf_phase p = Exchanging" "q = p\<lparr>pf_phase := Active\<rparr>"
proof -
  note ok = call_invD(1) [OF inv]
  have keep: thesis if "closings c (call_step op c)"
    using closings_at [OF that ok q] kept by (auto simp: kept_proof_def)
  have same: thesis if "proof_at c t = Some q" using that kept by (auto simp: kept_proof_def)
  show thesis
  proof (cases op)
    case (CallBegin e peer outgoing)
    show thesis
    proof (cases "proof_at c t = Some q")
      case True
      then show thesis by (rule same)
    next
      case False
      with q show thesis
        by (intro begun [OF CallBegin])
           (auto simp: CallBegin call_begin_def Let_def map_of_emplace_fun ok split: if_splits)
    qed
  next
    case (CallBind e t' call)
    show thesis
    proof (cases e t' call c rule: call_bind_cases)
      case stop
      then show thesis using q same by (simp add: CallBind)
    next
      case b: (bound p data)
      show thesis
      proof (cases "t' = t")
        case True
        have "q = closed_unless (e (pf_peer p)) (p\<lparr>pf_id := cd_id data, pf_hash := cd_access_hash data\<rparr>)"
          using q [unfolded CallBind call_step.simps b(6) fst_conv, unfolded True]
          by (simp add: set_proof_def ok)
        then show thesis using bound CallBind b True by blast
      next
        case False
        then show thesis
          using q same by (simp add: CallBind b(6) set_proof_def ok)
      qed
    qed
  next
    case (CallExchange e t')
    from call_exchange_at [OF inv, of e t' t q] q show thesis
      using kept exchanged CallExchange by (auto simp: CallExchange)
  next
    case (CallActivate e t')
    from call_activate_at [OF inv, of e t' t q] q show thesis
      using kept activated CallActivate by (auto simp: CallActivate)
  next
    case (CallClose t')
    then show thesis
      using q kept same ok
      by (auto simp: call_close_def set_proof_def kept_proof_def split: option.splits if_splits)
  next
    case (CallForget t')
    then show thesis using q same by (auto simp: call_forget_def split: if_splits)
  next
    case (CallAuthorized e t')
    show thesis by (rule keep) (simp add: CallAuthorized authorized_at(3) ok)
  next
    case (CallValidate e t' call)
    show thesis by (rule keep) (simp add: CallValidate checks_closings ok)
  next
    case (CallBootstrap e self)
    show thesis by (rule keep) (simp add: CallBootstrap checks_closings ok)
  next
    case (CallOutgoing e self peer)
    show thesis by (rule keep) (simp add: CallOutgoing checks_closings ok)
  next
    case (CallRequest e self type n hash)
    show thesis by (rule keep) (simp add: CallRequest checks_closings ok)
  qed
qed

end
