(* ===== verification/Call_Order.thy ===== *)
theory Call_Order
  imports Call_Lifecycle
begin

text \<open>
  The order in which a one-to-one call becomes active, and that a revoked call stays
  closed: the context provides the interface \<open>revocation\<close>.
\<close>

section \<open>How a call became active\<close>

text \<open>The operations that brought a proof where it is, as a subsequence of the history.\<close>

definition trace_ok :: "call_op list \<Rightarrow> 64 word \<Rightarrow> call_proof \<Rightarrow> bool" where
  "trace_ok ops t p \<longleftrightarrow>
     (\<exists>e. e (pf_peer p) \<and> subseq [CallBegin e (pf_peer p) (pf_outgoing p)] ops)
     \<and> (pf_id p \<noteq> 0 \<longrightarrow> (\<exists>e e' call data. e (pf_peer p)
          \<and> subseq [CallBegin e (pf_peer p) (pf_outgoing p), CallBind e' t call] ops
          \<and> bindable (pf_outgoing p) call = Some data \<and> cd_id data = pf_id p
          \<and> cd_access_hash data = pf_hash p
          \<and> (pf_phase p = Exchanging \<longrightarrow> (\<exists>x. x (pf_peer p)
               \<and> subseq [CallBegin e (pf_peer p) (pf_outgoing p), CallBind e' t call, CallExchange x t] ops))
          \<and> (pf_phase p = Active \<longrightarrow> (\<exists>x y. x (pf_peer p) \<and> y (pf_peer p)
               \<and> subseq [CallBegin e (pf_peer p) (pf_outgoing p), CallBind e' t call, CallExchange x t,
                    CallActivate y t] ops))))"

lemma subseq_snoc: "subseq xs ops \<Longrightarrow> subseq xs (ops @ [q])"
  by (rule list_emb_prefix)

lemma subseq_snoc2: "subseq xs ops \<Longrightarrow> subseq (xs @ [q]) (ops @ [q])"
  by (rule list_emb_append_mono) simp_all

lemma trace_ok_mono: "trace_ok ops t p \<Longrightarrow> trace_ok (ops @ [q]) t p"
  unfolding trace_ok_def by (blast intro: subseq_snoc)

lemma trace_ok_closing: "trace_ok ops t p \<Longrightarrow> trace_ok ops t (p\<lparr>pf_phase := Closing\<rparr>)"
  unfolding trace_ok_def by (simp; blast)

lemma trace_ok_bind:
  assumes tr: "trace_ok ops t p" and inv: "proof_inv c p" and p: "pf_id p = 0"
    and b: "bindable (pf_outgoing p) call = Some data"
  shows "trace_ok (ops @ [CallBind e t call]) t
    (p\<lparr>pf_id := cd_id data, pf_hash := cd_access_hash data\<rparr>)"
proof -
  obtain e1 where e1: "e1 (pf_peer p)" "subseq [CallBegin e1 (pf_peer p) (pf_outgoing p)] ops"
    using tr unfolding trace_ok_def by blast
  have "subseq [CallBegin e1 (pf_peer p) (pf_outgoing p), CallBind e t call] (ops @ [CallBind e t call])"
    using subseq_snoc2 [OF e1(2)] by simp
  moreover have "pf_phase p \<noteq> Exchanging" "pf_phase p \<noteq> Active"
    using inv p by (auto simp: proof_inv_def)
  ultimately show ?thesis
    using e1 b subseq_snoc [OF e1(2)] unfolding trace_ok_def by (simp; blast)
qed

lemma trace_ok_exchange:
  assumes tr: "trace_ok ops t p" and p: "e (pf_peer p)" "pf_id p \<noteq> 0"
  shows "trace_ok (ops @ [CallExchange e t]) t (p\<lparr>pf_phase := Exchanging\<rparr>)"
proof -
  obtain e1 e2 call data where t: "e1 (pf_peer p)"
    "subseq [CallBegin e1 (pf_peer p) (pf_outgoing p), CallBind e2 t call] ops"
    "bindable (pf_outgoing p) call = Some data" "cd_id data = pf_id p" "cd_access_hash data = pf_hash p"
    using tr p(2) unfolding trace_ok_def by blast
  have "subseq [CallBegin e1 (pf_peer p) (pf_outgoing p), CallBind e2 t call, CallExchange e t]
      (ops @ [CallExchange e t])"
    using subseq_snoc2 [OF t(2)] by simp
  moreover have "\<exists>e. e (pf_peer p) \<and> subseq [CallBegin e (pf_peer p) (pf_outgoing p)]
      (ops @ [CallExchange e t])"
    using tr unfolding trace_ok_def by (blast intro: subseq_snoc)
  ultimately show ?thesis
    using t p trace_ok_mono [OF tr, of "CallExchange e t"] subseq_snoc [OF t(2)]
    unfolding trace_ok_def by (simp; blast)
qed

lemma trace_ok_activate:
  assumes tr: "trace_ok ops t p" and p: "e (pf_peer p)" "pf_id p \<noteq> 0" "pf_phase p = Exchanging"
  shows "trace_ok (ops @ [CallActivate e t]) t (p\<lparr>pf_phase := Active\<rparr>)"
proof -
  obtain e1 e2 call data x where t: "e1 (pf_peer p)" "x (pf_peer p)"
    "subseq [CallBegin e1 (pf_peer p) (pf_outgoing p), CallBind e2 t call, CallExchange x t] ops"
    "subseq [CallBegin e1 (pf_peer p) (pf_outgoing p), CallBind e2 t call] ops"
    "bindable (pf_outgoing p) call = Some data" "cd_id data = pf_id p" "cd_access_hash data = pf_hash p"
    using tr p(2,3) unfolding trace_ok_def by blast
  have "subseq [CallBegin e1 (pf_peer p) (pf_outgoing p), CallBind e2 t call, CallExchange x t,
      CallActivate e t] (ops @ [CallActivate e t])"
    using subseq_snoc2 [OF t(3)] by simp
  then show ?thesis
    using t p trace_ok_mono [OF tr, of "CallActivate e t"] subseq_snoc [OF t(4)]
    unfolding trace_ok_def by (simp; blast)
qed

lemma calls_trace:
  "proof_at (calls_after self ops) t = Some p \<Longrightarrow> trace_ok ops t p"
proof (induction ops arbitrary: p rule: rev_induct)
  case Nil
  then show ?case by (simp add: new_calls_def)
next
  case (snoc q ops)
  have inv: "call_inv (calls_after self ops)"
    by (induction ops rule: rev_induct) (simp_all add: call_inv_step call_inv_new)
  note step = snoc.prems [unfolded calls_after_snoc]
  from inv step show ?case
  proof (cases rule: call_step_cases)
    case kept
    then show ?thesis
      using snoc.IH by (auto simp: kept_proof_def intro: trace_ok_mono trace_ok_closing)
  next
    case (begun e peer outgoing)
    then show ?thesis by (auto simp: trace_ok_def)
  next
    case (bound e call p')
    have "trace_ok (ops @ [q]) t (p'\<lparr>pf_id := cd_id data, pf_hash := cd_access_hash data\<rparr>)"
      if "bindable (pf_outgoing p') call = Some data" for data
      using trace_ok_bind [OF snoc.IH [OF bound(2)] call_invD(2) [OF inv bound(2)] bound(5) that]
      by (simp add: bound(1))
    then show ?thesis
      using bound(3,4) by (auto simp: closed_unless_def intro: trace_ok_closing)
  next
    case (exchanged e p')
    then show ?thesis using trace_ok_exchange [OF snoc.IH] by simp
  next
    case (activated e p')
    moreover from activated have "pf_id p' \<noteq> 0"
      using call_invD(2) [OF inv activated(2)] by (auto simp: proof_inv_def)
    ultimately show ?thesis using trace_ok_activate [OF snoc.IH] by simp
  qed
qed

text \<open>C9: signalling data goes out only for a call that was begun with an eligible peer,
  bound to that server call, exchanged keys and was activated, in this order, with the
  peer eligible at every one of these steps but the binding and still eligible now.\<close>

theorem call_signalling_order:
  assumes "snd (call_requestAllowed e s mtpc_phone_sendSignalingData n hash (calls_after self ops))"
  shows "\<exists>t peer outgoing e1 e2 call data e3 e4.
    subseq [CallBegin e1 peer outgoing, CallBind e2 t call, CallExchange e3 t, CallActivate e4 t] ops
    \<and> bindable outgoing call = Some data \<and> cd_id data = n \<and> cd_access_hash data = hash
    \<and> e1 peer \<and> e3 peer \<and> e4 peer \<and> e peer"
proof -
  obtain t p where p: "proof_at (calls_after self ops) t = Some p" "pf_id p = n" "pf_hash p = hash"
    "e (pf_peer p)" "pf_phase p = Active" "n \<noteq> 0"
    using assms unfolding call_request_spec by (auto simp: phase_allows_def call_types)
  from calls_trace [OF p(1)] p show ?thesis unfolding trace_ok_def by blast
qed

definition sample_call :: phone_call where
  "sample_call = PhoneCallWaiting \<lparr>cd_id = 7, cd_access_hash = 9, cd_admin = 1, cd_participant = 2,
     cd_protocol = \<lparr>cp_min_layer = 65, cp_max_layer = 92, cp_versions = [''11.0.0'']\<rparr>\<rparr>"

definition sample_history :: "call_op list" where
  "sample_history = [CallBegin (\<lambda>_. True) 2 True, CallBind (\<lambda>_. True) 1 sample_call,
     CallExchange (\<lambda>_. True) 1, CallActivate (\<lambda>_. True) 1]"

theorem call_signalling_order_witness:
  "\<exists>e1 peer outgoing e2 call e3 e4 t.
     subseq [CallBegin e1 peer outgoing, CallBind e2 t call, CallExchange e3 t, CallActivate e4 t]
       sample_history"
proof -
  have "snd (call_requestAllowed (\<lambda>_. True) 1 mtpc_phone_sendSignalingData 7 9
      (calls_after 1 sample_history))"
    by code_simp
  from call_signalling_order [OF this] show ?thesis by blast
qed

section \<open>Revocation is final\<close>

definition call_live :: "64 word \<Rightarrow> call_context \<Rightarrow> bool" where
  "call_live t c \<longleftrightarrow> (\<exists>p. proof_at c t = Some p \<and> pf_phase p \<noteq> Closing)"

fun call_grants :: "call_op \<Rightarrow> 64 word \<Rightarrow> call_context \<Rightarrow> bool" where
  "call_grants (CallBegin _ _ _) t c = (t = ct_nextToken c + 1)"
| "call_grants _ t c = False"

definition ineligible_at :: "(bare_id \<Rightarrow> bool) \<Rightarrow> 64 word \<Rightarrow> call_context \<Rightarrow> bool" where
  "ineligible_at e t c = pred_option (\<lambda>p. \<not> e (pf_peer p)) (proof_at c t)"

fun call_denies :: "call_op \<Rightarrow> 64 word \<Rightarrow> call_context \<Rightarrow> bool" where
  "call_denies (CallClose t') t c = (t' = t)"
| "call_denies (CallForget t') t c = (t' = t)"
| "call_denies (CallAuthorized e t') t c = (t' = t \<and> ineligible_at e t c)"
| "call_denies (CallExchange e t') t c = (t' = t \<and> ineligible_at e t c)"
| "call_denies (CallActivate e t') t c = (t' = t \<and> ineligible_at e t c)"
| "call_denies _ t c = False"

lemma ineligible_authorized:
  assumes "call_inv c" "ineligible_at e t c"
  shows "\<not> snd (authorized e t c) \<and> \<not> call_live t (fst (authorized e t c))"
  using authorized_at(1,2) [OF call_invD(1) [OF assms(1)], of e t] assms(2)
  by (auto simp: ineligible_at_def call_live_def closed_unless_def)

lemma unauthorized_stops:
  assumes "\<not> snd (authorized e t c)"
  shows "call_exchange e t c = (fst (authorized e t c), False)"
    and "call_activate e t c = (fst (authorized e t c), False)"
  using assms by (auto simp: call_exchange_def call_activate_def split: prod.split bool.split)

interpretation call_rev: revocation call_inv call_step call_live call_grants call_denies
proof
  show "call_inv (call_step p c)" if "call_inv c" for p c
    by (rule call_inv_step [OF that])
  show "call_live t c \<or> call_grants p t c" if inv: "call_inv c" and live: "call_live t (call_step p c)" for t p c
  proof -
    obtain q where q: "proof_at (call_step p c) t = Some q" "pf_phase q \<noteq> Closing"
      using live by (auto simp: call_live_def)
    from inv q(1) q(2) show ?thesis
      by (cases rule: call_step_cases)
         (auto simp: call_live_def kept_proof_def closed_unless_def split: if_splits)
  qed
  show "\<not> call_live t (call_step p c)" if "call_inv c" "call_denies p t c" for t p c
    using that ineligible_authorized [OF that(1)]
    by (cases p) (auto simp: call_close_def call_forget_def call_live_def set_proof_def
        unauthorized_stops call_invD(1) split: option.split)
qed

text \<open>C28: once a call is closed, forgotten, or found with a peer that is not eligible, it
  cannot exchange keys or become active again, even if the peer becomes eligible again,
  unless its token is issued anew.\<close>

theorem call_revocation_final:
  assumes "call_denies p t (calls_after self ops)"
    and "\<not> granted_in call_step call_grants t ps (calls_after self (ops @ [p]))"
  shows "\<not> snd (authorized e t (calls_after self (ops @ [p] @ ps)))
    \<and> \<not> snd (call_exchange e t (calls_after self (ops @ [p] @ ps)))
    \<and> \<not> snd (call_activate e t (calls_after self (ops @ [p] @ ps)))"
proof -
  let ?c = "calls_after self ops" and ?d = "calls_after self (ops @ [p] @ ps)"
  have inv: "call_inv ?c" unfolding calls_after_def by (rule call_rev.ok_fold) (rule call_inv_new)
  have d: "?d = fold call_step ps (call_step p ?c)" by (simp add: calls_after_def)
  have dead: "\<not> call_live t ?d"
    unfolding d by (rule call_rev.denial_is_final [OF inv assms(1)]) (use assms(2) in simp)
  have "call_inv ?d" unfolding d by (intro call_rev.ok_fold call_rev.ok_step inv)
  with dead have "\<not> snd (authorized e t ?d)"
    using authorized_at(2) [OF call_invD(1), of ?d e t] by (auto simp: call_live_def)
  then show ?thesis by (simp add: unauthorized_stops)
qed

theorem call_revocation_final_witness:
  "\<not> snd (authorized (\<lambda>_. True) 1
     (calls_after 1 ([CallBegin (\<lambda>_. True) 2 True] @ [CallClose 1] @ [CallBootstrap (\<lambda>_. True) 1])))"
proof -
  have "\<not> granted_in call_step call_grants 1 [CallBootstrap (\<lambda>_. True) 1]
      (calls_after 1 ([CallBegin (\<lambda>_. True) 2 True] @ [CallClose 1]))"
    by simp
  from call_revocation_final [OF _ this] show ?thesis by simp
qed

end
