(* ===== verification/Request_Safety.thy ===== *)
theory Request_Safety
  imports Request_Guard Content_History Call_Order "HOL-Library.Monad_Syntax"
begin

text \<open>
  What the request guard guarantees: everything that is sent is one of the listed types,
  goes to an allowed conversation, and carries only allowed content.
\<close>

section \<open>Wrappers\<close>

text \<open>The request inside the wrappers, if there are at most eight and none is refused.\<close>

function unwrapped :: "nat \<Rightarrow> prime list \<Rightarrow> prime list option" where
  "unwrapped depth from =
     (case from of
        [] \<Rightarrow> None
      | type # _ \<Rightarrow>
          if 8 < depth \<or> type = mtpc_account_initTakeoutSession \<or> type = mtpc_invokeWithTakeout
          then None
          else case wrapper_primes type of
            Some n \<Rightarrow> if n < length from then unwrapped (depth + 1) (drop n from) else None
          | None \<Rightarrow> Some from)"
  by pat_completeness auto

termination unwrapped
  by (relation "measure (\<lambda>(depth, from). length from)")
     (auto simp: wrapper_primes_def split: if_splits)

declare unwrapped.simps [simp del]

lemma BodyAllowed_unwrapped:
  "BodyAllowed e depth from st =
     (case unwrapped depth from of
        None \<Rightarrow> (st, False)
      | Some body \<Rightarrow> LeafAllowed e (hd body) body st)"
proof (induction e depth "from" st rule: BodyAllowed.induct)
  case (1 e depth "from" st)
  show ?case
  proof (cases "from")
    case Nil
    then show ?thesis by (subst BodyAllowed.simps, subst unwrapped.simps) simp
  next
    case (Cons type rest)
    note IH = "1.IH" [OF Cons]
    show ?thesis
      using IH Cons
      by (subst BodyAllowed.simps, subst unwrapped.simps) (auto split: option.split)
  qed
qed

lemma unwrapped_nonempty: "unwrapped depth from = Some body \<Longrightarrow> body \<noteq> []"
proof (induction depth "from" rule: unwrapped.induct)
  case (1 depth "from")
  then show ?case
    by (subst (asm) (2) unwrapped.simps) (auto split: list.splits if_splits option.splits)
qed

abbreviation guarded :: "guard_env \<Rightarrow> guard_env" where
  "guarded e \<equiv> e\<lparr>ge_allows := conversation_allowed (ge_self e) (ge_allows e)\<rparr>"

lemma AllowlistRequestAllowed_leaf:
  assumes "snd (AllowlistRequestAllowed e (Some r) st)"
  obtains body where "unwrapped 0 (drop 8 r) = Some body" "8 < length r"
    "sint (r ! 7) = 4 * (int (length r) - 8)"
    "AllowlistRequestAllowed e (Some r) st = LeafAllowed (guarded e) (hd body) body st"
proof -
  have framed: "8 < length r" "sint (r ! 7) mod 4 = 0" "sint (r ! 7) div 4 = int (length r) - 8"
    "AllowlistRequestAllowed e (Some r) st = BodyAllowed (guarded e) 0 (drop 8 r) st"
    using assms by (auto simp: AllowlistRequestAllowed_def Let_def kMessageBodyPosition_def
        kMessageLengthPosition_def split: if_splits)
  then have len: "sint (r ! 7) = 4 * (int (length r) - 8)"
    by (metis mult_div_mod_eq add.right_neutral)
  obtain body where body: "unwrapped 0 (drop 8 r) = Some body"
    using assms framed(4) by (auto simp: BodyAllowed_unwrapped split: option.splits)
  then have "AllowlistRequestAllowed e (Some r) st = LeafAllowed (guarded e) (hd body) body st"
    using framed(4) by (simp add: BodyAllowed_unwrapped)
  with that [OF body framed(1) len] show thesis .
qed

section \<open>Deny by default\<close>

definition handled_types :: "type_id list" where
  "handled_types = map fst peer_requests @ map fst saved_requests @ group_call_types
     @ private_call_types @ webview_types
     @ [mtpc_messages_forwardMessages, mtpc_upload_getFile, mtpc_upload_getFileHashes,
        mtpc_account_updateEmojiStatus, mtpc_upload_saveFilePart, mtpc_upload_saveBigFilePart,
        mtpc_channels_joinChannel, mtpc_messages_startBot, mtpc_messages_getInlineBotResults]"

lemma map_of_fst: "map_of m k = Some v \<Longrightarrow> k \<in> fst ` set m"
  by (metis map_of_eq_None_iff option.distinct(1))

lemma LeafAllowed_known:
  assumes "snd (LeafAllowed e type from st)"
  shows "type \<in> set safe_requests \<union> set service_requests \<union> set handled_types"
proof (rule ccontr)
  assume "type \<notin> set safe_requests \<union> set service_requests \<union> set handled_types"
  then have no: "type \<notin> set safe_requests" "type \<notin> set service_requests"
    "map_of peer_requests type = None" "map_of saved_requests type = None"
    "type \<notin> set group_call_types" "type \<notin> set private_call_types" "type \<notin> set webview_types"
    and "type \<notin> {mtpc_messages_forwardMessages, mtpc_upload_getFile, mtpc_upload_getFileHashes,
        mtpc_account_updateEmojiStatus, mtpc_upload_saveFilePart, mtpc_upload_saveBigFilePart,
        mtpc_channels_joinChannel, mtpc_messages_startBot, mtpc_messages_getInlineBotResults}"
    by (auto simp: handled_types_def map_of_eq_None_iff)
  then have "\<not> snd (LeafAllowed e type from st)"
    unfolding LeafAllowed_def no(3,4) by (simp add: no)
  with assms show False by blast
qed

text \<open>C4: the guard denies by default.  What passes is framed exactly (the length field counts
  the bytes that follow it), is wrapped at most eight times, in no takeout session, and the
  request inside is of a listed type.\<close>

theorem request_default_deny:
  assumes "snd (AllowlistRequestAllowed e (Some r) st)"
  shows "8 < length r \<and> sint (r ! 7) = 4 * (int (length r) - 8)
    \<and> (\<exists>body. unwrapped 0 (drop 8 r) = Some body \<and> body \<noteq> []
        \<and> hd body \<in> set safe_requests \<union> set service_requests \<union> set handled_types)"
proof -
  obtain body where body: "unwrapped 0 (drop 8 r) = Some body" "8 < length r"
    "sint (r ! 7) = 4 * (int (length r) - 8)"
    "AllowlistRequestAllowed e (Some r) st = LeafAllowed (guarded e) (hd body) body st"
    using AllowlistRequestAllowed_leaf [OF assms] by blast
  with assms LeafAllowed_known [of "guarded e" "hd body" body st] unwrapped_nonempty [OF body(1)]
  show ?thesis by auto
qed

section \<open>The destination of a request to a peer\<close>

text \<open>Where the peer of a request starts: after the type, the flags, and the reply where it
  comes first.\<close>

definition peer_starts_at ::
  "guard_env \<Rightarrow> peer_layout \<Rightarrow> prime list \<Rightarrow> prime list \<Rightarrow> bool" where
  "peer_starts_at e lay body ws \<longleftrightarrow>
     (\<exists>flags after.
        (if pl_flags lay then read_int e (tl body) = Some (flags, after)
         else flags = 0 \<and> after = tl body)
        \<and> (if (pl_requiredReply lay \<or> flags AND pl_replyFlag lay \<noteq> 0) \<and> pl_replyBeforePeer lay
           then \<exists>reply. read_reply e after = Some (reply, ws) else ws = after))"

lemma peer_starts_at_guarded [simp]:
  "peer_starts_at (guarded e) lay body ws = peer_starts_at e lay body ws"
  by (simp add: peer_starts_at_def)

lemma ReadPeerAllowed_destination:
  assumes "ReadPeerAllowed e content type lay body"
  shows "\<exists>ws peer rest. peer_starts_at e lay body ws \<and> read_peer e ws = Some (peer, rest)
    \<and> ge_allows e (dest e peer)"
proof -
  obtain flags after where fl: "if pl_flags lay then read_int e (tl body) = Some (flags, after)
      else flags = 0 \<and> after = tl body"
    and pa: "peer_after_flags e content type lay flags after"
    using assms by (auto simp: ReadPeerAllowed_def reads_iff split: if_splits)
  define has where "has \<longleftrightarrow> pl_requiredReply lay \<or> flags AND pl_replyFlag lay \<noteq> 0"
  obtain ws peer rest where
    ws: "if has \<and> pl_replyBeforePeer lay then \<exists>reply. read_reply e after = Some (reply, ws)
      else ws = after"
    and peer: "read_peer e ws = Some (peer, rest)" "ge_allows e (dest e peer)"
    using pa by (auto simp: peer_after_flags_def readReply_def reads_iff has_def [symmetric]
        split: if_splits)
  show ?thesis using fl ws peer unfolding peer_starts_at_def has_def by blast
qed

text \<open>C3: a request to a peer that passes the guard goes to a peer on the list: the peer read
  at its place in the request is not empty, not the own account, and allowed.\<close>

theorem request_destination_allowed:
  assumes "snd (AllowlistRequestAllowed e (Some r) st)"
    and "unwrapped 0 (drop 8 r) = Some body" and "map_of peer_requests (hd body) = Some lay"
  shows "\<exists>ws peer rest. peer_starts_at e lay body ws \<and> read_peer e ws = Some (peer, rest)
    \<and> dest e peer \<noteq> 0 \<and> dest e peer \<noteq> peerFromUser (ge_self e) \<and> ge_allows e (dest e peer)"
proof -
  obtain body' where body': "unwrapped 0 (drop 8 r) = Some body'"
    "AllowlistRequestAllowed e (Some r) st = LeafAllowed (guarded e) (hd body') body' st"
    using AllowlistRequestAllowed_leaf [OF assms(1)] by blast
  then have "snd (LeafAllowed (guarded e) (hd body) body st)"
    using assms(1,2) by simp
  then have "ReadPeerAllowed (guarded e) (gs_content st) (hd body) lay body"
    by (simp add: LeafAllowed_def assms(3))
  from ReadPeerAllowed_destination [OF this] obtain ws peer rest where
    "peer_starts_at e lay body ws" "read_peer e ws = Some (peer, rest)"
    "conversation_allowed (ge_self e) (ge_allows e) (dest e peer)"
    by auto
  then show ?thesis unfolding conversation_allowed_def by blast
qed

section \<open>Sending a message\<close>

record sent_message =
  st_flags :: "32 word"
  st_peer :: input_peer
  st_reply :: "input_reply option"
  st_text :: bytes
  st_entities :: "message_entity list option"

text \<open>A message request after its type: flags, peer, reply if flag 0, text, random id,
  entities if flag 3.\<close>

definition parse_sent_message :: "guard_env \<Rightarrow> prime list \<Rightarrow> sent_message option" where
  "parse_sent_message e from =
     do { (flags, ws) \<leftarrow> read_int e (tl from);
          (peer, ws) \<leftarrow> read_peer e ws;
          (reply, ws) \<leftarrow> (if bit flags 0 then map_option (apfst Some) (read_reply e ws)
                          else Some (None, ws));
          (v, ws) \<leftarrow> read_string e ws;
          (n, ws) \<leftarrow> read_long e ws;
          entities \<leftarrow> (if bit flags 3 then map_option (Some \<circ> fst) (read_entities e ws)
                       else Some None);
          Some \<lparr>st_flags = flags, st_peer = peer, st_reply = reply, st_text = v,
                st_entities = entities\<rparr> }"

definition send_layout :: peer_layout where "send_layout = layout True 1 False 0 False"

lemma and_1_iff_bit: "(w :: 32 word) AND 1 \<noteq> 0 \<longleftrightarrow> bit w 0"
  by (simp add: and_one_eq odd_iff_mod_2_eq_one bit_0 split: if_splits)

lemma ex_Some_iff: "(\<exists>m. x = Some m \<and> P m) \<longleftrightarrow> (case x of None \<Rightarrow> False | Some m \<Rightarrow> P m)"
  by (cases x) auto


section \<open>Forwarding\<close>

record forward_request =
  fw_flags :: "32 word"
  fw_source :: input_peer
  fw_ids :: "32 word list"
  fw_randomIds :: "64 word list"
  fw_destination :: input_peer

definition parse_forward :: "guard_env \<Rightarrow> prime list \<Rightarrow> forward_request option" where
  "parse_forward e from =
     do { (flags, ws) \<leftarrow> read_int e (tl from);
          (source, ws) \<leftarrow> read_peer e ws;
          (ids, ws) \<leftarrow> read_ints e ws;
          (randomIds, ws) \<leftarrow> read_longs e ws;
          (destination, ws) \<leftarrow> read_peer e ws;
          Some \<lparr>fw_flags = flags, fw_source = source, fw_ids = ids, fw_randomIds = randomIds,
                fw_destination = destination\<rparr> }"

lemma ReadForwardAllowed_parsed:
  "ReadForwardAllowed e content from \<Longrightarrow>
     (\<exists>f c. parse_forward e from = Some f \<and> content = Some c
        \<and> ge_allows e (dest e (fw_source f)) \<and> ge_allows e (dest e (fw_destination f))
        \<and> fw_ids f \<noteq> [] \<and> length (fw_ids f) = length (fw_randomIds f)
        \<and> list_all (\<lambda>n. messageAllowed c (dest e (fw_source f)) (sint n) False) (fw_ids f))"
  by (cases content) (auto simp: ReadForwardAllowed_def parse_forward_def reads_iff Let_def)

text \<open>C26: a forward that passes goes from an allowed peer to an allowed peer, and every message
  it names was recorded from the source peer and was clean when last seen.\<close>

theorem forward_clean:
  assumes "ReadForwardAllowed e (Some (content_after tx resolve ops)) from"
  shows "\<exists>f. parse_forward e from = Some f
    \<and> ge_allows e (dest e (fw_source f)) \<and> ge_allows e (dest e (fw_destination f))
    \<and> fw_ids f \<noteq> [] \<and> length (fw_ids f) = length (fw_randomIds f)
    \<and> (\<forall>n \<in> set (fw_ids f). 0 < sint n \<and>
        (\<exists>m. last_message ops (dest e (fw_source f), sint n) = Some m \<and> clean_message tx m))"
  using ReadForwardAllowed_parsed [OF assms]
  by (auto simp: list_all_iff messageAllowed_def content_messages message_key_def)

section \<open>Origins\<close>

text \<open>The peers a peer is named through, the peer itself first.\<close>

fun origin_chain :: "input_peer \<Rightarrow> input_peer list" where
  "origin_chain (InputPeerUserFromMessage peer n) = InputPeerUserFromMessage peer n # origin_chain peer"
| "origin_chain (InputPeerChannelFromMessage peer n) =
     InputPeerChannelFromMessage peer n # origin_chain peer"
| "origin_chain peer = [peer]"

text \<open>a peer named through messages of other peers is accepted exactly when every peer on
  the way is allowed and there are at most nine.\<close>

theorem webview_peer_iff:
  "WebViewPeerAllowed self allows peer 0 \<longleftrightarrow>
     length (origin_chain peer) \<le> 9 \<and> list_all (\<lambda>p. allows (Destination self p)) (origin_chain peer)"
proof -
  have "WebViewPeerAllowed self allows peer depth \<longleftrightarrow>
      length (origin_chain peer) + depth \<le> 9
      \<and> list_all (\<lambda>p. allows (Destination self p)) (origin_chain peer)" for depth
    by (induction peer arbitrary: depth) auto
  then show ?thesis by simp
qed

section \<open>Placing a call\<close>

text \<open>a request to place a call passes only for a user on the list for whom the session has
  begun an outgoing call that is not bound yet, while that user is eligible.\<close>

theorem place_call_allowed:
  assumes "snd (ReadPrivateCallAllowed e mtpc_phone_requestCall from (calls_after self ops))"
  shows "\<exists>flags ws user rest t p.
    read_int e (tl from) = Some (flags, ws) \<and> read_user e ws = Some (user, rest)
    \<and> peerIsUser (DestinationUser (ge_self e) user) \<and> ge_allows e (DestinationUser (ge_self e) user)
    \<and> proof_at (calls_after self ops) t = Some p
    \<and> pf_peer p = peerToUser (DestinationUser (ge_self e) user)
    \<and> pf_outgoing p \<and> pf_id p = 0 \<and> pf_phase p \<noteq> Closing \<and> ge_callEligible e (pf_peer p)"
proof -
  let ?c = "calls_after self ops"
  have ok: "map_ok (ct_proofs ?c)" by (rule call_invD(1) [OF calls_after_inv])
  obtain flags ws user rest where r: "read_int e (tl from) = Some (flags, ws)"
    "read_user e ws = Some (user, rest)" "call_user_allowed e user"
    "snd (outgoingAllowed (ge_callEligible e) (ge_self e)
       (peerToUser (DestinationUser (ge_self e) user)) ?c)"
    using assms
    by (auto simp: ReadPrivateCallAllowed_def call_after_flags_def guard_st_def reads_st_def
        mtpc_phone_discardCall_def split: if_splits option.splits prod.splits)
  from r(4) obtain t p where p: "proof_at ?c t = Some p"
    "pf_peer p = peerToUser (DestinationUser (ge_self e) user)" "pf_outgoing p" "pf_id p = 0"
    "pf_phase p \<noteq> Closing" "ge_callEligible e (pf_peer p)"
    by (auto simp: outgoingAllowed_result [OF ok])
  have "peerIsUser (DestinationUser (ge_self e) user)"
    "ge_allows e (DestinationUser (ge_self e) user)"
    using r(3) by (simp_all add: call_user_allowed_def Let_def)
  with r(1,2) p show ?thesis by blast
qed

section \<open>Concrete requests\<close>

text \<open>Readers that take one prime for every object, to evaluate the guard.\<close>

definition one_prime :: "(prime \<Rightarrow> 'a) \<Rightarrow> 'a reader" where
  "one_prime f ws = (case ws of [] \<Rightarrow> None | w # rest \<Rightarrow> Some (f w, rest))"

definition sample_readers :: tl_readers where
  "sample_readers =
     \<lparr>tl_basic = \<lparr>rd_valid = \<lambda>_ _. True, rd_int = one_prime (\<lambda>w. w), rd_long = one_prime ucast,
        rd_bytes = one_prime (\<lambda>w. replicate (unat w) CHR ''a''),
        rd_string = one_prime (\<lambda>w. replicate (unat w) CHR ''a''), rd_json = one_prime (\<lambda>_. ()),
        rd_ints = one_prime (\<lambda>w. [w]), rd_longs = one_prime (\<lambda>w. [ucast w])\<rparr>,
      tl_peer = \<lparr>rd_peer = one_prime (\<lambda>w. InputPeerChannel (ucast w)),
        rd_user = one_prime (\<lambda>w. InputUser (ucast w)),
        rd_channel = one_prime (\<lambda>w. InputChannel (ucast w)),
        rd_reply = one_prime (\<lambda>_. InputReplyToEphemeralMessage),
        rd_bot_app = one_prime (\<lambda>_. InputBotAppID),
        rd_group_call = one_prime (\<lambda>w. InputGroupCall (ucast w) 1),
        rd_file_location = one_prime (\<lambda>_. FileLocationOther)\<rparr>,
      tl_content = \<lparr>rd_media = one_prime (\<lambda>_. InputMediaEmpty), rd_multi_media = one_prime (\<lambda>_. []),
        rd_entities = one_prime (\<lambda>_. []), rd_action = one_prime (\<lambda>_. SendTyping),
        rd_reaction = one_prime (\<lambda>_. ReactionEmpty), rd_reactions = one_prime (\<lambda>_. []),
        rd_emoji_status = one_prime (\<lambda>_. EmojiStatusEmpty)\<rparr>,
      tl_call = \<lparr>rd_protocol = one_prime (\<lambda>_. \<lparr>cp_min_layer = 65, cp_max_layer = 92, cp_versions = []\<rparr>),
        rd_phone_call = one_prime (\<lambda>w. (ucast w, 9)),
        rd_discard_reason = one_prime (\<lambda>_. DiscardReasonOther)\<rparr>\<rparr>"

definition sample_env :: guard_env where
  "sample_env = \<lparr>ge_tx = ascii_ops, ge_rd = sample_readers, ge_self = 1, ge_allows = \<lambda>_. True,
     ge_knownBot = None, ge_callEligible = \<lambda>_. True, ge_groupEligible = \<lambda>_ _. True\<rparr>"

text \<open>\<open>messages.getHistory\<close> of channel 5.\<close>

definition history_request :: "prime list" where
  "history_request = [0, 0, 0, 0, 0, 0, 0, 8, 0x4423e6c5, 5]"

definition sample_state :: guard_state where
  "sample_state = \<lparr>gs_content = None, gs_calls = None, gs_groups = None\<rparr>"

lemma history_request_allowed:
  "snd (AllowlistRequestAllowed sample_env (Some history_request) sample_state)"
  "unwrapped 0 (drop 8 history_request) = Some [0x4423e6c5, 5]"
  "map_of peer_requests (0x4423e6c5 :: type_id) = Some (layout False 0 False 0 False)"
proof -
  show lay: "map_of peer_requests (0x4423e6c5 :: type_id) = Some (layout False 0 False 0 False)"
    by code_simp
  show "unwrapped 0 (drop 8 history_request) = Some [0x4423e6c5, 5]"
    by (simp add: history_request_def unwrapped.simps wrapper_primes_def)
  show "snd (AllowlistRequestAllowed sample_env (Some history_request) sample_state)"
    by (simp add: history_request_def AllowlistRequestAllowed_def kMessageBodyPosition_def
        kMessageLengthPosition_def BodyAllowed.simps wrapper_primes_def LeafAllowed_def lay
        ReadPeerAllowed_def layout_def peer_after_flags_def readReply_def reads_def sample_env_def
        sample_readers_def one_prime_def conversation_allowed_def Destination_def peerFromChannel_def
        peerFromUser_def peer_of_def channel_shift_def user_shift_def peer_payload_def)
qed

theorem request_default_deny_witness:
  "\<exists>body. unwrapped 0 (drop 8 history_request) = Some body
     \<and> hd body \<in> set safe_requests \<union> set service_requests \<union> set handled_types"
  using request_default_deny [OF history_request_allowed(1)] by blast

theorem request_destination_allowed_witness:
  "\<exists>ws peer rest. read_peer sample_env ws = Some (peer, rest)
     \<and> dest sample_env peer \<noteq> peerFromUser (ge_self sample_env)"
  using request_destination_allowed [OF history_request_allowed(1,2), of "layout False 0 False 0 False"]
    history_request_allowed(3)
  by auto

text \<open>A clean message 4 of channel 5, forwarded to channel 6.\<close>

definition clean_sample :: mtp_message where
  "clean_sample = \<lparr>mm_id = 4, mm_peer = PeerChannel 5, mm_message = ''hi'', mm_rich = False,
     mm_effect = False, mm_markup = False, mm_entities = None, mm_media = None\<rparr>"

theorem forward_clean_witness:
  "\<exists>m. last_message [RecordMessage False clean_sample] (peerFromChannel 5, 4) = Some m
     \<and> clean_message ascii_ops m"
proof -
  have "ReadForwardAllowed sample_env (Some (content_after ascii_ops None
      [RecordMessage False clean_sample])) [mtpc_messages_forwardMessages, 0, 5, 4, 8, 6]"
    by (simp add: ReadForwardAllowed_def sample_env_def sample_readers_def one_prime_def reads_def
        messageAllowed_def content_messages last_message_def clean_sample_def clean_message_def
        clean_head_def attached_document_def ascii_text_allowed Destination_def message_key_def
        readReply_def)
  from forward_clean [OF this] show ?thesis
    by (auto simp: parse_forward_def sample_env_def sample_readers_def one_prime_def Destination_def)
qed

theorem place_call_allowed_witness:
  "\<exists>t p. proof_at (calls_after 1 [CallBegin (\<lambda>_. True) 2 True]) t = Some p \<and> pf_id p = 0"
proof -
  have "snd (ReadPrivateCallAllowed sample_env mtpc_phone_requestCall
      [mtpc_phone_requestCall, 0, 2, 77, 32, 1] (calls_after 1 [CallBegin (\<lambda>_. True) 2 True]))"
    by (simp add: ReadPrivateCallAllowed_def guard_st_def call_after_flags_def reads_st_def
        sample_env_def sample_readers_def one_prime_def PrivateCallProtocolAllowed_def
        call_user_allowed_def DestinationUser_def peerFromUser_def peerIsUser_def peer_is_def
        peer_of_def user_shift_def mtpc_phone_discardCall_def calls_after_def new_calls_def
        call_begin_def emplace_def outgoingAllowed_def authorized_def closed_unless_def set_proof_def
        peerToUser_def peer_to_def k_chat_type_mask_def)
  from place_call_allowed [OF this] show ?thesis by blast
qed

end
