(* ===== verification/Slices.thy ===== *)
theory Slices
  imports Allow_Prelude
begin

text \<open>
  Sparse lists of message identifiers: what \<open>Storage::SparseIdsList\<close>
  (\<open>storage/storage_sparse_ids_list.cpp\<close>) and \<open>Data::MessagesList\<close>
  (\<open>data/data_messages.cpp\<close>) have in common.  Both keep slices, sets of identifiers with the
  range in which nothing is skipped, ordered by the start of the range, and run the same
  code over them; the identifiers only need a linear order.

  \<open>ranges::lower_bound\<close> and \<open>upper_bound\<close> are the length of the prefix that satisfies the
  predicate, which is what binary search finds in a list the predicate partitions.  That
  the slices are partitioned is part of the invariant \<open>slices_ok\<close>.
\<close>

section \<open>Slices\<close>

record 'a slice =
  sl_messages :: "'a list"
  sl_from :: 'a
  sl_till :: 'a

definition flat_merge :: "'a::linorder list \<Rightarrow> 'a list \<Rightarrow> 'a list" where
  "flat_merge extra xs = fold insort_insert extra xs"

definition slice_merge :: "'a::linorder list \<Rightarrow> 'a \<Rightarrow> 'a \<Rightarrow> 'a slice \<Rightarrow> 'a slice" where
  "slice_merge extra f t s =
     \<lparr>sl_messages = flat_merge extra (sl_messages s), sl_from = min (sl_from s) f,
      sl_till = max (sl_till s) t\<rparr>"

definition lower_till :: "'a::linorder \<Rightarrow> 'a slice list \<Rightarrow> nat" where
  "lower_till x ss = length (takeWhile (\<lambda>s. sl_till s < x) ss)"

definition upper_from :: "'a::linorder \<Rightarrow> 'a slice list \<Rightarrow> nat" where
  "upper_from x ss = length (takeWhile (\<lambda>s. \<not> x < sl_from s) ss)"

text \<open>Each result is the new slices, the slice the update names, and how many identifiers
  it gained.\<close>

definition merge_all :: "'a::linorder slice list \<Rightarrow> 'a slice \<Rightarrow> 'a slice" where
  "merge_all its s =
     fold (\<lambda>it s. slice_merge (sl_messages it) (sl_from it) (sl_till it) s) its s"

definition unite_and_add ::
  "nat \<Rightarrow> nat \<Rightarrow> 'a::linorder list \<Rightarrow> 'a \<Rightarrow> 'a \<Rightarrow> 'a slice list \<Rightarrow> 'a slice list \<times> 'a slice \<times> int"
where
  "unite_and_add i j messages f t ss =
     (let was = length (sl_messages (ss ! i));
          united = merge_all (take (j - Suc i) (drop (Suc i) ss)) (slice_merge messages f t (ss ! i))
      in (take i ss @ united # drop j ss, united,
          int (length (sl_messages united)) - int was))"

definition emplace_slice :: "'a::linorder slice \<Rightarrow> 'a slice list \<Rightarrow> 'a slice list \<times> 'a slice" where
  "emplace_slice new ss =
     (case find (\<lambda>s. sl_from s = sl_from new) ss of
        Some s \<Rightarrow> (ss, s)
      | None \<Rightarrow> (takeWhile (\<lambda>s. sl_from s < sl_from new) ss @ new
                   # dropWhile (\<lambda>s. sl_from s < sl_from new) ss, new))"

definition add_range_items ::
  "'a::linorder list \<Rightarrow> 'a \<Rightarrow> 'a \<Rightarrow> 'a slice list \<Rightarrow> 'a slice list \<times> 'a slice \<times> int" where
  "add_range_items messages f t ss =
     (let i = lower_till f ss; j = upper_from t ss
      in if i < j then unite_and_add i j messages f t ss
         else case emplace_slice \<lparr>sl_messages = flat_merge messages [], sl_from = f, sl_till = t\<rparr> ss
           of (ss, s) \<Rightarrow> (ss, s, int (length (sl_messages s))))"

text \<open>The slice around an identifier.\<close>

definition slice_around :: "'a::linorder \<Rightarrow> 'a slice list \<Rightarrow> 'a slice option" where
  "slice_around x ss =
     (case drop (lower_till x ss) ss of
        [] \<Rightarrow> None
      | s # _ \<Rightarrow> if sl_from s \<le> x then Some s else None)"

section \<open>The invariant\<close>

definition slice_ok :: "'a::linorder slice \<Rightarrow> bool" where
  "slice_ok s \<longleftrightarrow> sl_from s \<le> sl_till s \<and> ordered_set (sl_messages s)"

definition slices_ok :: "'a::linorder slice list \<Rightarrow> bool" where
  "slices_ok ss \<longleftrightarrow>
     sorted_wrt (\<lambda>a b. sl_till a < sl_from b) ss \<and> (\<forall>s \<in> set ss. slice_ok s)"

text \<open>\<open>truth H s\<close>: in its range, the slice has exactly the identifiers of \<open>H\<close>.\<close>

definition slice_range :: "'a::linorder slice \<Rightarrow> 'a set" where
  "slice_range s = {sl_from s..sl_till s}"

definition truth :: "'a::linorder set \<Rightarrow> 'a slice \<Rightarrow> bool" where
  "truth H s \<longleftrightarrow> set (sl_messages s) = H \<inter> slice_range s"

lemma set_flat_merge [simp]: "set (flat_merge extra xs) = set extra \<union> set xs"
  unfolding flat_merge_def by (induction extra arbitrary: xs) auto

lemma ordered_flat_merge [simp, intro]: "ordered_set xs \<Longrightarrow> ordered_set (flat_merge extra xs)"
  unfolding flat_merge_def by (induction extra arbitrary: xs) auto

lemma slice_merge_fields [simp]:
  "set (sl_messages (slice_merge extra f t s)) = set extra \<union> set (sl_messages s)"
  "sl_from (slice_merge extra f t s) = min (sl_from s) f"
  "sl_till (slice_merge extra f t s) = max (sl_till s) t"
  "ordered_set (sl_messages s) \<Longrightarrow> ordered_set (sl_messages (slice_merge extra f t s))"
  by (simp_all add: slice_merge_def)

lemma slices_ok_Nil [simp]: "slices_ok []"
  by (simp add: slices_ok_def)

lemma slices_ok_append:
  "slices_ok (xs @ ys) \<longleftrightarrow>
     slices_ok xs \<and> slices_ok ys \<and> (\<forall>x \<in> set xs. \<forall>y \<in> set ys. sl_till x < sl_from y)"
  by (auto simp: slices_ok_def sorted_wrt_append)

lemma slices_ok_Cons:
  "slices_ok (s # ss) \<longleftrightarrow> slice_ok s \<and> slices_ok ss \<and> (\<forall>y \<in> set ss. sl_till s < sl_from y)"
  by (auto simp: slices_ok_def)

section \<open>Adding a range\<close>

text \<open>The slices before, across and after a range.\<close>

lemma slices_split:
  assumes "slices_ok ss" "f \<le> t"
  obtains A B C where "ss = A @ B @ C"
    "\<forall>a \<in> set A. sl_till a < f" "\<forall>b \<in> set B. f \<le> sl_till b \<and> sl_from b \<le> t"
    "\<forall>c \<in> set C. t < sl_from c"
    "lower_till f ss = length A" "upper_from t ss = length A + length B"
proof -
  define A where "A = takeWhile (\<lambda>s. sl_till s < f) ss"
  define R where "R = dropWhile (\<lambda>s. sl_till s < f) ss"
  define B where "B = takeWhile (\<lambda>s. \<not> t < sl_from s) R"
  define C where "C = dropWhile (\<lambda>s. \<not> t < sl_from s) R"
  have R: "R = B @ C" by (simp add: B_def C_def)
  have ss: "ss = A @ R" by (simp add: A_def R_def)
  have ok: "slices_ok R" "slices_ok C" using assms(1) by (auto simp: ss R slices_ok_append)
  have A: "\<forall>a \<in> set A. sl_till a < f" by (auto simp: A_def dest: set_takeWhileD)
  have hdR: "R \<noteq> [] \<Longrightarrow> f \<le> sl_till (hd R)"
    unfolding R_def by (drule hd_dropWhile) simp
  have hdC: "C \<noteq> [] \<Longrightarrow> t < sl_from (hd C)"
    unfolding C_def by (drule hd_dropWhile) simp
  have fR: "f \<le> sl_till r" if "r \<in> set R" for r
  proof (cases R)
    case (Cons r0 rs)
    have "sl_till r0 \<le> sl_till r"
      using that ok(1) by (fastforce simp: Cons slices_ok_Cons slices_ok_def slice_ok_def)
    then show ?thesis using hdR by (simp add: Cons)
  qed (use that in simp)
  have C: "\<forall>c \<in> set C. t < sl_from c"
  proof (cases C)
    case (Cons c0 cs)
    have "sl_from c0 \<le> sl_from c" if "c \<in> set C" for c
      using that ok(2) by (fastforce simp: Cons slices_ok_Cons slice_ok_def)
    then show ?thesis using hdC by (fastforce simp: Cons)
  qed simp
  have B: "\<forall>b \<in> set B. f \<le> sl_till b \<and> sl_from b \<le> t"
  proof
    fix b assume b: "b \<in> set B"
    then have "\<not> t < sl_from b" by (auto simp: B_def dest: set_takeWhileD)
    with fR [of b] b show "f \<le> sl_till b \<and> sl_from b \<le> t" by (simp add: R)
  qed
  have "\<not> t < sl_from a" if "a \<in> set A" for a
  proof -
    have "sl_from a \<le> sl_till a" using that assms(1) by (auto simp: ss slices_ok_def slice_ok_def)
    moreover have "sl_till a < f" using A that by blast
    ultimately show ?thesis using assms(2) by simp
  qed
  then have "takeWhile (\<lambda>s. \<not> t < sl_from s) (A @ R) = A @ B"
    unfolding B_def by (intro takeWhile_append2) simp
  then have "upper_from t ss = length A + length B"
    by (simp add: upper_from_def ss)
  moreover have "lower_till f ss = length A" by (simp add: lower_till_def A_def)
  moreover have "ss = A @ B @ C" by (simp add: ss R)
  ultimately show thesis using that A B C by blast
qed

lemma fold_merge:
  shows "set (sl_messages (merge_all bs s)) = set (sl_messages s) \<union> (\<Union>b \<in> set bs. set (sl_messages b))"
    and "ordered_set (sl_messages s) \<Longrightarrow> ordered_set (sl_messages (merge_all bs s))"
    and "sl_from (merge_all bs s) = Min (insert (sl_from s) (sl_from ` set bs))"
    and "sl_till (merge_all bs s) = Max (insert (sl_till s) (sl_till ` set bs))"
proof -
  show "set (sl_messages (merge_all bs s)) = set (sl_messages s) \<union> (\<Union>b \<in> set bs. set (sl_messages b))"
    unfolding merge_all_def by (induction bs arbitrary: s) auto
  show "ordered_set (sl_messages s) \<Longrightarrow> ordered_set (sl_messages (merge_all bs s))"
    unfolding merge_all_def by (induction bs arbitrary: s) auto
  have min: "Min (insert (min x y) S) = Min (insert x (insert y S))"
    and max: "Max (insert (max x y) S) = Max (insert x (insert y S))" if "finite S" for x y :: "'a::linorder" and S
    using that by (cases "S = {}"; simp add: min.assoc max.assoc)+
  show "sl_from (merge_all bs s) = Min (insert (sl_from s) (sl_from ` set bs))"
    unfolding merge_all_def by (induction bs arbitrary: s) (simp_all add: min)
  show "sl_till (merge_all bs s) = Max (insert (sl_till s) (sl_till ` set bs))"
    unfolding merge_all_def by (induction bs arbitrary: s) (simp_all add: max)
qed

text \<open>Adding a range unites the slices across it with the new identifiers.\<close>

lemma add_range_items_cases:
  assumes ok: "slices_ok ss" and ft: "f \<le> t"
  obtains A B C u where "ss = A @ B @ C" "fst (add_range_items messages f t ss) = A @ u # C"
    "fst (snd (add_range_items messages f t ss)) = u"
    "\<forall>a \<in> set A. sl_till a < f" "\<forall>b \<in> set B. f \<le> sl_till b \<and> sl_from b \<le> t"
    "\<forall>c \<in> set C. t < sl_from c" "ordered_set (sl_messages u)"
    "set (sl_messages u) = set messages \<union> (\<Union>b \<in> set B. set (sl_messages b))"
    "sl_from u = Min (insert f (sl_from ` set B))" "sl_till u = Max (insert t (sl_till ` set B))"
    "snd (snd (add_range_items messages f t ss)) =
       int (length (sl_messages u)) - (if B = [] then 0 else int (length (sl_messages (hd B))))"
proof -
  obtain A B C where ss: "ss = A @ B @ C"
    and A: "\<forall>a \<in> set A. sl_till a < f" and B: "\<forall>b \<in> set B. f \<le> sl_till b \<and> sl_from b \<le> t"
    and C: "\<forall>c \<in> set C. t < sl_from c"
    and ij: "lower_till f ss = length A" "upper_from t ss = length A + length B"
    by (rule slices_split [OF ok ft])
  show thesis
  proof (cases B)
    case Nil
    let ?u = "\<lparr>sl_messages = flat_merge messages [], sl_from = f, sl_till = t\<rparr>"
    have Af: "sl_from a < f" if "a \<in> set A" for a
    proof -
      have "sl_from a \<le> sl_till a" using that ok by (simp add: ss slices_ok_def slice_ok_def)
      then show ?thesis using that A by (meson le_less_trans)
    qed
    have Cf: "f < sl_from c" if "c \<in> set C" for c using that C ft by fastforce
    have "find (\<lambda>s. sl_from s = f) ss = None"
      using Af Cf by (force simp: ss Nil find_None_iff)
    moreover have "takeWhile (\<lambda>s. sl_from s < f) ss = A \<and> dropWhile (\<lambda>s. sl_from s < f) ss = C"
    proof -
      have "takeWhile (\<lambda>s. sl_from s < f) C = []" "dropWhile (\<lambda>s. sl_from s < f) C = C"
        using Cf by (cases C; force)+
      then show ?thesis using Af by (simp add: ss Nil takeWhile_append dropWhile_append3)
    qed
    ultimately have "add_range_items messages f t ss = (A @ ?u # C, ?u, int (length (sl_messages ?u)))"
      by (simp add: add_range_items_def ij Nil emplace_slice_def)
    with that [OF ss _ _ A B C, of ?u] show thesis by (simp add: Nil)
  next
    case (Cons b bs)
    let ?u = "merge_all bs (slice_merge messages f t b)"
    have eq: "add_range_items messages f t ss =
        (A @ ?u # C, ?u, int (length (sl_messages ?u)) - int (length (sl_messages b)))"
    proof -
      have "add_range_items messages f t ss =
          unite_and_add (length A) (length A + length B) messages f t ss"
        by (simp add: add_range_items_def ij Cons Let_def)
      then show ?thesis by (simp add: unite_and_add_def ss Cons Let_def)
    qed
    have "ordered_set (sl_messages b)" using ok by (simp add: ss Cons slices_ok_def slice_ok_def)
    moreover have "Min (insert (min (sl_from b) f) (sl_from ` set bs)) = Min (insert f (sl_from ` set B))"
      by (cases "bs = []") (simp_all add: Cons min.left_commute min.commute min.assoc)
    moreover have "Max (insert (max (sl_till b) t) (sl_till ` set bs)) = Max (insert t (sl_till ` set B))"
      by (cases "bs = []") (simp_all add: Cons max.left_commute max.commute max.assoc)
    ultimately show thesis
      using that [OF ss _ _ A B C, of ?u]
      by (simp add: eq fold_merge Cons Un_ac)
  qed
qed

text \<open>The range of the united slice is what its parts covered: they all meet the new range.\<close>

lemma united_range:
  fixes B :: "'a::linorder slice list"
  assumes ft: "f \<le> t" and B: "\<forall>b \<in> set B. f \<le> sl_till b \<and> sl_from b \<le> t"
  shows "{Min (insert f (sl_from ` set B))..Max (insert t (sl_till ` set B))}
    = {f..t} \<union> (\<Union>b \<in> set B. slice_range b)"
    and "Min (insert f (sl_from ` set B)) \<le> Max (insert t (sl_till ` set B))"
proof -
  let ?m = "Min (insert f (sl_from ` set B))" and ?M = "Max (insert t (sl_till ` set B))"
  have m: "?m \<le> f" "?m = f \<or> (\<exists>b \<in> set B. ?m = sl_from b)" "\<And>b. b \<in> set B \<Longrightarrow> ?m \<le> sl_from b"
    using Min_in [of "insert f (sl_from ` set B)"] by auto
  have M: "t \<le> ?M" "?M = t \<or> (\<exists>b \<in> set B. ?M = sl_till b)" "\<And>b. b \<in> set B \<Longrightarrow> sl_till b \<le> ?M"
    using Max_in [of "insert t (sl_till ` set B)"] by auto
  show "?m \<le> ?M" using m(1) M(1) ft by (meson order_trans)
  show "{?m..?M} = {f..t} \<union> (\<Union>b \<in> set B. slice_range b)"
  proof (intro equalityI subsetI)
    fix x assume x: "x \<in> {?m..?M}"
    consider "x < f" | "f \<le> x" "x \<le> t" | "t < x" by fastforce
    then show "x \<in> {f..t} \<union> (\<Union>b \<in> set B. slice_range b)"
    proof cases
      case 1
      then obtain b where "b \<in> set B" "?m = sl_from b" using m(2) x by fastforce
      with 1 x B show ?thesis by (fastforce simp: slice_range_def)
    next
      case 3
      then obtain b where "b \<in> set B" "?M = sl_till b" using M(2) x by fastforce
      with 3 x B show ?thesis by (fastforce simp: slice_range_def)
    qed simp
  next
    fix x assume x: "x \<in> {f..t} \<union> (\<Union>b \<in> set B. slice_range b)"
    then show "x \<in> {?m..?M}"
    proof
      assume "x \<in> {f..t}"
      then show ?thesis using m(1) M(1) by (meson atLeastAtMost_iff order_trans)
    next
      assume "x \<in> (\<Union>b \<in> set B. slice_range b)"
      then obtain b where "b \<in> set B" "sl_from b \<le> x" "x \<le> sl_till b"
        by (auto simp: slice_range_def)
      with m(3) M(3) show ?thesis by (meson atLeastAtMost_iff order_trans)
    qed
  qed
qed

definition covered :: "'a::linorder slice list \<Rightarrow> 'a set" where
  "covered ss = (\<Union>s \<in> set ss. slice_range s)"

definition known :: "'a::linorder slice list \<Rightarrow> 'a set" where
  "known ss = (\<Union>s \<in> set ss. set (sl_messages s))"

theorem add_range_items_spec:
  fixes ss :: "'a::linorder slice list" and messages :: "'a list"
  assumes ok: "slices_ok ss" and ft: "f \<le> t"
  defines "ss' \<equiv> fst (add_range_items messages f t ss)"
  shows "slices_ok ss'" and "covered ss' = covered ss \<union> {f..t}"
    and "known ss' = known ss \<union> set messages"
    and "fst (snd (add_range_items messages f t ss)) \<in> set ss'"
    and "{f..t} \<subseteq> slice_range (fst (snd (add_range_items messages f t ss)))"
    and "list_all (truth H) ss \<Longrightarrow> set messages \<subseteq> {f..t} \<Longrightarrow> H \<inter> {f..t} \<subseteq> set messages \<Longrightarrow>
      list_all (truth (H \<union> set messages)) ss'"
proof -
  obtain A B C u where c: "ss = A @ B @ C" "ss' = A @ u # C"
    "fst (snd (add_range_items messages f t ss)) = u"
    "\<forall>a \<in> set A. sl_till a < f" "\<forall>b \<in> set B. f \<le> sl_till b \<and> sl_from b \<le> t"
    "\<forall>c \<in> set C. t < sl_from c" "ordered_set (sl_messages u)"
    "set (sl_messages u) = set messages \<union> (\<Union>b \<in> set B. set (sl_messages b))"
    "sl_from u = Min (insert f (sl_from ` set B))" "sl_till u = Max (insert t (sl_till ` set B))"
    unfolding ss'_def by (rule add_range_items_cases [OF ok ft, of messages])
  note ur = united_range [OF ft c(5)]
  have range: "slice_range u = {f..t} \<union> (\<Union>b \<in> set B. slice_range b)"
    using ur(1) by (simp add: slice_range_def c(9,10))
  have okA: "slices_ok A" "slices_ok C" "slices_ok B"
    "\<forall>a \<in> set A. \<forall>b \<in> set B \<union> set C. sl_till a < sl_from b"
    "\<forall>b \<in> set B. \<forall>c \<in> set C. sl_till b < sl_from c"
    using ok by (auto simp: c(1) slices_ok_append)
  have "sl_till a < sl_from u" if "a \<in> set A" for a
    using that c(4) okA(4) by (auto simp: c(9))
  moreover have "sl_till u < sl_from b" if "b \<in> set C" for b
    using that c(6) okA(5) by (auto simp: c(10))
  moreover have "slice_ok u" using ur(2) c(7) by (simp add: slice_ok_def c(9,10))
  ultimately show "slices_ok ss'"
    using okA by (auto simp: c(2) slices_ok_append slices_ok_Cons)
  show "covered ss' = covered ss \<union> {f..t}" by (auto simp: covered_def c(1,2) range)
  show "known ss' = known ss \<union> set messages" by (auto simp: known_def c(1,2,8))
  show "fst (snd (add_range_items messages f t ss)) \<in> set ss'" by (simp add: c(2,3))
  show "{f..t} \<subseteq> slice_range (fst (snd (add_range_items messages f t ss)))"
    by (auto simp: c(3) range)
  assume H: "list_all (truth H) ss" "set messages \<subseteq> {f..t}" "H \<inter> {f..t} \<subseteq> set messages"
  let ?H = "H \<union> set messages"
  have outside: "truth ?H s" if "truth H s" "sl_till s < f \<or> t < sl_from s" for s
    using that H(2) by (fastforce simp: truth_def slice_range_def)
  have Bt: "set (sl_messages b) = H \<inter> slice_range b" if "b \<in> set B" for b
    using H(1) that by (simp add: c(1) list_all_iff truth_def)
  have "truth ?H u"
    using H(2,3) by (auto simp: truth_def c(8) range Bt)
  with outside H(1) c(4,6) show "list_all (truth ?H) ss'"
    by (auto simp: c(1,2) list_all_iff)
qed

text \<open>What a new identifier adds: itself, when nothing after it is known.\<close>

lemma add_range_items_new:
  fixes ss :: "'a::linorder slice list"
  assumes ok: "slices_ok ss" and ft: "f \<le> t" and H: "list_all (truth H) ss"
    and new: "H \<inter> {f..t} = {}" "f = t \<or> (\<forall>x \<in> H. x \<le> t)" and x: "f \<le> x" "x \<le> t"
  shows "snd (snd (add_range_items [x] f t ss)) = 1"
proof -
  obtain A B C u where full: "ss = A @ B @ C" "fst (add_range_items [x] f t ss) = A @ u # C"
    "fst (snd (add_range_items [x] f t ss)) = u"
    "\<forall>a \<in> set A. sl_till a < f" "\<forall>b \<in> set B. f \<le> sl_till b \<and> sl_from b \<le> t"
    "\<forall>c \<in> set C. t < sl_from c" "ordered_set (sl_messages u)"
    "set (sl_messages u) = set [x] \<union> (\<Union>b \<in> set B. set (sl_messages b))"
    "sl_from u = Min (insert f (sl_from ` set B))" "sl_till u = Max (insert t (sl_till ` set B))"
    "snd (snd (add_range_items [x] f t ss)) =
       int (length (sl_messages u)) - (if B = [] then 0 else int (length (sl_messages (hd B))))"
    by (rule add_range_items_cases [OF ok ft, of "[x]"])
  note c = full(1,5,7,8,11)
  have sub: "set (sl_messages b) = H \<inter> slice_range b" if "b \<in> set B" for b
    using H that by (simp add: c(1) list_all_iff truth_def)
  have xH: "x \<notin> H" using new(1) x by auto
  show ?thesis
  proof (cases B)
    case Nil
    then have "set (sl_messages u) = {x}" using c(4) by simp
    then have "length (sl_messages u) = 1" using ordered_set_length [OF c(3)] by simp
    then show ?thesis by (simp add: c(5) Nil)
  next
    case (Cons b bs)
    have none: "H \<inter> slice_range b' = {}" if "b' \<in> set bs" for b'
    proof -
      have "sl_till b < sl_from b'" using ok that by (simp add: c(1) Cons slices_ok_append slices_ok_Cons)
      moreover have "f \<le> sl_till b" "sl_from b' \<le> t" using c(2) that by (auto simp: Cons)
      ultimately have "f < sl_from b'" "f \<noteq> t" by auto
      then show ?thesis using new by (fastforce simp: slice_range_def)
    qed
    have ob: "ordered_set (sl_messages b)"
      using ok by (simp add: c(1) Cons slices_ok_append slices_ok_Cons slice_ok_def)
    have "set (sl_messages u) = insert x (set (sl_messages b))"
      using none by (simp add: c(4) Cons sub)
    moreover have "x \<notin> set (sl_messages b)" using xH sub [of b] by (simp add: Cons)
    ultimately have "length (sl_messages u) = Suc (length (sl_messages b))"
      by (simp add: ordered_set_length [OF c(3)] ordered_set_length [OF ob])
    then show ?thesis by (simp add: c(5) Cons)
  qed
qed

section \<open>Finding a slice\<close>

lemma slice_around_iff:
  assumes ok: "slices_ok ss"
  shows "slice_around x ss = Some s \<longleftrightarrow> s \<in> set ss \<and> x \<in> slice_range s"
proof -
  obtain A B C where c: "ss = A @ B @ C" "\<forall>a \<in> set A. sl_till a < x"
    "\<forall>b \<in> set B. x \<le> sl_till b \<and> sl_from b \<le> x" "\<forall>c \<in> set C. x < sl_from c"
    "lower_till x ss = length A"
    by (rule slices_split [OF ok order_refl])
  have one: "length B \<le> 1"
  proof (rule ccontr)
    assume "\<not> length B \<le> 1"
    then obtain b b' bs where B: "B = b # b' # bs" by (cases B; cases "tl B") auto
    then have "sl_till b < sl_from b'" using ok by (simp add: c(1) slices_ok_def sorted_wrt_append)
    with c(3) show False by (fastforce simp: B)
  qed
  have around: "slice_around x ss = (case B @ C of [] \<Rightarrow> None
      | s # _ \<Rightarrow> if sl_from s \<le> x then Some s else None)"
    by (simp add: slice_around_def c(1) c(5) [unfolded c(1)])
  show ?thesis
  proof (cases B)
    case Nil
    have "\<not> (s \<in> set ss \<and> x \<in> slice_range s)"
      using c(2,4) by (fastforce simp: c(1) Nil slice_range_def)
    moreover have "slice_around x ss = None"
      using c(4) unfolding around Nil by (cases C) auto
    ultimately show ?thesis by simp
  next
    case (Cons b bs)
    with one have "B = [b]" by simp
    then show ?thesis
      using c(2,3,4) unfolding around by (fastforce simp: c(1) slice_range_def)
  qed
qed

lemma slice_around_None:
  "slices_ok ss \<Longrightarrow> slice_around x ss = None \<longleftrightarrow> x \<notin> covered ss"
  using slice_around_iff [of ss x] by (cases "slice_around x ss") (auto simp: covered_def)

section \<open>Removing identifiers\<close>

definition slice_remove :: "'a::linorder \<Rightarrow> 'a slice list \<Rightarrow> 'a slice list" where
  "slice_remove x ss =
     (let i = lower_till x ss
      in if i < length ss \<and> sl_from (ss ! i) \<le> x
         then ss[i := (ss ! i)\<lparr>sl_messages := removeAll x (sl_messages (ss ! i))\<rparr>] else ss)"

text \<open>\<open>invalidateBottom\<close>: what follows the last identifier of the slice at the end is unknown
  again.\<close>

definition cut_till :: "'a slice \<Rightarrow> 'a slice" where
  "cut_till s = s\<lparr>sl_till := (if sl_messages s = [] then sl_from s else List.last (sl_messages s))\<rparr>"

definition slice_cut_bottom :: "'a \<Rightarrow> 'a slice list \<Rightarrow> 'a slice list" where
  "slice_cut_bottom hi ss =
     (if ss \<noteq> [] \<and> sl_till (List.last ss) = hi then butlast ss @ [cut_till (List.last ss)] else ss)"

lemma ordered_removeAll [simp, intro]: "ordered_set xs \<Longrightarrow> ordered_set (removeAll x xs)"
  by (simp add: removeAll_filter_not_eq sorted_wrt_filter)

lemma slice_remove_eq:
  assumes ok: "slices_ok ss" and H: "list_all (truth H) ss"
  shows "slice_remove x ss = map (\<lambda>s. s\<lparr>sl_messages := removeAll x (sl_messages s)\<rparr>) ss"
proof -
  obtain A B C where c: "ss = A @ B @ C" "\<forall>a \<in> set A. sl_till a < x"
    "\<forall>b \<in> set B. x \<le> sl_till b \<and> sl_from b \<le> x" "\<forall>c \<in> set C. x < sl_from c"
    "lower_till x ss = length A"
    by (rule slices_split [OF ok order_refl])
  let ?r = "\<lambda>s. s\<lparr>sl_messages := removeAll x (sl_messages s)\<rparr>"
  have same: "?r s = s" if "s \<in> set ss" "x \<notin> slice_range s" for s
    using that H by (auto simp: list_all_iff truth_def)
  have AC: "map ?r A = A" "map ?r C = C"
    using c(2,4) by (fastforce intro!: map_idI same simp: c(1) slice_range_def)+
  show ?thesis
  proof (cases B)
    case Nil
    have n: "\<not> (length A < length ss \<and> sl_from (ss ! length A) \<le> x)"
      using c(4) by (cases C) (auto simp: c(1) Nil)
    have "slice_remove x ss = ss"
      by (simp only: slice_remove_def c(5) Let_def if_not_P [OF n])
    then show ?thesis by (simp add: c(1) AC Nil)
  next
    case (Cons b bs)
    have "bs = []"
    proof (rule ccontr)
      assume "bs \<noteq> []"
      then obtain b' where "b' \<in> set bs" by (cases bs) auto
      moreover from this have "sl_till b < sl_from b'"
        using ok by (simp add: c(1) Cons slices_ok_append slices_ok_Cons)
      ultimately show False using c(3) by (fastforce simp: Cons)
    qed
    then show ?thesis
      using c(3) by (simp add: slice_remove_def c(5) AC Let_def) (simp add: c(1) AC Cons)
  qed
qed

lemma slice_remove_truth:
  assumes "slices_ok ss" "list_all (truth H) ss"
  shows "slices_ok (slice_remove x ss)" "list_all (truth (H - {x})) (slice_remove x ss)"
    "covered (slice_remove x ss) = covered ss"
  using assms unfolding slice_remove_eq [OF assms]
  by (auto simp: slices_ok_def slice_ok_def sorted_wrt_map list_all_iff truth_def slice_range_def
      covered_def)

lemma sorted_le_last: "sorted xs \<Longrightarrow> y \<in> set xs \<Longrightarrow> y \<le> List.last xs"
  by (induction xs) auto

lemma cut_till_truth:
  assumes "slice_ok s" "truth H s"
  shows "slice_ok (cut_till s)" "truth H (cut_till s)" "sl_from (cut_till s) = sl_from s"
    "sl_till (cut_till s) \<le> sl_till s"
proof -
  have ms: "sorted (sl_messages s)" "set (sl_messages s) = H \<inter> {sl_from s..sl_till s}"
    "sl_from s \<le> sl_till s" "ordered_set (sl_messages s)"
    using assms by (auto simp: slice_ok_def truth_def slice_range_def ordered_set_iff)
  have le: "y \<le> List.last (sl_messages s)" if "y \<in> set (sl_messages s)" for y
    using ms(1) that by (rule sorted_le_last)
  have lastin: "List.last (sl_messages s) \<in> H \<inter> {sl_from s..sl_till s}" if "sl_messages s \<noteq> []"
    using ms(2) last_in_set [OF that] by simp
  show "sl_from (cut_till s) = sl_from s" by (simp add: cut_till_def)
  show "sl_till (cut_till s) \<le> sl_till s" using lastin ms(3) by (simp add: cut_till_def)
  show "slice_ok (cut_till s)" using lastin ms(3,4) by (simp add: slice_ok_def cut_till_def)
  show "truth H (cut_till s)"
  proof (cases "sl_messages s = []")
    case True
    with ms(2,3) have "sl_from s \<notin> H" by auto
    with True show ?thesis by (simp add: truth_def cut_till_def slice_range_def)
  next
    case False
    have "set (sl_messages s) = H \<inter> {sl_from s..List.last (sl_messages s)}"
      using ms(2) le lastin [OF False] by (auto intro: order_trans)
    with False show ?thesis by (simp add: truth_def cut_till_def slice_range_def)
  qed
qed

lemma slice_cut_bottom_truth:
  assumes "slices_ok ss" "list_all (truth H) ss"
  shows "slices_ok (slice_cut_bottom hi ss)" "list_all (truth H) (slice_cut_bottom hi ss)"
proof (atomize (full), cases "ss \<noteq> [] \<and> sl_till (List.last ss) = hi")
  case True
  define b where "b = List.last ss"
  have ss: "ss = butlast ss @ [b]" using True by (simp add: b_def)
  have b: "slice_ok b" "truth H b"
    using assms True by (simp_all add: b_def slices_ok_def list_all_iff)
  have "slices_ok (butlast ss)" "\<forall>a \<in> set (butlast ss). sl_till a < sl_from b"
    "list_all (truth H) (butlast ss)"
    using assms by (subst (asm) (1 2) ss, simp add: slices_ok_append)+
  moreover have "slice_cut_bottom hi ss = butlast ss @ [cut_till b]"
    using True by (simp add: slice_cut_bottom_def b_def)
  ultimately show "slices_ok (slice_cut_bottom hi ss) \<and> list_all (truth H) (slice_cut_bottom hi ss)"
    using cut_till_truth [OF b] by (simp add: slices_ok_append slices_ok_Cons)
next
  case False
  with assms show "slices_ok (slice_cut_bottom hi ss) \<and> list_all (truth H) (slice_cut_bottom hi ss)"
    by (auto simp: slice_cut_bottom_def)
qed

text \<open>Identifiers beyond every slice do not change what the slices say.\<close>

lemma truth_beyond:
  "list_all (truth H) ss \<Longrightarrow> \<forall>n \<in> N. \<forall>s \<in> set ss. sl_till s < n \<Longrightarrow> list_all (truth (H \<union> N)) ss"
  by (fastforce simp: list_all_iff truth_def slice_range_def)

end
