(* ===== verification/Id_Windows.thy ===== *)
theory Id_Windows
  imports Slices
begin

text \<open>
  What a reader of a sparse list of identifiers is told about the history: a window of it.
  The records are \<open>SparseIdsListResult\<close> / \<open>MessagesResult\<close> and \<open>SparseIdsSliceUpdate\<close> /
  \<open>MessagesSliceUpdate\<close> (\<open>storage/storage_sparse_ids_list.h\<close>, \<open>data/data_messages.h\<close>), which
  differ only in the type of the identifiers.

  \<open>H\<close> is the history: the set of identifiers that exist.  It is not in the code, which only
  ever sees parts of it; it is what the parts have to agree with.
\<close>

section \<open>Queries, results and updates\<close>

record 'a ids_query =
  aroundId :: 'a
  limitBefore :: int
  limitAfter :: int

record 'a ids_result =
  r_count :: "int option"
  r_skippedBefore :: "int option"
  r_skippedAfter :: "int option"
  r_messageIds :: "'a list"

record 'a slice_update =
  u_messages :: "'a list option"
  u_from :: 'a
  u_till :: 'a
  u_count :: "int option"

definition no_result :: "'a ids_result" where
  "no_result = \<lparr>r_count = None, r_skippedBefore = None, r_skippedAfter = None, r_messageIds = []\<rparr>"

text \<open>The part of \<open>ids\<close> (from index \<open>position - before\<close>, and \<open>before + after\<close> long) a query
  takes from a slice, and the skipped counts; \<open>lo\<close> and \<open>hi\<close> are the ends of the full range.\<close>

definition lower_index :: "'a::linorder \<Rightarrow> 'a list \<Rightarrow> nat" where
  "lower_index x xs = length (takeWhile (\<lambda>y. y < x) xs)"

definition fill_skipped ::
  "int option \<Rightarrow> nat \<Rightarrow> int option \<Rightarrow> int option \<Rightarrow> int option \<times> int option" where
  "fill_skipped count n before after =
     (case (count, before, after) of
        (Some c, Some b, None) \<Rightarrow> (Some b, Some (c - b - int n))
      | (Some c, None, Some a) \<Rightarrow> (Some (c - a - int n), Some a)
      | _ \<Rightarrow> (before, after))"

definition query_slice ::
  "'a::linorder \<Rightarrow> 'a \<Rightarrow> int option \<Rightarrow> 'a ids_query \<Rightarrow> 'a slice \<Rightarrow> 'a ids_result" where
  "query_slice lo hi count q s =
     (let position = lower_index (aroundId q) (sl_messages s);
          haveBefore = int position;
          haveEqualOrAfter = int (length (sl_messages s)) - int position;
          before = min haveBefore (limitBefore q);
          equalOrAfter = min haveEqualOrAfter (limitAfter q + 1);
          ids = take (nat (before + equalOrAfter)) (drop (nat (haveBefore - before)) (sl_messages s));
          skipped = fill_skipped count (length ids)
            (if sl_from s = lo then Some (haveBefore - before) else None)
            (if sl_till s = hi then Some (haveEqualOrAfter - equalOrAfter) else None)
      in \<lparr>r_count = count, r_skippedBefore = fst skipped, r_skippedAfter = snd skipped,
          r_messageIds = ids\<rparr>)"

section \<open>Windows\<close>

definition hidden_before :: "'a::linorder set \<Rightarrow> 'a \<Rightarrow> 'a list \<Rightarrow> 'a set" where
  "hidden_before H x ids = {y \<in> H. y < x \<and> y \<notin> set ids}"

definition hidden_after :: "'a::linorder set \<Rightarrow> 'a \<Rightarrow> 'a list \<Rightarrow> 'a set" where
  "hidden_after H x ids = {y \<in> H. x \<le> y \<and> y \<notin> set ids}"

text \<open>The identifiers are consecutive in the history, and around \<open>x\<close>.\<close>

definition window :: "'a::linorder set \<Rightarrow> 'a \<Rightarrow> 'a list \<Rightarrow> bool" where
  "window H x ids \<longleftrightarrow> ordered_set ids \<and> set ids \<subseteq> H
     \<and> (\<forall>y \<in> hidden_before H x ids. \<forall>i \<in> set ids. y < i)
     \<and> (\<forall>y \<in> hidden_after H x ids. \<forall>i \<in> set ids. i < y)"

definition counts :: "int option \<Rightarrow> 'a set \<Rightarrow> bool" where
  "counts n X \<longleftrightarrow> (\<forall>k. n = Some k \<longrightarrow> k = int (card X))"

definition result_exact :: "'a::linorder set \<Rightarrow> 'a \<Rightarrow> 'a ids_result \<Rightarrow> bool" where
  "result_exact H x r \<longleftrightarrow> window H x (r_messageIds r)
     \<and> counts (r_skippedBefore r) (hidden_before H x (r_messageIds r))
     \<and> counts (r_skippedAfter r) (hidden_after H x (r_messageIds r))
     \<and> counts (r_count r) H"

text \<open>An update names a slice as it is, or none.\<close>

definition update_exact :: "'a::linorder set \<Rightarrow> 'a slice_update \<Rightarrow> bool" where
  "update_exact H u \<longleftrightarrow> counts (u_count u) H
     \<and> (\<forall>ms. u_messages u = Some ms \<longrightarrow>
          ordered_set ms \<and> set ms = H \<inter> {u_from u..u_till u})"

lemma counts_simps [simp]: "counts None X" "counts (Some k) X \<longleftrightarrow> k = int (card X)"
  by (auto simp: counts_def)

lemma window_Nil [simp]: "window H x []"
  by (simp add: window_def)

lemma no_result_exact [simp]: "result_exact H x no_result"
  by (simp add: result_exact_def no_result_def)

lemma card_window:
  assumes "window H x ids" "finite H"
  shows "card H = card (hidden_before H x ids) + length ids + card (hidden_after H x ids)"
proof -
  have "H = (hidden_before H x ids \<union> set ids) \<union> hidden_after H x ids"
    using assms(1) by (auto simp: window_def hidden_before_def hidden_after_def)
  moreover have "finite (hidden_before H x ids)" "finite (hidden_after H x ids)"
    using assms(2) by (auto simp: hidden_before_def hidden_after_def)
  moreover have "(hidden_before H x ids \<union> set ids) \<inter> hidden_after H x ids = {}"
    "hidden_before H x ids \<inter> set ids = {}"
    by (auto simp: hidden_before_def hidden_after_def)
  moreover have "card (set ids) = length ids"
    using assms(1) by (simp add: window_def ordered_set_length)
  ultimately show ?thesis by (metis List.finite_set card_Un_disjoint finite_Un)
qed

lemma fill_skipped_counts:
  assumes "window H x ids" "finite H" "counts count H"
    and "counts b (hidden_before H x ids)" "counts a (hidden_after H x ids)"
  shows "counts (fst (fill_skipped count (length ids) b a)) (hidden_before H x ids)"
    and "counts (snd (fill_skipped count (length ids) b a)) (hidden_after H x ids)"
  using assms(3-5) card_window [OF assms(1,2)]
  by (auto simp: fill_skipped_def split: option.split)

text \<open>The sorted history cut on both sides of \<open>x\<close>.\<close>

lemma window_cut:
  assumes "ordered_set (pre @ ids @ post)" "\<forall>y \<in> set pre. y < x" "\<forall>y \<in> set post. x \<le> y"
  shows "hidden_before (set (pre @ ids @ post)) x ids = set pre"
    and "hidden_after (set (pre @ ids @ post)) x ids = set post"
    and "window (set (pre @ ids @ post)) x ids"
proof -
  have d: "set pre \<inter> set ids = {}" "set post \<inter> set ids = {}" "ordered_set ids"
    "\<forall>y \<in> set pre. \<forall>i \<in> set ids. y < i" "\<forall>y \<in> set post. \<forall>i \<in> set ids. i < y"
    using assms(1) by (fastforce simp: sorted_wrt_append)+
  show b: "hidden_before (set (pre @ ids @ post)) x ids = set pre"
    using d(1) assms(2,3) by (fastforce simp: hidden_before_def)
  show a: "hidden_after (set (pre @ ids @ post)) x ids = set post"
    using d(2) assms(2,3) by (fastforce simp: hidden_after_def)
  show "window (set (pre @ ids @ post)) x ids"
    using d(3-5) unfolding window_def a b by auto
qed

lemma lower_index_le [simp]: "lower_index x xs \<le> length xs"
  by (simp add: lower_index_def length_takeWhile_le)

lemma take_lower_index:
  assumes "i \<le> lower_index x xs" "y \<in> set (take i xs)" shows "y < x"
proof -
  have "take i xs = take i (takeWhile (\<lambda>y. y < x) xs)"
    using assms(1) by (metis lower_index_def min.absorb1 take_take takeWhile_eq_take)
  with assms(2) show ?thesis by (metis in_set_takeD set_takeWhileD)
qed

lemma drop_lower_index:
  assumes "sorted xs" "lower_index x xs \<le> j" "y \<in> set (drop j xs)" shows "x \<le> y"
proof -
  have "y \<in> set (drop (lower_index x xs) xs)"
    using set_drop_subset_set_drop [OF assms(2), of xs] assms(3) by blast
  then have y: "y \<in> set (dropWhile (\<lambda>y. y < x) xs)"
    by (simp add: lower_index_def dropWhile_eq_drop)
  then have "dropWhile (\<lambda>y. y < x) xs \<noteq> []" by (metis empty_iff list.set(1))
  then have "x \<le> hd (dropWhile (\<lambda>y. y < x) xs)" using hd_dropWhile by force
  moreover have "sorted (dropWhile (\<lambda>y. y < x) xs)" by (rule sorted_dropWhile [OF assms(1)])
  ultimately show ?thesis using y
    by (cases "dropWhile (\<lambda>y. y < x) xs") auto
qed

text \<open>A cut of a slice around \<open>x\<close> is a window, and hides what was cut and what is outside.\<close>

lemma slice_cut:
  assumes ms: "ordered_set ms" "set ms = H \<inter> {a..b}" and x: "a \<le> x" "x \<le> b"
    and ij: "i \<le> lower_index x ms" "lower_index x ms \<le> j" "j \<le> length ms"
  defines "ids \<equiv> take (j - i) (drop i ms)"
  shows "window H x ids"
    and "hidden_before H x ids = set (take i ms) \<union> {y \<in> H. y < a}"
    and "hidden_after H x ids = set (drop j ms) \<union> {y \<in> H. b < y}"
    and "card (set (take i ms)) = i" "card (set (drop j ms)) = length ms - j"
proof -
  have msd: "ms = take i ms @ ids @ drop j ms"
    using ij by (metis append_take_drop_id drop_drop ids_def le_add_diff_inverse2 le_trans)
  have lt: "\<forall>y \<in> set (take i ms). y < x" using take_lower_index [OF ij(1)] by blast
  have ge: "\<forall>y \<in> set (drop j ms). x \<le> y"
    using drop_lower_index [OF _ ij(2)] ms(1) by (auto simp: ordered_set_iff)
  note cut = window_cut [of "take i ms" ids "drop j ms" x, folded msd, OF ms(1) lt ge]
  have sub: "set ids \<subseteq> {a..b}" "set ids \<subseteq> H"
    using ms(2) set_take_subset set_drop_subset unfolding ids_def by fastforce+
  have b: "hidden_before H x ids = hidden_before (set ms) x ids \<union> {y \<in> H. y < a}"
    using x sub(1) by (fastforce simp: hidden_before_def ms(2))
  have a: "hidden_after H x ids = hidden_after (set ms) x ids \<union> {y \<in> H. b < y}"
    using x sub(1) by (fastforce simp: hidden_after_def ms(2))
  show "hidden_before H x ids = set (take i ms) \<union> {y \<in> H. y < a}" by (simp add: b cut)
  show "hidden_after H x ids = set (drop j ms) \<union> {y \<in> H. b < y}" by (simp add: a cut)
  show "window H x ids"
    using cut(3) sub unfolding window_def a b by fastforce
  have "distinct ms" using ms(1) by (simp add: ordered_set_iff)
  then show "card (set (take i ms)) = i" "card (set (drop j ms)) = length ms - j"
    using ij by (simp_all add: distinct_card)
qed

text \<open>So a query is answered with a window, and its counts are those of the history.\<close>

lemma query_slice_exact:
  assumes s: "slice_ok s" "truth H s" "aroundId q \<in> slice_range s"
    and H: "finite H" "H \<subseteq> {lo..hi}" "counts count H"
    and q: "0 \<le> limitBefore q" "0 \<le> limitAfter q"
  shows "result_exact H (aroundId q) (query_slice lo hi count q s)"
proof -
  let ?ms = "sl_messages s" and ?x = "aroundId q"
  define p where "p = lower_index ?x ?ms"
  define i where "i = nat (int p - min (int p) (limitBefore q))"
  define j where "j = nat (int p + min (int (length ?ms) - int p) (limitAfter q + 1))"
  define ids where "ids = take (j - i) (drop i ?ms)"
  have pl: "p \<le> length ?ms" by (simp add: p_def)
  have ij: "i \<le> p" "p \<le> j" "j \<le> length ?ms" using q pl by (auto simp: i_def j_def)
  have ms: "ordered_set ?ms" "set ?ms = H \<inter> {sl_from s..sl_till s}"
    "sl_from s \<le> ?x" "?x \<le> sl_till s"
    using s by (auto simp: slice_ok_def truth_def slice_range_def)
  note cut = slice_cut [OF ms ij [unfolded p_def], folded ids_def]
  have n: "nat (min (int p) (limitBefore q) + min (int (length ?ms) - int p) (limitAfter q + 1)) = j - i"
    using q pl by (simp add: i_def j_def min_def nat_diff_distrib split: if_splits; linarith)
  have h: "int p - min (int p) (limitBefore q) = int i"
    "int (length ?ms) - int p - min (int (length ?ms) - int p) (limitAfter q + 1)
      = int (length ?ms) - int j"
    using q pl by (simp_all add: i_def j_def)
  have lo: "{y \<in> H. y < lo} = {}" and hi: "{y \<in> H. hi < y} = {}" using H(2) by fastforce+
  have b: "counts (if sl_from s = lo then Some (int i) else None) (hidden_before H ?x ids)"
  proof (cases "sl_from s = lo")
    case True
    then have "hidden_before H ?x ids = set (take i ?ms)" using cut(2) lo by simp
    with cut(4) True show ?thesis by simp
  qed simp
  have a: "counts (if sl_till s = hi then Some (int (length ?ms) - int j) else None) (hidden_after H ?x ids)"
  proof (cases "sl_till s = hi")
    case True
    then have "hidden_after H ?x ids = set (drop j ?ms)" using cut(3) hi by simp
    with cut(5) ij(3) True show ?thesis by simp
  qed simp
  have "query_slice lo hi count q s =
      (let skipped = fill_skipped count (length ids)
         (if sl_from s = lo then Some (int i) else None)
         (if sl_till s = hi then Some (int (length ?ms) - int j) else None)
       in \<lparr>r_count = count, r_skippedBefore = fst skipped, r_skippedAfter = snd skipped,
           r_messageIds = ids\<rparr>)"
    by (simp only: query_slice_def Let_def p_def [symmetric] n h nat_int ids_def [symmetric])
  then show ?thesis
    using cut(1) H(3) fill_skipped_counts [OF cut(1) H(1,3) b a]
    by (simp add: result_exact_def Let_def)
qed

text \<open>An ordered list splits at the index of a bound.\<close>

lemma ordered_split:
  assumes "ordered_set xs"
  shows "filter (\<lambda>i. i < x) xs = take (lower_index x xs) xs"
    and "filter (\<lambda>i. x \<le> i) xs = drop (lower_index x xs) xs"
proof -
  have "filter (\<lambda>i. i < x) (take (lower_index x xs) xs) = take (lower_index x xs) xs"
    "filter (\<lambda>i. x \<le> i) (take (lower_index x xs) xs) = []"
    using take_lower_index [of "lower_index x xs" x xs] by (auto simp: filter_empty_conv not_le)
  moreover have "filter (\<lambda>i. i < x) (drop (lower_index x xs) xs) = []"
    "filter (\<lambda>i. x \<le> i) (drop (lower_index x xs) xs) = drop (lower_index x xs) xs"
    using drop_lower_index [of xs x "lower_index x xs"] assms
    by (auto simp: filter_empty_conv not_less ordered_set_iff)
  ultimately show "filter (\<lambda>i. i < x) xs = take (lower_index x xs) xs"
    "filter (\<lambda>i. x \<le> i) xs = drop (lower_index x xs) xs"
    by (metis append_Nil append_Nil2 append_take_drop_id filter_append)+
qed

lemma length_split:
  assumes "ordered_set xs"
  shows "length (filter (\<lambda>i. i < x) xs) = lower_index x xs"
    and "length (filter (\<lambda>i. x \<le> i) xs) = length xs - lower_index x xs"
  using assms by (simp_all add: ordered_split)

end
