(* ===== verification/History_Store.thy ===== *)
theory History_Store
  imports Id_Windows
begin

text \<open>
  The contract of a store of message identifiers (\<open>Storage::SparseIdsList\<close>,
  \<open>Data::MessagesList\<close>): told about what happens to a history, in whatever order it loads the
  parts of it, it answers every query with a window of the history as it is now.

  A run of the store is a list of events; each has to fit the history (an identifier that is
  announced as new is new, a part that is loaded is the part the history has) and changes
  both the history and the store.
\<close>

fun fitting ::
  "('h \<Rightarrow> 's \<Rightarrow> 'e \<Rightarrow> bool) \<Rightarrow> ('e \<Rightarrow> 'h \<Rightarrow> 'h) \<Rightarrow> ('e \<Rightarrow> 's \<Rightarrow> 's) \<Rightarrow> 'h \<Rightarrow> 's \<Rightarrow> 'e list \<Rightarrow> bool"
where
  "fitting fits after step H st [] = True"
| "fitting fits after step H st (e # es) =
     (fits H st e \<and> fitting fits after step (after e H) (step e st) es)"

definition counts_ok :: "'a::linorder \<Rightarrow> 'a \<Rightarrow> 'a set \<Rightarrow> bool" where
  "counts_ok lo hi H \<longleftrightarrow> finite H \<and> H \<subseteq> {lo..hi}"

text \<open>What the slices and the count of a store say is so.\<close>

definition store_exact ::
  "'a::linorder \<Rightarrow> 'a \<Rightarrow> 'a set \<Rightarrow> int option \<Rightarrow> 'a slice list \<Rightarrow> bool" where
  "store_exact lo hi H count ss \<longleftrightarrow>
     counts_ok lo hi H \<and> slices_ok ss \<and> list_all (truth H) ss \<and> counts count H"

lemma store_exactD:
  assumes "store_exact lo hi H count ss"
  shows "finite H" "H \<subseteq> {lo..hi}" "slices_ok ss" "list_all (truth H) ss" "counts count H"
  using assms by (auto simp: store_exact_def counts_ok_def)

lemma store_query_exact:
  assumes "store_exact lo hi H count ss" "slice_around (aroundId q) ss = Some s"
    and "0 \<le> limitBefore q" "0 \<le> limitAfter q"
  shows "result_exact H (aroundId q) (query_slice lo hi count q s)"
proof -
  note e = store_exactD [OF assms(1)]
  have "s \<in> set ss" "aroundId q \<in> slice_range s"
    using assms(2) slice_around_iff [OF e(3)] by blast+
  with e show ?thesis
    by (intro query_slice_exact assms(3,4)) (auto simp: slices_ok_def list_all_iff)
qed

text \<open>A slice over the full range has the whole history.\<close>

lemma full_slice:
  assumes "truth H s" "slice_ok s" "sl_from s = lo" "sl_till s = hi" "H \<subseteq> {lo..hi}"
  shows "set (sl_messages s) = H" "length (sl_messages s) = card H"
proof -
  show "set (sl_messages s) = H" using assms by (auto simp: truth_def slice_range_def)
  then show "length (sl_messages s) = card H"
    using assms(2) ordered_set_length by (force simp: slice_ok_def)
qed

text \<open>A slice with as many identifiers as the history has all of them.\<close>

lemma whole_slice:
  assumes "truth H s" "slice_ok s" "finite H" "card H \<le> length (sl_messages s)"
  shows "set (sl_messages s) = H"
proof (rule card_seteq [OF assms(3)])
  show "set (sl_messages s) \<subseteq> H" using assms(1) by (auto simp: truth_def)
  have "length (sl_messages s) = card (set (sl_messages s))"
    using assms(2) by (simp add: slice_ok_def ordered_set_length)
  with assms(4) show "card H \<le> card (set (sl_messages s))" by simp
qed

locale history_store =
  fixes exact :: "'a::linorder set \<Rightarrow> 's \<Rightarrow> bool"
    and fits :: "'a set \<Rightarrow> 's \<Rightarrow> 'e \<Rightarrow> bool"
    and after :: "'e \<Rightarrow> 'a set \<Rightarrow> 'a set"
    and step :: "'e \<Rightarrow> 's \<Rightarrow> 's"
    and ask :: "'a ids_query \<Rightarrow> 's \<Rightarrow> 'a ids_result"
  assumes step_exact: "exact H st \<Longrightarrow> fits H st e \<Longrightarrow> exact (after e H) (step e st)"
    and ask_exact: "exact H st \<Longrightarrow> 0 \<le> limitBefore q \<Longrightarrow> 0 \<le> limitAfter q \<Longrightarrow>
      result_exact H (aroundId q) (ask q st)"
begin

lemma run_exact:
  "exact H st \<Longrightarrow> fitting fits after step H st es \<Longrightarrow> exact (fold after es H) (fold step es st)"
  by (induction es arbitrary: H st) (auto intro: step_exact)

lemma run_ask:
  assumes "exact H st" "fitting fits after step H st es" "0 \<le> limitBefore q" "0 \<le> limitAfter q"
  shows "result_exact (fold after es H) (aroundId q) (ask q (fold step es st))"
  using assms by (intro ask_exact run_exact)

end

end
