(* ===== verification/Sparse_Ids_List.thy ===== *)
theory Sparse_Ids_List
  imports History_Store Peer_Ids
begin

text \<open>
  \<open>Storage::SparseIdsList\<close> (\<open>storage/storage_sparse_ids_list.{h,cpp}\<close>): the identifiers of
  one kind of shared media in one conversation, as far as they are known.  The generic code
  over slices is in \<open>Slices\<close> and \<open>Id_Windows\<close>; here are the count, the operations, and that
  the list never says anything of the history that is not so.

  Counts are \<open>int\<close>s that do not overflow in the model; the comparisons of a size with a
  count are the code's, of unsigned values, which a negative count never passes.
\<close>

record SparseIdsList =
  sp_count :: "int option"
  sp_slices :: "msg_id slice list"

definition addRangeItemsAndCountNew ::
  "msg_id list \<Rightarrow> msg_id \<Rightarrow> msg_id \<Rightarrow> msg_id slice list
    \<Rightarrow> msg_id slice list \<times> msg_id slice option \<times> int" where
  "addRangeItemsAndCountNew messages f t ss =
     (if f = t \<and> messages = [] then (ss, None, 0)
      else case add_range_items messages f t ss of (ss, s, added) \<Rightarrow> (ss, Some s, added))"

definition at_least_count :: "'a list \<Rightarrow> int option \<Rightarrow> bool" where
  "at_least_count xs count = (case count of None \<Rightarrow> False | Some c \<Rightarrow> 0 \<le> c \<and> c \<le> int (length xs))"

text \<open>A lone slice with all there is covers the full range, and such a slice tells the count.\<close>

definition widen :: "int option \<Rightarrow> msg_id slice list \<Rightarrow> int option \<times> msg_id slice list" where
  "widen count ss =
     (case ss of
        [s] \<Rightarrow>
          (let s = (if at_least_count (sl_messages s) count
                    then s\<lparr>sl_from := 0, sl_till := ServerMaxMsgId\<rparr> else s)
           in (if sl_from s = 0 \<and> sl_till s = ServerMaxMsgId then Some (int (length (sl_messages s)))
               else count, [s]))
      | _ \<Rightarrow> (count, ss))"

definition next_count :: "int option \<Rightarrow> bool \<Rightarrow> int \<Rightarrow> int option \<Rightarrow> int option" where
  "next_count count incrementCount added was =
     (if count \<noteq> None then count
      else if incrementCount \<and> was \<noteq> None \<and> 0 < added then map_option (\<lambda>c. c + added) was
      else was)"

definition accumulate_max :: "msg_id slice option \<Rightarrow> int option \<Rightarrow> int option" where
  "accumulate_max updated count =
     (case updated of None \<Rightarrow> count
      | Some s \<Rightarrow> map_option (\<lambda>c. max c (int (length (sl_messages s)))) count)"

definition addRange ::
  "msg_id list \<Rightarrow> msg_id \<Rightarrow> msg_id \<Rightarrow> int option \<Rightarrow> bool \<Rightarrow> SparseIdsList
    \<Rightarrow> SparseIdsList \<times> msg_id slice_update" where
  "addRange messages f t count incrementCount st =
     (case addRangeItemsAndCountNew messages f t (sp_slices st) of
        (ss, updated, added) \<Rightarrow>
          (let w = widen (next_count count incrementCount added (sp_count st)) ss;
               c = accumulate_max updated (fst w)
           in (\<lparr>sp_count = c, sp_slices = snd w\<rparr>,
               \<lparr>u_messages = map_option sl_messages updated,
                u_from = (case updated of None \<Rightarrow> 0 | Some s \<Rightarrow> sl_from s),
                u_till = (case updated of None \<Rightarrow> 0 | Some s \<Rightarrow> sl_till s),
                u_count = c\<rparr>)))"

definition sparse_addNew :: "msg_id \<Rightarrow> SparseIdsList \<Rightarrow> SparseIdsList \<times> msg_id slice_update" where
  "sparse_addNew messageId = addRange [messageId] messageId ServerMaxMsgId None True"

definition sparse_addExisting ::
  "msg_id \<Rightarrow> msg_id \<Rightarrow> msg_id \<Rightarrow> SparseIdsList \<Rightarrow> SparseIdsList \<times> msg_id slice_update" where
  "sparse_addExisting messageId f t = addRange [messageId] f t None False"

definition sparse_addSlice ::
  "msg_id list \<Rightarrow> msg_id \<Rightarrow> msg_id \<Rightarrow> int option \<Rightarrow> SparseIdsList
    \<Rightarrow> SparseIdsList \<times> msg_id slice_update" where
  "sparse_addSlice messageIds f t count = addRange messageIds f t count False"

definition sparse_removeOne :: "msg_id \<Rightarrow> SparseIdsList \<Rightarrow> SparseIdsList" where
  "sparse_removeOne messageId st =
     \<lparr>sp_count = map_option (\<lambda>c. if 0 < c then c - 1 else c) (sp_count st),
      sp_slices = slice_remove messageId (sp_slices st)\<rparr>"

definition sparse_removeAll :: "SparseIdsList \<Rightarrow> SparseIdsList" where
  "sparse_removeAll st =
     \<lparr>sp_count = Some 0,
      sp_slices = [\<lparr>sl_messages = [], sl_from = 0, sl_till = ServerMaxMsgId\<rparr>]\<rparr>"

definition sparse_invalidateBottom :: "SparseIdsList \<Rightarrow> SparseIdsList" where
  "sparse_invalidateBottom st =
     \<lparr>sp_count = None, sp_slices = slice_cut_bottom ServerMaxMsgId (sp_slices st)\<rparr>"

definition countAfter :: "msg_id \<Rightarrow> int \<Rightarrow> (msg_id \<Rightarrow> bool) \<Rightarrow> SparseIdsList \<Rightarrow> int option" where
  "countAfter tillId limit P st =
     (if sp_slices st = [] then None
      else let bottom = List.last (sp_slices st)
           in if sl_till bottom \<noteq> ServerMaxMsgId then None
              else if tillId < sl_from bottom \<and> sl_from bottom \<noteq> 0 then None
              else let later = dropWhile (\<lambda>m. \<not> tillId < m) (sl_messages bottom)
                   in if limit < int (length later) then None
                      else Some (int (length (filter P later))))"

definition sparse_queryFromSlice ::
  "int option \<Rightarrow> msg_id ids_query \<Rightarrow> msg_id slice \<Rightarrow> msg_id ids_result" where
  "sparse_queryFromSlice = query_slice 0 ServerMaxMsgId"

definition sparse_snapshot :: "msg_id ids_query \<Rightarrow> SparseIdsList \<Rightarrow> msg_id ids_result" where
  "sparse_snapshot q st =
     (case (if aroundId q \<noteq> 0 then slice_around (aroundId q) (sp_slices st) else None) of
        Some s \<Rightarrow> sparse_queryFromSlice (sp_count st) q s
      | None \<Rightarrow> if sp_count st \<noteq> None then no_result\<lparr>r_count := sp_count st\<rparr> else no_result)"

text \<open>\<open>query\<close> only answers when there is something to tell.\<close>

definition sparse_query :: "msg_id ids_query \<Rightarrow> SparseIdsList \<Rightarrow> msg_id ids_result option" where
  "sparse_query q st =
     (let now = sparse_snapshot q st
      in if r_messageIds now \<noteq> [] \<or> r_count now \<noteq> None then Some now else None)"

definition sparse_empty :: "SparseIdsList \<Rightarrow> bool" where
  "sparse_empty st = list_all (\<lambda>s. sl_messages s = []) (sp_slices st)"

section \<open>The list agrees with the history\<close>

definition sparse_exact :: "msg_id set \<Rightarrow> SparseIdsList \<Rightarrow> bool" where
  "sparse_exact H st \<longleftrightarrow> store_exact 0 ServerMaxMsgId H (sp_count st) (sp_slices st)"

text \<open>Events: a message arrived, a part of the history was loaded, a message was deleted, all
  were, and messages arrived that the list has not been told of.\<close>

datatype sparse_event =
    Arrived msg_id
  | Existing msg_id msg_id msg_id
  | Loaded "msg_id list" msg_id msg_id "int option"
  | Deleted msg_id
  | Cleared
  | Missed "msg_id list"

fun sparse_step :: "sparse_event \<Rightarrow> SparseIdsList \<Rightarrow> SparseIdsList" where
  "sparse_step (Arrived m) st = fst (sparse_addNew m st)"
| "sparse_step (Existing m f t) st = fst (sparse_addExisting m f t st)"
| "sparse_step (Loaded ms f t c) st = fst (sparse_addSlice ms f t c st)"
| "sparse_step (Deleted m) st = sparse_removeOne m st"
| "sparse_step Cleared st = sparse_removeAll st"
| "sparse_step (Missed ms) st = sparse_invalidateBottom st"

fun sparse_after :: "sparse_event \<Rightarrow> msg_id set \<Rightarrow> msg_id set" where
  "sparse_after (Arrived m) H = H \<union> {m}"
| "sparse_after (Existing m f t) H = H"
| "sparse_after (Loaded ms f t c) H = H"
| "sparse_after (Deleted m) H = H - {m}"
| "sparse_after Cleared H = {}"
| "sparse_after (Missed ms) H = H \<union> set ms"

fun sparse_fits :: "msg_id set \<Rightarrow> SparseIdsList \<Rightarrow> sparse_event \<Rightarrow> bool" where
  "sparse_fits H st (Arrived m) \<longleftrightarrow> 0 \<le> m \<and> m \<le> ServerMaxMsgId \<and> (\<forall>x \<in> H. x < m)"
| "sparse_fits H st (Existing m f t) \<longleftrightarrow> f \<le> t \<and> {m} = H \<inter> {f..t}"
| "sparse_fits H st (Loaded ms f t c) \<longleftrightarrow> f \<le> t \<and> set ms = H \<inter> {f..t} \<and> counts c H"
| "sparse_fits H st (Deleted m) \<longleftrightarrow> m \<in> H"
| "sparse_fits H st Cleared \<longleftrightarrow> True"
| "sparse_fits H st (Missed ms) \<longleftrightarrow> set ms \<subseteq> {0..ServerMaxMsgId}
     \<and> (\<forall>m \<in> set ms. \<forall>s \<in> set (sp_slices (sparse_invalidateBottom st)). sl_till s < m)"

lemma widen_exact:
  assumes "store_exact 0 ServerMaxMsgId H count ss"
  shows "store_exact 0 ServerMaxMsgId H (fst (widen count ss)) (snd (widen count ss))"
proof (cases "\<exists>s. ss = [s]")
  case True
  then obtain s where ss: "ss = [s]" by blast
  note e = store_exactD [OF assms]
  define w where "w = (if at_least_count (sl_messages s) count
    then s\<lparr>sl_from := 0, sl_till := ServerMaxMsgId\<rparr> else s)"
  have w: "slice_ok w \<and> truth H w"
  proof (cases "at_least_count (sl_messages s) count")
    case True
    then have "set (sl_messages s) = H"
      using e by (intro whole_slice)
        (auto simp: at_least_count_def ss slices_ok_def split: option.splits)
    with True e show ?thesis
      by (auto simp: w_def slice_ok_def truth_def slice_range_def ss slices_ok_def ServerMaxMsgId_def)
  qed (use e in \<open>auto simp: w_def ss slices_ok_def\<close>)
  then have full: "sl_from w = 0 \<and> sl_till w = ServerMaxMsgId \<Longrightarrow> length (sl_messages w) = card H"
    using full_slice e(2) by blast
  have "widen count ss = (if sl_from w = 0 \<and> sl_till w = ServerMaxMsgId
      then Some (int (length (sl_messages w))) else count, [w])"
    by (simp add: widen_def ss w_def Let_def)
  with w e full show ?thesis by (auto simp: store_exact_def counts_ok_def slices_ok_def)
next
  case False
  then have "widen count ss = (count, ss)"
    by (cases ss; cases "tl ss") (auto simp: widen_def)
  with assms show ?thesis by simp
qed

text \<open>Whatever a range tells of the history, the list keeps to it, and so does the update.\<close>

lemma addRange_exact:
  assumes st: "sparse_exact H st" and ft: "f \<le> t" and ms: "set messages \<subseteq> {f..t}"
    "H \<inter> {f..t} \<subseteq> set messages" "set messages \<subseteq> {0..ServerMaxMsgId}"
    and c: "counts count (H \<union> set messages)"
    and incr: "count = None \<Longrightarrow> set messages \<subseteq> H \<and> \<not> incr \<or> incr \<and> (\<exists>m. messages = [m] \<and> m \<notin> H)
        \<and> (f = t \<or> (\<forall>x \<in> H. x \<le> t))"
  shows "sparse_exact (H \<union> set messages) (fst (addRange messages f t count incr st))"
    and "update_exact (H \<union> set messages) (snd (addRange messages f t count incr st))"
proof -
  note e = store_exactD [OF st [unfolded sparse_exact_def]]
  let ?H = "H \<union> set messages"
  obtain ss upd added where r: "addRangeItemsAndCountNew messages f t (sp_slices st) = (ss, upd, added)"
    by (metis prod_cases3)
  have empty_add: "f = t \<and> messages = [] \<Longrightarrow> ss = sp_slices st \<and> upd = None \<and> added = 0"
    using r by (simp add: addRangeItemsAndCountNew_def)
  have something: "\<not> (f = t \<and> messages = []) \<Longrightarrow> \<exists>s. upd = Some s \<and>
      add_range_items messages f t (sp_slices st) = (ss, s, added)"
    using r by (auto simp: addRangeItemsAndCountNew_def split: prod.splits)
  note spec = add_range_items_spec [OF e(3) ft, where messages = messages]
  have ss: "slices_ok ss \<and> list_all (truth ?H) ss \<and> (\<forall>s. upd = Some s \<longrightarrow> s \<in> set ss)"
  proof (cases "f = t \<and> messages = []")
    case True
    then have none: "ss = sp_slices st" "upd = None" using empty_add by blast+
    have "set messages = {}" using True by simp
    with none(2) e(3,4) show ?thesis unfolding none(1) by simp
  next
    case False
    with something obtain s where s: "upd = Some s" "add_range_items messages f t (sp_slices st) = (ss, s, added)"
      by blast
    show ?thesis using spec(1,4) spec(6) [OF e(4) ms(1,2)] by (simp add: s)
  qed
  have added: "added = 1" if "messages = [m]" "m \<notin> H" "f = t \<or> (\<forall>x \<in> H. x \<le> t)" for m
  proof -
    have "H \<inter> {f..t} = {}" using ms(2) that by auto
    moreover have "f \<le> m" "m \<le> t" using ms(1) that(1) by auto
    ultimately have "snd (snd (add_range_items [m] f t (sp_slices st))) = 1"
      using add_range_items_new [OF e(3) ft e(4)] that(3) by blast
    with something that(1) show ?thesis by auto
  qed
  define c1 where "c1 = next_count count incr added (sp_count st)"
  have c1: "counts c1 ?H"
  proof (cases "count = None")
    case False
    with c show ?thesis by (simp add: c1_def next_count_def)
  next
    case True
    with incr consider "set messages \<subseteq> H" "\<not> incr"
      | m where "incr" "messages = [m]" "m \<notin> H" "f = t \<or> (\<forall>x \<in> H. x \<le> t)" by blast
    then show ?thesis
    proof cases
      case 1
      then show ?thesis using e(5) True by (simp add: c1_def next_count_def Un_absorb2)
    next
      case 2
      then show ?thesis using e(1,5) added True
        by (cases "sp_count st") (auto simp: c1_def next_count_def)
    qed
  qed
  have "counts_ok 0 ServerMaxMsgId ?H" using e(1,2) ms(3) by (auto simp: counts_ok_def)
  with ss c1 have "store_exact 0 ServerMaxMsgId ?H c1 ss" by (simp add: store_exact_def)
  then have w: "store_exact 0 ServerMaxMsgId ?H (fst (widen c1 ss)) (snd (widen c1 ss))"
    by (rule widen_exact)
  note we = store_exactD [OF w]
  define c2 where "c2 = accumulate_max upd (fst (widen c1 ss))"
  have short: "length (sl_messages s) \<le> card ?H" if "upd = Some s" for s
  proof -
    have "slice_ok s" "truth ?H s" using ss that by (auto simp: slices_ok_def list_all_iff)
    then show ?thesis using we(1)
      by (auto simp: slice_ok_def truth_def ordered_set_length intro: card_mono)
  qed
  have c2: "counts c2 ?H" using we(5) short by (auto simp: c2_def accumulate_max_def counts_def split: option.splits)
  have res: "addRange messages f t count incr st =
     (\<lparr>sp_count = c2, sp_slices = snd (widen c1 ss)\<rparr>,
      \<lparr>u_messages = map_option sl_messages upd,
       u_from = (case upd of None \<Rightarrow> 0 | Some s \<Rightarrow> sl_from s),
       u_till = (case upd of None \<Rightarrow> 0 | Some s \<Rightarrow> sl_till s), u_count = c2\<rparr>)"
    by (simp add: addRange_def r Let_def c1_def c2_def)
  show "sparse_exact ?H (fst (addRange messages f t count incr st))"
    using w c2 by (simp add: res sparse_exact_def store_exact_def)
  show "update_exact ?H (snd (addRange messages f t count incr st))"
    using c2 ss by (auto simp: res update_exact_def slices_ok_def slice_ok_def list_all_iff
        truth_def slice_range_def)
qed

lemma sparse_removeOne_exact:
  assumes "sparse_exact H st" "m \<in> H" shows "sparse_exact (H - {m}) (sparse_removeOne m st)"
proof -
  note e = store_exactD [OF assms(1) [unfolded sparse_exact_def]]
  have "0 < card H" using assms(2) e(1) by (auto simp: card_gt_0_iff)
  then have "counts (map_option (\<lambda>c. if 0 < c then c - 1 else c) (sp_count st)) (H - {m})"
    using e(1,5) assms(2) by (cases "sp_count st") (auto simp: of_nat_diff)
  with e slice_remove_truth [OF e(3,4), of m] show ?thesis
    by (auto simp: sparse_exact_def store_exact_def counts_ok_def sparse_removeOne_def)
qed

lemma sparse_step_exact:
  assumes "sparse_exact H st" "sparse_fits H st ev"
  shows "sparse_exact (sparse_after ev H) (sparse_step ev st)"
proof -
  note e = store_exactD [OF assms(1) [unfolded sparse_exact_def]]
  show ?thesis
  proof (cases ev)
    case (Arrived m)
    with assms(2) e have "sparse_exact (H \<union> set [m]) (fst (addRange [m] m ServerMaxMsgId None True st))"
      by (intro addRange_exact assms(1)) force+
    then show ?thesis by (simp add: Arrived sparse_addNew_def)
  next
    case (Existing m f t)
    with assms(2) have m: "m \<in> H" "H \<union> set [m] = H" by auto
    with assms(2) e Existing have "sparse_exact (H \<union> set [m]) (fst (addRange [m] f t None False st))"
      by (intro addRange_exact assms(1)) auto
    with m show ?thesis by (simp add: Existing sparse_addExisting_def insert_absorb)
  next
    case (Loaded ms f t c)
    with assms(2) have H: "H \<union> set ms = H" by auto
    have "sparse_exact (H \<union> set ms) (fst (addRange ms f t c False st))"
      using assms(2) e(2) Loaded by (intro addRange_exact assms(1)) (auto simp: H)
    with H show ?thesis by (simp add: Loaded sparse_addSlice_def)
  next
    case (Deleted m)
    with assms sparse_removeOne_exact show ?thesis by simp
  next
    case Cleared
    then show ?thesis
      by (simp add: sparse_removeAll_def sparse_exact_def store_exact_def counts_ok_def slices_ok_def
          slice_ok_def truth_def ServerMaxMsgId_def)
  next
    case (Missed ms)
    then show ?thesis
      using assms(2) e(1,2) slice_cut_bottom_truth [OF e(3,4), of ServerMaxMsgId]
      by (auto simp: sparse_exact_def store_exact_def counts_ok_def sparse_invalidateBottom_def
          intro!: truth_beyond)
  qed
qed

lemma sparse_snapshot_exact:
  assumes "sparse_exact H st" "0 \<le> limitBefore q" "0 \<le> limitAfter q"
  shows "result_exact H (aroundId q) (sparse_snapshot q st)"
proof (cases "if aroundId q \<noteq> 0 then slice_around (aroundId q) (sp_slices st) else None")
  case None
  have "counts (sp_count st) H" using assms(1) by (simp add: sparse_exact_def store_exact_def)
  with None show ?thesis
    by (simp add: sparse_snapshot_def) (simp add: result_exact_def no_result_def)
next
  case (Some s)
  then have "slice_around (aroundId q) (sp_slices st) = Some s" by (simp split: if_splits)
  with assms Some show ?thesis
    unfolding sparse_snapshot_def sparse_exact_def sparse_queryFromSlice_def
    by (simp only: option.case) (rule store_query_exact)
qed

interpretation sparse: history_store sparse_exact sparse_fits sparse_after sparse_step sparse_snapshot
  by unfold_locales (auto intro: sparse_step_exact sparse_snapshot_exact)

end
