(* ===== verification/Slice_Builder.thy ===== *)
theory Slice_Builder
  imports History_Store
begin

text \<open>
  The builder of the part of a history that is on screen: what \<open>SparseIdsSliceBuilder\<close>
  (\<open>data/data_sparse_ids.cpp\<close>) and \<open>Data::MessagesSliceBuilder\<close>
  (\<open>data/data_messages.cpp\<close>) have in common, which is nearly all of them.  It gathers what
  the store answers and announces around a key, keeps at most \<open>limitBefore\<close> identifiers
  before the key and \<open>limitAfter + 1\<close> from it on, and asks for more when it has fewer.

  What differs is in a \<open>line\<close>: the ends of the full range, the null identifier, which keys
  count as set (\<open>operator bool\<close>), and which first and last identifiers count as there.
  The requests the builder fires (\<open>_insufficientAround\<close>) are collected in the state.  That
  \<open>oldId\<close> is found in \<open>_ids\<close> is an assertion of the code; here it is the index of the first
  equal element, and the identifiers it is called with are always in the list.
\<close>

datatype LoadDirection = Around | Before | After

record 'a line =
  ln_min :: 'a
  ln_max :: 'a
  ln_null :: 'a
  ln_set :: "'a \<Rightarrow> bool"
  ln_there :: "'a \<Rightarrow> bool"

record 'a builder =
  bd_key :: 'a
  bd_ids :: "'a list"
  bd_fullCount :: "int option"
  bd_skippedBefore :: "int option"
  bd_skippedAfter :: "int option"
  bd_limitBefore :: int
  bd_limitAfter :: int
  bd_requests :: "('a \<times> LoadDirection) list"

definition new_builder :: "'a \<Rightarrow> int \<Rightarrow> int \<Rightarrow> 'a builder" where
  "new_builder key before after =
     \<lparr>bd_key = key, bd_ids = [], bd_fullCount = None, bd_skippedBefore = None,
      bd_skippedAfter = None, bd_limitBefore = before, bd_limitAfter = after,
      bd_requests = []\<rparr>"

section \<open>Requests and limits\<close>

definition fire :: "'a \<times> LoadDirection \<Rightarrow> 'a builder \<Rightarrow> 'a builder" where
  "fire r b = b\<lparr>bd_requests := bd_requests b @ [r]\<rparr>"

definition request_messages :: "LoadDirection \<Rightarrow> 'a builder \<Rightarrow> 'a builder" where
  "request_messages direction b =
     fire (if bd_ids b = [] then (bd_key b, Around)
           else if direction = Before then (hd (bd_ids b), Before)
           else (List.last (bd_ids b), After)) b"

definition request_count :: "'a line \<Rightarrow> 'a builder \<Rightarrow> 'a builder" where
  "request_count ln b = fire (ln_null ln, Around) b"

definition maybe_more :: "int option \<Rightarrow> bool" where
  "maybe_more skipped = (case skipped of None \<Rightarrow> True | Some n \<Rightarrow> 0 < n)"

definition limit_before :: "int \<Rightarrow> 'a builder \<Rightarrow> 'a builder \<times> bool" where
  "limit_before remove b =
     (if 0 < remove
      then (b\<lparr>bd_ids := drop (nat remove) (bd_ids b),
              bd_skippedBefore := map_option (\<lambda>n. n + remove) (bd_skippedBefore b)\<rparr>, False)
      else if remove < 0 \<and> maybe_more (bd_skippedBefore b) then (request_messages Before b, True)
      else (b, False))"

definition limit_after :: "int \<Rightarrow> 'a builder \<Rightarrow> 'a builder \<times> bool" where
  "limit_after remove b =
     (if 0 < remove
      then (b\<lparr>bd_ids := take (length (bd_ids b) - nat remove) (bd_ids b),
              bd_skippedAfter := map_option (\<lambda>n. n + remove) (bd_skippedAfter b)\<rparr>, False)
      else if remove < 0 \<and> maybe_more (bd_skippedAfter b) then (request_messages After b, True)
      else (b, False))"

definition slice_to_limits :: "'a::linorder line \<Rightarrow> 'a builder \<Rightarrow> 'a builder" where
  "slice_to_limits ln b =
     (if \<not> ln_set ln (bd_key b)
      then (if bd_fullCount b = None then request_count ln b else b)
      else let around = int (lower_index (bd_key b) (bd_ids b));
               removeFromBegin = around - bd_limitBefore b;
               removeFromEnd = int (length (bd_ids b)) - around - bd_limitAfter b - 1
           in case limit_before removeFromBegin b of
                (b, asked) \<Rightarrow>
                  (case limit_after removeFromEnd b of
                     (b, asked') \<Rightarrow>
                       if bd_fullCount b = None \<and> \<not> (asked \<or> asked') then request_count ln b
                       else b))"

definition fill_and_slice :: "'a::linorder line \<Rightarrow> 'a builder \<Rightarrow> 'a builder" where
  "fill_and_slice ln b =
     (let skipped = fill_skipped (bd_fullCount b) (length (bd_ids b))
            (bd_skippedBefore b) (bd_skippedAfter b)
      in slice_to_limits ln
           (b\<lparr>bd_skippedBefore := fst skipped, bd_skippedAfter := snd skipped\<rparr>))"

section \<open>Merging\<close>

text \<open>A negative count is never at most a size: the comparison is of unsigned values.\<close>

definition take_count :: "int option \<Rightarrow> 'a builder \<Rightarrow> 'a builder" where
  "take_count count b =
     (case count of
        None \<Rightarrow> b
      | Some c \<Rightarrow>
          if bd_fullCount b \<noteq> count
          then (if 0 \<le> c \<and> c \<le> int (length (bd_ids b))
                then b\<lparr>bd_fullCount := Some (int (length (bd_ids b))),
                       bd_skippedBefore := Some 0, bd_skippedAfter := Some 0\<rparr>
                else b\<lparr>bd_fullCount := count\<rparr>)
          else b)"

definition index_in :: "'a list \<Rightarrow> 'a \<Rightarrow> int" where
  "index_in ids x = int (length (takeWhile (\<lambda>y. y \<noteq> x) ids))"

definition adjusted_before :: "'a list \<Rightarrow> 'a \<Rightarrow> int \<Rightarrow> int" where
  "adjusted_before ids oldId old = max (old - index_in ids oldId) 0"

definition adjusted_after :: "'a list \<Rightarrow> 'a \<Rightarrow> int \<Rightarrow> int" where
  "adjusted_after ids oldId old = max (old - (int (length ids) - index_in ids oldId - 1)) 0"

definition was_there :: "'a line \<Rightarrow> 'a list \<Rightarrow> bool" where
  "was_there ln ids \<longleftrightarrow> ids \<noteq> [] \<and> ln_there ln (hd ids)"

definition was_there_last :: "'a line \<Rightarrow> 'a list \<Rightarrow> bool" where
  "was_there_last ln ids \<longleftrightarrow> ids \<noteq> [] \<and> ln_there ln (List.last ids)"

definition merge_slice_data ::
  "'a::linorder line \<Rightarrow> int option \<Rightarrow> 'a list \<Rightarrow> int option \<Rightarrow> int option \<Rightarrow> 'a builder \<Rightarrow> 'a builder"
where
  "merge_slice_data ln count messageIds before after b =
     (if messageIds = [] then fill_and_slice ln (take_count count b)
      else let was = bd_ids b; ids = flat_merge messageIds was
           in fill_and_slice ln
                (b\<lparr>bd_fullCount := (if count \<noteq> None then count else bd_fullCount b),
                   bd_ids := ids,
                   bd_skippedBefore :=
                     (case before of
                        Some n \<Rightarrow> Some (adjusted_before ids (hd messageIds) n)
                      | None \<Rightarrow> if was_there ln was
                                then map_option (adjusted_before ids (hd was)) (bd_skippedBefore b)
                                else None),
                   bd_skippedAfter :=
                     (case after of
                        Some n \<Rightarrow> Some (adjusted_after ids (List.last messageIds) n)
                      | None \<Rightarrow> if was_there_last ln was
                                then map_option (adjusted_after ids (List.last was)) (bd_skippedAfter b)
                                else None)\<rparr>))"

definition apply_initial :: "'a::linorder line \<Rightarrow> 'a ids_result \<Rightarrow> 'a builder \<Rightarrow> 'a builder" where
  "apply_initial ln r b =
     merge_slice_data ln (r_count r) (r_messageIds r) (r_skippedBefore r) (r_skippedAfter r) b"

definition needs_merge :: "'a::linorder slice_update \<Rightarrow> 'a builder \<Rightarrow> bool" where
  "needs_merge u b \<longleftrightarrow> u_messages u \<noteq> None
     \<and> u_from u \<le> (if bd_ids b = [] then bd_key b else List.last (bd_ids b))
     \<and> (if bd_ids b = [] then bd_key b else hd (bd_ids b)) \<le> u_till u"

definition apply_update ::
  "'a::linorder line \<Rightarrow> 'a slice_update \<Rightarrow> 'a builder \<Rightarrow> 'a builder \<times> bool" where
  "apply_update ln u b =
     (if \<not> needs_merge u b \<and> u_count u = None then (b, False)
      else (merge_slice_data ln (u_count u)
              (if needs_merge u b then the (u_messages u) else [])
              (if u_from u = ln_min ln then Some 0 else None)
              (if u_till u = ln_max ln then Some 0 else None) b, True))"

section \<open>Removing\<close>

definition less_one :: "int option \<Rightarrow> int option" where
  "less_one n = map_option (\<lambda>k. k - 1) n"

definition has_some :: "int option \<Rightarrow> bool" where
  "has_some n = (case n of None \<Rightarrow> False | Some k \<Rightarrow> 0 < k)"

definition remove_one :: "'a::linorder \<Rightarrow> 'a builder \<Rightarrow> 'a builder \<times> bool" where
  "remove_one m b =
     (let counted = has_some (bd_fullCount b);
          b = (if counted then b\<lparr>bd_fullCount := less_one (bd_fullCount b)\<rparr> else b)
      in if m \<in> set (bd_ids b) then (b\<lparr>bd_ids := removeAll m (bd_ids b)\<rparr>, True)
         else if bd_ids b \<noteq> [] \<and> m < hd (bd_ids b) \<and> has_some (bd_skippedBefore b)
         then (b\<lparr>bd_skippedBefore := less_one (bd_skippedBefore b)\<rparr>, True)
         else if bd_ids b \<noteq> [] \<and> List.last (bd_ids b) < m \<and> has_some (bd_skippedAfter b)
         then (b\<lparr>bd_skippedAfter := less_one (bd_skippedAfter b)\<rparr>, True)
         else (b, counted))"

definition remove_all :: "'a builder \<Rightarrow> 'a builder" where
  "remove_all b =
     b\<lparr>bd_ids := [], bd_fullCount := Some 0, bd_skippedBefore := Some 0, bd_skippedAfter := Some 0\<rparr>"

definition bottom_invalidated :: "'a::linorder line \<Rightarrow> 'a builder \<Rightarrow> 'a builder" where
  "bottom_invalidated ln b =
     slice_to_limits ln (b\<lparr>bd_fullCount := None, bd_skippedAfter := None\<rparr>)"

end
