(* ===== verification/Builder_Windows.thy ===== *)
theory Builder_Windows
  imports Slice_Builder
begin

text \<open>
  What the builder of \<open>Slice_Builder\<close> keeps: its identifiers are a window of the history
  around the key, and what it says is hidden on either side, and in all, is exact.  When it
  asks for nothing, the window is as large as its limits and the history allow.
\<close>

definition builder_exact :: "'a::linorder set \<Rightarrow> 'a builder \<Rightarrow> bool" where
  "builder_exact H b \<longleftrightarrow> finite H \<and> window H (bd_key b) (bd_ids b)
     \<and> counts (bd_fullCount b) H
     \<and> counts (bd_skippedBefore b) (hidden_before H (bd_key b) (bd_ids b))
     \<and> counts (bd_skippedAfter b) (hidden_after H (bd_key b) (bd_ids b))
     \<and> 0 \<le> bd_limitBefore b \<and> 0 \<le> bd_limitAfter b"

definition within_limits :: "'a::linorder builder \<Rightarrow> bool" where
  "within_limits b \<longleftrightarrow>
     int (length (filter (\<lambda>i. i < bd_key b) (bd_ids b))) \<le> bd_limitBefore b
     \<and> int (length (filter (\<lambda>i. bd_key b \<le> i) (bd_ids b))) \<le> bd_limitAfter b + 1"

text \<open>Nothing that the limits would show is missing.\<close>

definition complete :: "'a::linorder set \<Rightarrow> 'a builder \<Rightarrow> bool" where
  "complete H b \<longleftrightarrow>
     (int (length (filter (\<lambda>i. i < bd_key b) (bd_ids b))) = bd_limitBefore b
      \<or> hidden_before H (bd_key b) (bd_ids b) = {})
     \<and> (int (length (filter (\<lambda>i. bd_key b \<le> i) (bd_ids b))) = bd_limitAfter b + 1
      \<or> hidden_after H (bd_key b) (bd_ids b) = {})
     \<and> bd_fullCount b = Some (int (card H))"

section \<open>Cutting a window\<close>

lemma window_subset_cut:
  assumes w: "window H x (pre @ ids @ post)" "\<forall>y \<in> set pre. y < x" "\<forall>y \<in> set post. x \<le> y"
  shows "window H x ids"
    and "hidden_before H x ids = hidden_before H x (pre @ ids @ post) \<union> set pre"
    and "hidden_after H x ids = hidden_after H x (pre @ ids @ post) \<union> set post"
    and "hidden_before H x (pre @ ids @ post) \<inter> set pre = {}"
    and "hidden_after H x (pre @ ids @ post) \<inter> set post = {}"
proof -
  have o: "ordered_set (pre @ ids @ post)" "set (pre @ ids @ post) \<subseteq> H"
    using w(1) by (auto simp: window_def)
  have d: "set pre \<inter> set ids = {}" "set post \<inter> set ids = {}" "ordered_set ids"
    "\<forall>y \<in> set pre. \<forall>i \<in> set ids. y < i" "\<forall>y \<in> set post. \<forall>i \<in> set ids. i < y"
    using o(1) by (fastforce simp: sorted_wrt_append)+
  show b: "hidden_before H x ids = hidden_before H x (pre @ ids @ post) \<union> set pre"
    using d(1) o(2) w(2,3) by (fastforce simp: hidden_before_def)
  show a: "hidden_after H x ids = hidden_after H x (pre @ ids @ post) \<union> set post"
    using d(2) o(2) w(2,3) by (fastforce simp: hidden_after_def)
  show "window H x ids"
    using w(1) d o(2) unfolding window_def b a by auto
  show "hidden_before H x (pre @ ids @ post) \<inter> set pre = {}"
    "hidden_after H x (pre @ ids @ post) \<inter> set post = {}"
    by (auto simp: hidden_before_def hidden_after_def)
qed

lemma finite_hidden [simp, intro]:
  "finite H \<Longrightarrow> finite (hidden_before H x ids)" "finite H \<Longrightarrow> finite (hidden_after H x ids)"
  by (auto simp: hidden_before_def hidden_after_def)

section \<open>Slicing to the limits\<close>

text \<open>What slicing does to the identifiers before the key.\<close>

lemma limit_before_exact:
  assumes e: "builder_exact H b"
    and r: "r = int (lower_index (bd_key b) (bd_ids b)) - bd_limitBefore b"
  defines "b' \<equiv> fst (limit_before r b)"
  shows "builder_exact H b'"
    and "int (lower_index (bd_key b) (bd_ids b')) \<le> bd_limitBefore b"
    and "length (bd_ids b') - lower_index (bd_key b) (bd_ids b')
       = length (bd_ids b) - lower_index (bd_key b) (bd_ids b)"
    and "bd_key b' = bd_key b" "bd_limitBefore b' = bd_limitBefore b" "bd_limitAfter b' = bd_limitAfter b"
    and "bd_fullCount b' = bd_fullCount b" "bd_skippedAfter b' = bd_skippedAfter b"
    and "\<not> snd (limit_before r b) \<Longrightarrow> bd_requests b' = bd_requests b \<and>
      (int (lower_index (bd_key b) (bd_ids b')) = bd_limitBefore b
       \<or> hidden_before H (bd_key b) (bd_ids b') = {})"
    and "snd (limit_before r b) \<Longrightarrow> bd_requests b' \<noteq> []"
    and "\<exists>rs. bd_requests b' = bd_requests b @ rs"
proof -
  let ?x = "bd_key b" and ?xs = "bd_ids b"
  define p where "p = lower_index ?x ?xs"
  define n where "n = nat r"
  have w: "window H ?x ?xs" and fin: "finite H" using e by (auto simp: builder_exact_def)
  have o: "ordered_set ?xs" using w by (simp add: window_def)
  have lb: "0 \<le> bd_limitBefore b" using e by (simp add: builder_exact_def)
  show "bd_key b' = bd_key b" "bd_limitBefore b' = bd_limitBefore b" "bd_limitAfter b' = bd_limitAfter b"
    "bd_fullCount b' = bd_fullCount b" "bd_skippedAfter b' = bd_skippedAfter b"
    by (simp_all add: b'_def limit_before_def request_messages_def fire_def)
  show "snd (limit_before r b) \<Longrightarrow> bd_requests b' \<noteq> []" "\<exists>rs. bd_requests b' = bd_requests b @ rs"
    by (auto simp: b'_def limit_before_def request_messages_def fire_def split: if_splits)
  consider "0 < r" | "r \<le> 0" by linarith
  then have "builder_exact H b' \<and> int (lower_index ?x (bd_ids b')) \<le> bd_limitBefore b
    \<and> length (bd_ids b') - lower_index ?x (bd_ids b') = length ?xs - p
    \<and> (\<not> snd (limit_before r b) \<longrightarrow> bd_requests b' = bd_requests b \<and>
      (int (lower_index ?x (bd_ids b')) = bd_limitBefore b \<or> hidden_before H ?x (bd_ids b') = {}))"
  proof cases
    case 1
    have np: "n \<le> p" using 1 r lb by (simp add: n_def p_def)
    have ids: "bd_ids b' = drop n ?xs" "bd_requests b' = bd_requests b"
      "bd_skippedBefore b' = map_option (\<lambda>k. k + r) (bd_skippedBefore b)"
      using 1 by (simp_all add: b'_def limit_before_def n_def)
    have lt: "\<forall>y \<in> set (take n ?xs). y < ?x" using take_lower_index np by (auto simp: p_def)
    have split: "take n ?xs @ drop n ?xs @ [] = ?xs" by simp
    note cut = window_subset_cut [of H ?x "take n ?xs" "drop n ?xs" "[]", unfolded split, OF w lt, simplified]
    have pl: "p \<le> length ?xs" by (simp add: p_def)
    have "distinct ?xs" using o by (simp add: ordered_set_iff)
    then have card: "card (set (take n ?xs)) = n" using np pl by (simp add: distinct_card)
    have li: "lower_index ?x (drop n ?xs) = p - n"
    proof -
      have "filter (\<lambda>i. i < ?x) (take n ?xs) = take n ?xs" using lt by simp
      moreover have "length (filter (\<lambda>i. i < ?x) ?xs)
          = length (filter (\<lambda>i. i < ?x) (take n ?xs)) + length (filter (\<lambda>i. i < ?x) (drop n ?xs))"
        by (metis append_take_drop_id filter_append length_append)
      ultimately show ?thesis
        using length_split(1) [OF o, of ?x] length_split(1) [of "drop n ?xs" ?x] cut(1) np pl
        by (simp add: p_def window_def)
    qed
    have "counts (bd_skippedBefore b') (hidden_before H ?x (drop n ?xs))"
      using e 1 fin cut(2,4) card
      by (cases "bd_skippedBefore b") (auto simp: ids builder_exact_def card_Un_disjoint n_def)
    then have "builder_exact H b'"
      using e cut(1,3) ids(1)
      by (simp add: builder_exact_def \<open>bd_key b' = bd_key b\<close> \<open>bd_limitBefore b' = bd_limitBefore b\<close>
          \<open>bd_limitAfter b' = bd_limitAfter b\<close> \<open>bd_fullCount b' = bd_fullCount b\<close>
          \<open>bd_skippedAfter b' = bd_skippedAfter b\<close>)
    moreover have "int (p - n) = bd_limitBefore b" using 1 r np lb by (simp add: n_def p_def)
    moreover have "length (drop n ?xs) - (p - n) = length ?xs - p" using np pl by simp
    ultimately show ?thesis using li by (simp add: ids)
  next
    case 2
    then have same: "bd_ids b' = ?xs" "bd_skippedBefore b' = bd_skippedBefore b"
      by (simp_all add: b'_def limit_before_def request_messages_def fire_def)
    then have "builder_exact H b'"
      using e by (simp add: builder_exact_def \<open>bd_key b' = bd_key b\<close>
          \<open>bd_limitBefore b' = bd_limitBefore b\<close> \<open>bd_limitAfter b' = bd_limitAfter b\<close>
          \<open>bd_fullCount b' = bd_fullCount b\<close> \<open>bd_skippedAfter b' = bd_skippedAfter b\<close>)
    moreover have "bd_requests b' = bd_requests b \<and> (int p = bd_limitBefore b \<or> hidden_before H ?x ?xs = {})"
      if "\<not> snd (limit_before r b)"
    proof -
      have "bd_requests b' = bd_requests b" and "r = 0 \<or> \<not> maybe_more (bd_skippedBefore b)"
        using that 2 by (auto simp: b'_def limit_before_def split: if_splits)
      moreover have "hidden_before H ?x ?xs = {}" if "\<not> maybe_more (bd_skippedBefore b)"
      proof -
        have "card (hidden_before H ?x ?xs) = 0"
          using that e by (auto simp: maybe_more_def builder_exact_def split: option.splits)
        then show ?thesis using fin by simp
      qed
      ultimately show ?thesis using r by (auto simp: p_def)
    qed
    ultimately show ?thesis using 2 r by (simp add: same p_def)
  qed
  then show "builder_exact H b'" "int (lower_index (bd_key b) (bd_ids b')) \<le> bd_limitBefore b"
    "length (bd_ids b') - lower_index (bd_key b) (bd_ids b')
       = length (bd_ids b) - lower_index (bd_key b) (bd_ids b)"
    "\<not> snd (limit_before r b) \<Longrightarrow> bd_requests b' = bd_requests b \<and>
      (int (lower_index (bd_key b) (bd_ids b')) = bd_limitBefore b
       \<or> hidden_before H (bd_key b) (bd_ids b') = {})"
    by (simp_all add: p_def)
qed

text \<open>And to those from the key on.\<close>

lemma limit_after_exact:
  assumes e: "builder_exact H b"
    and r: "r = int (length (bd_ids b)) - int (lower_index (bd_key b) (bd_ids b)) - bd_limitAfter b - 1"
  defines "b' \<equiv> fst (limit_after r b)"
  shows "builder_exact H b'"
    and "lower_index (bd_key b) (bd_ids b') = lower_index (bd_key b) (bd_ids b)"
    and "int (length (bd_ids b')) - int (lower_index (bd_key b) (bd_ids b)) \<le> bd_limitAfter b + 1"
    and "bd_key b' = bd_key b" "bd_limitBefore b' = bd_limitBefore b" "bd_limitAfter b' = bd_limitAfter b"
    and "bd_fullCount b' = bd_fullCount b" "bd_skippedBefore b' = bd_skippedBefore b"
    and "hidden_before H (bd_key b) (bd_ids b') = hidden_before H (bd_key b) (bd_ids b)"
    and "\<not> snd (limit_after r b) \<Longrightarrow> bd_requests b' = bd_requests b \<and>
      (int (length (bd_ids b')) - int (lower_index (bd_key b) (bd_ids b)) = bd_limitAfter b + 1
       \<or> hidden_after H (bd_key b) (bd_ids b') = {})"
    and "snd (limit_after r b) \<Longrightarrow> bd_requests b' \<noteq> []"
    and "\<exists>rs. bd_requests b' = bd_requests b @ rs"
proof -
  let ?x = "bd_key b" and ?xs = "bd_ids b"
  define p where "p = lower_index ?x ?xs"
  define j where "j = length ?xs - nat r"
  have w: "window H ?x ?xs" and fin: "finite H" using e by (auto simp: builder_exact_def)
  have o: "ordered_set ?xs" using w by (simp add: window_def)
  have la: "0 \<le> bd_limitAfter b" using e by (simp add: builder_exact_def)
  have pl: "p \<le> length ?xs" by (simp add: p_def)
  note r' = r [folded p_def]
  show same: "bd_key b' = bd_key b" "bd_limitBefore b' = bd_limitBefore b"
    "bd_limitAfter b' = bd_limitAfter b" "bd_fullCount b' = bd_fullCount b"
    "bd_skippedBefore b' = bd_skippedBefore b"
    by (simp_all add: b'_def limit_after_def request_messages_def fire_def)
  show "snd (limit_after r b) \<Longrightarrow> bd_requests b' \<noteq> []" "\<exists>rs. bd_requests b' = bd_requests b @ rs"
    by (auto simp: b'_def limit_after_def request_messages_def fire_def split: if_splits)
  consider "0 < r" | "r \<le> 0" by linarith
  then have "builder_exact H b' \<and> lower_index ?x (bd_ids b') = p
    \<and> int (length (bd_ids b')) - int p \<le> bd_limitAfter b + 1
    \<and> hidden_before H ?x (bd_ids b') = hidden_before H ?x ?xs
    \<and> (\<not> snd (limit_after r b) \<longrightarrow> bd_requests b' = bd_requests b \<and>
      (int (length (bd_ids b')) - int p = bd_limitAfter b + 1 \<or> hidden_after H ?x (bd_ids b') = {}))"
  proof cases
    case 1
    have pj: "p \<le> j" "j \<le> length ?xs" and jr: "int j = int p + bd_limitAfter b + 1"
      using 1 r' la by (auto simp: j_def)
    have ids: "bd_ids b' = take j ?xs" "bd_requests b' = bd_requests b"
      "bd_skippedAfter b' = map_option (\<lambda>k. k + r) (bd_skippedAfter b)"
      using 1 by (simp_all add: b'_def limit_after_def j_def)
    have ge: "\<forall>y \<in> set (drop j ?xs). ?x \<le> y"
      using drop_lower_index [of ?xs ?x j] pj o by (auto simp: p_def ordered_set_iff)
    have split: "[] @ take j ?xs @ drop j ?xs = ?xs" by simp
    note cut = window_subset_cut [of H ?x "[]" "take j ?xs" "drop j ?xs", unfolded split, OF w _ ge, simplified]
    have "distinct ?xs" using o by (simp add: ordered_set_iff)
    then have card: "int (card (set (drop j ?xs))) = r"
      using pj jr r' by (simp add: distinct_card of_nat_diff)
    have li: "lower_index ?x (take j ?xs) = p"
    proof -
      have "filter (\<lambda>i. i < ?x) (drop j ?xs) = []" using ge by (auto simp: filter_empty_conv not_less)
      moreover have "length (filter (\<lambda>i. i < ?x) ?xs)
          = length (filter (\<lambda>i. i < ?x) (take j ?xs)) + length (filter (\<lambda>i. i < ?x) (drop j ?xs))"
        by (metis append_take_drop_id filter_append length_append)
      ultimately show ?thesis
        using length_split(1) [OF o, of ?x] length_split(1) [of "take j ?xs" ?x] cut(1)
        by (simp add: p_def window_def)
    qed
    have "counts (bd_skippedAfter b') (hidden_after H ?x (take j ?xs))"
      using e 1 fin cut(3,5) card
      by (cases "bd_skippedAfter b") (auto simp: ids builder_exact_def card_Un_disjoint)
    then have "builder_exact H b'"
      using e cut(1,2) ids(1) by (simp add: builder_exact_def same)
    then show ?thesis using li jr pj cut(2) by (simp add: ids)
  next
    case 2
    then have same': "bd_ids b' = ?xs" "bd_skippedAfter b' = bd_skippedAfter b"
      by (simp_all add: b'_def limit_after_def request_messages_def fire_def)
    then have "builder_exact H b'" using e by (simp add: builder_exact_def same)
    moreover have "bd_requests b' = bd_requests b
        \<and> (int (length ?xs) - int p = bd_limitAfter b + 1 \<or> hidden_after H ?x ?xs = {})"
      if "\<not> snd (limit_after r b)"
    proof -
      have "bd_requests b' = bd_requests b" and "r = 0 \<or> \<not> maybe_more (bd_skippedAfter b)"
        using that 2 by (auto simp: b'_def limit_after_def split: if_splits)
      moreover have "hidden_after H ?x ?xs = {}" if "\<not> maybe_more (bd_skippedAfter b)"
      proof -
        have "card (hidden_after H ?x ?xs) = 0"
          using that e by (auto simp: maybe_more_def builder_exact_def split: option.splits)
        then show ?thesis using fin by simp
      qed
      ultimately show ?thesis using r' by auto
    qed
    ultimately show ?thesis using 2 r' by (simp add: same' p_def [symmetric])
  qed
  then show "builder_exact H b'"
    "lower_index (bd_key b) (bd_ids b') = lower_index (bd_key b) (bd_ids b)"
    "int (length (bd_ids b')) - int (lower_index (bd_key b) (bd_ids b)) \<le> bd_limitAfter b + 1"
    "hidden_before H (bd_key b) (bd_ids b') = hidden_before H (bd_key b) (bd_ids b)"
    "\<not> snd (limit_after r b) \<Longrightarrow> bd_requests b' = bd_requests b \<and>
      (int (length (bd_ids b')) - int (lower_index (bd_key b) (bd_ids b)) = bd_limitAfter b + 1
       \<or> hidden_after H (bd_key b) (bd_ids b') = {})"
    by (simp_all add: p_def)
qed

lemma builder_exact_fire [simp]: "builder_exact H (fire r b) = builder_exact H b"
  by (simp add: builder_exact_def fire_def)

lemma slice_to_limits_exact:
  assumes e: "builder_exact H b" and key: "ln_set ln (bd_key b)"
  shows "builder_exact H (slice_to_limits ln b)" and "within_limits (slice_to_limits ln b)"
    and "bd_requests (slice_to_limits ln b) = [] \<Longrightarrow> complete H (slice_to_limits ln b)"
    and "bd_key (slice_to_limits ln b) = bd_key b"
proof -
  define r1 where "r1 = int (lower_index (bd_key b) (bd_ids b)) - bd_limitBefore b"
  define r2 where "r2 = int (length (bd_ids b)) - int (lower_index (bd_key b) (bd_ids b)) - bd_limitAfter b - 1"
  define b1 where "b1 = fst (limit_before r1 b)"
  define b2 where "b2 = fst (limit_after r2 b1)"
  note one = limit_before_exact [OF e r1_def, folded b1_def]
  have "r2 = int (length (bd_ids b1)) - int (lower_index (bd_key b1) (bd_ids b1)) - bd_limitAfter b1 - 1"
    using one(3) by (simp add: r2_def one(4,6)) (metis lower_index_le of_nat_diff)
  note two = limit_after_exact [OF one(1) this, folded b2_def, unfolded one(4-6)]
  define asked where "asked \<longleftrightarrow> snd (limit_before r1 b) \<or> snd (limit_after r2 b1)"
  have res: "slice_to_limits ln b =
      (if bd_fullCount b2 = None \<and> \<not> asked then request_count ln b2 else b2)"
    by (simp add: slice_to_limits_def key Let_def split_beta r1_def b1_def b2_def r2_def asked_def)
  show "builder_exact H (slice_to_limits ln b)" "bd_key (slice_to_limits ln b) = bd_key b"
    using two(1,4) by (simp_all add: res request_count_def) (simp add: fire_def)
  have o: "ordered_set (bd_ids b2)" using two(1) by (simp add: builder_exact_def window_def)
  have sizes: "int (lower_index (bd_key b) (bd_ids b2)) \<le> bd_limitBefore b"
    "int (length (bd_ids b2)) - int (lower_index (bd_key b) (bd_ids b2)) \<le> bd_limitAfter b + 1"
    using one(2) two(2,3) by simp_all
  have "within_limits b2"
    using sizes lower_index_le [of "bd_key b" "bd_ids b2"]
    by (simp add: within_limits_def length_split [OF o] two(4-6) of_nat_diff)
  then show "within_limits (slice_to_limits ln b)"
    by (simp add: res request_count_def fire_def within_limits_def)
  assume silent: "bd_requests (slice_to_limits ln b) = []"
  have none: "\<not> asked" "bd_fullCount b2 \<noteq> None"
  proof -
    have "bd_requests b2 = []" and f: "bd_fullCount b2 \<noteq> None \<or> asked"
      using silent by (auto simp: res request_count_def fire_def split: if_splits)
    moreover have "bd_requests b2 \<noteq> []" if asked
      using that one(10) two(11,12) by (auto simp: asked_def)
    ultimately show "\<not> asked" "bd_fullCount b2 \<noteq> None" by auto
  qed
  have "complete H b2"
    using one(9) two(1,2,9,10) none lower_index_le [of "bd_key b" "bd_ids b2"]
    by (auto simp: complete_def length_split [OF o] two(4-6) of_nat_diff asked_def builder_exact_def)
  with none show "complete H (slice_to_limits ln b)" by (auto simp: res)
qed

section \<open>A new builder, and one whose requests were taken\<close>

lemma new_builder_exact:
  "finite H \<Longrightarrow> 0 \<le> lb \<Longrightarrow> 0 \<le> la \<Longrightarrow> builder_exact H (new_builder key lb la)"
  by (simp add: builder_exact_def new_builder_def)

definition drained :: "'a builder \<Rightarrow> 'a builder" where
  "drained b = b\<lparr>bd_requests := []\<rparr>"

lemma drained_simps [simp]:
  "builder_exact H (drained b) \<longleftrightarrow> builder_exact H b" "bd_key (drained b) = bd_key b"
  "bd_ids (drained b) = bd_ids b"
  by (simp_all add: drained_def builder_exact_def)

end
