(* ===== verification/Builder_Merge.thy ===== *)
theory Builder_Merge
  imports Builder_Windows
begin

text \<open>
  Merging answers and updates into the builder: the union of two windows around one key is a
  window, and so is that of a window with all of a range that meets it; the skipped counts
  are adjusted by exactly what the union gained on their side.
\<close>

section \<open>Unions of windows\<close>

lemma hidden_merge_ids:
  "hidden_before H x (flat_merge A B) = hidden_before H x A \<inter> hidden_before H x B"
  "hidden_after H x (flat_merge A B) = hidden_after H x A \<inter> hidden_after H x B"
  by (auto simp: hidden_before_def hidden_after_def)

lemma window_merge:
  assumes "window H x A" "window H x B" shows "window H x (flat_merge A B)"
proof -
  have "ordered_set (flat_merge A B)" using assms(2) by (simp add: window_def)
  moreover have "set (flat_merge A B) \<subseteq> H" using assms by (simp add: window_def)
  moreover have "y < i" if "y \<in> hidden_before H x (flat_merge A B)" "i \<in> set A \<or> i \<in> set B" for y i
    using that assms by (auto simp: window_def hidden_merge_ids(1))
  moreover have "i < y" if "y \<in> hidden_after H x (flat_merge A B)" "i \<in> set A \<or> i \<in> set B" for y i
    using that assms by (auto simp: window_def hidden_merge_ids(2))
  ultimately show ?thesis unfolding window_def by simp
qed

lemma ordered_hd_last:
  assumes "ordered_set xs" "y \<in> set xs" shows "hd xs \<le> y" "y \<le> List.last xs"
proof -
  show "hd xs \<le> y" using assms by (cases xs) auto
  show "y \<le> List.last xs" using assms sorted_le_last [of xs y] by (simp add: ordered_set_iff)
qed

text \<open>With all of a range that meets the window, what is hidden is outside the range.\<close>

definition meets :: "'a::linorder \<Rightarrow> 'a list \<Rightarrow> 'a \<Rightarrow> 'a \<Rightarrow> bool" where
  "meets x ids f t \<longleftrightarrow> f \<le> (if ids = [] then x else List.last ids)
     \<and> (if ids = [] then x else hd ids) \<le> t"

lemma hidden_before_range:
  assumes w: "window H x ids" and M: "set M = H \<inter> {f..t}" and m: "meets x ids f t"
    and y: "y \<in> hidden_before H x ids" "y \<notin> set M"
  shows "y < f"
proof -
  have "y < t"
  proof (cases "ids = []")
    case True
    then have "y < x" "x \<le> t" using y(1) m by (simp_all add: meets_def hidden_before_def)
    then show ?thesis by simp
  next
    case False
    then have "y < hd ids" using w y(1) by (simp add: window_def)
    moreover have "f \<le> List.last ids" "hd ids \<le> t" using m False by (simp_all add: meets_def)
    ultimately show ?thesis by simp
  qed
  moreover have "y \<in> H" using y(1) by (simp add: hidden_before_def)
  ultimately show ?thesis using y(2) by (auto simp: M)
qed

lemma hidden_after_range:
  assumes w: "window H x ids" and M: "set M = H \<inter> {f..t}" and m: "meets x ids f t"
    and y: "y \<in> hidden_after H x ids" "y \<notin> set M"
  shows "t < y"
proof -
  have "f \<le> y"
  proof (cases "ids = []")
    case True
    then have "f \<le> x" "x \<le> y" using y(1) m by (simp_all add: meets_def hidden_after_def)
    then show ?thesis by simp
  next
    case False
    then have "List.last ids < y" using w y(1) by (simp add: window_def)
    moreover have "f \<le> List.last ids" "hd ids \<le> t" using m False by (simp_all add: meets_def)
    ultimately show ?thesis by simp
  qed
  moreover have "y \<in> H" using y(1) by (simp add: hidden_after_def)
  ultimately show ?thesis using y(2) by (simp add: M not_le)
qed

lemma window_range:
  assumes w: "window H x ids" and M: "set M = H \<inter> {f..t}" and m: "meets x ids f t"
  shows "window H x (flat_merge M ids)"
    and "y \<in> hidden_before H x (flat_merge M ids) \<Longrightarrow> y < f"
    and "y \<in> hidden_after H x (flat_merge M ids) \<Longrightarrow> t < y"
proof -
  have b: "y < f" "y \<in> hidden_before H x ids" if "y \<in> hidden_before H x (flat_merge M ids)" for y
    using that hidden_before_range [OF w M m, of y] by (simp_all add: hidden_before_def)
  have a: "t < y" "y \<in> hidden_after H x ids" if "y \<in> hidden_after H x (flat_merge M ids)" for y
    using that hidden_after_range [OF w M m, of y] by (simp_all add: hidden_after_def)
  show "y \<in> hidden_before H x (flat_merge M ids) \<Longrightarrow> y < f" by (rule b(1))
  show "y \<in> hidden_after H x (flat_merge M ids) \<Longrightarrow> t < y" by (rule a(1))
  have lt: "y < i" if "y \<in> hidden_before H x (flat_merge M ids)" "i \<in> set M \<or> i \<in> set ids" for y i
  proof -
    have "i \<in> set ids \<Longrightarrow> y < i" using b(2) [OF that(1)] w by (simp add: window_def)
    moreover have "i \<in> set M \<Longrightarrow> y < i" using less_le_trans [OF b(1) [OF that(1)]] by (simp add: M)
    ultimately show ?thesis using that(2) by blast
  qed
  have gt: "i < y" if "y \<in> hidden_after H x (flat_merge M ids)" "i \<in> set M \<or> i \<in> set ids" for y i
  proof -
    have "i \<in> set ids \<Longrightarrow> i < y" using a(2) [OF that(1)] w by (simp add: window_def)
    moreover have "i \<in> set M \<Longrightarrow> i < y" using le_less_trans [OF _ a(1) [OF that(1)]] by (simp add: M)
    ultimately show ?thesis using that(2) by blast
  qed
  have "ordered_set (flat_merge M ids)" "set (flat_merge M ids) \<subseteq> H"
    using w M by (simp_all add: window_def)
  with lt gt show "window H x (flat_merge M ids)" by (simp add: window_def)
qed

section \<open>Adjusting the skipped counts\<close>

lemma index_in_ordered:
  assumes "ordered_set xs" "h \<in> set xs"
  shows "index_in xs h = int (card {u \<in> set xs. u < h})"
    and "int (length xs) - index_in xs h - 1 = int (card {u \<in> set xs. h < u})"
proof -
  obtain as bs where xs: "xs = as @ h # bs" using split_list [OF assms(2)] by blast
  have lt: "\<forall>a \<in> set as. a < h" "\<forall>b \<in> set bs. h < b" "distinct as" "distinct bs"
    using assms(1) by (auto simp: xs sorted_wrt_append ordered_set_iff)
  have t: "takeWhile (\<lambda>y. y \<noteq> h) xs = as"
    unfolding xs using lt(1) by (subst takeWhile_append2) auto
  have "{u \<in> set xs. u < h} = set as" "{u \<in> set xs. h < u} = set bs"
    using lt(1,2) by (auto simp: xs)
  then have "card {u \<in> set xs. u < h} = length as" "card {u \<in> set xs. h < u} = length bs"
    using lt(3,4) by (simp_all add: distinct_card)
  moreover have "index_in xs h = int (length as)" by (simp add: index_in_def t)
  moreover have "length xs = length as + length bs + 1" by (simp add: xs)
  ultimately show "index_in xs h = int (card {u \<in> set xs. u < h})"
    "int (length xs) - index_in xs h - 1 = int (card {u \<in> set xs. h < u})" by simp_all
qed

lemma adjusted_grow:
  assumes w: "window H x ids" "window H x U" and sub: "set ids \<subseteq> set U" "ids \<noteq> []" and fin: "finite H"
  shows "adjusted_before U (hd ids) (int (card (hidden_before H x ids))) = int (card (hidden_before H x U))"
    and "adjusted_after U (List.last ids) (int (card (hidden_after H x ids))) = int (card (hidden_after H x U))"
proof -
  have o: "ordered_set ids" "ordered_set U" "set U \<subseteq> H" using w by (auto simp: window_def)
  have h: "hd ids \<in> set ids" "List.last ids \<in> set ids" using sub(2) by auto
  let ?b = "{u \<in> set U. u < hd ids}" and ?a = "{u \<in> set U. List.last ids < u}"
  have b: "hidden_before H x ids = hidden_before H x U \<union> ?b"
  proof (intro equalityI subsetI)
    fix y assume "y \<in> hidden_before H x ids"
    then show "y \<in> hidden_before H x U \<union> ?b"
      using w(1) h by (auto simp: window_def hidden_before_def)
  next
    fix y assume y: "y \<in> hidden_before H x U \<union> ?b"
    then have "y \<in> H \<and> y \<notin> set ids"
      using sub(1) o ordered_hd_last(1) [OF o(1)] by (force simp: hidden_before_def)
    moreover have "y < x"
    proof (rule ccontr)
      assume "\<not> y < x"
      with y calculation have "y < hd ids" "y \<in> hidden_after H x ids"
        by (auto simp: hidden_before_def hidden_after_def)
      with w(1) h(1) have "hd ids < y" by (simp add: window_def)
      with \<open>y < hd ids\<close> show False by simp
    qed
    ultimately show "y \<in> hidden_before H x ids" by (simp add: hidden_before_def)
  qed
  have a: "hidden_after H x ids = hidden_after H x U \<union> ?a"
  proof (intro equalityI subsetI)
    fix y assume "y \<in> hidden_after H x ids"
    then show "y \<in> hidden_after H x U \<union> ?a"
      using w(1) h by (auto simp: window_def hidden_after_def)
  next
    fix y assume y: "y \<in> hidden_after H x U \<union> ?a"
    then have "y \<in> H \<and> y \<notin> set ids"
      using sub(1) o ordered_hd_last(2) [OF o(1)] by (force simp: hidden_after_def)
    moreover have "x \<le> y"
    proof (rule ccontr)
      assume "\<not> x \<le> y"
      with y calculation have "List.last ids < y" "y \<in> hidden_before H x ids"
        by (auto simp: hidden_before_def hidden_after_def)
      with w(1) h(2) have "y < List.last ids" by (simp add: window_def)
      with \<open>List.last ids < y\<close> show False by simp
    qed
    ultimately show "y \<in> hidden_after H x ids" by (simp add: hidden_after_def)
  qed
  have disj: "hidden_before H x U \<inter> ?b = {}" "hidden_after H x U \<inter> ?a = {}"
    by (auto simp: hidden_before_def hidden_after_def)
  have "card (hidden_before H x ids) = card (hidden_before H x U) + card ?b"
    "card (hidden_after H x ids) = card (hidden_after H x U) + card ?a"
    using fin disj by (simp_all add: a b card_Un_disjoint)
  moreover have "hd ids \<in> set U" "List.last ids \<in> set U" using sub(1) h by auto
  moreover note index_in_ordered(1) [OF o(2) calculation(3)] index_in_ordered(2) [OF o(2) calculation(4)]
  ultimately show "adjusted_before U (hd ids) (int (card (hidden_before H x ids))) = int (card (hidden_before H x U))"
    "adjusted_after U (List.last ids) (int (card (hidden_after H x ids))) = int (card (hidden_after H x U))"
    by (simp_all add: adjusted_before_def adjusted_after_def)
qed

lemma length_takeWhile_less: "x \<in> set xs \<Longrightarrow> \<not> P x \<Longrightarrow> length (takeWhile P xs) < length xs"
  by (induction xs) auto

lemma index_in_last:
  assumes "M \<noteq> []"
  shows "index_in (flat_merge M ids) (List.last M) + 1 \<le> int (length (flat_merge M ids))"
proof -
  have "List.last M \<in> set (flat_merge M ids)" using last_in_set [OF assms] by simp
  then have "length (takeWhile (\<lambda>y. y \<noteq> List.last M) (flat_merge M ids)) < length (flat_merge M ids)"
    by (rule length_takeWhile_less) simp
  then show ?thesis by (simp add: index_in_def)
qed

section \<open>Merging into the builder\<close>

lemma take_count_exact:
  assumes e: "builder_exact H b" and c: "counts count H"
  shows "builder_exact H (take_count count b)"
proof (cases count)
  case (Some k)
  then have k: "k = int (card H)" using c by simp
  have w: "window H (bd_key b) (bd_ids b)" "finite H" using e by (auto simp: builder_exact_def)
  note card = card_window [OF w]
  have "card H = length (bd_ids b) \<and> card (hidden_before H (bd_key b) (bd_ids b)) = 0
      \<and> card (hidden_after H (bd_key b) (bd_ids b)) = 0" if "card H \<le> length (bd_ids b)"
    using card that by simp
  then show ?thesis using e by (auto simp: take_count_def Some k builder_exact_def)
qed (use e in \<open>simp add: take_count_def\<close>)

lemma take_count_key [simp]: "bd_key (take_count count b) = bd_key b"
  by (simp add: take_count_def split: option.split)

lemma fill_and_slice_exact:
  assumes e: "builder_exact H b" and key: "ln_set ln (bd_key b)"
  shows "builder_exact H (fill_and_slice ln b)" and "within_limits (fill_and_slice ln b)"
    and "bd_requests (fill_and_slice ln b) = [] \<Longrightarrow> complete H (fill_and_slice ln b)"
    and "bd_key (fill_and_slice ln b) = bd_key b"
proof -
  let ?s = "fill_skipped (bd_fullCount b) (length (bd_ids b)) (bd_skippedBefore b) (bd_skippedAfter b)"
  let ?b = "b\<lparr>bd_skippedBefore := fst ?s, bd_skippedAfter := snd ?s\<rparr>"
  have "builder_exact H ?b"
    using e fill_skipped_counts [of H "bd_key b" "bd_ids b" "bd_fullCount b"
        "bd_skippedBefore b" "bd_skippedAfter b"]
    by (simp add: builder_exact_def)
  note slice_to_limits_exact [OF this, of ln]
  with key show "builder_exact H (fill_and_slice ln b)" "within_limits (fill_and_slice ln b)"
    "bd_requests (fill_and_slice ln b) = [] \<Longrightarrow> complete H (fill_and_slice ln b)"
    "bd_key (fill_and_slice ln b) = bd_key b"
    by (simp_all add: fill_and_slice_def Let_def)
qed

definition tells :: "(int \<Rightarrow> int) \<Rightarrow> int option \<Rightarrow> 'a set \<Rightarrow> bool" where
  "tells adjust n X \<longleftrightarrow> (\<forall>k. n = Some k \<longrightarrow> adjust k = int (card X))"

lemma merge_slice_data_exact:
  assumes e: "builder_exact H b" and key: "ln_set ln (bd_key b)" and c: "counts count H"
    and M: "M \<noteq> [] \<Longrightarrow> window H (bd_key b) (flat_merge M (bd_ids b))"
      "M \<noteq> [] \<Longrightarrow> tells (adjusted_before (flat_merge M (bd_ids b)) (hd M)) before
         (hidden_before H (bd_key b) (flat_merge M (bd_ids b)))"
      "M \<noteq> [] \<Longrightarrow> tells (adjusted_after (flat_merge M (bd_ids b)) (List.last M)) after
         (hidden_after H (bd_key b) (flat_merge M (bd_ids b)))"
  defines "b' \<equiv> merge_slice_data ln count M before after b"
  shows "builder_exact H b'" "within_limits b'" "bd_requests b' = [] \<Longrightarrow> complete H b'"
    "bd_key b' = bd_key b"
proof -
  let ?x = "bd_key b" and ?ids = "bd_ids b" and ?U = "flat_merge M (bd_ids b)"
  obtain b1 where b1: "b' = fill_and_slice ln b1" "builder_exact H b1" "bd_key b1 = ?x"
  proof (cases "M = []")
    case True
    then show ?thesis
      using that [of "take_count count b"] take_count_exact [OF e c]
      by (simp add: b'_def merge_slice_data_def)
  next
    case False
    have w: "window H ?x ?ids" "window H ?x ?U" "finite H"
      using e M(1) [OF False] by (auto simp: builder_exact_def)
    have grow: "?ids \<noteq> [] \<Longrightarrow>
        adjusted_before ?U (hd ?ids) (int (card (hidden_before H ?x ?ids))) = int (card (hidden_before H ?x ?U))"
      "?ids \<noteq> [] \<Longrightarrow>
        adjusted_after ?U (List.last ?ids) (int (card (hidden_after H ?x ?ids))) = int (card (hidden_after H ?x ?U))"
      by (rule adjusted_grow [OF w(1,2) _ _ w(3)]; simp)+
    have before: "counts (case before of Some n \<Rightarrow> Some (adjusted_before ?U (hd M) n)
        | None \<Rightarrow> if was_there ln ?ids then map_option (adjusted_before ?U (hd ?ids)) (bd_skippedBefore b) else None)
        (hidden_before H ?x ?U)"
      using M(2) [OF False] grow(1) e
      by (auto simp: tells_def counts_def was_there_def builder_exact_def split: option.split)
    have after: "counts (case after of Some n \<Rightarrow> Some (adjusted_after ?U (List.last M) n)
        | None \<Rightarrow> if was_there_last ln ?ids then map_option (adjusted_after ?U (List.last ?ids)) (bd_skippedAfter b) else None)
        (hidden_after H ?x ?U)"
      using M(3) [OF False] grow(2) e
      by (auto simp: tells_def counts_def was_there_last_def builder_exact_def split: option.split)
    show ?thesis
      by (rule that [OF b'_def [unfolded merge_slice_data_def Let_def if_not_P [OF False], THEN meta_eq_to_obj_eq]])
        (use e w c before after in \<open>simp_all add: builder_exact_def\<close>)
  qed
  show "builder_exact H b'" "within_limits b'" "bd_requests b' = [] \<Longrightarrow> complete H b'"
    "bd_key b' = bd_key b"
    using fill_and_slice_exact [OF b1(2), of ln] key by (simp_all add: b1)
qed

text \<open>Answers of the store.\<close>

lemma apply_initial_exact:
  assumes e: "builder_exact H b" and key: "ln_set ln (bd_key b)" and r: "result_exact H (bd_key b) r"
  shows "builder_exact H (apply_initial ln r b)" "within_limits (apply_initial ln r b)"
    "bd_requests (apply_initial ln r b) = [] \<Longrightarrow> complete H (apply_initial ln r b)"
    "bd_key (apply_initial ln r b) = bd_key b"
proof -
  let ?M = "r_messageIds r" and ?x = "bd_key b" and ?ids = "bd_ids b"
  have w: "window H ?x ?M" "window H ?x ?ids" "finite H"
    using e r by (auto simp: builder_exact_def result_exact_def)
  note u = window_merge [OF w(1,2)]
  have M: "tells (adjusted_before (flat_merge ?M ?ids) (hd ?M)) (r_skippedBefore r) (hidden_before H ?x (flat_merge ?M ?ids))"
    "tells (adjusted_after (flat_merge ?M ?ids) (List.last ?M)) (r_skippedAfter r) (hidden_after H ?x (flat_merge ?M ?ids))"
    if "?M \<noteq> []"
    using adjusted_grow [OF w(1) u _ that w(3)] r by (auto simp: tells_def result_exact_def)
  have "counts (r_count r) H" using r by (simp add: result_exact_def)
  note merge_slice_data_exact [OF e key this u M]
  then show "builder_exact H (apply_initial ln r b)" "within_limits (apply_initial ln r b)"
    "bd_requests (apply_initial ln r b) = [] \<Longrightarrow> complete H (apply_initial ln r b)"
    "bd_key (apply_initial ln r b) = bd_key b"
    unfolding apply_initial_def by blast+
qed

text \<open>Announcements of the store.\<close>

lemma apply_update_exact:
  assumes e: "builder_exact H b" and key: "ln_set ln (bd_key b)" and u: "update_exact H u"
    and H: "H \<subseteq> {ln_min ln..ln_max ln}"
  shows "builder_exact H (fst (apply_update ln u b))"
    "snd (apply_update ln u b) \<Longrightarrow> within_limits (fst (apply_update ln u b))"
    "snd (apply_update ln u b) \<Longrightarrow> bd_requests (fst (apply_update ln u b)) = [] \<Longrightarrow>
      complete H (fst (apply_update ln u b))"
    "bd_key (fst (apply_update ln u b)) = bd_key b"
proof -
  have "builder_exact H (fst (apply_update ln u b)) \<and>
    (snd (apply_update ln u b) \<longrightarrow> within_limits (fst (apply_update ln u b))) \<and>
    (snd (apply_update ln u b) \<longrightarrow> bd_requests (fst (apply_update ln u b)) = [] \<longrightarrow>
      complete H (fst (apply_update ln u b))) \<and> bd_key (fst (apply_update ln u b)) = bd_key b"
  proof (cases "\<not> needs_merge u b \<and> u_count u = None")
  case True
  then show ?thesis
    using e by (simp add: apply_update_def)
next
  case False
  let ?M = "if needs_merge u b then the (u_messages u) else []"
  let ?x = "bd_key b" and ?ids = "bd_ids b"
  let ?U = "flat_merge ?M ?ids"
  let ?before = "if u_from u = ln_min ln then Some 0 else None :: int option"
  let ?after = "if u_till u = ln_max ln then Some 0 else None :: int option"
  have c: "counts (u_count u) H" using u by (simp add: update_exact_def)
  have M: "window H ?x ?U" "tells (adjusted_before ?U (hd ?M)) ?before (hidden_before H ?x ?U)"
    "tells (adjusted_after ?U (List.last ?M)) ?after (hidden_after H ?x ?U)" if "?M \<noteq> []"
  proof -
    have n: "needs_merge u b" using that by (auto split: if_splits)
    then have Ms: "ordered_set ?M" "set ?M = H \<inter> {u_from u..u_till u}"
      using u by (auto simp: update_exact_def needs_merge_def)
    have w: "window H ?x ?ids" using e by (simp add: builder_exact_def)
    have meets: "meets ?x ?ids (u_from u) (u_till u)"
      using n by (simp add: needs_merge_def meets_def)
    note range = window_range [OF w Ms(2) meets]
    show "window H ?x ?U" by (rule range(1))
    have "hidden_before H ?x ?U = {}" if "u_from u = ln_min ln"
      using range(2) H by (fastforce simp: that hidden_before_def)
    then show "tells (adjusted_before ?U (hd ?M)) ?before (hidden_before H ?x ?U)"
      by (simp add: tells_def adjusted_before_def index_in_def)
    have "hidden_after H ?x ?U = {}" if "u_till u = ln_max ln"
      using range(3) H by (fastforce simp: that hidden_after_def)
    moreover note index_in_last [OF that, of ?ids]
    ultimately show "tells (adjusted_after ?U (List.last ?M)) ?after (hidden_after H ?x ?U)"
      by (simp add: tells_def adjusted_after_def)
  qed
  have res: "apply_update ln u b = (merge_slice_data ln (u_count u) ?M ?before ?after b, True)"
    using False by (auto simp: apply_update_def)
  note m = merge_slice_data_exact [OF e key c M]
  show ?thesis
    using m unfolding res fst_conv snd_conv by blast
  qed
  then show "builder_exact H (fst (apply_update ln u b))"
    "snd (apply_update ln u b) \<Longrightarrow> within_limits (fst (apply_update ln u b))"
    "snd (apply_update ln u b) \<Longrightarrow> bd_requests (fst (apply_update ln u b)) = [] \<Longrightarrow>
      complete H (fst (apply_update ln u b))"
    "bd_key (fst (apply_update ln u b)) = bd_key b" by blast+
qed

section \<open>Removing, clearing, invalidating\<close>

lemma has_some_counts: "counts n X \<Longrightarrow> finite X \<Longrightarrow> X \<noteq> {} \<Longrightarrow> has_some n \<longleftrightarrow> n \<noteq> None"
  by (cases n) (simp_all add: has_some_def card_gt_0_iff)

lemma less_one_counts: "counts n X \<Longrightarrow> finite X \<Longrightarrow> m \<in> X \<Longrightarrow> counts (less_one n) (X - {m})"
proof (cases n)
  case (Some k)
  assume "counts n X" "finite X" "m \<in> X"
  moreover from this have "0 < card X" using card_gt_0_iff by blast
  ultimately show ?thesis by (simp add: Some less_one_def of_nat_diff)
qed (simp add: less_one_def)

lemma counted_one:
  assumes "counts n X" "finite X" "m \<in> X"
  shows "counts (if has_some n then less_one n else n) (X - {m})"
proof -
  have "X \<noteq> {}" using assms(3) by blast
  then have "has_some n \<longleftrightarrow> n \<noteq> None" by (rule has_some_counts [OF assms(1,2)])
  with less_one_counts [OF assms] show ?thesis by (cases "n = None") simp_all
qed

lemma window_remove:
  assumes "window H x ids"
  shows "window (H - {m}) x (removeAll m ids)"
    and "hidden_before (H - {m}) x (removeAll m ids) = hidden_before H x ids - {m}"
    and "hidden_after (H - {m}) x (removeAll m ids) = hidden_after H x ids - {m}"
proof -
  show b: "hidden_before (H - {m}) x (removeAll m ids) = hidden_before H x ids - {m}"
    and a: "hidden_after (H - {m}) x (removeAll m ids) = hidden_after H x ids - {m}"
    by (auto simp: hidden_before_def hidden_after_def)
  show "window (H - {m}) x (removeAll m ids)"
    unfolding window_def b a using assms by (simp add: window_def Diff_mono)
qed

text \<open>Removing an identifier of the history, when something of it is shown.\<close>

lemma remove_one_exact:
  assumes e: "builder_exact H b" and m: "m \<in> H" and ids: "bd_ids b \<noteq> []"
  shows "builder_exact (H - {m}) (fst (remove_one m b))" and "bd_key (fst (remove_one m b)) = bd_key b"
proof -
  let ?x = "bd_key b" and ?ids = "bd_ids b"
  let ?fc = "if has_some (bd_fullCount b) then less_one (bd_fullCount b) else bd_fullCount b"
  have w: "window H ?x ?ids" and fin: "finite H"
    and c: "counts (bd_fullCount b) H" "counts (bd_skippedBefore b) (hidden_before H ?x ?ids)"
      "counts (bd_skippedAfter b) (hidden_after H ?x ?ids)"
    and l: "0 \<le> bd_limitBefore b" "0 \<le> bd_limitAfter b"
    using e by (auto simp: builder_exact_def)
  note r = window_remove [OF w, of m]
  have fc: "counts ?fc (H - {m})" by (rule counted_one [OF c(1) fin m])
  have o: "ordered_set ?ids" using w by (simp add: window_def)
  have hl: "hd ?ids \<le> List.last ?ids" using ordered_hd_last(1) [OF o] ids by simp
  define d where "d = (if has_some (bd_fullCount b)
    then b\<lparr>bd_fullCount := less_one (bd_fullCount b)\<rparr> else b)"
  have d: "bd_key d = ?x" "bd_ids d = ?ids" "bd_fullCount d = ?fc"
    "bd_skippedBefore d = bd_skippedBefore b" "bd_skippedAfter d = bd_skippedAfter b"
    "bd_limitBefore d = bd_limitBefore b" "bd_limitAfter d = bd_limitAfter b"
    by (simp_all add: d_def)
  note res = remove_one_def [of m b, folded d_def, unfolded Let_def d(2)]
  show "bd_key (fst (remove_one m b)) = ?x" by (simp add: res d(1))
  consider "m \<in> set ?ids" | "m \<in> hidden_before H ?x ?ids" | "m \<in> hidden_after H ?x ?ids"
    using m unfolding hidden_before_def hidden_after_def
    by (cases "m \<in> set ?ids"; cases "m < ?x") auto
  then show "builder_exact (H - {m}) (fst (remove_one m b))"
  proof cases
    case 1
    then have "hidden_before H ?x ?ids - {m} = hidden_before H ?x ?ids"
      "hidden_after H ?x ?ids - {m} = hidden_after H ?x ?ids"
      by (auto simp: hidden_before_def hidden_after_def)
    with 1 r fc fin c l show ?thesis by (simp add: res builder_exact_def d split: if_splits)
  next
    case 2
    then have "\<forall>i \<in> set ?ids. m < i" using w by (simp add: window_def)
    moreover have "m < ?x" "m \<notin> set ?ids" using 2 by (simp_all add: hidden_before_def)
    ultimately have out: "m \<notin> set ?ids" "m < hd ?ids" "hidden_after H ?x ?ids - {m} = hidden_after H ?x ?ids"
      using ids by (auto simp: hidden_after_def)
    moreover have "\<not> List.last ?ids < m" using out(2) hl by (meson less_le_trans less_asym order_refl)
    moreover have "counts (if has_some (bd_skippedBefore b) then less_one (bd_skippedBefore b)
        else bd_skippedBefore b) (hidden_before H ?x ?ids - {m})"
      using counted_one [OF c(2) _ 2] fin by simp
    ultimately show ?thesis
      using r fc fin c l ids by (simp add: res builder_exact_def d split: if_splits)
  next
    case 3
    then have "\<forall>i \<in> set ?ids. i < m" using w by (simp add: window_def)
    moreover have "?x \<le> m" "m \<notin> set ?ids" using 3 by (simp_all add: hidden_after_def)
    ultimately have out: "m \<notin> set ?ids" "List.last ?ids < m" "hidden_before H ?x ?ids - {m} = hidden_before H ?x ?ids"
      using ids by (auto simp: hidden_before_def)
    moreover have "\<not> m < hd ?ids" using out(2) hl by (meson le_less_trans less_asym order_refl)
    moreover have "counts (if has_some (bd_skippedAfter b) then less_one (bd_skippedAfter b)
        else bd_skippedAfter b) (hidden_after H ?x ?ids - {m})"
      using counted_one [OF c(3) _ 3] fin by simp
    ultimately show ?thesis
      using r fc fin c l ids by (simp add: res builder_exact_def d split: if_splits)
  qed
qed

lemma remove_all_exact: "builder_exact H b \<Longrightarrow> builder_exact {} (remove_all b)"
  by (simp add: builder_exact_def remove_all_def hidden_before_def hidden_after_def)

text \<open>Identifiers that came after everything that is shown are asked for again.\<close>

lemma bottom_invalidated_exact:
  assumes e: "builder_exact H b" and key: "ln_set ln (bd_key b)"
    and N: "finite N" "\<forall>n \<in> N. bd_key b \<le> n \<and> (\<forall>i \<in> set (bd_ids b). i < n)"
  shows "builder_exact (H \<union> N) (bottom_invalidated ln b)" and "within_limits (bottom_invalidated ln b)"
    and "bd_requests (bottom_invalidated ln b) \<noteq> []"
proof -
  let ?b = "b\<lparr>bd_fullCount := None, bd_skippedAfter := None\<rparr>"
  let ?x = "bd_key b" and ?ids = "bd_ids b"
  have w: "window H ?x ?ids" using e by (simp add: builder_exact_def)
  have hb: "hidden_before (H \<union> N) ?x ?ids = hidden_before H ?x ?ids"
    using N(2) by (auto simp: hidden_before_def dest: leD)
  have ha: "hidden_after (H \<union> N) ?x ?ids = hidden_after H ?x ?ids \<union> N"
    using N(2) by (auto simp: hidden_after_def)
  have "window (H \<union> N) ?x ?ids" using w N(2) unfolding window_def hb ha by blast
  then have e': "builder_exact (H \<union> N) ?b" using e N(1) hb by (simp add: builder_exact_def)
  note s = slice_to_limits_exact [OF e', of ln, simplified, OF key]
  show "builder_exact (H \<union> N) (bottom_invalidated ln b)" "within_limits (bottom_invalidated ln b)"
    using s by (simp_all add: bottom_invalidated_def)
  have "bd_fullCount (slice_to_limits ln ?b) = None"
    by (simp add: slice_to_limits_def request_count_def request_messages_def fire_def limit_before_def
        limit_after_def Let_def)
  then have "\<not> complete (H \<union> N) (slice_to_limits ln ?b)" by (simp add: complete_def)
  with s show "bd_requests (bottom_invalidated ln b) \<noteq> []" by (auto simp: bottom_invalidated_def)
qed

end
