(* ===== verification/Sparse_Ids_Builder.thy ===== *)
theory Sparse_Ids_Builder
  imports Sparse_Ids_List Builder_Merge
begin

text \<open>
  \<open>SparseIdsSliceBuilder\<close> (\<open>data/data_sparse_ids.{h,cpp}\<close>) is the builder of
  \<open>Slice_Builder\<close> over message identifiers, from 0 to \<open>ServerMaxMsgId\<close>; its \<open>removeOne\<close>
  checks the limits again.  The identifiers it shows are an \<open>AbstractSparseIds\<close>
  (\<open>data/data_abstract_sparse_ids.h\<close>).  The theorems are about the builder and the list
  together: what the list answers and announces keeps the builder exact.
\<close>

section \<open>\<open>AbstractSparseIds\<close>\<close>

record 'a sparse_ids =
  as_ids :: "'a list"
  as_fullCount :: "int option"
  as_skippedBefore :: "int option"
  as_skippedAfter :: "int option"

definition empty_ids :: "'a sparse_ids" where
  "empty_ids = \<lparr>as_ids = [], as_fullCount = None, as_skippedBefore = None, as_skippedAfter = None\<rparr>"

definition as_indexOf :: "'a \<Rightarrow> 'a sparse_ids \<Rightarrow> nat option" where
  "as_indexOf x s =
     (let it = length (takeWhile (\<lambda>y. y \<noteq> x) (as_ids s))
      in if it < length (as_ids s) then Some it else None)"

definition as_size :: "'a sparse_ids \<Rightarrow> nat" where
  "as_size s = length (as_ids s)"

text \<open>An index out of range violates \<open>Expects\<close>.\<close>

definition as_at :: "nat \<Rightarrow> 'a sparse_ids \<Rightarrow> 'a option" where
  "as_at i s = (if i < as_size s then Some (as_ids s ! i) else None)"

definition as_distance :: "'a \<Rightarrow> 'a \<Rightarrow> 'a sparse_ids \<Rightarrow> int option" where
  "as_distance a b s =
     (case (as_indexOf a s, as_indexOf b s) of
        (Some i, Some j) \<Rightarrow> Some (int j - int i)
      | _ \<Rightarrow> None)"

definition as_nearest :: "'a::linorder \<Rightarrow> 'a sparse_ids \<Rightarrow> 'a option" where
  "as_nearest x s =
     (case drop (lower_index x (as_ids s)) (as_ids s) of
        y # _ \<Rightarrow> Some y
      | [] \<Rightarrow> if as_ids s = [] then None else Some (List.last (as_ids s)))"

definition as_reverse :: "'a sparse_ids \<Rightarrow> 'a sparse_ids" where
  "as_reverse s =
     s\<lparr>as_ids := rev (as_ids s), as_skippedBefore := as_skippedAfter s,
       as_skippedAfter := as_skippedBefore s\<rparr>"

section \<open>\<open>SparseIdsSliceBuilder\<close>\<close>

definition sparse_line :: "msg_id line" where
  "sparse_line =
     \<lparr>ln_min = 0, ln_max = ServerMaxMsgId, ln_null = 0, ln_set = (\<lambda>k. k \<noteq> 0), ln_there = (\<lambda>i. 0 \<le> i)\<rparr>"

type_synonym SparseIdsSliceBuilder = "msg_id builder"

definition sids_new :: "msg_id \<Rightarrow> int \<Rightarrow> int \<Rightarrow> SparseIdsSliceBuilder" where
  "sids_new = new_builder"

definition sids_requestMessages :: "LoadDirection \<Rightarrow> SparseIdsSliceBuilder \<Rightarrow> SparseIdsSliceBuilder" where
  "sids_requestMessages = request_messages"

definition sids_requestMessagesCount :: "SparseIdsSliceBuilder \<Rightarrow> SparseIdsSliceBuilder" where
  "sids_requestMessagesCount = request_count sparse_line"

definition sids_sliceToLimits :: "SparseIdsSliceBuilder \<Rightarrow> SparseIdsSliceBuilder" where
  "sids_sliceToLimits = slice_to_limits sparse_line"

definition sids_fillSkippedAndSliceToLimits :: "SparseIdsSliceBuilder \<Rightarrow> SparseIdsSliceBuilder" where
  "sids_fillSkippedAndSliceToLimits = fill_and_slice sparse_line"

definition sids_mergeSliceData ::
  "int option \<Rightarrow> msg_id list \<Rightarrow> int option \<Rightarrow> int option \<Rightarrow> SparseIdsSliceBuilder
    \<Rightarrow> SparseIdsSliceBuilder" where
  "sids_mergeSliceData = merge_slice_data sparse_line"

definition sids_applyInitial :: "msg_id ids_result \<Rightarrow> SparseIdsSliceBuilder \<Rightarrow> SparseIdsSliceBuilder" where
  "sids_applyInitial = apply_initial sparse_line"

definition sids_applyUpdate ::
  "msg_id slice_update \<Rightarrow> SparseIdsSliceBuilder \<Rightarrow> SparseIdsSliceBuilder \<times> bool" where
  "sids_applyUpdate = apply_update sparse_line"

definition sids_removeOne :: "msg_id \<Rightarrow> SparseIdsSliceBuilder \<Rightarrow> SparseIdsSliceBuilder \<times> bool" where
  "sids_removeOne m b =
     (case remove_one m b of
        (b, changed) \<Rightarrow> (if changed then sids_sliceToLimits b else b, changed))"

definition sids_removeAll :: "SparseIdsSliceBuilder \<Rightarrow> SparseIdsSliceBuilder" where
  "sids_removeAll = remove_all"

definition sids_invalidateBottom :: "SparseIdsSliceBuilder \<Rightarrow> SparseIdsSliceBuilder" where
  "sids_invalidateBottom = bottom_invalidated sparse_line"

definition sids_snapshot :: "SparseIdsSliceBuilder \<Rightarrow> msg_id sparse_ids" where
  "sids_snapshot b =
     \<lparr>as_ids = bd_ids b, as_fullCount = bd_fullCount b, as_skippedBefore = bd_skippedBefore b,
      as_skippedAfter = bd_skippedAfter b\<rparr>"

lemma sparse_line_simps [simp]:
  "ln_min sparse_line = 0" "ln_max sparse_line = ServerMaxMsgId" "ln_set sparse_line k \<longleftrightarrow> k \<noteq> 0"
  by (simp_all add: sparse_line_def)

section \<open>The list alone\<close>

text \<open>What was loaded or arrived is found.\<close>

lemma query_slice_finds:
  assumes "slice_ok s" "x \<in> set (sl_messages s)" "0 \<le> lb" "0 \<le> la"
  shows "x \<in> set (r_messageIds (query_slice lo hi c \<lparr>aroundId = x, limitBefore = lb, limitAfter = la\<rparr> s))"
proof -
  let ?ms = "sl_messages s"
  define p where "p = lower_index x ?ms"
  have o: "ordered_set ?ms" using assms(1) by (simp add: slice_ok_def)
  obtain as bs where ms: "?ms = as @ x # bs" using split_list [OF assms(2)] by blast
  have "\<forall>a \<in> set as. a < x" using o by (simp add: ms sorted_wrt_append)
  then have p: "p = length as" by (simp add: p_def lower_index_def ms takeWhile_append2)
  let ?b = "min (int p) lb" and ?e = "min (int (length ?ms) - int p) (la + 1)"
  have e: "1 \<le> ?e" using assms(4) by (simp add: p ms)
  have b: "0 \<le> ?b" using assms(3) by simp
  have be: "nat ?b < nat (?b + ?e)" by (subst nat_less_eq_zless [OF b]) (use e in linarith)
  have "r_messageIds (query_slice lo hi c \<lparr>aroundId = x, limitBefore = lb, limitAfter = la\<rparr> s)
      = take (nat (?b + ?e)) (drop (nat (int p - ?b)) ?ms)"
    by (simp add: query_slice_def Let_def p_def)
  moreover have "?ms ! p = x" by (simp add: p ms)
  moreover have "take (nat (?b + ?e)) (drop (nat (int p - ?b)) ?ms) ! nat ?b = ?ms ! p"
  proof -
    note be
    moreover have "nat (int p - ?b) + nat ?b = p"
      using assms(3) by (simp add: min_def nat_add_distrib [symmetric])
    moreover have "p \<le> length ?ms" by (simp add: p ms)
    ultimately show ?thesis by (simp add: nth_drop)
  qed
  moreover have "nat ?b < length (take (nat (?b + ?e)) (drop (nat (int p - ?b)) ?ms))"
  proof -
    note be
    moreover have "nat ?b < length ?ms - nat (int p - ?b)" using assms(3) by (simp add: p ms min_def; linarith)
    ultimately show ?thesis by simp
  qed
  ultimately show ?thesis by (metis nth_mem)
qed

lemma sparse_found:
  assumes "sparse_exact H st" "x \<in> covered (sp_slices st)" "x \<in> H" "x \<noteq> 0" "0 \<le> lb" "0 \<le> la"
  shows "x \<in> set (r_messageIds (sparse_snapshot \<lparr>aroundId = x, limitBefore = lb, limitAfter = la\<rparr> st))"
proof -
  note e = store_exactD [OF assms(1) [unfolded sparse_exact_def]]
  obtain s where s: "slice_around x (sp_slices st) = Some s"
    using slice_around_None [OF e(3), of x] assms(2) by auto
  then have sx: "s \<in> set (sp_slices st)" "x \<in> slice_range s" using slice_around_iff [OF e(3)] by blast+
  then have "slice_ok s" "x \<in> set (sl_messages s)"
    using e(3,4) assms(3) by (auto simp: slices_ok_def list_all_iff truth_def)
  from query_slice_finds [OF this assms(5,6)] s assms(4) show ?thesis
    by (simp add: sparse_snapshot_def sparse_queryFromSlice_def)
qed

lemma dropWhile_sorted: "sorted xs \<Longrightarrow> dropWhile (\<lambda>x. \<not> m < x) xs = filter (\<lambda>x. m < x) xs"
  for m :: "'a::linorder"
proof (induction xs)
  case (Cons x xs)
  then have "m < x \<Longrightarrow> filter (\<lambda>y. m < y) xs = xs" by (fastforce simp: filter_id_conv)
  with Cons show ?case by simp
qed simp

lemma widen_covers:
  "x \<in> covered ss \<Longrightarrow> 0 \<le> x \<Longrightarrow> x \<le> ServerMaxMsgId \<Longrightarrow> x \<in> covered (snd (widen c ss))"
  by (auto simp: widen_def covered_def slice_range_def Let_def split: list.split)

lemma addSlice_covers:
  assumes "sparse_exact H st" "f \<le> t" "x \<in> {f..t}" "x \<in> set ms" "0 \<le> x" "x \<le> ServerMaxMsgId"
  shows "x \<in> covered (sp_slices (fst (sparse_addSlice ms f t c st)))"
proof -
  note e = store_exactD [OF assms(1) [unfolded sparse_exact_def]]
  have "ms \<noteq> []" using assms(4) by auto
  then obtain s n where "addRangeItemsAndCountNew ms f t (sp_slices st)
      = (fst (add_range_items ms f t (sp_slices st)), Some s, n)"
    by (cases "add_range_items ms f t (sp_slices st)") (auto simp: addRangeItemsAndCountNew_def)
  moreover have "x \<in> covered (fst (add_range_items ms f t (sp_slices st)))"
    using add_range_items_spec(2) [OF e(3) assms(2), of ms] assms(3) by simp
  ultimately show ?thesis
    using assms(5,6) by (simp add: sparse_addSlice_def addRange_def Let_def widen_covers)
qed

lemma loaded_exact:
  assumes "sparse_exact H st" "f \<le> t" "set ms = H \<inter> {f..t}" "counts c H"
  shows "sparse_exact H (fst (sparse_addSlice ms f t c st))"
    and "update_exact H (snd (sparse_addSlice ms f t c st))"
proof -
  have H: "H \<union> set ms = H" "H \<subseteq> {0..ServerMaxMsgId}"
    using assms(3) store_exactD(2) [OF assms(1) [unfolded sparse_exact_def]] by auto
  have r: "set ms \<subseteq> {f..t}" "H \<inter> {f..t} \<subseteq> set ms" "set ms \<subseteq> {0..ServerMaxMsgId}"
    "counts c (H \<union> set ms)" "c = None \<Longrightarrow> set ms \<subseteq> H \<and> \<not> False \<or> False \<and> (\<exists>m. ms = [m] \<and> m \<notin> H)
        \<and> (f = t \<or> (\<forall>x \<in> H. x \<le> t))"
    using assms(3,4) H by auto
  from addRange_exact [OF assms(1,2) r]
  show "sparse_exact H (fst (sparse_addSlice ms f t c st))"
    "update_exact H (snd (sparse_addSlice ms f t c st))"
    by (simp_all add: sparse_addSlice_def H)
qed

text \<open>A history to try the theorems on: messages 3, 5 and 8, of which 5 and 8 are known.\<close>

definition sample_history :: "msg_id set" where "sample_history = {3, 5, 8}"

definition sample_list :: SparseIdsList where
  "sample_list =
     \<lparr>sp_count = Some 3, sp_slices = [\<lparr>sl_messages = [5, 8], sl_from = 4, sl_till = ServerMaxMsgId\<rparr>]\<rparr>"

lemma sample_list_exact: "sparse_exact sample_history sample_list"
  by (auto simp: sparse_exact_def store_exact_def counts_ok_def sample_history_def sample_list_def
      slices_ok_def slice_ok_def truth_def slice_range_def ServerMaxMsgId_def)

text \<open>C24: Whatever happens to a history, in whatever order the list is told of it and loads
  parts of it, what it answers is a window of the history as it is then, with the numbers of
  what is hidden before it, after it and in all right where they are given.\<close>

theorem sparse_history_exact:
  assumes "sparse_exact H st" "fitting sparse_fits sparse_after sparse_step H st es"
    and "0 \<le> limitBefore q" "0 \<le> limitAfter q"
  shows "result_exact (fold sparse_after es H) (aroundId q) (sparse_snapshot q (fold sparse_step es st))"
  by (rule sparse.run_ask [OF assms])

theorem sparse_history_exact_witness:
  "result_exact {3, 5, 8} 5 (sparse_snapshot \<lparr>aroundId = 5, limitBefore = 1, limitAfter = 1\<rparr>
     (fold sparse_step [Missed [8]] \<lparr>sp_count = None, sp_slices = []\<rparr>))"
proof -
  have "sparse_exact {3, 5} \<lparr>sp_count = None, sp_slices = []\<rparr>"
    by (simp add: sparse_exact_def store_exact_def counts_ok_def ServerMaxMsgId_def)
  moreover have "fitting sparse_fits sparse_after sparse_step {3, 5} \<lparr>sp_count = None, sp_slices = []\<rparr>
      [Missed [8]]"
    by (simp add: ServerMaxMsgId_def sparse_invalidateBottom_def slice_cut_bottom_def)
  ultimately show ?thesis
    using sparse_history_exact [of "{3, 5}" "\<lparr>sp_count = None, sp_slices = []\<rparr>" "[Missed [8]]"
        "\<lparr>aroundId = 5, limitBefore = 1, limitAfter = 1\<rparr>"]
    by (simp add: insert_commute)
qed

text \<open>A part of the history that was loaded is there from then on: a query around any of
  its messages, whatever its limits, shows that message.\<close>

theorem sparse_loaded_found:
  assumes "sparse_exact H st" "f \<le> t" "set ms = H \<inter> {f..t}" "counts c H" "x \<in> set ms" "x \<noteq> 0"
    and "0 \<le> lb" "0 \<le> la"
  shows "x \<in> set (r_messageIds (sparse_snapshot \<lparr>aroundId = x, limitBefore = lb, limitAfter = la\<rparr>
    (fst (sparse_addSlice ms f t c st))))"
proof -
  have xH: "x \<in> H" "x \<in> {f..t}" "0 \<le> x" "x \<le> ServerMaxMsgId"
    using assms(3,5) store_exactD(2) [OF assms(1) [unfolded sparse_exact_def]] by auto
  show ?thesis
    by (rule sparse_found [OF loaded_exact(1) [OF assms(1-4)]])
      (use xH assms addSlice_covers [OF assms(1,2) xH(2) assms(5) xH(3,4)] in auto)
qed

theorem sparse_loaded_found_witness:
  "3 \<in> set (r_messageIds (sparse_snapshot \<lparr>aroundId = 3, limitBefore = 0, limitAfter = 0\<rparr>
    (fst (sparse_addSlice [3] 1 4 None sample_list))))"
  by (rule sparse_loaded_found [OF sample_list_exact]) (auto simp: sample_history_def)

text \<open>\<open>countAfter\<close> tells how many messages after one satisfy a condition, or that it
  does not know.\<close>

theorem sparse_countAfter:
  assumes "sparse_exact H st" "countAfter m limit P st = Some n"
  shows "n = int (card {x \<in> H. m < x \<and> P x})"
proof -
  note e = store_exactD [OF assms(1) [unfolded sparse_exact_def]]
  define b where "b = List.last (sp_slices st)"
  define later where "later = dropWhile (\<lambda>x. \<not> m < x) (sl_messages b)"
  have c: "sp_slices st \<noteq> []" "sl_till b = ServerMaxMsgId" "sl_from b \<le> m \<or> sl_from b = 0"
    "n = int (length (filter P later))"
    using assms(2) unfolding countAfter_def Let_def b_def [symmetric] later_def [symmetric]
    by (auto split: if_splits)
  have bs: "b \<in> set (sp_slices st)" using c(1) by (simp add: b_def)
  then have b: "ordered_set (sl_messages b)" "set (sl_messages b) = H \<inter> {sl_from b..sl_till b}"
    using e(3,4) by (auto simp: slices_ok_def slice_ok_def list_all_iff truth_def slice_range_def)
  have o: "ordered_set later" "later = filter (\<lambda>x. m < x) (sl_messages b)"
  proof -
    have "sorted (sl_messages b)" using b(1) by (simp add: ordered_set_iff)
    then show "later = filter (\<lambda>x. m < x) (sl_messages b)"
      unfolding later_def by (rule dropWhile_sorted)
    then show "ordered_set later" using b(1) by (simp add: sorted_wrt_filter)
  qed
  have "{x \<in> H. m < x \<and> P x} = set (filter P later)"
    using c(2,3) e(2) by (auto simp: o(2) b(2))
  moreover have "length (filter P later) = card (set (filter P later))"
    using o(1) by (intro ordered_set_length) (simp add: sorted_wrt_filter)
  ultimately show ?thesis by (simp add: c(4))
qed

theorem sparse_countAfter_witness: "2 = int (card {x \<in> sample_history. 4 < x \<and> odd x \<or> x = 8 \<and> 4 < x})"
proof -
  have "countAfter 4 10 (\<lambda>x. odd x \<or> x = 8) sample_list = Some 2"
    by (simp add: countAfter_def sample_list_def)
  from sparse_countAfter [OF sample_list_exact this]
  have "2 = int (card {x \<in> sample_history. 4 < x \<and> (odd x \<or> x = 8)})" .
  moreover have "{x \<in> sample_history. 4 < x \<and> (odd x \<or> x = 8)}
      = {x \<in> sample_history. 4 < x \<and> odd x \<or> x = 8 \<and> 4 < x}" by auto
  ultimately show ?thesis by simp
qed

section \<open>The list and the builder\<close>

text \<open>A builder that starts with what the list answers around its key shows a window of
  the history around the key, within its limits, with the hidden messages counted right; and
  if it asks for nothing more, nothing its limits would show is missing and it knows how many
  messages there are.\<close>

theorem sparse_viewer_start:
  assumes "sparse_exact H st" "key \<noteq> 0" "0 \<le> lb" "0 \<le> la"
  defines "b \<equiv> sids_applyInitial (sparse_snapshot \<lparr>aroundId = key, limitBefore = lb, limitAfter = la\<rparr> st)
    (sids_new key lb la)"
  shows "builder_exact H b \<and> within_limits b \<and> (bd_requests b = [] \<longrightarrow> complete H b)"
proof -
  have fin: "finite H" by (rule store_exactD(1) [OF assms(1) [unfolded sparse_exact_def]])
  have "result_exact H (bd_key (new_builder key lb la))
      (sparse_snapshot \<lparr>aroundId = key, limitBefore = lb, limitAfter = la\<rparr> st)"
    using sparse_snapshot_exact [OF assms(1), of "\<lparr>aroundId = key, limitBefore = lb, limitAfter = la\<rparr>"]
      assms(3,4) by (simp add: new_builder_def)
  from apply_initial_exact [OF new_builder_exact [OF fin assms(3,4)] _ this] assms(2)
  show ?thesis by (simp add: b_def sids_applyInitial_def sids_new_def new_builder_def)
qed

text \<open>When a part of the history is loaded, list and builder stay exact; a builder that
  takes the announcement keeps its limits, and if it then asks for nothing more, nothing is
  missing.\<close>

theorem sparse_viewer_load:
  assumes "sparse_exact H st" "builder_exact H b" "bd_key b \<noteq> 0"
    and "f \<le> t" "set ms = H \<inter> {f..t}" "counts c H"
  defines "r \<equiv> sids_applyUpdate (snd (sparse_addSlice ms f t c st)) (drained b)"
  shows "sparse_exact H (fst (sparse_addSlice ms f t c st)) \<and> builder_exact H (fst r)
    \<and> (snd r \<longrightarrow> within_limits (fst r) \<and> (bd_requests (fst r) = [] \<longrightarrow> complete H (fst r)))"
proof -
  note l = loaded_exact [OF assms(1,4,5,6)]
  have H: "H \<subseteq> {ln_min sparse_line..ln_max sparse_line}"
    using store_exactD(2) [OF assms(1) [unfolded sparse_exact_def]] by simp
  have "builder_exact H (drained b)" "ln_set sparse_line (bd_key (drained b))" using assms(2,3) by simp_all
  from apply_update_exact [OF this l(2) H] l(1) show ?thesis by (simp add: r_def sids_applyUpdate_def)
qed

text \<open>When a message that the history has is deleted, list and builder stay exact.\<close>

theorem sparse_viewer_delete:
  assumes "sparse_exact H st" "builder_exact H b" "bd_key b \<noteq> 0" "m \<in> H" "bd_ids b \<noteq> []"
  shows "sparse_exact (H - {m}) (sparse_removeOne m st) \<and> builder_exact (H - {m}) (fst (sids_removeOne m b))"
proof -
  have e: "builder_exact (H - {m}) (fst (remove_one m b))" "bd_key (fst (remove_one m b)) = bd_key b"
    by (rule remove_one_exact [OF assms(2,4,5)])+
  then have "builder_exact (H - {m}) (sids_sliceToLimits (fst (remove_one m b)))"
    using slice_to_limits_exact(1) [OF e(1), of sparse_line] assms(3) by (simp add: sids_sliceToLimits_def)
  with e show ?thesis
    using sparse_removeOne_exact [OF assms(1,4)] by (simp add: sids_removeOne_def split_beta)
qed

section \<open>The theorems at a list\<close>

definition sample_builder :: SparseIdsSliceBuilder where
  "sample_builder =
     \<lparr>bd_key = 5, bd_ids = [5, 8], bd_fullCount = Some 3, bd_skippedBefore = Some 1,
      bd_skippedAfter = Some 0, bd_limitBefore = 1, bd_limitAfter = 1, bd_requests = []\<rparr>"

lemma sample_builder_exact: "builder_exact sample_history sample_builder"
proof -
  have "hidden_before sample_history 5 [5, 8] = {3}" "hidden_after sample_history 5 [5, 8] = {}"
    by (auto simp: sample_history_def hidden_before_def hidden_after_def)
  then show ?thesis
    by (simp add: builder_exact_def sample_builder_def window_def) (simp add: sample_history_def)
qed

theorem sparse_viewer_start_witness:
  "builder_exact sample_history (sids_applyInitial
     (sparse_snapshot \<lparr>aroundId = 5, limitBefore = 1, limitAfter = 1\<rparr> sample_list) (sids_new 5 1 1))"
  using sparse_viewer_start [OF sample_list_exact, of 5 1 1] by simp

theorem sparse_viewer_load_witness:
  "builder_exact sample_history (fst (sids_applyUpdate
     (snd (sparse_addSlice [3] 1 4 None sample_list)) (drained sample_builder)))"
  using sparse_viewer_load [OF sample_list_exact sample_builder_exact, of 1 4 "[3]" None]
  by (simp add: sample_builder_def sample_history_def)

theorem sparse_viewer_delete_witness:
  "builder_exact (sample_history - {8}) (fst (sids_removeOne 8 sample_builder))"
  using sparse_viewer_delete [OF sample_list_exact sample_builder_exact, of 8]
  by (simp add: sample_builder_def sample_history_def)

end
