(* ===== verification/Merged_Slice.thy ===== *)
theory Merged_Slice
  imports Sparse_Ids_Builder
begin

text \<open>
  \<open>SparseIdsMergedSlice\<close> (\<open>data/data_sparse_ids.{h,cpp}\<close>): the shared media of a
  conversation and, before it, of the group it was migrated from, as one list.  Reading
  \<open>_migrated\<close> when there is none is undefined in the code; here such a call has no value.
  \<open>CreateViewer\<close> only combines the two viewers and is represented by its keys.
\<close>

section \<open>The slice\<close>

record merged_key =
  mk_peerId :: peer_id
  mk_topicRootId :: msg_id
  mk_monoforumPeerId :: peer_id
  mk_migratedPeerId :: peer_id
  mk_universalId :: msg_id

definition merged_key :: "peer_id \<Rightarrow> msg_id \<Rightarrow> peer_id \<Rightarrow> peer_id \<Rightarrow> msg_id \<Rightarrow> merged_key" where
  "merged_key peerId topicRootId monoforumPeerId migratedPeerId universalId =
     \<lparr>mk_peerId = peerId, mk_topicRootId = topicRootId, mk_monoforumPeerId = monoforumPeerId,
      mk_migratedPeerId =
        (if topicRootId \<noteq> 0 \<or> monoforumPeerId \<noteq> 0 then 0 else migratedPeerId),
      mk_universalId = universalId\<rparr>"

record merged_slice =
  mg_key :: merged_key
  mg_part :: "msg_id sparse_ids"
  mg_migrated :: "msg_id sparse_ids option"
  mg_unsorted :: "msg_id sparse_ids option"

definition MigratedSlice :: "merged_key \<Rightarrow> msg_id sparse_ids option" where
  "MigratedSlice k = (if mk_migratedPeerId k \<noteq> 0 then Some empty_ids else None)"

definition merged_empty :: "merged_key \<Rightarrow> merged_slice" where
  "merged_empty k =
     \<lparr>mg_key = k, mg_part = empty_ids, mg_migrated = MigratedSlice k, mg_unsorted = None\<rparr>"

definition PartKey :: "merged_key \<Rightarrow> msg_id" where
  "PartKey k = (if mk_universalId k < 0 then 1 else mk_universalId k)"

definition MigratedKey :: "merged_key \<Rightarrow> msg_id" where
  "MigratedKey k =
     (if mk_universalId k < 0 then ServerMaxMsgId + mk_universalId k
      else if 0 < mk_universalId k then ServerMaxMsgId - 1 else 0)"

definition ComputeKeyId :: "merged_key \<Rightarrow> full_msg_id" where
  "ComputeKeyId k =
     (if 0 \<le> mk_universalId k then FullMsgId (mk_peerId k) (mk_universalId k)
      else FullMsgId (mk_migratedPeerId k) (ServerMaxMsgId + mk_universalId k))"

definition Add :: "int option \<Rightarrow> int option \<Rightarrow> int option" where
  "Add a b = (case (a, b) of (Some m, Some n) \<Rightarrow> Some (m + n) | _ \<Rightarrow> None)"

definition isFromPart :: "merged_slice \<Rightarrow> full_msg_id \<Rightarrow> bool" where
  "isFromPart m i \<longleftrightarrow> mk_peerId (mg_key m) = fm_peer i"

definition isFromMigrated :: "merged_slice \<Rightarrow> full_msg_id \<Rightarrow> bool" where
  "isFromMigrated m i \<longleftrightarrow> mg_migrated m \<noteq> None \<and> mk_migratedPeerId (mg_key m) = fm_peer i"

definition isolatedInPart :: "merged_slice \<Rightarrow> bool" where
  "isolatedInPart m \<longleftrightarrow> IsServerMsgId (mk_universalId (mg_key m))
     \<and> (mg_migrated m = None \<or> as_skippedBefore (mg_part m) \<noteq> Some 0)"

definition isolatedInMigrated :: "merged_slice \<Rightarrow> bool option" where
  "isolatedInMigrated m =
     (if IsServerMsgId (ServerMaxMsgId + mk_universalId (mg_key m))
      then map_option (\<lambda>g. as_skippedAfter g \<noteq> Some 0) (mg_migrated m)
      else Some False)"

definition migratedSize :: "merged_slice \<Rightarrow> nat option" where
  "migratedSize m = (if isolatedInPart m then Some 0 else map_option as_size (mg_migrated m))"

definition mg_fullCount :: "merged_slice \<Rightarrow> int option" where
  "mg_fullCount m =
     (case mg_unsorted m of
        Some u \<Rightarrow> as_fullCount u
      | None \<Rightarrow> Add (as_fullCount (mg_part m))
          (case mg_migrated m of Some g \<Rightarrow> as_fullCount g | None \<Rightarrow> Some 0))"

definition mg_skippedBefore :: "merged_slice \<Rightarrow> int option option" where
  "mg_skippedBefore m =
     (case mg_unsorted m of
        Some u \<Rightarrow> Some (as_skippedBefore u)
      | None \<Rightarrow> map_option
          (\<lambda>alone. Add (if alone then Some 0 else as_skippedBefore (mg_part m))
            (case mg_migrated m of
               Some g \<Rightarrow> if isolatedInPart m then as_fullCount g else as_skippedBefore g
             | None \<Rightarrow> Some 0))
          (isolatedInMigrated m))"

definition mg_skippedAfter :: "merged_slice \<Rightarrow> int option option" where
  "mg_skippedAfter m =
     (case mg_unsorted m of
        Some u \<Rightarrow> Some (as_skippedAfter u)
      | None \<Rightarrow>
          (case isolatedInMigrated m of
             None \<Rightarrow> None
           | Some alone \<Rightarrow>
               let part = (if alone then as_fullCount (mg_part m) else as_skippedAfter (mg_part m))
               in if isolatedInPart m then Some (Add part (Some 0))
                  else map_option (\<lambda>g. Add part (as_skippedAfter g)) (mg_migrated m)))"

definition mg_indexOf :: "full_msg_id \<Rightarrow> merged_slice \<Rightarrow> nat option option" where
  "mg_indexOf i m =
     (case mg_unsorted m of
        Some u \<Rightarrow> Some (as_indexOf (fm_msg i) u)
      | None \<Rightarrow>
          if isFromPart m i
          then map_option (\<lambda>n. map_option (\<lambda>k. k + n) (as_indexOf (fm_msg i) (mg_part m))) (migratedSize m)
          else if isolatedInPart m then Some None
          else if isFromMigrated m i
          then map_option (\<lambda>g. as_indexOf (fm_msg i) g) (mg_migrated m)
          else Some None)"

definition mg_size :: "merged_slice \<Rightarrow> nat option" where
  "mg_size m =
     (case mg_unsorted m of
        Some u \<Rightarrow> Some (as_size u)
      | None \<Rightarrow>
          (case (migratedSize m, isolatedInMigrated m) of
             (Some n, Some alone) \<Rightarrow>
               Some ((if isolatedInPart m then 0 else n) + (if alone then 0 else as_size (mg_part m)))
           | _ \<Rightarrow> None))"

definition mg_at :: "nat \<Rightarrow> merged_slice \<Rightarrow> full_msg_id option" where
  "mg_at i m =
     (if \<not> (\<exists>n. mg_size m = Some n \<and> i < n) then None
      else case mg_unsorted m of
        Some u \<Rightarrow> map_option (FullMsgId (mk_peerId (mg_key m))) (as_at i u)
      | None \<Rightarrow>
          (case migratedSize m of
             None \<Rightarrow> None
           | Some n \<Rightarrow>
               if i < n
               then (case mg_migrated m of
                       None \<Rightarrow> None
                     | Some g \<Rightarrow> map_option (FullMsgId (mk_migratedPeerId (mg_key m))) (as_at i g))
               else map_option (FullMsgId (mk_peerId (mg_key m))) (as_at (i - n) (mg_part m))))"

definition mg_distance :: "merged_key \<Rightarrow> merged_key \<Rightarrow> merged_slice \<Rightarrow> int option option" where
  "mg_distance a b m =
     (case mg_indexOf (ComputeKeyId a) m of
        None \<Rightarrow> None
      | Some None \<Rightarrow> Some None
      | Some (Some i) \<Rightarrow>
          map_option (map_option (\<lambda>j. int j - int i)) (mg_indexOf (ComputeKeyId b) m))"

definition mg_nearest :: "msg_id \<Rightarrow> merged_slice \<Rightarrow> full_msg_id option option" where
  "mg_nearest i m =
     (let part = FullMsgId (mk_peerId (mg_key m)); migrated = FullMsgId (mk_migratedPeerId (mg_key m))
      in case mg_unsorted m of
        Some u \<Rightarrow>
          Some (if as_indexOf i u \<noteq> None then Some (part i)
                else if as_size u \<noteq> 0 then Some (part (as_ids u ! (as_size u div 2)))
                else None)
      | None \<Rightarrow>
          if IsServerMsgId i
          then (case as_nearest i (mg_part m) of
                  Some r \<Rightarrow> Some (Some (part r))
                | None \<Rightarrow>
                    if isolatedInPart m then Some None
                    else map_option (\<lambda>g. map_option migrated (as_nearest (ServerMaxMsgId - 1) g))
                      (mg_migrated m))
          else (case (case mg_migrated m of None \<Rightarrow> None | Some g \<Rightarrow> as_nearest (i + ServerMaxMsgId) g) of
                  Some r \<Rightarrow> Some (Some (migrated r))
                | None \<Rightarrow>
                    (case isolatedInMigrated m of
                       None \<Rightarrow> None
                     | Some alone \<Rightarrow>
                         Some (if alone then None else map_option part (as_nearest 0 (mg_part m))))))"

section \<open>Positions\<close>

lemma as_indexOf_at:
  assumes "distinct (as_ids s)" "i < as_size s"
  shows "as_indexOf (as_ids s ! i) s = Some i"
proof -
  have "takeWhile (\<lambda>y. y \<noteq> as_ids s ! i) (as_ids s) = take i (as_ids s)"
    using assms by (intro takeWhile_eq_take_P_nth) (auto simp: as_size_def nth_eq_iff_index_eq)
  then show ?thesis using assms(2) by (simp add: as_indexOf_def as_size_def)
qed

definition merged_ok :: "merged_slice \<Rightarrow> bool" where
  "merged_ok m \<longleftrightarrow> mg_unsorted m = None \<and> ordered_set (as_ids (mg_part m))
     \<and> (IsServerMsgId (mk_universalId (mg_key m)) \<or> mg_migrated m \<noteq> None)
     \<and> (\<forall>g. mg_migrated m = Some g \<longrightarrow>
          ordered_set (as_ids g) \<and> mk_migratedPeerId (mg_key m) \<noteq> mk_peerId (mg_key m))"

text \<open>The merged list is indexed both ways.  Every index below its size has a message, and
  that message has that index; the messages of the old group come before those of the
  conversation.  The calls have values, for a key with a server message or a migrated
  group.\<close>

theorem merged_index_roundtrip:
  assumes "merged_ok m"
  shows "\<exists>n. mg_size m = Some n \<and> (\<forall>i < n. \<exists>x. mg_at i m = Some x \<and> mg_indexOf x m = Some (Some i))"
proof -
  have ok: "mg_unsorted m = None" "distinct (as_ids (mg_part m))"
    "IsServerMsgId (mk_universalId (mg_key m)) \<or> mg_migrated m \<noteq> None"
    using assms by (auto simp: merged_ok_def ordered_set_iff)
  have g: "distinct (as_ids g)" "mk_migratedPeerId (mg_key m) \<noteq> mk_peerId (mg_key m)"
    if "mg_migrated m = Some g" for g
    using assms that by (auto simp: merged_ok_def ordered_set_iff)
  obtain n where n: "migratedSize m = Some n" and nP: "isolatedInPart m \<Longrightarrow> n = 0"
    and nM: "\<not> isolatedInPart m \<Longrightarrow> \<exists>g. mg_migrated m = Some g \<and> n = as_size g"
  proof (cases "isolatedInPart m")
    case True
    then show ?thesis using that [of 0] by (simp add: migratedSize_def)
  next
    case False
    then obtain s where "mg_migrated m = Some s" using ok(3) by (auto simp: isolatedInPart_def)
    with False show ?thesis using that [of "as_size s"] by (simp add: migratedSize_def)
  qed
  obtain alone where alone: "isolatedInMigrated m = Some alone"
  proof (cases "mg_migrated m")
    case None
    then show ?thesis using that [of False] ok(3) by (simp add: isolatedInMigrated_def IsServerMsgId_def)
  next
    case (Some s)
    then have "isolatedInMigrated m \<noteq> None" by (auto simp: isolatedInMigrated_def)
    then show ?thesis using that by blast
  qed
  let ?N = "n + (if alone then 0 else as_size (mg_part m))"
  have size: "mg_size m = Some ?N" using nP by (simp add: mg_size_def ok(1) n alone)
  have "\<exists>x. mg_at i m = Some x \<and> mg_indexOf x m = Some (Some i)" if "i < ?N" for i
  proof (cases "i < n")
    case True
    with nP have np: "\<not> isolatedInPart m" by auto
    with nM obtain s where s: "mg_migrated m = Some s" "n = as_size s" by blast
    have "mg_at i m = Some (FullMsgId (mk_migratedPeerId (mg_key m)) (as_ids s ! i))"
      using True that by (simp add: mg_at_def size ok(1) n s as_at_def)
    moreover have "mg_indexOf (FullMsgId (mk_migratedPeerId (mg_key m)) (as_ids s ! i)) m = Some (Some i)"
      using g [OF s(1)] np True as_indexOf_at [of s i]
      by (simp add: mg_indexOf_def ok(1) isFromPart_def isFromMigrated_def s)
    ultimately show ?thesis by blast
  next
    case False
    with that have i: "i - n < as_size (mg_part m)" by (simp split: if_splits)
    have "mg_at i m = Some (FullMsgId (mk_peerId (mg_key m)) (as_ids (mg_part m) ! (i - n)))"
      using False that i by (simp add: mg_at_def size ok(1) n as_at_def)
    moreover have "mg_indexOf (FullMsgId (mk_peerId (mg_key m)) (as_ids (mg_part m) ! (i - n))) m = Some (Some i)"
      using False as_indexOf_at [OF ok(2) i] by (simp add: mg_indexOf_def ok(1) isFromPart_def n)
    ultimately show ?thesis by blast
  qed
  with size show ?thesis by blast
qed

definition sample_merged :: merged_slice where
  "sample_merged =
     \<lparr>mg_key = merged_key 9 0 0 4 20,
      mg_part = \<lparr>as_ids = [20, 30], as_fullCount = Some 2, as_skippedBefore = Some 0, as_skippedAfter = Some 0\<rparr>,
      mg_migrated = Some \<lparr>as_ids = [5], as_fullCount = Some 1, as_skippedBefore = Some 0, as_skippedAfter = Some 0\<rparr>,
      mg_unsorted = None\<rparr>"

theorem merged_index_roundtrip_witness:
  "\<exists>n. mg_size sample_merged = Some n
     \<and> (\<forall>i < n. \<exists>x. mg_at i sample_merged = Some x \<and> mg_indexOf x sample_merged = Some (Some i))"
  by (rule merged_index_roundtrip)
    (simp add: merged_ok_def sample_merged_def merged_key_def IsServerMsgId_def ServerMaxMsgId_def)

text \<open>Without a key and without a migrated group the code reads a \<open>_migrated\<close> that is not
  there.\<close>

lemma no_key_no_size:
  "mk_universalId k = 0 \<Longrightarrow> mk_migratedPeerId k = 0 \<Longrightarrow>
     mg_size (merged_empty k) = None \<and> mg_skippedAfter (merged_empty k) = None"
  by (simp add: mg_size_def merged_empty_def MigratedSlice_def migratedSize_def isolatedInPart_def
      isolatedInMigrated_def IsServerMsgId_def ServerMaxMsgId_def mg_skippedAfter_def)

text \<open>A message that arrives out of sight changes the count of the builder, but not what it
  says is hidden after it.\<close>

definition out_of_sight :: "SparseIdsSliceBuilder" where
  "out_of_sight = sids_applyInitial
     (sparse_snapshot \<lparr>aroundId = 3, limitBefore = 0, limitAfter = 0\<rparr>
        \<lparr>sp_count = Some 2, sp_slices = [\<lparr>sl_messages = [3], sl_from = 0, sl_till = 4\<rparr>]\<rparr>)
     (sids_new 3 0 0)"

lemma stale_after:
  "bd_ids out_of_sight = [3] \<and> bd_fullCount out_of_sight = Some 2
     \<and> bd_skippedBefore out_of_sight = Some 0 \<and> bd_skippedAfter out_of_sight = Some 1
   \<and> (let b = fst (sids_applyUpdate (snd (sparse_addNew 8
       \<lparr>sp_count = Some 2, sp_slices = [\<lparr>sl_messages = [3], sl_from = 0, sl_till = 4\<rparr>]\<rparr>)) out_of_sight)
    in bd_ids b = [3] \<and> bd_fullCount b = Some 3 \<and> bd_skippedBefore b = Some 0
       \<and> bd_skippedAfter b = Some 1)"
  by (simp add: out_of_sight_def sids_applyInitial_def apply_initial_def sparse_snapshot_def
      slice_around_def lower_till_def sparse_queryFromSlice_def query_slice_def lower_index_def
      fill_skipped_def Let_def ServerMaxMsgId_def sids_new_def new_builder_def merge_slice_data_def
      flat_merge_def insort_insert_key_def fill_and_slice_def slice_to_limits_def sparse_line_def
      limit_before_def limit_after_def adjusted_before_def adjusted_after_def index_in_def
      maybe_more_def request_messages_def request_count_def fire_def was_there_def was_there_last_def
      sids_applyUpdate_def apply_update_def needs_merge_def sparse_addNew_def addRange_def
      addRangeItemsAndCountNew_def add_range_items_def upper_from_def emplace_slice_def next_count_def
      widen_def accumulate_max_def take_count_def)

end
