(* ===== verification/Messages_List.thy ===== *)
theory Messages_List
  imports History_Store Peer_Ids
begin

text \<open>
  \<open>Data::MessagesList\<close> (\<open>data/data_messages.{h,cpp}\<close>): the messages of a conversation as
  far as they are known, ordered by date.  It is the same structure as
  \<open>Storage::SparseIdsList\<close> over another order, with its own copy of the code: the range
  functions here follow it and are shown equal to those of \<open>Slices\<close>, so that what is proved
  there holds here.
\<close>

section \<open>Positions\<close>

datatype MessagePosition = MessagePosition (mp_fullId: full_msg_id) (mp_date: int)

instantiation MessagePosition :: linorder
begin

definition less_MessagePosition :: "MessagePosition \<Rightarrow> MessagePosition \<Rightarrow> bool" where
  "less_MessagePosition a b \<longleftrightarrow>
     (if mp_date a < mp_date b then True
      else if mp_date b < mp_date a then False
      else mp_fullId a < mp_fullId b)"

definition less_eq_MessagePosition :: "MessagePosition \<Rightarrow> MessagePosition \<Rightarrow> bool" where
  "less_eq_MessagePosition a b \<longleftrightarrow> \<not> (b < a)"

instance
  by standard
    (auto simp: less_MessagePosition_def less_eq_MessagePosition_def MessagePosition.expand
      split: if_splits)

end

definition MaxDate :: int where "MaxDate = 2 ^ 31 - 1"

definition MinMessagePosition :: MessagePosition where
  "MinMessagePosition = MessagePosition (FullMsgId 0 1) 0"

definition MaxMessagePosition :: MessagePosition where
  "MaxMessagePosition = MessagePosition (FullMsgId 0 (ServerMaxMsgId - 1)) MaxDate"

definition position_set :: "MessagePosition \<Rightarrow> bool" where
  "position_set p \<longleftrightarrow> fm_msg (mp_fullId p) \<noteq> 0"

section \<open>The list\<close>

record MessagesList =
  ml_count :: "int option"
  ml_slices :: "MessagePosition slice list"

definition ml_merge ::
  "MessagePosition list \<Rightarrow> MessagePosition \<Rightarrow> MessagePosition \<Rightarrow> MessagePosition slice
    \<Rightarrow> MessagePosition slice" where
  "ml_merge moreMessages f t s =
     \<lparr>sl_messages = flat_merge moreMessages (sl_messages s), sl_from = min (sl_from s) f,
      sl_till = max (sl_till s) t\<rparr>"

definition ml_uniteAndAdd ::
  "nat \<Rightarrow> nat \<Rightarrow> MessagePosition list \<Rightarrow> MessagePosition \<Rightarrow> MessagePosition \<Rightarrow> MessagePosition slice list
    \<Rightarrow> MessagePosition slice list \<times> MessagePosition slice \<times> int" where
  "ml_uniteAndAdd uniteFrom uniteTill messages f t ss =
     (let was = length (sl_messages (ss ! uniteFrom));
          united = fold (\<lambda>it s. ml_merge (sl_messages it) (sl_from it) (sl_till it) s)
            (take (uniteTill - Suc uniteFrom) (drop (Suc uniteFrom) ss))
            (ml_merge messages f t (ss ! uniteFrom))
      in (take uniteFrom ss @ united # drop uniteTill ss, united,
          int (length (sl_messages united)) - int was))"

definition ml_addRangeItemsAndCountNew ::
  "MessagePosition list \<Rightarrow> MessagePosition \<Rightarrow> MessagePosition \<Rightarrow> MessagePosition slice list
    \<Rightarrow> MessagePosition slice list \<times> MessagePosition slice \<times> int" where
  "ml_addRangeItemsAndCountNew messages f t ss =
     (let uniteFrom = lower_till f ss; uniteTill = upper_from t ss
      in if uniteFrom < uniteTill then ml_uniteAndAdd uniteFrom uniteTill messages f t ss
         else case emplace_slice \<lparr>sl_messages = flat_merge messages [], sl_from = f, sl_till = t\<rparr> ss
           of (ss, s) \<Rightarrow> (ss, s, int (length (sl_messages s))))"

definition full_range :: "MessagePosition slice \<Rightarrow> bool" where
  "full_range s \<longleftrightarrow> sl_from s = MinMessagePosition \<and> sl_till s = MaxMessagePosition"

definition ml_count_now :: "int option \<Rightarrow> MessagePosition slice list \<Rightarrow> int option" where
  "ml_count_now count ss =
     (case ss of
        [s] \<Rightarrow> if full_range s then Some (int (length (sl_messages s))) else count
      | _ \<Rightarrow> count)"

definition ml_addRange ::
  "MessagePosition list \<Rightarrow> MessagePosition \<Rightarrow> MessagePosition \<Rightarrow> int option \<Rightarrow> bool \<Rightarrow> MessagesList
    \<Rightarrow> MessagesList \<times> MessagePosition slice_update" where
  "ml_addRange messages f t count incrementCount st =
     (case ml_addRangeItemsAndCountNew messages f t (ml_slices st) of
        (ss, s, result) \<Rightarrow>
          (let c = (if count \<noteq> None then count
                    else if incrementCount \<and> ml_count st \<noteq> None \<and> 0 < result
                         then map_option (\<lambda>c. c + result) (ml_count st) else ml_count st);
               c = ml_count_now c ss
           in (\<lparr>ml_count = c, ml_slices = ss\<rparr>,
               \<lparr>u_messages = Some (sl_messages s), u_from = sl_from s, u_till = sl_till s, u_count = c\<rparr>)))"

definition ml_addOne :: "MessagePosition \<Rightarrow> MessagesList \<Rightarrow> MessagesList \<times> MessagePosition slice_update" where
  "ml_addOne m = ml_addRange [m] m m None True"

definition ml_addNew :: "MessagePosition \<Rightarrow> MessagesList \<Rightarrow> MessagesList \<times> MessagePosition slice_update" where
  "ml_addNew m = ml_addRange [m] m MaxMessagePosition None True"

definition ml_addSlice ::
  "MessagePosition list \<Rightarrow> MessagePosition \<Rightarrow> MessagePosition \<Rightarrow> int option \<Rightarrow> MessagesList
    \<Rightarrow> MessagesList \<times> MessagePosition slice_update" where
  "ml_addSlice messageIds f t count = ml_addRange messageIds f t count False"

text \<open>The count goes down whether the message was known or not; the update is fired when a
  slice covers the message.\<close>

definition ml_removeOne ::
  "MessagePosition \<Rightarrow> MessagesList \<Rightarrow> MessagesList \<times> MessagePosition slice_update option" where
  "ml_removeOne m st =
     (let c = map_option (\<lambda>c. c - 1) (ml_count st);
          i = lower_till m (ml_slices st);
          ss = slice_remove m (ml_slices st)
      in (\<lparr>ml_count = c, ml_slices = ss\<rparr>,
          if i < length (ml_slices st) \<and> sl_from (ml_slices st ! i) \<le> m
          then Some \<lparr>u_messages = Some (sl_messages (ss ! i)), u_from = sl_from (ss ! i),
                     u_till = sl_till (ss ! i), u_count = c\<rparr>
          else None))"

fun drop_less :: "MessagePosition \<Rightarrow> MessagePosition slice list \<Rightarrow> MessagePosition slice list \<times> nat" where
  "drop_less m [] = ([], 0)"
| "drop_less m (s # ss) =
     (if sl_till s \<le> m
      then (case drop_less m ss of (ss', n) \<Rightarrow> (ss', length (sl_messages s) + n))
      else if sl_from s \<le> m
      then (s\<lparr>sl_from := MinMessagePosition,
              sl_messages := drop (lower_index m (sl_messages s)) (sl_messages s)\<rparr> # ss,
            lower_index m (sl_messages s))
      else (s # ss, 0))"

definition ml_removeLessThan :: "MessagePosition \<Rightarrow> MessagesList \<Rightarrow> MessagesList" where
  "ml_removeLessThan m st =
     (case drop_less m (ml_slices st) of
        (ss, removed) \<Rightarrow>
          \<lparr>ml_count = (if removed \<noteq> 0 then map_option (\<lambda>c. c - int removed) (ml_count st)
                       else ml_count st),
           ml_slices = ss\<rparr>)"

definition ml_invalidate :: "MessagesList \<Rightarrow> MessagesList" where
  "ml_invalidate st = \<lparr>ml_count = None, ml_slices = []\<rparr>"

definition ml_invalidateBottom :: "MessagesList \<Rightarrow> MessagesList" where
  "ml_invalidateBottom st =
     \<lparr>ml_count = None, ml_slices = slice_cut_bottom MaxMessagePosition (ml_slices st)\<rparr>"

definition ml_queryFromSlice ::
  "int option \<Rightarrow> MessagePosition ids_query \<Rightarrow> MessagePosition slice \<Rightarrow> MessagePosition ids_result" where
  "ml_queryFromSlice = query_slice MinMessagePosition MaxMessagePosition"

definition ml_queryCurrent :: "MessagePosition ids_query \<Rightarrow> MessagesList \<Rightarrow> MessagePosition ids_result" where
  "ml_queryCurrent q st =
     (if \<not> position_set (aroundId q) then no_result
      else case slice_around (aroundId q) (ml_slices st) of
        Some s \<Rightarrow> ml_queryFromSlice (ml_count st) q s
      | None \<Rightarrow> no_result)"

text \<open>\<open>query\<close> answers, and a \<open>viewer\<close> passes on, only what has something to tell.\<close>

definition ml_query :: "MessagePosition ids_query \<Rightarrow> MessagesList \<Rightarrow> MessagePosition ids_result option" where
  "ml_query q st =
     (let current = ml_queryCurrent q st
      in if r_count current \<noteq> None \<or> r_messageIds current \<noteq> [] then Some current else None)"

definition ml_empty :: "MessagesList \<Rightarrow> bool" where
  "ml_empty st = list_all (\<lambda>s. sl_messages s = []) (ml_slices st)"

lemma ml_add_eq: "ml_addRangeItemsAndCountNew = add_range_items"
  by (simp add: fun_eq_iff ml_addRangeItemsAndCountNew_def add_range_items_def ml_uniteAndAdd_def
      unite_and_add_def merge_all_def ml_merge_def slice_merge_def Let_def)

section \<open>The list agrees with the history\<close>

definition messages_exact :: "MessagePosition set \<Rightarrow> MessagesList \<Rightarrow> bool" where
  "messages_exact H st \<longleftrightarrow>
     store_exact MinMessagePosition MaxMessagePosition H (ml_count st) (ml_slices st)"

datatype message_event =
    NewMessage MessagePosition
  | OneMessage MessagePosition
  | LoadedMessages "MessagePosition list" MessagePosition MessagePosition "int option"
  | DeletedMessage MessagePosition
  | TrimmedBelow MessagePosition
  | Reset
  | MissedMessages "MessagePosition list"

fun messages_step :: "message_event \<Rightarrow> MessagesList \<Rightarrow> MessagesList" where
  "messages_step (NewMessage m) st = fst (ml_addNew m st)"
| "messages_step (OneMessage m) st = fst (ml_addOne m st)"
| "messages_step (LoadedMessages ms f t c) st = fst (ml_addSlice ms f t c st)"
| "messages_step (DeletedMessage m) st = fst (ml_removeOne m st)"
| "messages_step (TrimmedBelow m) st = ml_removeLessThan m st"
| "messages_step Reset st = ml_invalidate st"
| "messages_step (MissedMessages ms) st = ml_invalidateBottom st"

fun messages_after :: "message_event \<Rightarrow> MessagePosition set \<Rightarrow> MessagePosition set" where
  "messages_after (NewMessage m) H = H \<union> {m}"
| "messages_after (OneMessage m) H = H \<union> {m}"
| "messages_after (LoadedMessages ms f t c) H = H"
| "messages_after (DeletedMessage m) H = H - {m}"
| "messages_after (TrimmedBelow m) H = {x \<in> H. m \<le> x}"
| "messages_after Reset H = H"
| "messages_after (MissedMessages ms) H = H \<union> set ms"

text \<open>Trimming counts right only when all that is trimmed is known, and no slice ends at the
  message to trim below.\<close>

fun messages_fit :: "MessagePosition set \<Rightarrow> MessagesList \<Rightarrow> message_event \<Rightarrow> bool" where
  "messages_fit H st (NewMessage m) \<longleftrightarrow>
     MinMessagePosition \<le> m \<and> m \<le> MaxMessagePosition \<and> (\<forall>x \<in> H. x < m)"
| "messages_fit H st (OneMessage m) \<longleftrightarrow> MinMessagePosition \<le> m \<and> m \<le> MaxMessagePosition \<and> m \<notin> H"
| "messages_fit H st (LoadedMessages ms f t c) \<longleftrightarrow> f \<le> t \<and> set ms = H \<inter> {f..t} \<and> counts c H"
| "messages_fit H st (DeletedMessage m) \<longleftrightarrow> m \<in> H"
| "messages_fit H st (TrimmedBelow m) \<longleftrightarrow> MinMessagePosition \<le> m
     \<and> (\<forall>s \<in> set (ml_slices st). sl_till s \<noteq> m) \<and> {x \<in> H. x < m} \<subseteq> known (ml_slices st)"
| "messages_fit H st Reset \<longleftrightarrow> True"
| "messages_fit H st (MissedMessages ms) \<longleftrightarrow> set ms \<subseteq> {MinMessagePosition..MaxMessagePosition}
     \<and> (\<forall>m \<in> set ms. \<forall>s \<in> set (ml_slices (ml_invalidateBottom st)). sl_till s < m)"

lemma count_now_exact:
  assumes "counts_ok MinMessagePosition MaxMessagePosition H" "slices_ok ss" "list_all (truth H) ss"
    "counts c H"
  shows "counts (ml_count_now c ss) H"
  using assms full_slice(2) [of H _ MinMessagePosition MaxMessagePosition]
  by (auto simp: ml_count_now_def full_range_def counts_ok_def slices_ok_def split: list.split)

lemma ml_addRange_exact:
  assumes st: "messages_exact H st" and ft: "f \<le> t" and ms: "set messages \<subseteq> {f..t}"
    "H \<inter> {f..t} \<subseteq> set messages" "set messages \<subseteq> {MinMessagePosition..MaxMessagePosition}"
    and c: "counts count (H \<union> set messages)"
    and incr: "count = None \<Longrightarrow> set messages \<subseteq> H \<and> \<not> incr \<or> incr \<and> (\<exists>m. messages = [m] \<and> m \<notin> H)
        \<and> (f = t \<or> (\<forall>x \<in> H. x \<le> t))"
  shows "messages_exact (H \<union> set messages) (fst (ml_addRange messages f t count incr st))"
    and "update_exact (H \<union> set messages) (snd (ml_addRange messages f t count incr st))"
proof -
  note e = store_exactD [OF st [unfolded messages_exact_def]]
  let ?H = "H \<union> set messages"
  obtain ss s added where r: "add_range_items messages f t (ml_slices st) = (ss, s, added)"
    by (metis prod_cases3)
  note spec = add_range_items_spec [OF e(3) ft, where messages = messages, unfolded r, simplified]
  have ss: "slices_ok ss" "list_all (truth ?H) ss" "s \<in> set ss"
    using spec(1,4) spec(6) [OF e(4) ms(1,2)] by simp_all
  define c1 where "c1 = (if count \<noteq> None then count
      else if incr \<and> ml_count st \<noteq> None \<and> 0 < added
           then map_option (\<lambda>c. c + added) (ml_count st) else ml_count st)"
  have c1: "counts c1 ?H"
  proof (cases "count = None")
    case False
    with c show ?thesis by (simp add: c1_def)
  next
    case True
    with incr consider "set messages \<subseteq> H" "\<not> incr"
      | m where "incr" "messages = [m]" "m \<notin> H" "f = t \<or> (\<forall>x \<in> H. x \<le> t)" by blast
    then show ?thesis
    proof cases
      case 1
      then show ?thesis using e(5) True by (simp add: c1_def Un_absorb2)
    next
      case 2
      have "H \<inter> {f..t} = {}" "f \<le> m" "m \<le> t" using ms(1,2) 2(2,3) by auto
      then have "snd (snd (add_range_items [m] f t (ml_slices st))) = 1"
        using add_range_items_new [OF e(3) ft e(4) _ 2(4)] by blast
      then have "added = 1" using r 2(2) by simp
      then show ?thesis using e(1,5) 2 True by (cases "ml_count st") (simp_all add: c1_def)
    qed
  qed
  have ok: "counts_ok MinMessagePosition MaxMessagePosition ?H" using e(1,2) ms(3) by (simp add: counts_ok_def)
  note c2 = count_now_exact [OF ok ss(1,2) c1]
  have res: "ml_addRange messages f t count incr st =
     (\<lparr>ml_count = ml_count_now c1 ss, ml_slices = ss\<rparr>,
      \<lparr>u_messages = Some (sl_messages s), u_from = sl_from s, u_till = sl_till s,
       u_count = ml_count_now c1 ss\<rparr>)"
    unfolding ml_addRange_def ml_add_eq r prod.case Let_def c1_def ..
  show "messages_exact ?H (fst (ml_addRange messages f t count incr st))"
    using ok ss c2 by (simp add: res messages_exact_def store_exact_def)
  show "update_exact ?H (snd (ml_addRange messages f t count incr st))"
    using c2 ss by (simp add: res update_exact_def slices_ok_def slice_ok_def list_all_iff
        truth_def slice_range_def)
qed

lemma ml_removeOne_exact:
  assumes "messages_exact H st" "m \<in> H" shows "messages_exact (H - {m}) (fst (ml_removeOne m st))"
proof -
  note e = store_exactD [OF assms(1) [unfolded messages_exact_def]]
  have "0 < card H" using assms(2) e(1) card_gt_0_iff by blast
  then have "counts (map_option (\<lambda>c. c - 1) (ml_count st)) (H - {m})"
    using e(1,5) assms(2) by (cases "ml_count st") (simp_all add: of_nat_diff)
  with e slice_remove_truth [OF e(3,4), of m] show ?thesis
    by (auto simp: messages_exact_def store_exact_def counts_ok_def ml_removeOne_def Let_def)
qed

section \<open>Trimming\<close>

lemma drop_less_spec:
  assumes "slices_ok ss" "list_all (truth H) ss" "MinMessagePosition \<le> m"
  shows "slices_ok (fst (drop_less m ss))" "list_all (truth {x \<in> H. m \<le> x}) (fst (drop_less m ss))"
    and "\<forall>s \<in> set ss. sl_till s \<noteq> m \<Longrightarrow> snd (drop_less m ss) = card (known ss \<inter> {x. x < m})"
    and "\<forall>s \<in> set (fst (drop_less m ss)). m < sl_till s"
  using assms(1,2)
proof (atomize (full), induction ss)
  case Nil
  show ?case by (simp add: known_def)
next
  case (Cons s ss)
  have s: "slice_ok s" "truth H s" "\<forall>u \<in> set ss. sl_till s < sl_from u" "slices_ok ss" "list_all (truth H) ss"
    using Cons.prems by (simp_all add: slices_ok_Cons)
  have ms: "ordered_set (sl_messages s)" "set (sl_messages s) = H \<inter> {sl_from s..sl_till s}"
    "sl_from s \<le> sl_till s"
    using s(1,2) by (simp_all add: slice_ok_def truth_def slice_range_def)
  have later: "sl_till s < u" if "u \<in> known ss" for u
    using that s(3,5) by (force simp: known_def list_all_iff truth_def slice_range_def)
  have kn: "known (s # ss) = set (sl_messages s) \<union> known ss" by (auto simp: known_def)
  have fin: "finite (known ss)" by (simp add: known_def)
  show ?case
  proof (cases "sl_till s \<le> m")
    case True
    have "card ((set (sl_messages s) \<union> known ss) \<inter> {x. x < m})
        = length (sl_messages s) + card (known ss \<inter> {x. x < m})" if "sl_till s \<noteq> m"
    proof -
      have "(set (sl_messages s) \<union> known ss) \<inter> {x. x < m} = set (sl_messages s) \<union> (known ss \<inter> {x. x < m})"
        using True that ms(2) by auto
      moreover have "set (sl_messages s) \<inter> (known ss \<inter> {x. x < m}) = {}"
        using later ms(2) by fastforce
      ultimately show ?thesis
        using fin by (simp add: card_Un_disjoint ordered_set_length [OF ms(1)])
    qed
    with Cons.IH s(4,5) True show ?thesis by (simp add: kn split_beta)
  next
    case False
    then have till: "m < sl_till s" by simp
    have above: "m < sl_till u" if "u \<in> set ss" for u
      using that s(3,4) till by (fastforce simp: slices_ok_def slice_ok_def)
    have rest: "list_all (truth {x \<in> H. m \<le> x}) ss"
      using s(3,5) till by (fastforce simp: list_all_iff truth_def slice_range_def)
    have kss: "known ss \<inter> {x. x < m} = {}" using later till by fastforce
    show ?thesis
    proof (cases "sl_from s \<le> m")
      case True
      let ?p = "lower_index m (sl_messages s)"
      have sorted: "sorted (sl_messages s)" using ms(1) by (simp add: ordered_set_iff)
      have le: "set (take ?p (sl_messages s)) = {x \<in> set (sl_messages s). x < m}"
        using ordered_split(1) [OF ms(1), of m] by (metis set_filter)
      have ge: "set (drop ?p (sl_messages s)) = {x \<in> set (sl_messages s). m \<le> x}"
        using ordered_split(2) [OF ms(1), of m] by (metis set_filter)
      let ?s = "s\<lparr>sl_from := MinMessagePosition, sl_messages := drop ?p (sl_messages s)\<rparr>"
      have "truth {x \<in> H. m \<le> x} ?s"
        using ms(2) True assms(3) by (auto simp: truth_def slice_range_def ge intro: order_trans)
      moreover have "slice_ok ?s"
        using ms(1) assms(3) till by (simp add: slice_ok_def sorted_wrt_drop)
      moreover have "?p = card {x \<in> set (sl_messages s). x < m}"
      proof -
        have "distinct (take ?p (sl_messages s))" using ms(1) by (simp add: ordered_set_iff)
        then show ?thesis using distinct_card le by fastforce
      qed
      moreover have "(set (sl_messages s) \<union> known ss) \<inter> {x. x < m} = {x \<in> set (sl_messages s). x < m}"
        using kss by auto
      ultimately show ?thesis
        using True False till above rest s(3,4) by (simp add: kn slices_ok_Cons)
    next
      case f: False
      then have "(set (sl_messages s) \<union> known ss) \<inter> {x. x < m} = {}" using kss ms(2) by auto
      moreover have "truth {x \<in> H. m \<le> x} s" using f ms(2) by (auto simp: truth_def slice_range_def)
      ultimately show ?thesis using f False till above rest Cons.prems by (simp add: kn)
    qed
  qed
qed

lemma ml_removeLessThan_exact:
  assumes st: "messages_exact H st" and fit: "messages_fit H st (TrimmedBelow m)"
  shows "messages_exact {x \<in> H. m \<le> x} (ml_removeLessThan m st)"
proof -
  note e = store_exactD [OF st [unfolded messages_exact_def]]
  obtain ss n where r: "drop_less m (ml_slices st) = (ss, n)" by fastforce
  have fits: "MinMessagePosition \<le> m" "\<forall>s \<in> set (ml_slices st). sl_till s \<noteq> m"
    "{x \<in> H. x < m} \<subseteq> known (ml_slices st)" using fit by simp_all
  note d = drop_less_spec [OF e(3,4) fits(1), unfolded r fst_conv snd_conv]
  have "known (ml_slices st) \<subseteq> H" using e(4) by (auto simp: known_def list_all_iff truth_def)
  then have "known (ml_slices st) \<inter> {x. x < m} = {x \<in> H. x < m}" using fits(3) by auto
  with d(3) [OF fits(2)] have n: "n = card {x \<in> H. x < m}" by simp
  have "H = {x \<in> H. x < m} \<union> {x \<in> H. m \<le> x}" by auto
  then have "card H = n + card {x \<in> H. m \<le> x}"
    using e(1) n by (metis (mono_tags, lifting) card_Un_disjoint disjoint_iff finite_Un mem_Collect_eq not_le)
  then have "counts (if n \<noteq> 0 then map_option (\<lambda>c. c - int n) (ml_count st) else ml_count st) {x \<in> H. m \<le> x}"
    using e(5) by (cases "ml_count st") simp_all
  with d(1,2) e(1,2) show ?thesis
    by (auto simp: ml_removeLessThan_def r messages_exact_def store_exact_def counts_ok_def)
qed

lemma messages_step_exact:
  assumes "messages_exact H st" "messages_fit H st ev"
  shows "messages_exact (messages_after ev H) (messages_step ev st)"
proof -
  note e = store_exactD [OF assms(1) [unfolded messages_exact_def]]
  show ?thesis
  proof (cases ev)
    case (NewMessage m)
    with assms(2) e have "messages_exact (H \<union> set [m]) (fst (ml_addRange [m] m MaxMessagePosition None True st))"
      by (intro ml_addRange_exact assms(1)) force+
    then show ?thesis by (simp add: NewMessage ml_addNew_def)
  next
    case (OneMessage m)
    with assms(2) e have "messages_exact (H \<union> set [m]) (fst (ml_addRange [m] m m None True st))"
      by (intro ml_addRange_exact assms(1)) auto
    then show ?thesis by (simp add: OneMessage ml_addOne_def)
  next
    case (LoadedMessages ms f t c)
    with assms(2) have H: "H \<union> set ms = H" by auto
    have "messages_exact (H \<union> set ms) (fst (ml_addRange ms f t c False st))"
      using assms(2) e(2) LoadedMessages by (intro ml_addRange_exact assms(1)) (auto simp: H)
    with H show ?thesis by (simp add: LoadedMessages ml_addSlice_def)
  next
    case (DeletedMessage m)
    with assms ml_removeOne_exact show ?thesis by simp
  next
    case (TrimmedBelow m)
    with assms ml_removeLessThan_exact show ?thesis by simp
  next
    case Reset
    then show ?thesis
      using e(1,2) by (simp add: ml_invalidate_def messages_exact_def store_exact_def counts_ok_def)
  next
    case (MissedMessages ms)
    then show ?thesis
      using assms(2) e(1,2) slice_cut_bottom_truth [OF e(3,4), of MaxMessagePosition]
      by (auto simp: messages_exact_def store_exact_def counts_ok_def ml_invalidateBottom_def
          intro!: truth_beyond)
  qed
qed

lemma ml_queryCurrent_exact:
  assumes "messages_exact H st" "0 \<le> limitBefore q" "0 \<le> limitAfter q"
  shows "result_exact H (aroundId q) (ml_queryCurrent q st)"
proof (cases "position_set (aroundId q) \<and> slice_around (aroundId q) (ml_slices st) \<noteq> None")
  case False
  then show ?thesis by (auto simp: ml_queryCurrent_def)
next
  case True
  then obtain s where "position_set (aroundId q)" "slice_around (aroundId q) (ml_slices st) = Some s" by blast
  with assms show ?thesis
    unfolding ml_queryCurrent_def messages_exact_def ml_queryFromSlice_def
    by (simp add: store_query_exact)
qed

interpretation messages: history_store messages_exact messages_fit messages_after messages_step ml_queryCurrent
  by unfold_locales (auto intro: messages_step_exact ml_queryCurrent_exact)

end
