(* ===== verification/Messages_Builder.thy ===== *)
theory Messages_Builder
  imports Messages_List Builder_Merge
begin

text \<open>
  \<open>Data::MessagesSliceBuilder\<close> (\<open>data/data_messages.{h,cpp}\<close>) is the builder of
  \<open>Slice_Builder\<close> over message positions; what it shows is a \<open>MessagesSlice\<close>.  Its
  \<open>_range\<close> is written by \<open>removeAll\<close> and never read, and is left out.
\<close>

section \<open>The builder\<close>

definition impossible_position :: MessagePosition where
  "impossible_position = MessagePosition (FullMsgId 0 0) (- 1)"

definition messages_line :: "MessagePosition line" where
  "messages_line =
     \<lparr>ln_min = MinMessagePosition, ln_max = MaxMessagePosition,
      ln_null = MessagePosition (FullMsgId 0 0) 0, ln_set = position_set,
      ln_there = (\<lambda>p. p \<noteq> impossible_position)\<rparr>"

type_synonym MessagesSliceBuilder = "MessagePosition builder"

definition msb_applyInitial ::
  "MessagePosition ids_result \<Rightarrow> MessagesSliceBuilder \<Rightarrow> MessagesSliceBuilder" where
  "msb_applyInitial = apply_initial messages_line"

definition msb_applyUpdate ::
  "MessagePosition slice_update \<Rightarrow> MessagesSliceBuilder \<Rightarrow> MessagesSliceBuilder \<times> bool" where
  "msb_applyUpdate = apply_update messages_line"

definition msb_invalidated :: "MessagesSliceBuilder \<Rightarrow> MessagesSliceBuilder" where
  "msb_invalidated b =
     slice_to_limits messages_line
       (b\<lparr>bd_fullCount := None, bd_skippedBefore := None, bd_skippedAfter := None, bd_ids := []\<rparr>)"

definition msb_bottomInvalidated :: "MessagesSliceBuilder \<Rightarrow> MessagesSliceBuilder" where
  "msb_bottomInvalidated = bottom_invalidated messages_line"

record MessagesSlice =
  ms_ids :: "full_msg_id list"
  ms_nearestToAround :: full_msg_id
  ms_skippedBefore :: "int option"
  ms_skippedAfter :: "int option"
  ms_fullCount :: "int option"

definition msb_snapshot :: "MessagesSliceBuilder \<Rightarrow> MessagesSlice" where
  "msb_snapshot b =
     \<lparr>ms_ids = map mp_fullId (bd_ids b),
      ms_nearestToAround =
        (case find (\<lambda>p. bd_key b \<le> p) (bd_ids b) of
           Some p \<Rightarrow> mp_fullId p
         | None \<Rightarrow> if bd_ids b = [] then FullMsgId 0 0 else mp_fullId (List.last (bd_ids b))),
      ms_skippedBefore = bd_skippedBefore b, ms_skippedAfter = bd_skippedAfter b,
      ms_fullCount = bd_fullCount b\<rparr>"

lemma messages_line_simps [simp]:
  "ln_min messages_line = MinMessagePosition" "ln_max messages_line = MaxMessagePosition"
  "ln_set messages_line k \<longleftrightarrow> position_set k"
  by (simp_all add: messages_line_def)

section \<open>The list and the builder\<close>

definition at_date :: "int \<Rightarrow> MessagePosition" where
  "at_date d = MessagePosition (FullMsgId 7 d) d"

lemma at_date_order [simp]:
  "at_date a < at_date b \<longleftrightarrow> a < b" "at_date a \<le> at_date b \<longleftrightarrow> a \<le> b"
  "at_date a = at_date b \<longleftrightarrow> a = b" "position_set (at_date a) \<longleftrightarrow> a \<noteq> 0"
  by (auto simp: at_date_def less_MessagePosition_def less_eq_MessagePosition_def
      less_full_msg_id_def position_set_def)

lemma at_date_range [simp]:
  "0 < d \<Longrightarrow> MinMessagePosition \<le> at_date d" "d < MaxDate \<Longrightarrow> at_date d \<le> MaxMessagePosition"
  by (simp_all add: at_date_def MinMessagePosition_def MaxMessagePosition_def
      less_MessagePosition_def less_eq_MessagePosition_def)

definition sample_messages :: "MessagePosition set" where
  "sample_messages = {at_date 3, at_date 5}"

definition sample_messages_list :: MessagesList where
  "sample_messages_list =
     \<lparr>ml_count = Some 2,
      ml_slices = [\<lparr>sl_messages = [at_date 3, at_date 5], sl_from = at_date 2, sl_till = at_date 6\<rparr>]\<rparr>"

lemma sample_messages_exact: "messages_exact sample_messages sample_messages_list"
proof -
  have "at_date 3 \<in> {MinMessagePosition..MaxMessagePosition}"
    "at_date 5 \<in> {MinMessagePosition..MaxMessagePosition}" by (simp_all add: MaxDate_def)
  then show ?thesis
    by (auto simp: messages_exact_def store_exact_def counts_ok_def sample_messages_def
        sample_messages_list_def slices_ok_def slice_ok_def truth_def slice_range_def)
qed

text \<open>C27: Whatever happens to a conversation, in whatever order the list is told of it and
  loads parts of it, a query shows a window of the conversation as it is then, with the
  numbers of hidden messages right where they are given.\<close>

theorem messages_history_exact:
  assumes "messages_exact H st" "fitting messages_fit messages_after messages_step H st es"
    and "0 \<le> limitBefore q" "0 \<le> limitAfter q"
  shows "result_exact (fold messages_after es H) (aroundId q)
    (ml_queryCurrent q (fold messages_step es st))"
  by (rule messages.run_ask [OF assms])

theorem messages_history_exact_witness:
  "result_exact {at_date 5} (at_date 5)
     (ml_queryCurrent \<lparr>aroundId = at_date 5, limitBefore = 2, limitAfter = 2\<rparr>
       (fold messages_step [TrimmedBelow (at_date 4)] sample_messages_list))"
proof -
  have "fitting messages_fit messages_after messages_step sample_messages sample_messages_list
      [TrimmedBelow (at_date 4)]"
    by (auto simp: sample_messages_def sample_messages_list_def known_def)
  moreover have "{x \<in> sample_messages. at_date 4 \<le> x} = {at_date 5}"
    by (auto simp: sample_messages_def)
  ultimately show ?thesis
    using messages_history_exact [OF sample_messages_exact, of "[TrimmedBelow (at_date 4)]"
        "\<lparr>aroundId = at_date 5, limitBefore = 2, limitAfter = 2\<rparr>"] by simp
qed

text \<open>A builder that starts with what the list answers around its key and then takes an
  announcement of the list shows a window of the conversation within its limits; and if it
  asks for nothing more, nothing its limits would show is missing.\<close>

theorem messages_viewer_exact:
  assumes "messages_exact H st" "position_set key" "0 \<le> lb" "0 \<le> la"
    and "f \<le> t" "set ms = H \<inter> {f..t}" "counts c H"
  defines "b \<equiv> msb_applyInitial (ml_queryCurrent \<lparr>aroundId = key, limitBefore = lb, limitAfter = la\<rparr> st)
    (new_builder key lb la)"
    and "u \<equiv> snd (ml_addSlice ms f t c st)"
  shows "builder_exact H b \<and> within_limits b \<and> (bd_requests b = [] \<longrightarrow> complete H b)
    \<and> builder_exact H (fst (msb_applyUpdate u (drained b)))
    \<and> (snd (msb_applyUpdate u (drained b))
        \<and> bd_requests (fst (msb_applyUpdate u (drained b))) = []
        \<longrightarrow> complete H (fst (msb_applyUpdate u (drained b))))"
proof -
  note e = store_exactD [OF assms(1) [unfolded messages_exact_def]]
  have n: "builder_exact H (new_builder key lb la)" "bd_key (new_builder key lb la) = key"
    using e(1) assms(3,4) by (simp_all add: builder_exact_def new_builder_def)
  have r: "result_exact H (bd_key (new_builder key lb la))
      (ml_queryCurrent \<lparr>aroundId = key, limitBefore = lb, limitAfter = la\<rparr> st)"
    using ml_queryCurrent_exact [OF assms(1), of "\<lparr>aroundId = key, limitBefore = lb, limitAfter = la\<rparr>"]
      assms(3,4) n(2) by simp
  have k: "ln_set messages_line (bd_key (new_builder key lb la))" using assms(2) n(2) by simp
  note i = apply_initial_exact [OF n(1) k r, folded msb_applyInitial_def, folded b_def]
  have H: "H \<union> set ms = H" "set ms \<subseteq> {MinMessagePosition..MaxMessagePosition}" using assms(6) e(2) by auto
  have "update_exact (H \<union> set ms) u"
    unfolding u_def ml_addSlice_def
    by (rule ml_addRange_exact(2) [OF assms(1,5)]) (use assms(6,7) H in auto)
  then have u: "update_exact H u" by (simp add: H)
  have "builder_exact H (drained b)" "ln_set messages_line (bd_key (drained b))"
    using i(1,4) k by simp_all
  note a = apply_update_exact [OF this u, folded msb_applyUpdate_def]
  show ?thesis using i a e(2) by simp
qed

theorem messages_viewer_exact_witness:
  "builder_exact sample_messages (msb_applyInitial
     (ml_queryCurrent \<lparr>aroundId = at_date 5, limitBefore = 1, limitAfter = 1\<rparr> sample_messages_list)
     (new_builder (at_date 5) 1 1))"
  using messages_viewer_exact [OF sample_messages_exact, of "at_date 5" 1 1 "at_date 8" "at_date 9" "[]" None]
  by (auto simp: sample_messages_def)

section \<open>Where the count goes wrong\<close>

text \<open>A slice that ends at the message to trim below goes with that message, although it is
  not below itself: the message is uncounted and forgotten.\<close>

lemma trim_takes_boundary:
  "ml_removeLessThan (at_date 5)
     \<lparr>ml_count = Some 1,
      ml_slices = [\<lparr>sl_messages = [at_date 5], sl_from = at_date 5, sl_till = at_date 5\<rparr>]\<rparr>
   = \<lparr>ml_count = Some 0, ml_slices = []\<rparr>"
  by (simp add: ml_removeLessThan_def)

text \<open>Removing a message when none are counted leaves a negative count, which
  \<open>Storage::SparseIdsList\<close> guards against.\<close>

lemma remove_below_zero:
  "ml_count (fst (ml_removeOne m \<lparr>ml_count = Some 0, ml_slices = ss\<rparr>)) = Some (- 1)"
  by (simp add: ml_removeOne_def Let_def)

end
