(* ===== verification/Json_Keys.thy ===== *)
theory Json_Keys
  imports Complex_Main Allow_Prelude
begin

text \<open>
  The check of \<open>main/allowlist_managed_policy.cpp\<close> that a JSON text names no key twice
  (\<open>UniqueKeys\<close>, \<open>ReadObject\<close>).  Qt's parser accepts duplicate keys and keeps the last, so a
  signed text is scanned once more.  Qt's parser itself is a parameter: the function from a
  text to its document, or to nothing when it is not JSON.

  A position in the text is the rest of the text.  The scanner's recursion is bounded by
  fuel; out of fuel is \<open>None\<close>, a rejected text is \<open>Some None\<close>, and an accepted value is
  \<open>Some (Some rest)\<close>.  Twice the length of the text and one more is always enough.
\<close>

datatype json =
    JNull
  | JBool bool
  | JNumber "rat option"
  | JString qstring
  | JArray "json list"
  | JObject "(qstring \<times> json) list"

type_synonym json_parser = "bytes \<Rightarrow> json option"

section \<open>The scanner\<close>

definition is_space :: "char \<Rightarrow> bool" where
  "is_space c \<longleftrightarrow> c = CHR '' '' \<or> c = CHR 0x0A \<or> c = CHR 0x0D \<or> c = CHR 0x09"

definition space :: "bytes \<Rightarrow> bytes" where
  "space bs = dropWhile is_space bs"

definition take_char :: "char \<Rightarrow> bytes \<Rightarrow> bytes \<times> bool" where
  "take_char c bs =
     (case space bs of
        [] \<Rightarrow> ([], False)
      | b # rest \<Rightarrow> if b \<noteq> c then (b # rest, False) else (rest, True))"

text \<open>From after the opening quote to after the closing one.\<close>

fun scan_string :: "bytes \<Rightarrow> (bytes \<times> bytes) option" where
  "scan_string [] = None"
| "scan_string (c # cs) =
     (if c = CHR 0x5C
      then (case cs of
              [] \<Rightarrow> None
            | e # cs \<Rightarrow> map_option (\<lambda>(t, rest). (c # e # t, rest)) (scan_string cs))
      else if c = CHR 0x22 then Some ([c], cs)
      else map_option (\<lambda>(t, rest). (c # t, rest)) (scan_string cs))"

definition string_value :: "json_parser \<Rightarrow> bytes \<Rightarrow> qstring option" where
  "string_value parse written =
     (case parse ([CHR ''[''] @ written @ [CHR '']'']) of
        Some (JArray [JString s]) \<Rightarrow> Some s
      | _ \<Rightarrow> None)"

definition read_key :: "json_parser \<Rightarrow> bytes \<Rightarrow> (qstring \<times> bytes) option" where
  "read_key parse bs =
     (case take_char CHR 0x22 bs of
        (_, False) \<Rightarrow> None
      | (bs, True) \<Rightarrow>
          (case scan_string bs of
             None \<Rightarrow> None
           | Some (t, rest) \<Rightarrow> map_option (\<lambda>s. (s, rest)) (string_value parse (CHR 0x22 # t))))"

definition ends_scalar :: "char \<Rightarrow> bool" where
  "ends_scalar c \<longleftrightarrow> c = CHR '','' \<or> c = CHR ''}'' \<or> c = CHR '']'' \<or> is_space c"

type_synonym scanned = "bytes option option"

definition and_then :: "scanned \<Rightarrow> (bytes \<Rightarrow> scanned) \<Rightarrow> scanned" where
  "and_then r f = (case r of Some (Some bs) \<Rightarrow> f bs | _ \<Rightarrow> r)"

text \<open>After a member or an item: the end, or a comma and more.\<close>

definition close_or_more :: "char \<Rightarrow> (bytes \<Rightarrow> scanned) \<Rightarrow> bytes \<Rightarrow> scanned" where
  "close_or_more c more bs =
     (case take_char c bs of
        (bs, True) \<Rightarrow> Some (Some bs)
      | (bs, False) \<Rightarrow>
          (case take_char CHR '','' bs of
             (bs, True) \<Rightarrow> more bs
           | (bs, False) \<Rightarrow> Some None))"

definition member_step ::
  "(bytes \<Rightarrow> scanned) \<Rightarrow> (qstring list \<Rightarrow> bytes \<Rightarrow> scanned) \<Rightarrow> json_parser \<Rightarrow> qstring list \<Rightarrow> bytes
    \<Rightarrow> scanned" where
  "member_step value more parse seen bs =
     (case read_key parse bs of
        None \<Rightarrow> Some None
      | Some (key, bs) \<Rightarrow>
          if key \<in> set seen \<or> 32 \<le> length seen then Some None
          else (case take_char CHR '':'' bs of
                  (_, False) \<Rightarrow> Some None
                | (bs, True) \<Rightarrow> and_then (value bs) (close_or_more CHR ''}'' (more (key # seen)))))"

definition item_step :: "(bytes \<Rightarrow> scanned) \<Rightarrow> (bytes \<Rightarrow> scanned) \<Rightarrow> bytes \<Rightarrow> scanned" where
  "item_step value more bs = and_then (value bs) (close_or_more CHR '']'' more)"

definition open_or_close :: "char \<Rightarrow> (bytes \<Rightarrow> scanned) \<Rightarrow> bytes \<Rightarrow> scanned" where
  "open_or_close c inside bs =
     (case take_char c bs of (bs, True) \<Rightarrow> Some (Some bs) | (bs, False) \<Rightarrow> inside bs)"

definition scan_scalar :: "bytes \<Rightarrow> bytes option" where
  "scan_scalar bs =
     (let after = dropWhile (\<lambda>c. \<not> ends_scalar c) bs
      in if length after < length bs then Some after else None)"

definition value_step ::
  "(bytes \<Rightarrow> scanned) \<Rightarrow> (bytes \<Rightarrow> scanned) \<Rightarrow> json_parser \<Rightarrow> nat \<Rightarrow> bytes \<Rightarrow> scanned" where
  "value_step members items parse depth bs =
     (case space bs of
        [] \<Rightarrow> Some None
      | c # rest \<Rightarrow>
          if 16 < depth then Some None
          else if c = CHR ''{'' then open_or_close CHR ''}'' members rest
          else if c = CHR ''['' then open_or_close CHR '']'' items rest
          else if c = CHR 0x22 then Some (map_option snd (read_key parse (c # rest)))
          else Some (scan_scalar (c # rest)))"

fun scan_value :: "nat \<Rightarrow> json_parser \<Rightarrow> nat \<Rightarrow> bytes \<Rightarrow> scanned"
and scan_members :: "nat \<Rightarrow> json_parser \<Rightarrow> nat \<Rightarrow> qstring list \<Rightarrow> bytes \<Rightarrow> scanned"
and scan_items :: "nat \<Rightarrow> json_parser \<Rightarrow> nat \<Rightarrow> bytes \<Rightarrow> scanned"
where
  "scan_value 0 parse depth bs = None"
| "scan_value (Suc n) parse depth bs =
     value_step (scan_members n parse depth []) (scan_items n parse depth) parse depth bs"
| "scan_members 0 parse depth seen bs = None"
| "scan_members (Suc n) parse depth seen bs =
     member_step (scan_value n parse (Suc depth)) (scan_members n parse depth) parse seen bs"
| "scan_items 0 parse depth bs = None"
| "scan_items (Suc n) parse depth bs =
     item_step (scan_value n parse (Suc depth)) (scan_items n parse depth) bs"

definition unique_keys :: "json_parser \<Rightarrow> bytes \<Rightarrow> bool" where
  "unique_keys parse bs =
     (case scan_value (2 * length bs + 1) parse 0 bs of
        Some (Some rest) \<Rightarrow> space rest = []
      | _ \<Rightarrow> False)"

definition MaxPolicyBytes :: nat where "MaxPolicyBytes = 1024 * 1024"
definition MaxWireBytes :: nat where "MaxWireBytes = 2 * MaxPolicyBytes"

definition ReadObject :: "json_parser \<Rightarrow> bytes \<Rightarrow> (qstring \<times> json) list option" where
  "ReadObject parse bs =
     (if bs = [] \<or> MaxWireBytes < length bs then None
      else case parse bs of
        Some (JObject object) \<Rightarrow> if unique_keys parse bs then Some object else None
      | _ \<Rightarrow> None)"

section \<open>The scanner ends\<close>

lemma length_space [simp]: "length (space bs) \<le> length bs"
  by (simp add: space_def length_dropWhile_le)

lemma take_char_length:
  assumes "take_char c bs = (rest, b)" shows "length rest + of_bool b \<le> length bs"
proof (cases "space bs")
  case (Cons x xs)
  have "length (x # xs) \<le> length bs" using length_space [of bs] by (simp only: Cons)
  then show ?thesis using assms by (auto simp: take_char_def Cons split: if_splits)
qed (use assms in \<open>simp add: take_char_def\<close>)

lemma scan_string_length: "scan_string bs = Some (t, rest) \<Longrightarrow> length rest < length bs"
  by (induction bs arbitrary: t rest rule: scan_string.induct)
    (fastforce split: if_splits list.splits)+

lemma read_key_length: "read_key parse bs = Some (k, rest) \<Longrightarrow> length rest + 2 \<le> length bs"
  using take_char_length [of "CHR 0x22" bs] scan_string_length
  by (fastforce simp: read_key_def split: prod.splits bool.splits option.splits)

lemma and_then_SomeD:
  "and_then r f = Some (Some rest) \<Longrightarrow> \<exists>bs. r = Some (Some bs) \<and> f bs = Some (Some rest)"
  by (auto simp: and_then_def split: option.splits)

lemma and_then_None: "and_then r f = None \<longleftrightarrow> r = None \<or> (\<exists>bs. r = Some (Some bs) \<and> f bs = None)"
  by (auto simp: and_then_def split: option.splits)

lemma close_or_more_SomeD:
  assumes "close_or_more c more bs = Some (Some rest)"
  shows "length rest \<le> length bs \<or> (\<exists>r. length r < length bs \<and> more r = Some (Some rest))"
proof -
  obtain r1 b1 where 1: "take_char c bs = (r1, b1)" by fastforce
  obtain r2 b2 where 2: "take_char CHR '','' r1 = (r2, b2)" by fastforce
  show ?thesis
    using assms take_char_length [OF 1] take_char_length [OF 2]
    by (cases b1; cases b2) (auto simp: close_or_more_def 1 2)
qed

lemma close_or_more_NoneD:
  assumes "close_or_more c more bs = None" shows "\<exists>r. length r < length bs \<and> more r = None"
proof -
  obtain r1 b1 where 1: "take_char c bs = (r1, b1)" by fastforce
  obtain r2 b2 where 2: "take_char CHR '','' r1 = (r2, b2)" by fastforce
  have b: "b1 = False" "b2 = True" "more r2 = None"
    using assms by (cases b1; cases b2; simp add: close_or_more_def 1 2)+
  have "length r2 < length bs" using take_char_length [OF 1] take_char_length [OF 2] b(2) by simp
  with b(3) show ?thesis by blast
qed

text \<open>What a member runs on: its value is scanned on less than the member's text.\<close>

lemma member_step_cases:
  obtains "member_step v more parse seen bs = Some None"
  | key r where "length r < length bs"
    "member_step v more parse seen bs = and_then (v r) (close_or_more CHR ''}'' (more (key # seen)))"
    "\<And>v more. member_step v more parse seen bs =
       and_then (v r) (close_or_more CHR ''}'' (more (key # seen)))"
proof (cases "read_key parse bs")
  case None
  then show ?thesis using that(1) by (simp add: member_step_def)
next
  case (Some kr)
  obtain key r where kr: "kr = (key, r)" by fastforce
  obtain r1 b1 where 1: "take_char CHR '':'' r = (r1, b1)" by fastforce
  have l: "length r + 2 \<le> length bs" using read_key_length Some kr by blast
  show ?thesis
  proof (cases "key \<in> set seen \<or> 32 \<le> length seen \<or> \<not> b1")
    case True
    then show ?thesis using that(1) by (auto simp: member_step_def Some kr 1 split: bool.split)
  next
    case False
    then have "member_step v more parse seen bs =
        and_then (v r1) (close_or_more CHR ''}'' (more (key # seen)))" for v more
      by (simp add: member_step_def Some kr 1)
    then show ?thesis using that(2) [of r1 key] l take_char_length [OF 1] by simp
  qed
qed

lemma value_step_cases:
  obtains x where "\<And>m i. value_step m i parse d bs = Some x" "x = None \<or> length (the x) \<le> length bs"
  | c r where "length r < length bs" "\<And>m i. value_step m i parse d bs = open_or_close c m r"
  | c r where "length r < length bs" "\<And>m i. value_step m i parse d bs = open_or_close c i r"
proof (cases "space bs")
  case Nil
  then show ?thesis using that(1) [of None] by (simp add: value_step_def)
next
  case (Cons c r)
  have l: "length (c # r) \<le> length bs" using length_space [of bs] by (simp only: Cons)
  consider "16 < d" | "\<not> 16 < d" "c = CHR ''{''" | "\<not> 16 < d" "c = CHR ''[''"
    | "\<not> 16 < d" "c \<noteq> CHR ''{''" "c \<noteq> CHR ''[''" by blast
  then show ?thesis
  proof cases
    case 1
    then show ?thesis using that(1) [of None] by (simp add: value_step_def Cons)
  next
    case 2
    then show ?thesis using that(2) [of r "CHR ''}''"] l by (simp add: value_step_def Cons)
  next
    case 3
    then show ?thesis using that(3) [of r "CHR '']''"] l by (simp add: value_step_def Cons)
  next
    case 4
    let ?x = "if c = CHR 0x22 then map_option snd (read_key parse (c # r)) else scan_scalar (c # r)"
    have "?x = None \<or> length (the ?x) \<le> length (c # r)"
    proof (cases "c = CHR 0x22")
      case True
      then show ?thesis
        using read_key_length [of parse "c # r"] by (cases "read_key parse (c # r)") fastforce+
    next
      case False
      then show ?thesis by (simp add: scan_scalar_def Let_def)
    qed
    moreover have "value_step m i parse d bs = Some ?x" for m i
      using 4 by (simp add: value_step_def Cons)
    ultimately show ?thesis using that(1) [of ?x] l by fastforce
  qed
qed

lemma open_or_close_cases:
  obtains r where "length r \<le> length bs" "\<And>inside. open_or_close c inside bs = Some (Some r)"
  | r where "length r \<le> length bs" "\<And>inside. open_or_close c inside bs = inside r"
proof -
  obtain r b where 1: "take_char c bs = (r, b)" by fastforce
  with take_char_length [OF 1] that(1) [of r] that(2) [of r] show ?thesis
    by (cases b) (simp_all add: open_or_close_def)
qed

lemma scan_length:
  "(\<forall>d bs rest. scan_value n parse d bs = Some (Some rest) \<longrightarrow> length rest \<le> length bs)
   \<and> (\<forall>d seen bs rest. scan_members n parse d seen bs = Some (Some rest) \<longrightarrow> length rest \<le> length bs)
   \<and> (\<forall>d bs rest. scan_items n parse d bs = Some (Some rest) \<longrightarrow> length rest \<le> length bs)"
proof (induction n)
  case (Suc n)
  have "length rest \<le> length bs" if "scan_value (Suc n) parse d bs = Some (Some rest)" for d bs rest
  proof (rule value_step_cases [of parse d bs])
    fix c r assume r: "length r < length bs"
      "\<And>m i. value_step m i parse d bs = open_or_close c m r"
    show ?thesis
      by (rule open_or_close_cases [of r c]) (use that r Suc in fastforce)+
  next
    fix c r assume r: "length r < length bs"
      "\<And>m i. value_step m i parse d bs = open_or_close c i r"
    show ?thesis
      by (rule open_or_close_cases [of r c]) (use that r Suc in fastforce)+
  qed (use that in auto)
  moreover have "length rest \<le> length bs" if m: "scan_members (Suc n) parse d seen bs = Some (Some rest)"
    for d seen bs rest
  proof (rule member_step_cases [of "scan_value n parse (Suc d)" "scan_members n parse d" parse seen bs])
    fix key r assume r: "length r < length bs"
      "member_step (scan_value n parse (Suc d)) (scan_members n parse d) parse seen bs =
         and_then (scan_value n parse (Suc d) r) (close_or_more CHR ''}'' (scan_members n parse d (key # seen)))"
    then obtain r1 where "scan_value n parse (Suc d) r = Some (Some r1)"
      "close_or_more CHR ''}'' (scan_members n parse d (key # seen)) r1 = Some (Some rest)"
      using m and_then_SomeD [of "scan_value n parse (Suc d) r"] by auto
    with r(1) Suc close_or_more_SomeD [OF this(2)] show ?thesis by fastforce
  qed (use m in simp)
  moreover have "length rest \<le> length bs" if m: "scan_items (Suc n) parse d bs = Some (Some rest)" for d bs rest
  proof -
    obtain r1 where "scan_value n parse (Suc d) bs = Some (Some r1)"
      "close_or_more CHR '']'' (scan_items n parse d) r1 = Some (Some rest)"
      using m and_then_SomeD [of "scan_value n parse (Suc d) bs"] by (auto simp: item_step_def)
    with Suc close_or_more_SomeD [OF this(2)] show ?thesis by fastforce
  qed
  ultimately show ?case by blast
qed simp

lemma scan_enough:
  "(\<forall>d bs. 2 * length bs + 1 \<le> n \<longrightarrow> scan_value n parse d bs \<noteq> None)
   \<and> (\<forall>d seen bs. 2 * length bs + 2 \<le> n \<longrightarrow> scan_members n parse d seen bs \<noteq> None)
   \<and> (\<forall>d bs. 2 * length bs + 2 \<le> n \<longrightarrow> scan_items n parse d bs \<noteq> None)"
proof (induction n)
  case (Suc n)
  have "scan_value (Suc n) parse d bs \<noteq> None" if "2 * length bs + 1 \<le> Suc n" for d bs
  proof (rule value_step_cases [of parse d bs])
    fix c r assume r: "length r < length bs"
      "\<And>m i. value_step m i parse d bs = open_or_close c m r"
    show ?thesis
      by (rule open_or_close_cases [of r c]) (use that r Suc in fastforce)+
  next
    fix c r assume r: "length r < length bs"
      "\<And>m i. value_step m i parse d bs = open_or_close c i r"
    show ?thesis
      by (rule open_or_close_cases [of r c]) (use that r Suc in fastforce)+
  qed auto
  moreover have "scan_members (Suc n) parse d seen bs \<noteq> None" if l: "2 * length bs + 2 \<le> Suc n" for d seen bs
  proof (rule member_step_cases [of "scan_value n parse (Suc d)" "scan_members n parse d" parse seen bs])
    fix key r assume r: "length r < length bs"
      "member_step (scan_value n parse (Suc d)) (scan_members n parse d) parse seen bs =
         and_then (scan_value n parse (Suc d) r) (close_or_more CHR ''}'' (scan_members n parse d (key # seen)))"
    have "scan_value n parse (Suc d) r \<noteq> None" using Suc r(1) l by simp
    moreover have "close_or_more CHR ''}'' (scan_members n parse d (key # seen)) r1 \<noteq> None"
      if "scan_value n parse (Suc d) r = Some (Some r1)" for r1
    proof
      assume "close_or_more CHR ''}'' (scan_members n parse d (key # seen)) r1 = None"
      then obtain r2 where "length r2 < length r1" "scan_members n parse d (key # seen) r2 = None"
        using close_or_more_NoneD by blast
      moreover have "length r1 \<le> length r" using scan_length that by blast
      ultimately show False using Suc r(1) l by fastforce
    qed
    ultimately show ?thesis using r(2) by (simp add: and_then_None)
  qed simp
  moreover have "scan_items (Suc n) parse d bs \<noteq> None" if l: "2 * length bs + 2 \<le> Suc n" for d bs
  proof -
    have "scan_value n parse (Suc d) bs \<noteq> None" using Suc l by simp
    moreover have "close_or_more CHR '']'' (scan_items n parse d) r1 \<noteq> None"
      if "scan_value n parse (Suc d) bs = Some (Some r1)" for r1
    proof
      assume "close_or_more CHR '']'' (scan_items n parse d) r1 = None"
      then obtain r2 where "length r2 < length r1" "scan_items n parse d r2 = None"
        using close_or_more_NoneD by blast
      moreover have "length r1 \<le> length bs" using scan_length that by blast
      ultimately show False using Suc l by fastforce
    qed
    ultimately show ?thesis by (simp add: item_step_def and_then_None)
  qed
  ultimately show ?case by blast
qed simp

text \<open>More fuel changes nothing.\<close>

lemma open_or_close_more:
  assumes "open_or_close c f bs \<noteq> None" "\<And>r. f r \<noteq> None \<Longrightarrow> g r = f r"
  shows "open_or_close c g bs = open_or_close c f bs"
  by (rule open_or_close_cases [of bs c]) (use assms in auto)

lemma close_or_more_more:
  assumes "close_or_more c f bs \<noteq> None" "\<And>r. f r \<noteq> None \<Longrightarrow> g r = f r"
  shows "close_or_more c g bs = close_or_more c f bs"
  using assms by (auto simp: close_or_more_def split: prod.split bool.split)

lemma and_then_more:
  assumes "and_then a f \<noteq> None" "a \<noteq> None \<Longrightarrow> b = a" "\<And>r. f r \<noteq> None \<Longrightarrow> g r = f r"
  shows "and_then b g = and_then a f"
  using assms by (auto simp: and_then_def split: option.splits)

lemma scan_more:
  "(\<forall>d bs m. n \<le> m \<longrightarrow> scan_value n parse d bs \<noteq> None \<longrightarrow> scan_value m parse d bs = scan_value n parse d bs)
   \<and> (\<forall>d seen bs m. n \<le> m \<longrightarrow> scan_members n parse d seen bs \<noteq> None \<longrightarrow>
        scan_members m parse d seen bs = scan_members n parse d seen bs)
   \<and> (\<forall>d bs m. n \<le> m \<longrightarrow> scan_items n parse d bs \<noteq> None \<longrightarrow> scan_items m parse d bs = scan_items n parse d bs)"
proof (induction n)
  case (Suc n)
  have v: "scan_value m parse d bs = scan_value n parse d bs"
    if "n \<le> m" "scan_value n parse d bs \<noteq> None" for m d bs using Suc that by blast
  have ms: "scan_members m parse d seen bs = scan_members n parse d seen bs"
    if "n \<le> m" "scan_members n parse d seen bs \<noteq> None" for m d seen bs using Suc that by blast
  have it: "scan_items m parse d bs = scan_items n parse d bs"
    if "n \<le> m" "scan_items n parse d bs \<noteq> None" for m d bs using Suc that by blast
  have "scan_value m parse d bs = scan_value (Suc n) parse d bs"
    if m: "Suc n \<le> m" "scan_value (Suc n) parse d bs \<noteq> None" for d bs m
  proof -
    obtain k where k: "m = Suc k" "n \<le> k" using m(1) by (cases m) auto
    show ?thesis
    proof (rule value_step_cases [of parse d bs])
      fix c r assume "\<And>m i. value_step m i parse d bs = open_or_close c m r"
      with m k ms show ?thesis by (auto intro!: open_or_close_more)
    next
      fix c r assume "\<And>m i. value_step m i parse d bs = open_or_close c i r"
      with m k it show ?thesis by (auto intro!: open_or_close_more)
    qed (simp add: k)
  qed
  moreover have "scan_members m parse d seen bs = scan_members (Suc n) parse d seen bs"
    if m: "Suc n \<le> m" "scan_members (Suc n) parse d seen bs \<noteq> None" for d seen bs m
  proof -
    obtain k where k: "m = Suc k" "n \<le> k" using m(1) by (cases m) auto
    have step: "member_step (scan_value k parse (Suc d)) (scan_members k parse d) parse seen bs
        = member_step (scan_value n parse (Suc d)) (scan_members n parse d) parse seen bs"
      if nn: "member_step (scan_value n parse (Suc d)) (scan_members n parse d) parse seen bs \<noteq> None"
    proof (cases "read_key parse bs")
      case (Some kr)
      then show ?thesis
        using nn v [OF k(2)] ms [OF k(2)]
        by (auto simp: member_step_def split: prod.split bool.split intro!: and_then_more close_or_more_more)
    qed (simp add: member_step_def)
    with m k show ?thesis by simp
  qed
  moreover have "scan_items m parse d bs = scan_items (Suc n) parse d bs"
    if m: "Suc n \<le> m" "scan_items (Suc n) parse d bs \<noteq> None" for d bs m
  proof -
    obtain k where k: "m = Suc k" "n \<le> k" using m(1) by (cases m) auto
    show ?thesis
      using m(2) v [OF k(2)] it [OF k(2)]
      by (auto simp: k(1) item_step_def intro!: and_then_more close_or_more_more)
  qed
  ultimately show ?case by blast
qed simp

section \<open>What the scanner accepts\<close>

text \<open>The texts of a document, written without spaces: strings from after the opening quote,
  scalars as they are.\<close>

datatype jtext =
    TScalar bytes
  | TString bytes
  | TArray "jtext list"
  | TObject "(bytes \<times> jtext) list"

fun render :: "jtext \<Rightarrow> bytes"
and render_items :: "jtext list \<Rightarrow> bytes"
and render_members :: "(bytes \<times> jtext) list \<Rightarrow> bytes"
where
  "render (TScalar b) = b"
| "render (TString w) = CHR 0x22 # w"
| "render (TArray ts) = CHR ''['' # render_items ts @ [CHR '']'']"
| "render (TObject ms) = CHR ''{'' # render_members ms @ [CHR ''}'']"
| "render_items [] = []"
| "render_items (t # ts) = render t @ (if ts = [] then [] else CHR '','' # render_items ts)"
| "render_members [] = []"
| "render_members ((w, t) # ms) =
     CHR 0x22 # w @ CHR '':'' # render t @ (if ms = [] then [] else CHR '','' # render_members ms)"

definition written_string :: "json_parser \<Rightarrow> bytes \<Rightarrow> bool" where
  "written_string parse w \<longleftrightarrow> scan_string w = Some (w, []) \<and> string_value parse (CHR 0x22 # w) \<noteq> None"

fun written :: "json_parser \<Rightarrow> jtext \<Rightarrow> bool"
and written_items :: "json_parser \<Rightarrow> jtext list \<Rightarrow> bool"
and written_members :: "json_parser \<Rightarrow> (bytes \<times> jtext) list \<Rightarrow> bool"
where
  "written parse (TScalar b) \<longleftrightarrow> b \<noteq> [] \<and> (\<forall>c \<in> set b. \<not> ends_scalar c)
     \<and> hd b \<notin> {CHR ''{'', CHR ''['', CHR 0x22}"
| "written parse (TString w) \<longleftrightarrow> written_string parse w"
| "written parse (TArray ts) \<longleftrightarrow> written_items parse ts"
| "written parse (TObject ms) \<longleftrightarrow> written_members parse ms"
| "written_items parse [] \<longleftrightarrow> True"
| "written_items parse (t # ts) \<longleftrightarrow> written parse t \<and> written_items parse ts"
| "written_members parse [] \<longleftrightarrow> True"
| "written_members parse ((w, t) # ms) \<longleftrightarrow>
     written_string parse w \<and> written parse t \<and> written_members parse ms"

definition key_name :: "json_parser \<Rightarrow> bytes \<Rightarrow> qstring" where
  "key_name parse w = the (string_value parse (CHR 0x22 # w))"

text \<open>At most 16 levels, at most 32 keys in an object, and no two of the same name.\<close>

fun keys_ok :: "json_parser \<Rightarrow> nat \<Rightarrow> jtext \<Rightarrow> bool"
and items_ok :: "json_parser \<Rightarrow> nat \<Rightarrow> jtext list \<Rightarrow> bool"
and members_ok :: "json_parser \<Rightarrow> nat \<Rightarrow> (bytes \<times> jtext) list \<Rightarrow> bool"
where
  "keys_ok parse d (TScalar b) \<longleftrightarrow> d \<le> 16"
| "keys_ok parse d (TString w) \<longleftrightarrow> d \<le> 16"
| "keys_ok parse d (TArray ts) \<longleftrightarrow> d \<le> 16 \<and> items_ok parse (Suc d) ts"
| "keys_ok parse d (TObject ms) \<longleftrightarrow> d \<le> 16 \<and> members_ok parse (Suc d) ms
     \<and> distinct (map (\<lambda>m. key_name parse (fst m)) ms) \<and> length ms \<le> 32"
| "items_ok parse d [] \<longleftrightarrow> True"
| "items_ok parse d (t # ts) \<longleftrightarrow> keys_ok parse d t \<and> items_ok parse d ts"
| "members_ok parse d [] \<longleftrightarrow> True"
| "members_ok parse d ((w, t) # ms) \<longleftrightarrow> keys_ok parse d t \<and> members_ok parse d ms"

lemma not_space [simp]:
  "\<not> is_space CHR ''{''" "\<not> is_space CHR ''['' " "\<not> is_space CHR ''}''" "\<not> is_space CHR '']''"
  "\<not> is_space CHR '',''" "\<not> is_space CHR '':''" "\<not> is_space CHR 0x22"
  by (simp_all add: is_space_def)

lemma space_Cons [simp]: "\<not> is_space c \<Longrightarrow> space (c # bs) = c # bs"
  by (simp add: space_def)

lemma take_char_Cons [simp]:
  "\<not> is_space b \<Longrightarrow> take_char c (b # bs) = (if b = c then (bs, True) else (b # bs, False))"
  by (simp add: take_char_def)

lemma scan_string_append: "scan_string w = Some (t, []) \<Longrightarrow> scan_string (w @ rest) = Some (t, rest)"
  by (induction w arbitrary: t rule: scan_string.induct)
    (auto split: if_splits list.splits)

lemma read_key_written:
  "written_string parse w \<Longrightarrow> read_key parse (CHR 0x22 # w @ rest) = Some (key_name parse w, rest)"
  by (auto simp: read_key_def written_string_def scan_string_append key_name_def)

lemma scan_scalar_written:
  assumes "b \<noteq> []" "\<forall>c \<in> set b. \<not> ends_scalar c" "rest = [] \<or> ends_scalar (hd rest)"
  shows "scan_scalar (b @ rest) = Some rest"
proof -
  have "dropWhile (\<lambda>c. \<not> ends_scalar c) (b @ rest) = rest"
    using assms(2,3) by (cases rest) (auto simp: dropWhile_append)
  then show ?thesis using assms(1) by (simp add: scan_scalar_def Let_def)
qed

fun fresh :: "qstring list \<Rightarrow> qstring list \<Rightarrow> bool" where
  "fresh seen [] \<longleftrightarrow> True"
| "fresh seen (k # ks) \<longleftrightarrow> k \<notin> set seen \<and> length seen < 32 \<and> fresh (k # seen) ks"

lemma fresh_iff:
  "length seen \<le> 32 \<Longrightarrow> fresh seen ks \<longleftrightarrow>
     (\<forall>k \<in> set ks. k \<notin> set seen) \<and> distinct ks \<and> length seen + length ks \<le> 32"
  by (induction ks arbitrary: seen) auto

abbreviation key_names :: "json_parser \<Rightarrow> (bytes \<times> jtext) list \<Rightarrow> qstring list" where
  "key_names parse ms \<equiv> map (\<lambda>m. key_name parse (fst m)) ms"

definition ends_value :: "bytes \<Rightarrow> bool" where
  "ends_value rest \<longleftrightarrow> rest = [] \<or> ends_scalar (hd rest)"

lemma ends_value_simps [simp]:
  "ends_value (CHR '','' # r)" "ends_value (CHR ''}'' # r)" "ends_value (CHR '']'' # r)" "ends_value []"
  by (simp_all add: ends_value_def ends_scalar_def)

text \<open>A text begins with what kind of value it is.\<close>

lemma value_step_scalar:
  assumes "written parse (TScalar b)" "ends_value rest"
  shows "value_step m i parse d (b @ rest) = Some (if d \<le> 16 then Some rest else None)"
proof -
  obtain c cs where b: "b = c # cs" using assms(1) by (cases b) auto
  have c: "\<not> is_space c" "c \<noteq> CHR ''{''" "c \<noteq> CHR ''[''" "c \<noteq> CHR 0x22"
    using assms(1) by (auto simp: b ends_scalar_def)
  have "scan_scalar (b @ rest) = Some rest"
    using assms by (intro scan_scalar_written) (auto simp: ends_value_def)
  with c show ?thesis by (simp add: value_step_def b)
qed

lemma value_step_string:
  "written_string parse w \<Longrightarrow>
     value_step m i parse d (CHR 0x22 # w @ rest) = Some (if d \<le> 16 then Some rest else None)"
  by (simp add: value_step_def read_key_written)

lemma value_step_array:
  "value_step m i parse d (CHR ''['' # rest) =
     (if d \<le> 16 then open_or_close CHR '']'' i rest else Some None)"
  by (simp add: value_step_def)

lemma value_step_object:
  "value_step m i parse d (CHR ''{'' # rest) =
     (if d \<le> 16 then open_or_close CHR ''}'' m rest else Some None)"
  by (simp add: value_step_def)

lemma open_or_close_Cons:
  "\<not> is_space b \<Longrightarrow> open_or_close c f (b # bs) = (if b = c then Some (Some bs) else f (b # bs))"
  by (simp add: open_or_close_def)

lemma close_or_more_Cons:
  "\<not> is_space c \<Longrightarrow> c \<noteq> CHR '','' \<Longrightarrow> close_or_more c f (c # bs) = Some (Some bs)"
  "c \<noteq> CHR '','' \<Longrightarrow> close_or_more c f (CHR '','' # bs) = f bs"
  by (simp_all add: close_or_more_def)

lemma member_step_written:
  assumes "written_string parse w"
  shows "member_step v more parse seen (CHR 0x22 # w @ CHR '':'' # rest) =
    (if key_name parse w \<in> set seen \<or> 32 \<le> length seen then Some None
     else and_then (v rest) (close_or_more CHR ''}'' (more (key_name parse w # seen))))"
  by (simp add: member_step_def read_key_written [OF assms])

lemma render_first:
  assumes "written parse t" obtains c r where "render t = c # r" "\<not> is_space c" "c \<noteq> CHR '']''"
proof (cases t)
  case (TScalar b)
  then obtain c r where "b = c # r" using assms by (cases b) auto
  then show ?thesis using assms that [of c r] by (auto simp: TScalar ends_scalar_def)
qed (use that in auto)

lemma scan_render:
  "(\<forall>d t rest. written parse t \<longrightarrow> ends_value rest \<longrightarrow> 2 * length (render t @ rest) + 1 \<le> n \<longrightarrow>
      scan_value n parse d (render t @ rest) = Some (if keys_ok parse d t then Some rest else None))
   \<and> (\<forall>d seen ms rest. ms \<noteq> [] \<longrightarrow> written_members parse ms \<longrightarrow>
      2 * length (render_members ms @ CHR ''}'' # rest) + 2 \<le> n \<longrightarrow>
      scan_members n parse d seen (render_members ms @ CHR ''}'' # rest) =
        Some (if fresh seen (key_names parse ms) \<and> members_ok parse (Suc d) ms then Some rest else None))
   \<and> (\<forall>d ts rest. ts \<noteq> [] \<longrightarrow> written_items parse ts \<longrightarrow>
      2 * length (render_items ts @ CHR '']'' # rest) + 2 \<le> n \<longrightarrow>
      scan_items n parse d (render_items ts @ CHR '']'' # rest) =
        Some (if items_ok parse (Suc d) ts then Some rest else None))"
proof (induction n)
  case (Suc n)
  have v: "scan_value n parse d (render t @ rest) = Some (if keys_ok parse d t then Some rest else None)"
    if "written parse t" "ends_value rest" "2 * length (render t @ rest) + 1 \<le> n" for d t rest
    using Suc that by blast
  have ms: "scan_members n parse d seen (render_members ms @ CHR ''}'' # rest) =
        Some (if fresh seen (key_names parse ms) \<and> members_ok parse (Suc d) ms then Some rest else None)"
    if "ms \<noteq> []" "written_members parse ms" "2 * length (render_members ms @ CHR ''}'' # rest) + 2 \<le> n"
    for d seen ms rest using Suc that by blast
  have it: "scan_items n parse d (render_items ts @ CHR '']'' # rest) =
        Some (if items_ok parse (Suc d) ts then Some rest else None)"
    if "ts \<noteq> []" "written_items parse ts" "2 * length (render_items ts @ CHR '']'' # rest) + 2 \<le> n"
    for d ts rest using Suc that by blast
  have "scan_value (Suc n) parse d (render t @ rest) = Some (if keys_ok parse d t then Some rest else None)"
    if w: "written parse t" "ends_value rest" "2 * length (render t @ rest) + 1 \<le> Suc n" for d t rest
  proof (cases t)
    case (TScalar b)
    with w value_step_scalar show ?thesis by simp
  next
    case (TString b)
    with w value_step_string show ?thesis by simp
  next
    case (TArray ts)
    show ?thesis
    proof (cases ts)
      case Nil
      then show ?thesis by (simp add: TArray value_step_array open_or_close_Cons)
    next
      case (Cons u us)
      have "written parse u" using w(1) by (simp add: TArray Cons)
      then obtain c r where c: "render u = c # r" "\<not> is_space c" "c \<noteq> CHR '']''"
        by (rule render_first)
      have "scan_items n parse d (render_items ts @ CHR '']'' # rest) =
          Some (if items_ok parse (Suc d) ts then Some rest else None)"
        using w by (intro it) (auto simp: TArray Cons)
      with c show ?thesis
        by (simp add: TArray Cons value_step_array open_or_close_Cons)
    qed
  next
    case (TObject us)
    show ?thesis
    proof (cases us)
      case Nil
      then show ?thesis by (simp add: TObject value_step_object open_or_close_Cons)
    next
      case (Cons u us')
      obtain k x where u: "u = (k, x)" by fastforce
      have "scan_members n parse d [] (render_members us @ CHR ''}'' # rest) =
          Some (if fresh [] (key_names parse us) \<and> members_ok parse (Suc d) us then Some rest else None)"
        using w by (intro ms) (auto simp: TObject Cons u)
      moreover have "fresh [] (key_names parse us) \<longleftrightarrow> distinct (map (\<lambda>m. key_name parse (fst m)) us) \<and> length us \<le> 32"
        using fresh_iff [of "[]" "key_names parse us"] by simp
      ultimately show ?thesis
        by (auto simp: TObject Cons u value_step_object open_or_close_Cons)
    qed
  qed
  moreover have "scan_members (Suc n) parse d seen (render_members us @ CHR ''}'' # rest) =
        Some (if fresh seen (key_names parse us) \<and> members_ok parse (Suc d) us then Some rest else None)"
    if w: "us \<noteq> []" "written_members parse us" "2 * length (render_members us @ CHR ''}'' # rest) + 2 \<le> Suc n"
    for d seen us rest
  proof -
    obtain k t us' where us: "us = (k, t) # us'" using w(1) by (cases us) auto
    define more where "more = (if us' = [] then [] else CHR '','' # render_members us') @ CHR ''}'' # rest"
    have shape: "render_members us @ CHR ''}'' # rest = CHR 0x22 # k @ CHR '':'' # render t @ more"
      by (simp add: us more_def)
    have k: "written_string parse k" "written parse t" "written_members parse us'" using w(2) by (simp_all add: us)
    have "ends_value more" by (simp add: more_def)
    moreover have "2 * length (render t @ more) + 1 \<le> n" using w(3) unfolding shape by simp
    ultimately have val: "scan_value n parse (Suc d) (render t @ more) =
        Some (if keys_ok parse (Suc d) t then Some more else None)" using v k(2) by blast
    have rest: "close_or_more CHR ''}'' (scan_members n parse d (key_name parse k # seen)) more =
        Some (if fresh (key_name parse k # seen) (key_names parse us') \<and> members_ok parse (Suc d) us' then Some rest else None)"
    proof (cases "us' = []")
      case True
      then show ?thesis by (simp add: more_def close_or_more_Cons)
    next
      case False
      then have "more = CHR '','' # render_members us' @ CHR ''}'' # rest" by (simp add: more_def)
      then show ?thesis
        using ms [OF False k(3), of rest d "key_name parse k # seen"] w(3) False
        by (simp add: close_or_more_Cons us)
    qed
    have "scan_members (Suc n) parse d seen (render_members us @ CHR ''}'' # rest) =
        (if key_name parse k \<in> set seen \<or> 32 \<le> length seen then Some None
         else and_then (scan_value n parse (Suc d) (render t @ more))
           (close_or_more CHR ''}'' (scan_members n parse d (key_name parse k # seen))))"
      unfolding shape scan_members.simps by (rule member_step_written [OF k(1)])
    then show ?thesis by (auto simp: val rest and_then_def us)
  qed
  moreover have "scan_items (Suc n) parse d (render_items us @ CHR '']'' # rest) =
        Some (if items_ok parse (Suc d) us then Some rest else None)"
    if w: "us \<noteq> []" "written_items parse us" "2 * length (render_items us @ CHR '']'' # rest) + 2 \<le> Suc n"
    for d us rest
  proof -
    obtain t us' where us: "us = t # us'" using w(1) by (cases us) auto
    define more where "more = (if us' = [] then [] else CHR '','' # render_items us') @ CHR '']'' # rest"
    have shape: "render_items us @ CHR '']'' # rest = render t @ more" by (simp add: us more_def)
    have k: "written parse t" "written_items parse us'" using w(2) by (simp_all add: us)
    have "ends_value more" by (simp add: more_def)
    moreover have "2 * length (render t @ more) + 1 \<le> n" using w(3) unfolding shape by simp
    ultimately have val: "scan_value n parse (Suc d) (render t @ more) =
        Some (if keys_ok parse (Suc d) t then Some more else None)" using v k(1) by blast
    have rest: "close_or_more CHR '']'' (scan_items n parse d) more =
        Some (if items_ok parse (Suc d) us' then Some rest else None)"
    proof (cases "us' = []")
      case True
      then show ?thesis by (simp add: more_def close_or_more_Cons)
    next
      case False
      then have "more = CHR '','' # render_items us' @ CHR '']'' # rest" by (simp add: more_def)
      then show ?thesis
        using it [OF False k(2), of rest d] w(3) False by (simp add: close_or_more_Cons us)
    qed
    show ?thesis unfolding shape by (auto simp: item_step_def val rest and_then_def us)
  qed
  ultimately show ?case by blast
qed simp

text \<open>The scan of a text ends: with the fuel the check gives it, it has a result, and more
  fuel does not change it.\<close>

theorem unique_keys_ends:
  "scan_value (2 * length bs + 1) parse d bs \<noteq> None
   \<and> scan_value (2 * length bs + 1 + k) parse d bs = scan_value (2 * length bs + 1) parse d bs"
proof -
  have "scan_value (2 * length bs + 1) parse d bs \<noteq> None"
    using scan_enough [of "2 * length bs + 1" parse] by simp
  moreover from this have "scan_value (2 * length bs + 1 + k) parse d bs = scan_value (2 * length bs + 1) parse d bs"
    using scan_more [of "2 * length bs + 1" parse, THEN conjunct1, rule_format, OF le_add1] by blast
  ultimately show ?thesis by blast
qed


text \<open>A parser that knows two spellings of one string.\<close>

definition sample_parser :: json_parser where
  "sample_parser bs =
     (if bs = ''[\"a\"]'' \<or> bs = ''['' @ [CHR 0x22, CHR 0x5C] @ ''u0061'' @ [CHR 0x22] @ '']''
      then Some (JArray [JString [0x61]]) else None)"


end
