(* ===== verification/Managed_Policy.thy ===== *)
theory Managed_Policy
  imports Json_Keys
begin

text \<open>
  Signed policies of a managed account (\<open>main/allowlist_managed_policy.{h,cpp}\<close>): what an
  invitation, an enrollment, a policy and the saved state have to be to be taken.  Qt's JSON,
  base64 and URL code and OpenSSL's signature check are parameters, in \<open>managed_lib\<close>.
\<close>

record url =
  url_scheme :: qstring
  url_host :: qstring
  url_userInfo :: qstring
  url_hasQuery :: bool
  url_hasFragment :: bool
  url_path :: qstring
  url_port :: int

record managed_lib =
  lb_parse :: json_parser
  lb_compact :: "json \<Rightarrow> bytes"
  lb_fromBase64 :: "bytes \<Rightarrow> bytes"
  lb_toBase64 :: "bytes \<Rightarrow> bytes"
  lb_url :: "qstring \<Rightarrow> url option"
  lb_urlString :: "url \<Rightarrow> qstring"
  lb_fromUtf8 :: "bytes \<Rightarrow> qstring"
  lb_toUtf8 :: "qstring \<Rightarrow> bytes"
  lb_sha256hex :: "bytes \<Rightarrow> bytes"
  lb_ed25519 :: "bytes \<Rightarrow> bytes \<Rightarrow> bytes \<Rightarrow> bool"

record managed_peer =
  mp_kind :: qstring
  mp_id :: nat

record invitation =
  iv_origin :: url
  iv_subject :: qstring
  iv_code :: bytes
  iv_publicKey :: bytes

record policy =
  po_subject :: qstring
  po_device :: qstring
  po_revision :: int
  po_bytes :: bytes
  po_digest :: bytes
  po_peers :: "managed_peer list"

record managed_state =
  st_origin :: url
  st_subject :: qstring
  st_device :: qstring
  st_publicKey :: bytes
  st_token :: bytes
  st_envelope :: bytes

section \<open>Text\<close>

definition toLatin1 :: "qstring \<Rightarrow> bytes" where
  "toLatin1 s = map (\<lambda>c. if unat c < 256 then char_of (unat c) else CHR ''?'') s"

definition fromLatin1 :: "bytes \<Rightarrow> qstring" where
  "fromLatin1 bs = map (\<lambda>c. of_nat (of_char c)) bs"

definition digit :: "16 word \<Rightarrow> bool" where "digit c \<longleftrightarrow> 0x30 \<le> c \<and> c \<le> 0x39"
definition lower_letter :: "16 word \<Rightarrow> bool" where "lower_letter c \<longleftrightarrow> 0x61 \<le> c \<and> c \<le> 0x7A"
definition upper_letter :: "16 word \<Rightarrow> bool" where "upper_letter c \<longleftrightarrow> 0x41 \<le> c \<and> c \<le> 0x5A"

definition url_safe :: "16 word \<Rightarrow> bool" where
  "url_safe c \<longleftrightarrow> lower_letter c \<or> upper_letter c \<or> digit c \<or> c = 0x5F \<or> c = 0x2D"

definition digits_value :: "qstring \<Rightarrow> nat" where
  "digits_value s = foldl (\<lambda>n c. 10 * n + unat (c - 0x30)) 0 s"

section \<open>Reading values\<close>

type_synonym json_object = "(qstring \<times> json) list"

definition field :: "string \<Rightarrow> json_object \<Rightarrow> json option" where
  "field name ob = map_of ob (qlit name)"

definition to_string :: "json option \<Rightarrow> qstring" where
  "to_string v = (case v of Some (JString s) \<Rightarrow> s | _ \<Rightarrow> [])"

definition Fields :: "json_object \<Rightarrow> string list \<Rightarrow> bool" where
  "Fields ob names \<longleftrightarrow> length ob = length names \<and> list_all (\<lambda>n. field n ob \<noteq> None) names"

definition Decode :: "managed_lib \<Rightarrow> qstring \<Rightarrow> bytes" where
  "Decode L s =
     (if s = [] \<or> MaxWireBytes < length s then []
      else let bs = toLatin1 s
           in if \<not> list_all (\<lambda>c. url_safe (of_nat (of_char c))) bs then []
              else let raw = lb_fromBase64 L bs
                   in if lb_toBase64 L raw \<noteq> bs then [] else raw)"

definition Encode :: "managed_lib \<Rightarrow> bytes \<Rightarrow> qstring" where
  "Encode L bs = fromLatin1 (lb_toBase64 L bs)"

definition MaxId :: nat where "MaxId = 281474976710655"
definition MaxInteger :: int where "MaxInteger = 9007199254740991"

text \<open>Fifteen digits fit \<open>quint64\<close>, so \<open>toULongLong\<close> does not fail.\<close>

definition Id :: "json option \<Rightarrow> nat option" where
  "Id v =
     (case v of
        Some (JString s) \<Rightarrow>
          if s = [] \<or> 15 < length s \<or> hd s = 0x30 \<or> \<not> list_all digit s then None
          else let i = digits_value s in if 0 < i \<and> i \<le> MaxId then Some i else None
      | _ \<Rightarrow> None)"

definition Integer :: "json option \<Rightarrow> int option" where
  "Integer v =
     (case v of
        Some (JNumber (Some number)) \<Rightarrow>
          if number < 1 \<or> of_int MaxInteger < number \<or> of_int \<lfloor>number\<rfloor> \<noteq> number then None
          else Some \<lfloor>number\<rfloor>
      | _ \<Rightarrow> None)"

definition Token :: "qstring \<Rightarrow> bool" where
  "Token s \<longleftrightarrow> 40 \<le> length s \<and> length s \<le> 128 \<and> list_all url_safe s"

definition Device :: "qstring \<Rightarrow> bool" where
  "Device s \<longleftrightarrow> length s = 32 \<and> list_all (\<lambda>c. digit c \<or> 0x61 \<le> c \<and> c \<le> 0x66) s"

definition Origin :: "managed_lib \<Rightarrow> qstring \<Rightarrow> url option" where
  "Origin L s =
     (case lb_url L s of
        None \<Rightarrow> None
      | Some u \<Rightarrow>
          if 255 < length s \<or> url_scheme u \<noteq> qlit ''https'' \<or> url_host u = [] \<or> url_userInfo u \<noteq> []
             \<or> url_hasQuery u \<or> url_hasFragment u \<or> url_path u \<noteq> [] \<and> url_path u \<noteq> qlit ''/''
             \<or> lb_urlString L u \<noteq> s \<or> url_port u = 0
          then None else Some (u\<lparr>url_path := []\<rparr>))"

definition policy_prefix :: bytes where
  "policy_prefix = ''ALLOWGRAM_HEAD_POLICY_V1'' @ [CHR 0x0A]"

definition Signature :: "managed_lib \<Rightarrow> bytes \<Rightarrow> bytes \<Rightarrow> bytes \<Rightarrow> bool" where
  "Signature L key bs signature \<longleftrightarrow>
     length key = 32 \<and> length signature = 64 \<and> lb_ed25519 L key (policy_prefix @ bs) signature"

section \<open>Policies\<close>

definition read_peer :: "json \<Rightarrow> (qstring \<times> qstring \<times> nat) option" where
  "read_peer v =
     (case v of
        JObject peer \<Rightarrow>
          if \<not> Fields peer [''kind'', ''id''] then None
          else let kind = to_string (field ''kind'' peer)
               in (case Id (field ''id'' peer) of
                     None \<Rightarrow> None
                   | Some i \<Rightarrow>
                       if kind \<noteq> qlit ''user'' \<and> kind \<noteq> qlit ''chat'' \<and> kind \<noteq> qlit ''channel''
                       then None
                       else Some (kind, to_string (field ''id'' peer), i))
      | _ \<Rightarrow> None)"

fun read_peers :: "qstring list \<Rightarrow> json list \<Rightarrow> managed_peer list option" where
  "read_peers seen [] = Some []"
| "read_peers seen (v # vs) =
     (case read_peer v of
        None \<Rightarrow> None
      | Some (kind, t, i) \<Rightarrow>
          let typed = kind @ [0x3A] @ t
          in if typed \<in> set seen then None
             else map_option (\<lambda>ps. \<lparr>mp_kind = kind, mp_id = i\<rparr> # ps) (read_peers (typed # seen) vs))"

definition VerifyPolicy ::
  "managed_lib \<Rightarrow> bytes \<Rightarrow> bytes \<Rightarrow> qstring \<Rightarrow> qstring \<Rightarrow> int \<Rightarrow> bytes \<Rightarrow> int \<Rightarrow> policy option" where
  "VerifyPolicy L envelope publicKey subject device least previousBytes now =
     (if least < 0 \<or> Id (Some (JString subject)) = None \<or> \<not> Device device then None
      else case ReadObject (lb_parse L) envelope of
        None \<Rightarrow> None
      | Some outer \<Rightarrow>
          if \<not> Fields outer [''signed'', ''signature''] then None
          else let raw = Decode L (to_string (field ''signed'' outer));
                   signature = Decode L (to_string (field ''signature'' outer))
               in if MaxPolicyBytes < length raw \<or> \<not> Signature L publicKey raw signature then None
                  else (case ReadObject (lb_parse L) raw of
                    None \<Rightarrow> None
                  | Some ob \<Rightarrow>
                      if \<not> Fields ob [''v'', ''telegram_user_id'', ''device_id'', ''revision'',
                                      ''issued_at'', ''peers'']
                         \<or> Integer (field ''v'' ob) \<noteq> Some 1
                         \<or> to_string (field ''telegram_user_id'' ob) \<noteq> subject
                         \<or> to_string (field ''device_id'' ob) \<noteq> device
                      then None
                      else (case (field ''peers'' ob, Integer (field ''revision'' ob),
                                  Integer (field ''issued_at'' ob)) of
                        (Some (JArray vs), Some revision, Some issued) \<Rightarrow>
                          if now + 300 < issued \<or> revision < least
                             \<or> revision = least \<and> raw \<noteq> previousBytes \<or> 10000 < length vs
                          then None
                          else map_option
                            (\<lambda>ps. \<lparr>po_subject = subject, po_device = device, po_revision = revision,
                                   po_bytes = raw, po_digest = lb_sha256hex L raw, po_peers = ps\<rparr>)
                            (read_peers [] vs)
                      | _ \<Rightarrow> None)))"

section \<open>Invitations, enrollment and the saved state\<close>

definition ReadInvitation :: "managed_lib \<Rightarrow> qstring \<Rightarrow> qstring \<Rightarrow> invitation option" where
  "ReadInvitation L s subject =
     (if 4096 < length s \<or> take 5 s \<noteq> qlit ''AGH1.'' then None
      else case ReadObject (lb_parse L) (Decode L (drop 5 s)) of
        None \<Rightarrow> None
      | Some ob \<Rightarrow>
          if \<not> Fields ob [''v'', ''url'', ''telegram_user_id'', ''code'', ''public_key'']
             \<or> Integer (field ''v'' ob) \<noteq> Some 1 \<or> Id (field ''telegram_user_id'' ob) = None
             \<or> to_string (field ''telegram_user_id'' ob) \<noteq> subject
             \<or> \<not> Token (to_string (field ''code'' ob))
          then None
          else let key = Decode L (to_string (field ''public_key'' ob))
               in (case Origin L (to_string (field ''url'' ob)) of
                     None \<Rightarrow> None
                   | Some origin \<Rightarrow>
                       if length key \<noteq> 32 then None
                       else Some \<lparr>iv_origin = origin, iv_subject = subject,
                                  iv_code = toLatin1 (to_string (field ''code'' ob)),
                                  iv_publicKey = key\<rparr>))"

definition ReadEnrollment :: "managed_lib \<Rightarrow> bytes \<Rightarrow> invitation \<Rightarrow> int \<Rightarrow> managed_state option" where
  "ReadEnrollment L response invited now =
     (case ReadObject (lb_parse L) response of
        None \<Rightarrow> None
      | Some ob \<Rightarrow>
          if \<not> Fields ob [''device_id'', ''device_token'', ''policy'']
             \<or> \<not> Device (to_string (field ''device_id'' ob)) \<or> \<not> Token (to_string (field ''device_token'' ob))
          then None
          else (case field ''policy'' ob of
            Some (JObject p) \<Rightarrow>
              let result = \<lparr>st_origin = iv_origin invited, st_subject = iv_subject invited,
                            st_device = to_string (field ''device_id'' ob),
                            st_publicKey = iv_publicKey invited,
                            st_token = toLatin1 (to_string (field ''device_token'' ob)),
                            st_envelope = lb_compact L (JObject p)\<rparr>
              in if VerifyPolicy L (st_envelope result) (st_publicKey result) (st_subject result)
                      (st_device result) 0 [] now = None
                 then None else Some result
          | _ \<Rightarrow> None))"

definition SaveState :: "managed_lib \<Rightarrow> managed_state \<Rightarrow> bytes" where
  "SaveState L s =
     lb_compact L (JObject
       [(qlit ''v'', JNumber (Some 1)), (qlit ''origin'', JString (lb_urlString L (st_origin s))),
        (qlit ''subject'', JString (st_subject s)), (qlit ''device'', JString (st_device s)),
        (qlit ''public_key'', JString (Encode L (st_publicKey s))),
        (qlit ''token'', JString (fromLatin1 (st_token s))),
        (qlit ''policy'', JString (lb_fromUtf8 L (st_envelope s)))])"

definition ReadState :: "managed_lib \<Rightarrow> bytes \<Rightarrow> qstring \<Rightarrow> int \<Rightarrow> managed_state option" where
  "ReadState L bs subject now =
     (case ReadObject (lb_parse L) bs of
        None \<Rightarrow> None
      | Some ob \<Rightarrow>
          if \<not> Fields ob [''v'', ''origin'', ''subject'', ''device'', ''public_key'', ''token'', ''policy'']
             \<or> Integer (field ''v'' ob) \<noteq> Some 1 \<or> to_string (field ''subject'' ob) \<noteq> subject
             \<or> \<not> Device (to_string (field ''device'' ob)) \<or> \<not> Token (to_string (field ''token'' ob))
          then None
          else let key = Decode L (to_string (field ''public_key'' ob))
               in (case Origin L (to_string (field ''origin'' ob)) of
                     None \<Rightarrow> None
                   | Some origin \<Rightarrow>
                       if length key \<noteq> 32 then None
                       else let result = \<lparr>st_origin = origin, st_subject = subject,
                                          st_device = to_string (field ''device'' ob), st_publicKey = key,
                                          st_token = toLatin1 (to_string (field ''token'' ob)),
                                          st_envelope = lb_toUtf8 L (to_string (field ''policy'' ob))\<rparr>
                            in if VerifyPolicy L (st_envelope result) key subject (st_device result) 0 [] now = None
                               then None else Some result))"

section \<open>Literal keys\<close>

definition quoted :: "string \<Rightarrow> string" where "quoted s = CHR 0x22 # s @ [CHR 0x22]"

lemma unat_of_char: "unat (of_char x :: 16 word) = of_char x"
proof -
  have "(of_char x :: nat) < 2 ^ 16"
    by (rule less_trans [OF nat_of_char_less_256]) simp
  then have "unat (of_nat (of_char x) :: 16 word) = of_char x"
    by (simp only: unsigned_of_nat len_num0 len_bit0 len_num1 mult_1_right) (simp add: take_bit_nat_eq_self)
  then show ?thesis by (simp only: of_nat_of_char)
qed

lemma qlit_inj: "qlit s = qlit t \<longleftrightarrow> s = t"
proof -
  have "inj (of_char :: char \<Rightarrow> 16 word)"
    by (rule injI) (metis unat_of_char char_of_char)
  then show ?thesis unfolding qlit_def by (metis inj_map_eq_map)
qed

lemma field_Cons: "field n ((qlit k, v) # ob) = (if k = n then Some v else field n ob)"
  by (simp add: field_def qlit_inj)

section \<open>What a verified policy is\<close>

text \<open>Canonical decimal text is its value.\<close>

lemma digits_value_snoc: "digits_value (s @ [c]) = 10 * digits_value s + unat (c - 0x30)"
  by (simp add: digits_value_def)

lemma digit_cases: "digit c \<Longrightarrow> unat (c - 0x30) < 10 \<and> c = 0x30 + of_nat (unat (c - 0x30))"
  unfolding digit_def by (auto simp: word_le_nat_alt unat_sub)

lemma digits_value_pos:
  "s \<noteq> [] \<Longrightarrow> hd s \<noteq> 0x30 \<Longrightarrow> list_all digit s \<Longrightarrow> 0 < digits_value s"
proof (induction s rule: rev_induct)
  case (snoc c s)
  show ?case
  proof (cases "s = []")
    case True
    then have "c \<noteq> 0x30" using snoc.prems by simp
    then have "unat (c - 0x30) \<noteq> 0" by (simp add: unat_eq_0)
    then show ?thesis by (simp add: True digits_value_snoc [of "[]", simplified])
  next
    case False
    with snoc show ?thesis by (simp add: digits_value_snoc)
  qed
qed simp

lemma digits_value_inj:
  "list_all digit s \<Longrightarrow> list_all digit t \<Longrightarrow> s \<noteq> [] \<Longrightarrow> t \<noteq> [] \<Longrightarrow> hd s \<noteq> 0x30 \<Longrightarrow> hd t \<noteq> 0x30 \<Longrightarrow>
     digits_value s = digits_value t \<Longrightarrow> s = t"
proof (induction s arbitrary: t rule: rev_induct)
  case (snoc c s)
  obtain d u where t: "t = u @ [d]" using snoc.prems(4) by (cases t rule: rev_cases) auto
  have cd: "unat (c - 0x30) < 10" "unat (d - 0x30) < 10" "c = 0x30 + of_nat (unat (c - 0x30))"
    "d = 0x30 + of_nat (unat (d - 0x30))"
    using digit_cases snoc.prems(1,2) by (auto simp: t)
  have "10 * digits_value s + unat (c - 0x30) = 10 * digits_value u + unat (d - 0x30)"
    using snoc.prems(7) by (simp add: t digits_value_snoc)
  with cd(1,2) have eq: "digits_value s = digits_value u" "unat (c - 0x30) = unat (d - 0x30)" by presburger+
  then have "c = d" using cd(3,4) by metis
  moreover have "s = u"
  proof (cases "s = [] \<or> u = []")
    case True
    have "s \<noteq> [] \<Longrightarrow> 0 < digits_value s" "u \<noteq> [] \<Longrightarrow> 0 < digits_value u"
      using digits_value_pos snoc.prems by (auto simp: t)
    with True eq(1) show ?thesis by (cases "s = []"; cases "u = []") (auto simp: digits_value_def)
  next
    case False
    with snoc.IH [of u] snoc.prems eq(1) show ?thesis by (simp add: t)
  qed
  ultimately show ?case by (simp add: t)
qed simp

definition peer_ok :: "managed_peer \<Rightarrow> bool" where
  "peer_ok p \<longleftrightarrow> mp_kind p \<in> {qlit ''user'', qlit ''chat'', qlit ''channel''} \<and> 0 < mp_id p \<and> mp_id p \<le> MaxId"

lemma read_peer_SomeD:
  assumes "read_peer v = Some (kind, t, i)"
  shows "peer_ok \<lparr>mp_kind = kind, mp_id = i\<rparr>" "i = digits_value t" "t \<noteq> []" "hd t \<noteq> 0x30" "list_all digit t"
  using assms
  by (auto simp: read_peer_def Id_def to_string_def Let_def peer_ok_def
      split: json.splits option.splits if_splits)

definition typed_text :: "managed_peer \<Rightarrow> qstring \<Rightarrow> bool" where
  "typed_text p s \<longleftrightarrow> (\<exists>t. s = mp_kind p @ [0x3A] @ t \<and> mp_id p = digits_value t \<and> t \<noteq> []
     \<and> hd t \<noteq> 0x30 \<and> list_all digit t)"

lemma typed_text_inj:
  assumes "typed_text p s" "typed_text p u" shows "s = u"
  using assms digits_value_inj by (auto simp: typed_text_def)

lemma read_peers_SomeD:
  "read_peers seen vs = Some ps \<Longrightarrow>
     list_all peer_ok ps \<and> distinct ps \<and> length ps = length vs
     \<and> (\<forall>p \<in> set ps. \<exists>s. typed_text p s \<and> s \<notin> set seen)"
proof (induction seen vs arbitrary: ps rule: read_peers.induct)
  case (2 seen v vs)
  then obtain kind t i qs where r: "read_peer v = Some (kind, t, i)"
    "kind @ [0x3A] @ t \<notin> set seen" "read_peers ((kind @ [0x3A] @ t) # seen) vs = Some qs"
    "ps = \<lparr>mp_kind = kind, mp_id = i\<rparr> # qs"
    by (auto simp: Let_def split: option.splits if_splits)
  let ?p = "\<lparr>mp_kind = kind, mp_id = i\<rparr>"
  note q = "2.IH" [OF r(1) refl refl refl r(2) r(3)]
  have p: "peer_ok ?p" "typed_text ?p (kind @ [0x3A] @ t)"
    using read_peer_SomeD [OF r(1)] by (auto simp: typed_text_def)
  have "?p \<notin> set qs"
  proof
    assume "?p \<in> set qs"
    then obtain s where "typed_text ?p s" "s \<noteq> kind @ [0x3A] @ t" using q by auto
    with typed_text_inj p(2) show False by blast
  qed
  moreover have "\<forall>q \<in> set qs. \<exists>s. typed_text q s \<and> s \<notin> set seen" using q by auto
  ultimately show ?case using q p r(2) by (auto simp: r(4))
qed simp

lemma VerifyPolicy_SomeD:
  assumes "VerifyPolicy L envelope key subject device least previous now = Some p"
  shows "po_subject p = subject" "po_device p = device" "least \<le> po_revision p" "0 \<le> least"
    "po_revision p = least \<Longrightarrow> po_bytes p = previous" "po_digest p = lb_sha256hex L (po_bytes p)"
    "\<exists>outer. ReadObject (lb_parse L) envelope = Some outer
       \<and> po_bytes p = Decode L (to_string (field ''signed'' outer))
       \<and> Signature L key (po_bytes p) (Decode L (to_string (field ''signature'' outer)))"
    "length (po_bytes p) \<le> MaxPolicyBytes"
    "\<exists>ob issued vs. ReadObject (lb_parse L) (po_bytes p) = Some ob
       \<and> to_string (field ''telegram_user_id'' ob) = subject
       \<and> to_string (field ''device_id'' ob) = device
       \<and> Integer (field ''revision'' ob) = Some (po_revision p)
       \<and> Integer (field ''issued_at'' ob) = Some issued \<and> issued \<le> now + 300
       \<and> field ''peers'' ob = Some (JArray vs) \<and> length vs \<le> 10000 \<and> read_peers [] vs = Some (po_peers p)"
  using assms unfolding VerifyPolicy_def Let_def
  by (auto split: if_splits option.splits json.splits)


lemma Integer_SomeD: "Integer v = Some n \<Longrightarrow> 1 \<le> n \<and> n \<le> MaxInteger"
  by (auto simp: Integer_def le_floor_iff floor_le_iff split: option.splits json.splits if_splits)

lemma VerifyPolicy_SomeE:
  assumes "VerifyPolicy L envelope key subject device least previous now = Some p"
  obtains outer ob revision issued vs raw where
    "Id (Some (JString subject)) \<noteq> None" "Device device" "ReadObject (lb_parse L) envelope = Some outer"
    "Fields outer [''signed'', ''signature'']" "raw = Decode L (to_string (field ''signed'' outer))"
    "length raw \<le> MaxPolicyBytes"
    "Signature L key raw (Decode L (to_string (field ''signature'' outer)))"
    "ReadObject (lb_parse L) raw = Some ob"
    "Fields ob [''v'', ''telegram_user_id'', ''device_id'', ''revision'', ''issued_at'', ''peers'']"
    "Integer (field ''v'' ob) = Some 1" "to_string (field ''telegram_user_id'' ob) = subject"
    "to_string (field ''device_id'' ob) = device" "field ''peers'' ob = Some (JArray vs)"
    "Integer (field ''revision'' ob) = Some revision" "Integer (field ''issued_at'' ob) = Some issued"
    "issued \<le> now + 300" "length vs \<le> 10000"
    "read_peers [] vs = Some (po_peers p)" "po_revision p = revision"
    "p = \<lparr>po_subject = subject, po_device = device, po_revision = revision, po_bytes = raw,
       po_digest = lb_sha256hex L raw, po_peers = po_peers p\<rparr>"
  using assms unfolding VerifyPolicy_def Let_def
  by (auto split: if_splits option.splits json.splits)

lemma VerifyPolicy_base:
  assumes "VerifyPolicy L e k s d r b now = Some p" shows "VerifyPolicy L e k s d 0 [] now = Some p"
proof (rule VerifyPolicy_SomeE [OF assms])
  fix outer ob revision issued vs raw
  assume F: "Id (Some (JString s)) \<noteq> None" "Device d" "ReadObject (lb_parse L) e = Some outer"
    "Fields outer [''signed'', ''signature'']" "raw = Decode L (to_string (field ''signed'' outer))"
    "length raw \<le> MaxPolicyBytes"
    "Signature L k raw (Decode L (to_string (field ''signature'' outer)))"
    "ReadObject (lb_parse L) raw = Some ob"
    "Fields ob [''v'', ''telegram_user_id'', ''device_id'', ''revision'', ''issued_at'', ''peers'']"
    "Integer (field ''v'' ob) = Some 1" "to_string (field ''telegram_user_id'' ob) = s"
    "to_string (field ''device_id'' ob) = d" "field ''peers'' ob = Some (JArray vs)"
    "Integer (field ''revision'' ob) = Some revision" "Integer (field ''issued_at'' ob) = Some issued"
    "issued \<le> now + 300" "length vs \<le> 10000"
    "read_peers [] vs = Some (po_peers p)" "po_revision p = revision"
    and p: "p = \<lparr>po_subject = s, po_device = d, po_revision = revision, po_bytes = raw,
       po_digest = lb_sha256hex L raw, po_peers = po_peers p\<rparr>"
  have "1 \<le> revision" using Integer_SomeD F(14) by blast
  then have "VerifyPolicy L e k s d 0 [] now = Some \<lparr>po_subject = s, po_device = d, po_revision = revision,
      po_bytes = raw, po_digest = lb_sha256hex L raw, po_peers = po_peers p\<rparr>"
    unfolding VerifyPolicy_def Let_def using F by simp
  then show ?thesis by (simp only: p [symmetric])
qed

text \<open>The signed bytes say what the policy is.\<close>

lemma VerifyPolicy_unique:
  assumes "VerifyPolicy L e k s d r b now = Some p" "VerifyPolicy L e' k' s d r' b' now' = Some q"
    and "po_bytes p = po_bytes q"
  shows "p = q"
proof -
  note P = VerifyPolicy_SomeD [OF assms(1)] and Q = VerifyPolicy_SomeD [OF assms(2)]
  have "po_revision p = po_revision q" "po_peers p = po_peers q"
    using P(9) Q(9) assms(3) by auto
  then show ?thesis using P(1,2,6) Q(1,2,6) assms(3) by (cases p; cases q) simp
qed

text \<open>C13: A policy is taken only if the head's key signed its bytes under the policy prefix, the
  signed document names this account, this device, the policy's revision and a time at most
  five minutes ahead; its revision is not below the one held, at the same revision its bytes are
  those held, and its at most 10000 peers are distinct and have a kind and an identifier in range.\<close>

theorem verify_policy_sound:
  assumes "VerifyPolicy L envelope key subject device least previous now = Some p"
  shows "(\<exists>signature. length key = 32 \<and> length signature = 64
      \<and> lb_ed25519 L key (policy_prefix @ po_bytes p) signature)
    \<and> (\<exists>ob issued. ReadObject (lb_parse L) (po_bytes p) = Some ob
      \<and> field ''telegram_user_id'' ob = Some (JString subject) \<and> field ''device_id'' ob = Some (JString device)
      \<and> Integer (field ''revision'' ob) = Some (po_revision p)
      \<and> Integer (field ''issued_at'' ob) = Some issued \<and> issued \<le> now + 300)
    \<and> po_subject p = subject \<and> po_device p = device
    \<and> least \<le> po_revision p \<and> 1 \<le> po_revision p \<and> po_revision p \<le> MaxInteger
    \<and> (po_revision p = least \<longrightarrow> po_bytes p = previous)
    \<and> length (po_peers p) \<le> 10000 \<and> distinct (po_peers p) \<and> list_all peer_ok (po_peers p)"
proof -
  note V = VerifyPolicy_SomeD [OF assms]
  have nonempty: "subject \<noteq> []" "device \<noteq> []"
    using assms by (auto simp: VerifyPolicy_def Id_def Device_def split: if_splits)
  from V(7) have "length key = 32 \<and> (\<exists>signature. length signature = 64
      \<and> lb_ed25519 L key (policy_prefix @ po_bytes p) signature)"
    by (auto simp: Signature_def)
  moreover from V(9) obtain ob issued vs where ob: "ReadObject (lb_parse L) (po_bytes p) = Some ob"
    "to_string (field ''telegram_user_id'' ob) = subject" "to_string (field ''device_id'' ob) = device"
    "Integer (field ''revision'' ob) = Some (po_revision p)"
    "Integer (field ''issued_at'' ob) = Some issued" "issued \<le> now + 300"
    "length vs \<le> 10000" "read_peers [] vs = Some (po_peers p)" by auto
  moreover have "field ''telegram_user_id'' ob = Some (JString subject)"
    "field ''device_id'' ob = Some (JString device)"
    using ob(2,3) nonempty by (auto simp: to_string_def split: option.splits json.splits)
  moreover note read_peers_SomeD [OF ob(8)] Integer_SomeD [OF ob(4)] V(1-5)
  ultimately show ?thesis by auto
qed

end
