(* ===== verification/Managed_Client.thy ===== *)
theory Managed_Client
  imports Managed_Policy "HOL-Library.List_Lexorder" "HOL-Library.Product_Lexorder"
begin

text \<open>
  The managed account's transport (\<open>main/allowlist_managed_client.{h,cpp}\<close> and the two files
  it includes, \<open>allowlist_managed_connection.inc\<close> and \<open>allowlist_hub_connection.inc\<close>): the
  state of \<open>ManagedClient\<close> and one definition per operation and callback.

  A callback given to \<open>request\<close> is a value of \<open>after\<close>; a network reply, a fired timer, a
  Telegram proof and a chat list that has been walked are later calls of the operation that
  handles them.  The host's functions are fields of \<open>client_setup\<close>, over a host state the client
  holds; the clock, the random bytes and whether the disk took a write are in \<open>env\<close>.  Reading
  an empty optional sets \<open>cl_crashed\<close>.  Observers of the status, and requests' headers, are not
  modelled.  A lookup in \<open>_connection\<close> that leaves a null member behind is not kept: every
  reader treats null and missing alike.
\<close>

section \<open>What the client is built on\<close>

record hub_lib =
  hb_fromBase64 :: "bytes \<Rightarrow> bytes"
  hb_trimmed :: "qstring \<Rightarrow> qstring"
  hb_url :: "qstring \<Rightarrow> url"
  hb_public :: "bytes \<Rightarrow> bytes"
  hb_sign :: "bytes \<Rightarrow> bytes \<Rightarrow> bytes option"
  hb_toUcs4 :: "qstring \<Rightarrow> nat list"
  hb_fromUcs4 :: "nat \<Rightarrow> qstring"
  hb_other :: "nat \<Rightarrow> bool" \<comment> \<open>a code point of a category \<open>Other_...\<close>\<close>

record env =
  en_now :: int
  en_written :: "bytes \<Rightarrow> bool"
  en_random :: "bytes option"
  en_random2 :: "bytes option"

record 'h client_setup =
  su_lib :: managed_lib
  su_hub :: hub_lib
  su_subject :: qstring
  su_stored :: "'h \<Rightarrow> bytes"
  su_configured :: "'h \<Rightarrow> bool"
  su_initial :: "'h \<Rightarrow> managed_peer list"
  su_commit :: "env \<Rightarrow> bytes \<Rightarrow> 'h \<Rightarrow> 'h \<times> bool"
  su_connectionStored :: "('h \<Rightarrow> bytes) option"
  su_connectionCommit :: "(env \<Rightarrow> bytes \<Rightarrow> 'h \<Rightarrow> 'h \<times> bool) option"
  su_liveSync :: bool
  su_hubProof :: bool
  su_chats :: bool
  su_connectionOrigin :: url
  su_connectionKey :: bytes
  su_hubOrigin :: url

datatype stage =
  Stage_Enroll | Stage_Policy | Stage_Wait | Stage_Ack | Stage_Register | Stage_Connection
| Stage_HubChallenge | Stage_HubEnroll

datatype after =
  After_Policy | After_Enroll invitation | After_Ack | After_Connection | After_HubChallenge
| After_HubEnroll

datatype status =
  NoStatus | InvalidSettings | UsingRevision int | ProofTimedOut | DashboardPending | AlreadyManaged
| ChooseFirst | InvalidInvitation | ConnectingHead | EnrollmentRejected | PolicyRejected | SaveFailure
| AppliedLocally int | AckNotConfirmed | Acknowledged int | RemainsActive int | NewerAvailable
| SyncDenied | HeadUnreachable | ConnectionSaveFailed | NotConnected | NoSecureRandom
| NotConnectedYet | ConnectionInvalid | Declined | ConnectionRejected | Verifying qstring
| DashboardInvalid | AwaitingApproval qstring | ChooseForHub | HubNotConfigured | HubInvalid
| PolicyMissing | ConnectingHub | ChallengeRejected | ProofUnavailable | HubEnrollmentRejected

record request =
  rq_stage :: "stage option" \<comment> \<open>\<open>None\<close> for the list of chats\<close>
  rq_origin :: url
  rq_path :: string
  rq_body :: bytes
  rq_token :: bytes

record 'h client =
  cl_host :: 'h
  cl_connection :: json_object
  cl_proofDeadline :: bool
  cl_proofGeneration :: nat
  cl_proofs :: "(nat \<times> json_object) list" \<comment> \<open>proofs asked of the host\<close>
  cl_chatsReportedAt :: int
  cl_chatsLoading :: bool
  cl_chatsWalk :: "(url \<times> bytes) option" \<comment> \<open>chats asked of the host\<close>
  cl_hubSuppressed :: bool
  cl_connectionSubmitted :: bool
  cl_promptShown :: bool
  cl_reply :: "(stage \<times> after) option"
  cl_timer :: "nat option"
  cl_state :: "managed_state option"
  cl_policy :: "policy option"
  cl_status :: status
  cl_busy :: bool
  cl_stopped :: bool
  cl_ackPending :: bool
  cl_waitSupported :: bool
  cl_sent :: "request list" \<comment> \<open>what went out, oldest first\<close>
  cl_crashed :: bool

definition ManagedClient :: "'h \<Rightarrow> 'h client" where
  "ManagedClient h =
     \<lparr>cl_host = h, cl_connection = [], cl_proofDeadline = False, cl_proofGeneration = 0, cl_proofs = [],
      cl_chatsReportedAt = 0, cl_chatsLoading = False, cl_chatsWalk = None, cl_hubSuppressed = False,
      cl_connectionSubmitted = False, cl_promptShown = False, cl_reply = None, cl_timer = None,
      cl_state = None, cl_policy = None, cl_status = NoStatus, cl_busy = False, cl_stopped = False,
      cl_ackPending = False, cl_waitSupported = True, cl_sent = [], cl_crashed = False\<rparr>"

section \<open>JSON values\<close>

definition to_int :: "int \<Rightarrow> json option \<Rightarrow> int" where
  "to_int d v =
     (case v of
        Some (JNumber (Some r)) \<Rightarrow>
          if of_int \<lfloor>r\<rfloor> = r \<and> - (2 ^ 31) \<le> \<lfloor>r\<rfloor> \<and> \<lfloor>r\<rfloor> < 2 ^ 31 then \<lfloor>r\<rfloor> else d
      | _ \<Rightarrow> d)"

definition to_integer :: "json option \<Rightarrow> int" where
  "to_integer v =
     (case v of
        Some (JNumber (Some r)) \<Rightarrow>
          if of_int \<lfloor>r\<rfloor> = r \<and> - (2 ^ 63) \<le> \<lfloor>r\<rfloor> \<and> \<lfloor>r\<rfloor> < 2 ^ 63 then \<lfloor>r\<rfloor> else 0
      | _ \<Rightarrow> 0)"

definition to_object :: "json option \<Rightarrow> json_object" where
  "to_object v = (case v of Some (JObject ob) \<Rightarrow> ob | _ \<Rightarrow> [])"

definition to_array :: "json option \<Rightarrow> json list" where
  "to_array v = (case v of Some (JArray vs) \<Rightarrow> vs | _ \<Rightarrow> [])"

definition is_object :: "json option \<Rightarrow> bool" where
  "is_object v \<longleftrightarrow> (case v of Some (JObject _) \<Rightarrow> True | _ \<Rightarrow> False)"

definition is_array :: "json option \<Rightarrow> bool" where
  "is_array v \<longleftrightarrow> (case v of Some (JArray _) \<Rightarrow> True | _ \<Rightarrow> False)"

definition says :: "string \<Rightarrow> qstring \<Rightarrow> json_object \<Rightarrow> bool" where
  "says name s ob \<longleftrightarrow> field name ob = Some (JString s)"

definition set_field :: "string \<Rightarrow> json \<Rightarrow> json_object \<Rightarrow> json_object" where
  "set_field name v ob = filter (\<lambda>m. fst m \<noteq> qlit name) ob @ [(qlit name, v)]"

definition remove_field :: "string \<Rightarrow> json_object \<Rightarrow> json_object" where
  "remove_field name ob = filter (\<lambda>m. fst m \<noteq> qlit name) ob"

definition assign_field :: "string \<Rightarrow> json option \<Rightarrow> json_object \<Rightarrow> json_object" where
  "assign_field name v ob = (case v of None \<Rightarrow> remove_field name ob | Some w \<Rightarrow> set_field name w ob)"

definition jstr :: "string \<Rightarrow> json" where "jstr s = JString (qlit s)"
definition jint :: "int \<Rightarrow> json" where "jint n = JNumber (Some (of_int n))"

text \<open>\<open>$\<close> of a Perl pattern also matches before a newline that ends the text; no class of the
  client's patterns has the newline.\<close>

definition strip_newline :: "qstring \<Rightarrow> qstring" where
  "strip_newline s = (if s \<noteq> [] \<and> last s = 0x0A then butlast s else s)"

definition matches :: "(16 word \<Rightarrow> bool) \<Rightarrow> nat \<Rightarrow> qstring \<Rightarrow> bool" where
  "matches P n s \<longleftrightarrow> length (strip_newline s) = n \<and> list_all P (strip_newline s)"

definition hex_id :: "qstring \<Rightarrow> bool" where
  "hex_id s \<longleftrightarrow> matches (\<lambda>c. digit c \<or> 0x61 \<le> c \<and> c \<le> 0x66) 32 s"

definition peer_json :: "managed_peer \<Rightarrow> json" where
  "peer_json p = JObject [(qlit ''kind'', JString (mp_kind p)), (qlit ''id'', jstr (number_text (mp_id p)))]"

section \<open>Status, timer and requests\<close>

definition changeStatus :: "status \<Rightarrow> 'h client \<Rightarrow> 'h client" where
  "changeStatus t c = c\<lparr>cl_status := t\<rparr>"

definition manager :: "'h client_setup \<Rightarrow> 'h client \<Rightarrow> qstring" where
  "manager U c = (case cl_state c of None \<Rightarrow> [] | Some s \<Rightarrow> lb_urlString (su_lib U) (st_origin s))"

definition paired :: "'h client_setup \<Rightarrow> 'h client \<Rightarrow> bool" where
  "paired U c \<longleftrightarrow> su_stored U (cl_host c) \<noteq> []"

definition decided :: "string \<Rightarrow> 'h client \<Rightarrow> bool" where
  "decided d c \<longleftrightarrow> says ''decision'' (qlit d) (cl_connection c)"

definition hubReady :: "'h client \<Rightarrow> bool" where
  "hubReady c \<longleftrightarrow> to_int 0 (field ''v'' (cl_connection c)) = 2 \<and> decided ''hub-enrolled'' c"

definition later :: "'h client_setup \<Rightarrow> 'h client \<Rightarrow> 'h client" where
  "later U c =
     (if \<not> cl_stopped c \<and> (cl_state c \<noteq> None \<or> su_hubProof U \<or> decided ''pending'' c)
      then c\<lparr>cl_timer := Some 30000\<rparr> else c)"

definition revision :: "'h client \<Rightarrow> int" where
  "revision c = (case cl_policy c of None \<Rightarrow> 0 | Some p \<Rightarrow> po_revision p)"

text \<open>\<open>_policy->\<close>.\<close>

definition deref_policy :: "'h client \<Rightarrow> 'h client" where
  "deref_policy c = (if cl_policy c = None then c\<lparr>cl_crashed := True\<rparr> else c)"

definition stage_path :: "stage \<Rightarrow> int \<Rightarrow> string" where
  "stage_path s r =
     (case s of
        Stage_HubChallenge \<Rightarrow> ''/api/allowgram/v1/client/challenge''
      | Stage_HubEnroll \<Rightarrow> ''/api/allowgram/v1/client/enroll''
      | Stage_Enroll \<Rightarrow> ''/api/client/enroll''
      | Stage_Wait \<Rightarrow> ''/api/client/policy/wait?after_revision='' @ number_text (nat r) @ ''&timeout=20''
      | Stage_Ack \<Rightarrow> ''/api/client/ack''
      | Stage_Register \<Rightarrow> ''/api/client/register''
      | Stage_Connection \<Rightarrow> ''/api/client/registration''
      | Stage_Policy \<Rightarrow> ''/api/client/policy'')"

definition stage_get :: "stage \<Rightarrow> bool" where
  "stage_get s \<longleftrightarrow> s \<in> {Stage_Policy, Stage_Wait, Stage_Connection}"

definition request :: "stage \<Rightarrow> url \<Rightarrow> bytes \<Rightarrow> bytes \<Rightarrow> after \<Rightarrow> 'h client \<Rightarrow> 'h client" where
  "request s origin body token next c =
     (if cl_stopped c \<or> cl_busy c then c
      else let c = (if s = Stage_Wait then deref_policy c else c)
           in c\<lparr>cl_busy := True, cl_reply := Some (s, next),
                cl_sent := cl_sent c @ [\<lparr>rq_stage = Some s, rq_origin = origin, rq_path = stage_path s (revision c),
                  rq_body = (if stage_get s then [] else body), rq_token = token\<rparr>]\<rparr>)"

definition stop :: "'h client \<Rightarrow> 'h client" where
  "stop c = c\<lparr>cl_stopped := True, cl_proofGeneration := cl_proofGeneration c + 1,
              cl_proofDeadline := False, cl_timer := None, cl_reply := None, cl_busy := False\<rparr>"

section \<open>Policies\<close>

definition apply_state :: "'h client_setup \<Rightarrow> env \<Rightarrow> managed_state \<Rightarrow> 'h client \<Rightarrow> 'h client \<times> bool" where
  "apply_state U e s c =
     (if (case cl_state c of
            None \<Rightarrow> False
          | Some t \<Rightarrow> st_origin s \<noteq> st_origin t \<or> st_publicKey s \<noteq> st_publicKey t
              \<or> st_device s \<noteq> st_device t \<or> st_subject s \<noteq> su_subject U)
      then (c, False)
      else case VerifyPolicy (su_lib U) (st_envelope s) (st_publicKey s) (su_subject U) (st_device s)
                  (revision c) (case cl_policy c of None \<Rightarrow> [] | Some p \<Rightarrow> po_bytes p) (en_now e) of
        None \<Rightarrow> (changeStatus PolicyRejected c, False)
      | Some p \<Rightarrow>
          (case su_commit U e (SaveState (su_lib U) s) (cl_host c) of
             (h, False) \<Rightarrow> (changeStatus SaveFailure (c\<lparr>cl_host := h\<rparr>), False)
           | (h, True) \<Rightarrow>
               (changeStatus (AppliedLocally (po_revision p))
                  (c\<lparr>cl_host := h, cl_state := Some s, cl_policy := Some p, cl_ackPending := True\<rparr>), True)))"

definition acknowledge :: "'h client_setup \<Rightarrow> 'h client \<Rightarrow> 'h client" where
  "acknowledge U c =
     (case (cl_state c, cl_policy c) of
        (Some s, Some p) \<Rightarrow>
          if cl_stopped c then c
          else request Stage_Ack (st_origin s)
                 (lb_compact (su_lib U) (JObject [(qlit ''revision'', jint (po_revision p)),
                    (qlit ''policy_sha256'', JString (fromLatin1 (po_digest p)))]))
                 (st_token s) After_Ack c
      | _ \<Rightarrow> c)"

definition reportChats :: "'h client_setup \<Rightarrow> env \<Rightarrow> 'h client \<Rightarrow> 'h client" where
  "reportChats U e c =
     (case cl_state c of
        None \<Rightarrow> c
      | Some s \<Rightarrow>
          if cl_stopped c \<or> \<not> su_chats U \<or> cl_chatsLoading c then c
          else if cl_chatsReportedAt c \<noteq> 0 \<and> en_now e - cl_chatsReportedAt c < 300 then c
          else c\<lparr>cl_chatsLoading := True, cl_chatsReportedAt := en_now e,
                 cl_chatsWalk := Some (st_origin s, st_token s)\<rparr>)"

definition after_ack :: "'h client_setup \<Rightarrow> env \<Rightarrow> bytes \<Rightarrow> 'h client \<Rightarrow> 'h client" where
  "after_ack U e response c =
     (if (case ReadObject (lb_parse (su_lib U)) response of
            None \<Rightarrow> True
          | Some value \<Rightarrow> length value \<noteq> 1 \<or> field ''ok'' value \<noteq> Some (JBool True))
      then later U (changeStatus AckNotConfirmed c)
      else let c = deref_policy (c\<lparr>cl_ackPending := False\<rparr>);
               c = reportChats U e (changeStatus (Acknowledged (revision c)) c)
           in if su_liveSync U \<and> cl_waitSupported c then c\<lparr>cl_timer := Some 100\<rparr> else later U c)"

definition acknowledge_or :: "'h client_setup \<Rightarrow> ('h client \<Rightarrow> 'h client) \<Rightarrow> 'h client \<times> bool \<Rightarrow> 'h client" where
  "acknowledge_or U otherwise r = (case r of (c, True) \<Rightarrow> acknowledge U c | (c, False) \<Rightarrow> otherwise c)"

definition after_policy :: "'h client_setup \<Rightarrow> env \<Rightarrow> bytes \<Rightarrow> 'h client \<Rightarrow> 'h client" where
  "after_policy U e body c =
     (case cl_state c of
        None \<Rightarrow> c\<lparr>cl_crashed := True\<rparr>
      | Some s \<Rightarrow> acknowledge_or U (later U) (apply_state U e (s\<lparr>st_envelope := body\<rparr>) c))"

section \<open>Enrollment with an invitation\<close>

definition initial_peers :: "'h client_setup \<Rightarrow> 'h client \<Rightarrow> json list" where
  "initial_peers U c = map peer_json (su_initial U (cl_host c))"

definition pair :: "'h client_setup \<Rightarrow> qstring \<Rightarrow> 'h client \<Rightarrow> 'h client \<times> bool" where
  "pair U invited c =
     (if su_hubProof U then (c, False)
      else if cl_stopped c \<or> cl_busy c then (c, False)
      else if decided ''pending'' c then (changeStatus DashboardPending c, False)
      else if paired U c then (changeStatus AlreadyManaged c, False)
      else if \<not> su_configured U (cl_host c) then (changeStatus ChooseFirst c, False)
      else case ReadInvitation (su_lib U) (hb_trimmed (su_hub U) invited) (su_subject U) of
        None \<Rightarrow> (changeStatus InvalidInvitation c, False)
      | Some parsed \<Rightarrow>
          (request Stage_Enroll (iv_origin parsed)
             (lb_compact (su_lib U) (JObject
                [(qlit ''code'', JString (fromLatin1 (iv_code parsed))),
                 (qlit ''telegram_user_id'', JString (su_subject U)),
                 (qlit ''device_name'', jstr ''Allowgram Desktop''),
                 (qlit ''client_version'', jstr ''managed-policy-v1''),
                 (qlit ''initial_peers'', JArray (initial_peers U c))]))
             [] (After_Enroll parsed) (changeStatus ConnectingHead c), True))"

definition after_enroll :: "'h client_setup \<Rightarrow> env \<Rightarrow> invitation \<Rightarrow> bytes \<Rightarrow> 'h client \<Rightarrow> 'h client" where
  "after_enroll U e invited response c =
     (case ReadEnrollment (su_lib U) response invited (en_now e) of
        None \<Rightarrow> changeStatus EnrollmentRejected c
      | Some s \<Rightarrow> acknowledge_or U (\<lambda>c. c) (apply_state U e s c))"

end
