(* ===== verification/Managed_Connection.thy ===== *)
theory Managed_Connection
  imports Managed_Client
begin

text \<open>
  The dashboard connection of a managed account: consent, the request that waits for the
  owner's approval, and what is read back of it
  (\<open>main/allowlist_managed_connection.inc\<close>).
\<close>

definition connection_stored :: "'h client_setup \<Rightarrow> 'h client \<Rightarrow> bytes" where
  "connection_stored U c = (case su_connectionStored U of None \<Rightarrow> [] | Some f \<Rightarrow> f (cl_host c))"

definition has_connection :: "'h client_setup \<Rightarrow> bool" where
  "has_connection U \<longleftrightarrow> su_connectionStored U \<noteq> None \<and> su_connectionCommit U \<noteq> None"

definition needsConsent :: "'h client_setup \<Rightarrow> 'h client \<Rightarrow> bool" where
  "needsConsent U c \<longleftrightarrow>
     \<not> su_hubProof U \<and> \<not> cl_stopped c \<and> \<not> paired U c \<and> su_configured U (cl_host c)
     \<and> has_connection U \<and> connection_stored U c = []"

definition claimConsentPrompt :: "'h client_setup \<Rightarrow> 'h client \<Rightarrow> 'h client \<times> bool" where
  "claimConsentPrompt U c =
     (if cl_promptShown c \<or> \<not> needsConsent U c then (c, False)
      else (c\<lparr>cl_promptShown := True\<rparr>, True))"

definition persistConnection ::
  "'h client_setup \<Rightarrow> env \<Rightarrow> json_object \<Rightarrow> 'h client \<Rightarrow> 'h client \<times> bool" where
  "persistConnection U e value c =
     (let bs = lb_compact (su_lib U) (JObject value)
      in case su_connectionCommit U of
           None \<Rightarrow> (changeStatus ConnectionSaveFailed c, False)
         | Some commit \<Rightarrow>
             if MaxWireBytes < length bs then (changeStatus ConnectionSaveFailed c, False)
             else (case commit e bs (cl_host c) of
                     (h, False) \<Rightarrow> (changeStatus ConnectionSaveFailed (c\<lparr>cl_host := h\<rparr>), False)
                   | (h, True) \<Rightarrow> (c\<lparr>cl_host := h, cl_connection := value\<rparr>, True)))"

definition connection_token :: "'h client \<Rightarrow> bytes" where
  "connection_token c = toLatin1 (to_string (field ''token'' (cl_connection c)))"

definition ascii_upper :: "char \<Rightarrow> char" where
  "ascii_upper c = (let n = of_char c :: nat in if 97 \<le> n \<and> n \<le> 122 then char_of (n - 32) else c)"

definition connectionFingerprint :: "'h client_setup \<Rightarrow> 'h client \<Rightarrow> qstring" where
  "connectionFingerprint U c =
     (let token = connection_token c
      in if token = [] then []
         else let code = map ascii_upper
                    (take 16 (lb_sha256hex (su_lib U) (''ALLOWGRAM_CONNECTION_V1'' @ [CHR 0x0A] @ token)))
              in fromLatin1 (take 4 code @ ''-'' @ take 4 (drop 4 code) @ ''-'' @ take 4 (drop 8 code)
                   @ ''-'' @ take 4 (drop 12 code)))"

definition origin_text :: "'h client_setup \<Rightarrow> qstring" where
  "origin_text U = lb_urlString (su_lib U) (su_connectionOrigin U)"

definition key_text :: "'h client_setup \<Rightarrow> qstring" where
  "key_text U = Encode (su_lib U) (su_connectionKey U)"

definition declineDashboard :: "'h client_setup \<Rightarrow> env \<Rightarrow> 'h client \<Rightarrow> 'h client \<times> bool" where
  "declineDashboard U e c =
     (if su_hubProof U then (c, False)
      else if cl_stopped c \<or> cl_busy c \<or> paired U c \<or> decided ''pending'' c then (c, False)
      else case persistConnection U e
             [(qlit ''v'', jint 1), (qlit ''decision'', jstr ''declined''),
              (qlit ''subject'', JString (su_subject U)), (qlit ''origin'', JString (origin_text U)),
              (qlit ''public_key'', JString (key_text U))] c of
        (c, False) \<Rightarrow> (c, False)
      | (c, True) \<Rightarrow> (changeStatus NotConnected c, True))"

section \<open>Reading the connection back\<close>

definition pattern_id :: "qstring \<Rightarrow> bool" where
  "pattern_id s \<longleftrightarrow>
     (let t = strip_newline s
      in t \<noteq> [] \<and> length t \<le> 15 \<and> 0x31 \<le> hd t \<and> hd t \<le> 0x39 \<and> list_all digit t)"

fun connection_peers_ok :: "qstring list \<Rightarrow> json list \<Rightarrow> bool" where
  "connection_peers_ok seen [] \<longleftrightarrow> True"
| "connection_peers_ok seen (v # vs) \<longleftrightarrow>
     (let p = to_object (Some v); i = to_string (field ''id'' p); kind = to_string (field ''kind'' p);
          key = kind @ [0x3A] @ i
      in \<not> (length p \<noteq> 2 \<or> \<not> pattern_id i \<or> MaxId < digits_value (strip_newline i)
            \<or> kind \<noteq> qlit ''user'' \<and> kind \<noteq> qlit ''chat'' \<and> kind \<noteq> qlit ''channel''
            \<or> key \<in> set seen)
         \<and> connection_peers_ok (key # seen) vs)"

definition token_ok :: "'h client_setup \<Rightarrow> bytes \<Rightarrow> bool" where
  "token_ok U token \<longleftrightarrow>
     (let decoded = hb_fromBase64 (su_hub U) token
      in length token = 43 \<and> length decoded = 32 \<and> lb_toBase64 (su_lib U) decoded = token)"

definition request_ok :: "'h client_setup \<Rightarrow> json_object \<Rightarrow> bool" where
  "request_ok U ob \<longleftrightarrow>
     \<not> (length ob \<noteq> 5 \<or> \<not> says ''telegram_user_id'' (su_subject U) ob
        \<or> to_int (- 1) (field ''consent_version'' ob) \<noteq> 1
        \<or> \<not> is_array (field ''initial_peers'' ob)
        \<or> to_string (field ''device_name'' ob) = []
        \<or> 128 < length (to_string (field ''device_name'' ob))
        \<or> to_string (field ''client_version'' ob) = []
        \<or> 40 < length (to_string (field ''client_version'' ob))
        \<or> MaxPolicyBytes < length (lb_compact (su_lib U) (JObject ob)))
     \<and> (let peers = to_array (field ''initial_peers'' ob)
        in \<not> 10000 < length peers \<and> connection_peers_ok [] peers)"

definition readConnection :: "'h client_setup \<Rightarrow> 'h client \<Rightarrow> 'h client \<times> bool" where
  "readConnection U c =
     (let c = c\<lparr>cl_connection := [], cl_connectionSubmitted := False\<rparr>; bs = connection_stored U c;
          bad = (changeStatus ConnectionInvalid c, False)
      in if bs = [] then (changeStatus NotConnectedYet c, False)
         else case ReadObject (lb_parse (su_lib U)) bs of
           None \<Rightarrow> bad
         | Some value \<Rightarrow>
             if to_int (- 1) (field ''v'' value) \<noteq> 1 \<or> \<not> says ''subject'' (su_subject U) value
                \<or> \<not> says ''origin'' (origin_text U) value \<or> \<not> says ''public_key'' (key_text U) value
             then bad
             else let decision = to_string (field ''decision'' value)
               in if decision = qlit ''declined'' \<or> decision = qlit ''rejected''
                  then (changeStatus (if decision = qlit ''declined'' then Declined else ConnectionRejected)
                          (c\<lparr>cl_connection := value\<rparr>), False)
                  else if decision \<noteq> qlit ''pending'' \<or> length value \<noteq> 7
                    \<or> \<not> is_object (field ''request'' value)
                    \<or> \<not> token_ok U (toLatin1 (to_string (field ''token'' value)))
                    \<or> \<not> request_ok U (to_object (field ''request'' value))
                  then bad
                  else (c\<lparr>cl_connection := value\<rparr>, True))"

section \<open>Asking and being answered\<close>

definition refreshConnection :: "'h client_setup \<Rightarrow> 'h client \<Rightarrow> 'h client" where
  "refreshConnection U c =
     (if cl_stopped c \<or> cl_busy c \<or> paired U c \<or> \<not> decided ''pending'' c then c
      else let c = changeStatus (Verifying (connectionFingerprint U c)) (c\<lparr>cl_timer := None\<rparr>);
               body = lb_compact (su_lib U) (JObject (to_object (field ''request'' (cl_connection c))))
           in request (if cl_connectionSubmitted c then Stage_Connection else Stage_Register)
                (su_connectionOrigin U) (if cl_connectionSubmitted c then [] else body)
                (connection_token c) After_Connection c)"

definition approved_state :: "'h client_setup \<Rightarrow> json_object \<Rightarrow> 'h client \<Rightarrow> managed_state" where
  "approved_state U value c =
     \<lparr>st_origin = su_connectionOrigin U, st_subject = su_subject U,
      st_device = to_string (field ''device_id'' value), st_publicKey = su_connectionKey U,
      st_token = connection_token c,
      st_envelope = lb_compact (su_lib U) (JObject (to_object (field ''policy'' value)))\<rparr>"

definition receiveConnection :: "'h client_setup \<Rightarrow> env \<Rightarrow> bytes \<Rightarrow> 'h client \<Rightarrow> 'h client" where
  "receiveConnection U e bs c =
     (let reject = later U (changeStatus DashboardInvalid c)
      in case ReadObject (lb_parse (su_lib U)) bs of
           None \<Rightarrow> reject
         | Some value \<Rightarrow>
             if to_int (- 1) (field ''v'' value) \<noteq> 1 \<or> \<not> says ''telegram_user_id'' (su_subject U) value
                \<or> \<not> says ''fingerprint'' (connectionFingerprint U c) value
                \<or> \<not> hex_id (to_string (field ''id'' value))
             then reject
             else let answer = to_string (field ''status'' value)
               in if answer = qlit ''pending'' \<and> length value = 5
                  then later U (changeStatus (AwaitingApproval (connectionFingerprint U c))
                         (c\<lparr>cl_connectionSubmitted := True\<rparr>))
                  else if answer = qlit ''rejected'' \<and> length value = 5
                  then (case persistConnection U e
                          (set_field ''decision'' (jstr ''rejected'') (cl_connection c)) c of
                          (c, False) \<Rightarrow> later U c
                        | (c, True) \<Rightarrow> changeStatus ConnectionRejected c)
                  else if answer = qlit ''approved'' \<and> length value = 7
                    \<and> is_object (field ''policy'' value) \<and> hex_id (to_string (field ''device_id'' value))
                  then acknowledge_or U (later U) (apply_state U e (approved_state U value c) c)
                  else reject)"

end
