(* ===== verification/Managed_Hub.thy ===== *)
theory Managed_Hub
  imports Managed_Connection
begin

text \<open>
  Enrollment through the hub (\<open>main/allowlist_hub_connection.inc\<close>), and the operations of
  \<open>ManagedClient\<close> that choose between it, the dashboard connection and the head itself:
  \<open>refresh\<close>, \<open>start\<close>, \<open>connectDashboard\<close> and the end of a request.
\<close>

section \<open>Keys and texts of the hub\<close>

definition HubEncoded :: "'h client_setup \<Rightarrow> bytes \<Rightarrow> bytes" where
  "HubEncoded U bs = lb_toBase64 (su_lib U) bs"

definition HubDecoded :: "'h client_setup \<Rightarrow> json option \<Rightarrow> bytes" where
  "HubDecoded U v =
     (let t = toLatin1 (to_string v); raw = hb_fromBase64 (su_hub U) t
      in if length raw = 32 \<and> HubEncoded U raw = t then raw else [])"

definition HubDigest :: "'h client_setup \<Rightarrow> bytes \<Rightarrow> bytes" where
  "HubDigest U bs = lb_sha256hex (su_lib U) bs"

definition HubPublic :: "'h client_setup \<Rightarrow> bytes \<Rightarrow> bytes" where
  "HubPublic U seed = (if length seed \<noteq> 32 then [] else hb_public (su_hub U) seed)"

definition HubSign :: "'h client_setup \<Rightarrow> bytes \<Rightarrow> bytes \<Rightarrow> bytes" where
  "HubSign U seed message =
     (case hb_sign (su_hub U) seed message of None \<Rightarrow> [] | Some s \<Rightarrow> HubEncoded U s)"

text \<open>\<open>toJson\<close> of a one-item array without its brackets.\<close>

definition item_text :: "managed_lib \<Rightarrow> qstring \<Rightarrow> bytes" where
  "item_text L s = butlast (drop 1 (lb_compact L (JArray [JString s])))"

definition canonical_peer :: "managed_lib \<Rightarrow> qstring \<times> qstring \<Rightarrow> bytes" where
  "canonical_peer L p =
     ''{'' @ quoted ''kind'' @ '':'' @ item_text L (fst p) @ '','' @ quoted ''id'' @ '':''
     @ item_text L (snd p) @ ''}''"

definition peer_pair :: "json \<Rightarrow> qstring \<times> qstring" where
  "peer_pair v = (let p = to_object (Some v)
     in (to_string (field ''kind'' p), to_string (field ''id'' p)))"

definition HubCanonicalPeers :: "managed_lib \<Rightarrow> json list \<Rightarrow> bytes" where
  "HubCanonicalPeers L peers =
     foldl (\<lambda>result p. result @ (if 1 < length result then '','' else []) @ canonical_peer L p)
       ''['' (sort (map peer_pair peers)) @ '']''"

definition HubSafeOrigin :: "url \<Rightarrow> bool" where
  "HubSafeOrigin u \<longleftrightarrow>
     url_scheme u = qlit ''https'' \<and> url_host u \<noteq> [] \<and> url_userInfo u = [] \<and> \<not> url_hasQuery u
     \<and> \<not> url_hasFragment u \<and> (url_path u = [] \<or> url_path u = qlit ''/'')"

fun label_points :: "(nat \<Rightarrow> bool) \<Rightarrow> nat \<Rightarrow> nat list \<Rightarrow> nat list" where
  "label_points other n [] = []"
| "label_points other n (p # ps) =
     (if other p then label_points other n ps
      else if 128 < Suc n then []
      else p # label_points other (Suc n) ps)"

definition HubChatLabel :: "hub_lib \<Rightarrow> qstring \<Rightarrow> qstring \<Rightarrow> qstring" where
  "HubChatLabel H title fallback =
     (let result = hb_trimmed H (concat (map (hb_fromUcs4 H)
            (label_points (hb_other H) 0 (hb_toUcs4 H (hb_trimmed H title)))))
      in if result = [] then fallback else result)"

section \<open>Enrollment\<close>

definition submitHubEnrollment :: "'h client_setup \<Rightarrow> 'h client \<Rightarrow> 'h client" where
  "submitHubEnrollment U c =
     request Stage_HubEnroll (su_hubOrigin U)
       (lb_compact (su_lib U) (JObject (to_object (field ''enroll_body'' (cl_connection c)))))
       [] After_HubEnroll c"

definition after_hub_enroll :: "'h client_setup \<Rightarrow> env \<Rightarrow> bytes \<Rightarrow> 'h client \<Rightarrow> 'h client" where
  "after_hub_enroll U e bs c =
     (let reject = later U (changeStatus HubEnrollmentRejected c)
      in case ReadObject (lb_parse (su_lib U)) bs of
           None \<Rightarrow> reject
         | Some value \<Rightarrow>
             if \<not> says ''status'' (qlit ''enrolled'') value
                \<or> hb_url (su_hub U) (to_string (field ''head_url'' value)) \<noteq> su_connectionOrigin U
                \<or> \<not> hex_id (to_string (field ''device_id'' value))
                \<or> \<not> is_object (field ''policy'' value)
             then reject
             else (case apply_state U e (approved_state U value c) c of
                     (c, False) \<Rightarrow> later U c
                   | (c, True) \<Rightarrow>
                       (case persistConnection U e
                          (remove_field ''expires_at'' (remove_field ''enroll_body''
                             (set_field ''decision'' (jstr ''hub-enrolled'') (cl_connection c)))) c of
                          (c, False) \<Rightarrow> later U c
                        | (c, True) \<Rightarrow> acknowledge U c)))"

definition hub_connection_ok :: "'h client_setup \<Rightarrow> json_object \<Rightarrow> bool" where
  "hub_connection_ok U value \<longleftrightarrow>
     \<not> (\<not> says ''subject'' (su_subject U) value \<or> \<not> says ''origin'' (origin_text U) value
        \<or> \<not> says ''public_key'' (fromLatin1 (HubEncoded U (su_connectionKey U))) value
        \<or> \<not> says ''hub_origin'' (lb_urlString (su_lib U) (su_hubOrigin U)) value
        \<or> HubDecoded U (field ''device_seed'' value) = []
        \<or> \<not> matches url_safe 43 (to_string (field ''token'' value))
        \<or> \<not> is_array (field ''initial_peers'' value)
        \<or> \<not> says ''decision'' (qlit ''hub-pending'') value \<and> \<not> says ''decision'' (qlit ''hub-enrolled'') value)"

text \<open>From a connection that is there: a challenge, or the enrollment that was left.\<close>

definition continue_hub :: "'h client_setup \<Rightarrow> env \<Rightarrow> 'h client \<Rightarrow> 'h client" where
  "continue_hub U e c =
     (if is_object (field ''enroll_body'' (cl_connection c))
         \<and> en_now e < to_integer (field ''expires_at'' (cl_connection c))
      then submitHubEnrollment U c
      else case persistConnection U e
             (remove_field ''expires_at'' (remove_field ''enroll_body'' (cl_connection c))) c of
        (c, False) \<Rightarrow> c
      | (c, True) \<Rightarrow>
          request Stage_HubChallenge (su_hubOrigin U)
            (lb_compact (su_lib U) (JObject
               [(qlit ''v'', jint 1),
                (qlit ''device_public_key'', JString (fromLatin1 (HubEncoded U (HubPublic U
                   (HubDecoded U (field ''device_seed'' (cl_connection c))))))),
                (qlit ''client_version'', jstr ''hub-integration-dev'')]))
            [] After_HubChallenge (changeStatus ConnectingHub c))"

definition new_hub_connection ::
  "'h client_setup \<Rightarrow> env \<Rightarrow> bytes \<Rightarrow> bytes \<Rightarrow> 'h client \<Rightarrow> 'h client" where
  "new_hub_connection U e seed random c =
     (let token = (case cl_state c of
            Some s \<Rightarrow> st_token s
          | None \<Rightarrow> if to_string (field ''token'' (cl_connection c)) \<noteq> [] then connection_token c
                    else HubEncoded U random);
          peers = initial_peers U c
      in if 10000 < length peers \<or> MaxPolicyBytes < length (lb_compact (su_lib U) (JArray peers)) then c
         else case persistConnection U e
                [(qlit ''v'', jint 2), (qlit ''decision'', jstr ''hub-pending''),
                 (qlit ''subject'', JString (su_subject U)), (qlit ''origin'', JString (origin_text U)),
                 (qlit ''public_key'', JString (fromLatin1 (HubEncoded U (su_connectionKey U)))),
                 (qlit ''hub_origin'', JString (lb_urlString (su_lib U) (su_hubOrigin U))),
                 (qlit ''token'', JString (fromLatin1 token)),
                 (qlit ''device_seed'', JString (fromLatin1 (HubEncoded U seed))),
                 (qlit ''initial_peers'', JArray peers)] c of
           (c, False) \<Rightarrow> c
         | (c, True) \<Rightarrow> continue_hub U e c)"

text \<open>The connection as it is stored: of version two, of the version before, or none.\<close>

definition stored_hub ::
  "('h client \<Rightarrow> 'h client) \<Rightarrow> 'h client_setup \<Rightarrow> env \<Rightarrow> json_object option \<Rightarrow> 'h client \<Rightarrow> 'h client" where
  "stored_hub again U e value c =
     (case value of
        Some ob \<Rightarrow>
          if to_int 0 (field ''v'' ob) = 2
          then (if \<not> hub_connection_ok U ob then changeStatus HubInvalid c
                else let c = c\<lparr>cl_connection := ob\<rparr>
                  in if \<not> hubReady c then continue_hub U e c
                     else if cl_state c \<noteq> None then again c
                     else changeStatus PolicyMissing c)
          else (case readConnection U c of
                  (c, ok) \<Rightarrow>
                    if \<not> ok \<and> cl_connection c = [] then c
                    else (case (en_random e, en_random2 e) of
                            (Some seed, Some random) \<Rightarrow> new_hub_connection U e seed random c
                          | _ \<Rightarrow> c))
      | None \<Rightarrow>
          (case (en_random e, en_random2 e) of
             (Some seed, Some random) \<Rightarrow> new_hub_connection U e seed random c
           | _ \<Rightarrow> c))"

text \<open>\<open>beginHubEnrollment\<close>, whose calls of \<open>refresh\<close> are those of \<open>again\<close>.\<close>

definition begin_hub :: "('h client \<Rightarrow> 'h client) \<Rightarrow> 'h client_setup \<Rightarrow> env \<Rightarrow> 'h client \<Rightarrow> 'h client" where
  "begin_hub again U e c =
     (if cl_stopped c \<or> cl_busy c \<or> \<not> su_hubProof U \<or> paired U c \<and> cl_state c = None then c
      else if \<not> su_configured U (cl_host c) then later U (changeStatus ChooseForHub c)
      else if \<not> HubSafeOrigin (su_hubOrigin U) \<or> \<not> has_connection U
      then (if cl_state c \<noteq> None then again (c\<lparr>cl_hubSuppressed := True\<rparr>)
            else later U (changeStatus HubNotConfigured c))
      else if (case cl_state c of
                 None \<Rightarrow> False
               | Some s \<Rightarrow> st_origin s \<noteq> su_connectionOrigin U \<or> st_publicKey s \<noteq> su_connectionKey U)
      then again (c\<lparr>cl_hubSuppressed := True\<rparr>)
      else let saved = connection_stored U c;
               value = (if saved = [] then None else ReadObject (lb_parse (su_lib U)) saved)
           in if saved \<noteq> [] \<and> value = None then changeStatus ConnectionInvalid c
              else stored_hub again U e value c)"

section \<open>The proof\<close>

definition start_param_ok :: "qstring \<Rightarrow> bool" where
  "start_param_ok s \<longleftrightarrow> take 4 s = qlit ''agc_'' \<and> matches url_safe 22 (drop 4 s)"

definition receiveHubChallenge :: "'h client_setup \<Rightarrow> env \<Rightarrow> bytes \<Rightarrow> 'h client \<Rightarrow> 'h client" where
  "receiveHubChallenge U e bs c =
     (let reject = later U (changeStatus ChallengeRejected c)
      in case ReadObject (lb_parse (su_lib U)) bs of
           None \<Rightarrow> reject
         | Some value \<Rightarrow>
             if to_int 0 (field ''v'' value) \<noteq> 1 \<or> \<not> says ''bot_id'' (qlit ''8558994389'') value
                \<or> \<not> says ''bot_username'' (qlit ''ClassAAssistant_bot'') value
                \<or> \<not> hex_id (to_string (field ''challenge_id'' value))
                \<or> \<not> start_param_ok (to_string (field ''start_param'' value))
                \<or> to_integer (field ''expires_at'' value) \<le> en_now e
                \<or> en_now e + 360 < to_integer (field ''expires_at'' value)
             then reject
             else c\<lparr>cl_busy := True, cl_proofGeneration := cl_proofGeneration c + 1,
                    cl_proofDeadline := True,
                    cl_proofs := cl_proofs c @ [(cl_proofGeneration c + 1, value)]\<rparr>)"

definition proof_message :: "'h client_setup \<Rightarrow> json_object \<Rightarrow> bytes \<Rightarrow> 'h client \<Rightarrow> bytes" where
  "proof_message U challenge prf c =
     ''ALLOWGRAM_HUB_ENROLL_V1'' @ [CHR 0x0A]
     @ toLatin1 (to_string (field ''challenge_id'' challenge)) @ [CHR 0x0A] @ HubDigest U prf @ [CHR 0x0A]
     @ HubDigest U (HubCanonicalPeers (su_lib U) (to_array (field ''initial_peers'' (cl_connection c))))
     @ [CHR 0x0A] @ HubDigest U (connection_token c)"

definition enroll_body :: "'h client_setup \<Rightarrow> json_object \<Rightarrow> bytes \<Rightarrow> bytes \<Rightarrow> bytes \<Rightarrow> 'h client \<Rightarrow> json" where
  "enroll_body U challenge prf seed signature c =
     JObject
       [(qlit ''v'', jint 1), (qlit ''challenge_id'', JString (to_string (field ''challenge_id'' challenge))),
        (qlit ''init_data'', JString (lb_fromUtf8 (su_lib U) prf)),
        (qlit ''device'', JObject
           [(qlit ''public_key'', JString (fromLatin1 (HubEncoded U (HubPublic U seed)))),
            (qlit ''name'', jstr ''Allowgram Desktop''), (qlit ''client_version'', jstr ''hub-integration-dev''),
            (qlit ''credential_hash'', JString (fromLatin1 (HubDigest U (connection_token c))))]),
        (qlit ''initial_peers'', JArray (to_array (field ''initial_peers'' (cl_connection c)))),
        (qlit ''device_sig'', JString (fromLatin1 signature))]"

definition proof_ready ::
  "'h client_setup \<Rightarrow> env \<Rightarrow> nat \<Rightarrow> json_object \<Rightarrow> bytes \<Rightarrow> 'h client \<Rightarrow> 'h client" where
  "proof_ready U e generation challenge prf c =
     (if cl_stopped c \<or> generation \<noteq> cl_proofGeneration c then c
      else let c = c\<lparr>cl_proofDeadline := False, cl_busy := False\<rparr>
        in if prf = [] \<or> 32768 < length prf then later U (changeStatus ProofUnavailable c)
           else let seed = HubDecoded U (field ''device_seed'' (cl_connection c));
                    signature = HubSign U seed (proof_message U challenge prf c)
             in if signature = [] then later U c
                else case persistConnection U e
                       (assign_field ''expires_at'' (field ''expires_at'' challenge)
                          (set_field ''enroll_body'' (enroll_body U challenge prf seed signature c)
                             (cl_connection c))) c of
                  (c, False) \<Rightarrow> c
                | (c, True) \<Rightarrow> submitHubEnrollment U c)"

definition proof_timeout :: "'h client_setup \<Rightarrow> 'h client \<Rightarrow> 'h client" where
  "proof_timeout U c =
     later U (changeStatus ProofTimedOut
       (c\<lparr>cl_proofDeadline := False, cl_proofGeneration := cl_proofGeneration c + 1, cl_busy := False\<rparr>))"

section \<open>Refreshing\<close>

text \<open>\<open>refresh\<close>, whose call of \<open>beginHubEnrollment\<close> is that of \<open>hub\<close>.\<close>

definition refresh_with :: "('h client \<Rightarrow> 'h client) \<Rightarrow> 'h client_setup \<Rightarrow> 'h client \<Rightarrow> 'h client" where
  "refresh_with hub U c =
     (if cl_stopped c \<or> cl_busy c then c
      else if paired U c \<and> cl_state c = None then c
      else if su_hubProof U \<and> \<not> cl_hubSuppressed c \<and> \<not> hubReady c then hub c
      else case cl_state c of
        None \<Rightarrow> refreshConnection U c
      | Some s \<Rightarrow>
          let c = c\<lparr>cl_timer := None\<rparr>
          in if su_liveSync U \<and> cl_ackPending c then acknowledge U c
             else request (if su_liveSync U \<and> cl_waitSupported c then Stage_Wait else Stage_Policy)
                    (st_origin s) [] (st_token s) After_Policy c)"

text \<open>The two call each other; the second \<open>refresh\<close> does not call \<open>beginHubEnrollment\<close> again.\<close>

definition beginHubEnrollment :: "'h client_setup \<Rightarrow> env \<Rightarrow> 'h client \<Rightarrow> 'h client" where
  "beginHubEnrollment U e c = begin_hub (refresh_with (\<lambda>c. c) U) U e c"

definition refresh :: "'h client_setup \<Rightarrow> env \<Rightarrow> 'h client \<Rightarrow> 'h client" where
  "refresh U e c = refresh_with (beginHubEnrollment U e) U c"

definition start :: "'h client_setup \<Rightarrow> env \<Rightarrow> 'h client \<Rightarrow> 'h client" where
  "start U e c =
     (if cl_stopped c \<or> cl_busy c then c
      else let saved = su_stored U (cl_host c)
        in if saved = []
           then (if su_hubProof U then beginHubEnrollment U e c
                 else case readConnection U c of
                   (c, True) \<Rightarrow> refreshConnection U c
                 | (c, False) \<Rightarrow> c)
           else case ReadState (su_lib U) saved (su_subject U) (en_now e) of
             None \<Rightarrow> changeStatus InvalidSettings (c\<lparr>cl_state := None\<rparr>)
           | Some s \<Rightarrow>
               let c = deref_policy (c\<lparr>cl_state := Some s,
                     cl_policy := VerifyPolicy (su_lib U) (st_envelope s) (st_publicKey s) (su_subject U)
                       (st_device s) 0 [] (en_now e),
                     cl_ackPending := su_liveSync U\<rparr>)
               in refresh U e (changeStatus (UsingRevision (revision c)) c))"

definition connectDashboard :: "'h client_setup \<Rightarrow> env \<Rightarrow> 'h client \<Rightarrow> 'h client \<times> bool" where
  "connectDashboard U e c =
     (if su_hubProof U then (let c = refresh U e c in (c, \<not> cl_stopped c))
      else if cl_stopped c \<or> cl_busy c \<or> paired U c \<or> \<not> su_configured U (cl_host c) \<or> \<not> has_connection U
      then (c, False)
      else if decided ''pending'' c then (refreshConnection U c, True)
      else case en_random e of
        None \<Rightarrow> (changeStatus NoSecureRandom c, False)
      | Some random \<Rightarrow>
          let peers = initial_peers U c;
              body = [(qlit ''telegram_user_id'', JString (su_subject U)), (qlit ''initial_peers'', JArray peers),
                      (qlit ''device_name'', jstr ''Allowgram Desktop''),
                      (qlit ''client_version'', jstr ''7.2.8.12''), (qlit ''consent_version'', jint 1)]
          in if 10000 < length peers \<or> MaxPolicyBytes < length (lb_compact (su_lib U) (JObject body))
             then (c, False)
             else case persistConnection U e
                    [(qlit ''v'', jint 1), (qlit ''decision'', jstr ''pending''),
                     (qlit ''subject'', JString (su_subject U)), (qlit ''origin'', JString (origin_text U)),
                     (qlit ''public_key'', JString (key_text U)),
                     (qlit ''token'', JString (Encode (su_lib U) random)), (qlit ''request'', JObject body)] c of
               (c, False) \<Rightarrow> (c, False)
             | (c, True) \<Rightarrow> (refreshConnection U (c\<lparr>cl_connectionSubmitted := False\<rparr>), True))"

section \<open>The end of a request\<close>

text \<open>What arrives of a body; \<open>True\<close> is \<open>oversized\<close>.\<close>

definition consume :: "bytes \<times> bool \<Rightarrow> bytes \<Rightarrow> bytes \<times> bool" where
  "consume received available =
     (if snd received then received
      else if MaxWireBytes - length (fst received) < length available then (fst received, True)
      else (fst received @ available, False))"

record outcome =
  oc_chunks :: "bytes list" \<comment> \<open>as they became available\<close>
  oc_error :: bool
  oc_status :: int

definition run_after :: "'h client_setup \<Rightarrow> env \<Rightarrow> after \<Rightarrow> bytes \<Rightarrow> 'h client \<Rightarrow> 'h client" where
  "run_after U e next bs c =
     (case next of
        After_Policy \<Rightarrow> after_policy U e bs c
      | After_Enroll invited \<Rightarrow> after_enroll U e invited bs c
      | After_Ack \<Rightarrow> after_ack U e bs c
      | After_Connection \<Rightarrow> receiveConnection U e bs c
      | After_HubChallenge \<Rightarrow> receiveHubChallenge U e bs c
      | After_HubEnroll \<Rightarrow> after_hub_enroll U e bs c)"

definition finished :: "'h client_setup \<Rightarrow> env \<Rightarrow> outcome \<Rightarrow> 'h client \<Rightarrow> 'h client" where
  "finished U e r c =
     (case cl_reply c of
        None \<Rightarrow> c
      | Some (s, next) \<Rightarrow>
          if cl_stopped c then c
          else let (bs, oversized) = foldl consume ([], False) (oc_chunks r); st = oc_status r;
                   success = (\<not> oversized \<and> \<not> oc_error r \<and> 200 \<le> st \<and> st < 300);
                   c = c\<lparr>cl_reply := None, cl_busy := False\<rparr>
            in if s = Stage_Wait \<and> \<not> oversized \<and> (st = 404 \<or> st = 405)
               then later U (c\<lparr>cl_waitSupported := False\<rparr>)
               else if s = Stage_Wait \<and> success \<and> st = 204
               then (if bs \<noteq> [] then later U c
                     else let c = deref_policy c
                       in (reportChats U e (changeStatus (RemainsActive (revision c)) c))\<lparr>cl_timer := Some 100\<rparr>)
               else if s = Stage_Ack \<and> \<not> oversized \<and> st = 409
               then later U (changeStatus NewerAvailable (c\<lparr>cl_ackPending := False\<rparr>))
               else if \<not> success
               then later U (changeStatus (if st = 401 \<or> st = 403 then SyncDenied else HeadUnreachable) c)
               else run_after U e next bs c)"

section \<open>The chat list\<close>

definition chats_loaded :: "'h client_setup \<Rightarrow> json list \<Rightarrow> 'h client \<Rightarrow> 'h client" where
  "chats_loaded U chats c =
     (case cl_chatsWalk c of
        None \<Rightarrow> c
      | Some (origin, token) \<Rightarrow>
          if cl_stopped c then c\<lparr>cl_chatsWalk := None\<rparr>
          else let c = c\<lparr>cl_chatsWalk := None, cl_chatsLoading := False\<rparr>
            in if chats = [] \<or> (case cl_state c of
                   None \<Rightarrow> True
                 | Some s \<Rightarrow> st_origin s \<noteq> origin \<or> st_token s \<noteq> token) then c
               else let clean = map (\<lambda>v. let chat = to_object (Some v); i = to_string (field ''id'' chat)
                          in JObject (assign_field ''kind'' (field ''kind'' chat)
                               [(qlit ''id'', JString i), (qlit ''label'', JString (HubChatLabel (su_hub U)
                                  (to_string (field ''label'' chat)) i))])) chats
                 in c\<lparr>cl_sent := cl_sent c @ [\<lparr>rq_stage = None, rq_origin = origin,
                       rq_path = ''/api/client/chats'',
                       rq_body = lb_compact (su_lib U) (JObject [(qlit ''v'', jint 1), (qlit ''chats'', JArray clean)]),
                       rq_token = token\<rparr>]\<rparr>)"

end
