(* ===== verification/Managed_Run.thy ===== *)
theory Managed_Run
  imports Managed_Hub
begin

text \<open>
  Runs of a managed client: what can happen to it, and what stays true.  The host's contract
  is the locale \<open>managed_host\<close>: a commit that succeeds is what is stored afterwards, and
  nothing else changes what is stored.
\<close>

section \<open>The two operations that call each other\<close>

lemma refresh_with_direct:
  "cl_hubSuppressed c \<or> hubReady c \<Longrightarrow> refresh_with f U c = refresh_with g U c"
  by (auto simp: refresh_with_def)

lemma begin_hub_direct: "begin_hub (refresh_with f U) U e c = begin_hub (refresh_with g U) U e c"
proof -
  have again: "refresh_with f U (d\<lparr>cl_hubSuppressed := True\<rparr>) = refresh_with g U (d\<lparr>cl_hubSuppressed := True\<rparr>)" for d
    by (rule refresh_with_direct) simp
  have "stored_hub (refresh_with f U) U e v d = stored_hub (refresh_with g U) U e v d" for v d
    by (auto simp: stored_hub_def Let_def intro: refresh_with_direct split: option.split)
  then show ?thesis by (simp add: begin_hub_def again Let_def)
qed

text \<open>\<open>refresh\<close> and \<open>beginHubEnrollment\<close>, which call each other, return: the inner \<open>refresh\<close> never
  enters the enrollment again, so the two-level definitions solve the code's recursive equations.\<close>

theorem refresh_returns:
  "refresh U e c = refresh_with (beginHubEnrollment U e) U c
   \<and> beginHubEnrollment U e c = begin_hub (refresh U e) U e c"
proof -
  have "refresh U e = refresh_with (beginHubEnrollment U e) U" by (rule ext) (simp add: refresh_def)
  then show ?thesis using begin_hub_direct by (simp add: beginHubEnrollment_def)
qed

section \<open>Events\<close>

datatype event =
  Refresh | Pair qstring | Connect | Decline | Consent | Timer | Finished outcome | Proof nat bytes
| ProofTimeout | Chats "json list" | Stop

definition step :: "'h client_setup \<Rightarrow> env \<Rightarrow> event \<Rightarrow> 'h client \<Rightarrow> 'h client" where
  "step U e ev c =
     (case ev of
        Refresh \<Rightarrow> refresh U e c
      | Pair invited \<Rightarrow> fst (pair U invited c)
      | Connect \<Rightarrow> fst (connectDashboard U e c)
      | Decline \<Rightarrow> fst (declineDashboard U e c)
      | Consent \<Rightarrow> fst (claimConsentPrompt U c)
      | Timer \<Rightarrow> if cl_timer c = None then c else refresh U e (c\<lparr>cl_timer := None\<rparr>)
      | Finished r \<Rightarrow> finished U e r c
      | Proof n prf \<Rightarrow>
          if length (cl_proofs c) \<le> n then c
          else proof_ready U e (fst (cl_proofs c ! n)) (snd (cl_proofs c ! n)) prf
                 (c\<lparr>cl_proofs := take n (cl_proofs c) @ drop (Suc n) (cl_proofs c)\<rparr>)
      | ProofTimeout \<Rightarrow> if cl_proofDeadline c then proof_timeout U c else c
      | Chats chats \<Rightarrow> chats_loaded U chats c
      | Stop \<Rightarrow> stop c)"

text \<open>Between events the host may change, but not what it has stored of the policy.\<close>

inductive reachable :: "'h client_setup \<Rightarrow> 'h client \<Rightarrow> bool" for U where
  started: "reachable U (start U e (ManagedClient h))"
| stepped: "reachable U c \<Longrightarrow> reachable U (step U e ev c)"
| host: "reachable U c \<Longrightarrow> su_stored U h = su_stored U (cl_host c) \<Longrightarrow> reachable U (c\<lparr>cl_host := h\<rparr>)"

section \<open>What is kept\<close>

definition held :: "'h client_setup \<Rightarrow> managed_state \<Rightarrow> policy \<Rightarrow> bool" where
  "held U s p \<longleftrightarrow> (\<exists>r b now. VerifyPolicy (su_lib U) (st_envelope s) (st_publicKey s) (su_subject U)
     (st_device s) r b now = Some p)"

definition needs_state :: "stage \<Rightarrow> after \<Rightarrow> bool" where
  "needs_state s a \<longleftrightarrow> s = Stage_Wait \<or> a = After_Policy \<or> a = After_Ack"

definition reply_ok :: "'h client_setup \<Rightarrow> 'h client \<Rightarrow> bool" where
  "reply_ok U c \<longleftrightarrow>
     (case cl_reply c of
        None \<Rightarrow> True
      | Some (s, a) \<Rightarrow> (needs_state s a \<longrightarrow> cl_state c \<noteq> None)
          \<and> (\<forall>iv. a = After_Enroll iv \<longrightarrow> iv_subject iv = su_subject U))"

definition client_ok :: "'h client_setup \<Rightarrow> 'h client \<Rightarrow> bool" where
  "client_ok U c \<longleftrightarrow>
     \<not> cl_crashed c \<and> (cl_state c = None \<longleftrightarrow> cl_policy c = None)
     \<and> (\<forall>s. cl_state c = Some s \<longrightarrow> st_subject s = su_subject U
          \<and> (\<forall>p. cl_policy c = Some p \<longrightarrow> held U s p))
     \<and> reply_ok U c"

text \<open>From one client to a later one: the head is the same, the policy the same or newer, and
  what changed is stored.\<close>

definition same_head :: "managed_state \<Rightarrow> managed_state \<Rightarrow> bool" where
  "same_head s t \<longleftrightarrow> st_origin s = st_origin t \<and> st_publicKey s = st_publicKey t
     \<and> st_device s = st_device t \<and> st_subject s = st_subject t"

definition unchanged :: "'h client_setup \<Rightarrow> 'h client \<Rightarrow> 'h client \<Rightarrow> bool" where
  "unchanged U c d \<longleftrightarrow> cl_state d = cl_state c \<and> cl_policy d = cl_policy c
     \<and> su_stored U (cl_host d) = su_stored U (cl_host c)"

definition applied :: "'h client_setup \<Rightarrow> 'h client \<Rightarrow> 'h client \<Rightarrow> bool" where
  "applied U c d \<longleftrightarrow>
     (\<exists>s p. cl_state d = Some s \<and> cl_policy d = Some p \<and> su_stored U (cl_host d) = SaveState (su_lib U) s
        \<and> (\<forall>t. cl_state c = Some t \<longrightarrow> same_head s t)
        \<and> (\<forall>q. cl_policy c = Some q \<longrightarrow> po_revision q < po_revision p \<or> p = q))"

definition advances :: "'h client_setup \<Rightarrow> 'h client \<Rightarrow> 'h client \<Rightarrow> bool" where
  "advances U c d \<longleftrightarrow> unchanged U c d \<or> applied U c d"

lemma advances_refl [simp, intro]: "advances U c c"
  by (simp add: advances_def unchanged_def)

lemma advances_trans: "advances U c d \<Longrightarrow> advances U d f \<Longrightarrow> advances U c f"
  unfolding advances_def unchanged_def applied_def same_head_def by fastforce

definition good :: "'h client_setup \<Rightarrow> 'h client \<Rightarrow> 'h client \<Rightarrow> bool" where
  "good U c d \<longleftrightarrow> (client_ok U c \<longrightarrow> client_ok U d \<and> advances U c d)"

lemma good_refl [simp, intro]: "good U c c" by (simp add: good_def)

lemma good_trans: "good U c d \<Longrightarrow> good U d f \<Longrightarrow> good U c f"
  unfolding good_def using advances_trans by blast

named_theorems good_intros

section \<open>Operations that keep it\<close>

lemma good_same:
  assumes "good U c0 c" "cl_state d = cl_state c" "cl_policy d = cl_policy c" "cl_crashed d = cl_crashed c"
    "su_stored U (cl_host d) = su_stored U (cl_host c)" "cl_reply d = cl_reply c \<or> cl_reply d = None"
  shows "good U c0 d"
proof -
  have "good U c d"
    using assms(2-6) by (auto simp: good_def client_ok_def reply_ok_def advances_def unchanged_def split: option.splits)
  with assms(1) show ?thesis by (rule good_trans)
qed

lemma good_fields [good_intros]:
  assumes "good U c0 c"
  shows "good U c0 (cl_connection_update f1 c)" "good U c0 (cl_proofDeadline_update f2 c)"
    "good U c0 (cl_proofGeneration_update f3 c)" "good U c0 (cl_proofs_update f4 c)"
    "good U c0 (cl_chatsReportedAt_update f5 c)" "good U c0 (cl_chatsLoading_update f6 c)"
    "good U c0 (cl_chatsWalk_update f7 c)" "good U c0 (cl_hubSuppressed_update f8 c)"
    "good U c0 (cl_connectionSubmitted_update f9 c)" "good U c0 (cl_promptShown_update f10 c)"
    "good U c0 (cl_timer_update f11 c)" "good U c0 (cl_busy_update f12 c)"
    "good U c0 (cl_stopped_update f13 c)" "good U c0 (cl_ackPending_update f14 c)"
    "good U c0 (cl_waitSupported_update f15 c)" "good U c0 (cl_sent_update f16 c)"
    "good U c0 (changeStatus t c)" "good U c0 (later U c)" "good U c0 (c\<lparr>cl_reply := None\<rparr>)"
  by (rule good_same [OF assms]; simp add: changeStatus_def later_def)+

lemma good_if [good_intros]:
  "(b \<Longrightarrow> good U c0 x) \<Longrightarrow> (\<not> b \<Longrightarrow> good U c0 y) \<Longrightarrow> good U c0 (if b then x else y)" by simp

lemma good_let [good_intros]: "good U c0 (f t) \<Longrightarrow> good U c0 (Let t f)" by simp

lemma good_option [good_intros]:
  "(m = None \<Longrightarrow> good U c0 x) \<Longrightarrow> (\<And>v. m = Some v \<Longrightarrow> good U c0 (f v))
     \<Longrightarrow> good U c0 (case m of None \<Rightarrow> x | Some v \<Rightarrow> f v)"
  by (cases m) simp_all

lemma good_result [good_intros]:
  assumes "good U c0 (fst r)" "\<And>d. good U c0 d \<Longrightarrow> good U c0 (f d)" "\<And>d. good U c0 d \<Longrightarrow> good U c0 (g d)"
  shows "good U c0 (case r of (d, True) \<Rightarrow> g d | (d, False) \<Rightarrow> f d)"
  using assms by (cases r) (simp split: bool.split)

lemma good_request [good_intros]:
  assumes "good U c0 c" "needs_state s a \<Longrightarrow> cl_state c \<noteq> None" "\<And>iv. a = After_Enroll iv \<Longrightarrow> iv_subject iv = su_subject U"
  shows "good U c0 (request s origin body token a c)"
proof -
  have "good U c (request s origin body token a c)"
  proof (cases "cl_stopped c \<or> cl_busy c")
    case False
    have "cl_policy c \<noteq> None" if "client_ok U c" "s = Stage_Wait"
      using that assms(2) by (auto simp: client_ok_def needs_state_def)
    with False assms(2,3) show ?thesis
      by (auto simp: good_def request_def client_ok_def reply_ok_def advances_def unchanged_def deref_policy_def Let_def)
  qed (simp add: request_def)
  with assms(1) show ?thesis by (rule good_trans)
qed

lemma good_acknowledge [good_intros]: "good U c0 c \<Longrightarrow> good U c0 (acknowledge U c)"
  unfolding acknowledge_def by (auto intro!: good_intros split: option.split)

lemma good_stop [good_intros]: "good U c0 c \<Longrightarrow> good U c0 (stop c)"
  by (rule good_same) (simp_all add: stop_def)

lemma good_deref [good_intros]:
  assumes "good U c0 c" "cl_state c \<noteq> None" shows "good U c0 (deref_policy c)"
proof (cases "cl_policy c = None")
  case True
  then have "\<not> client_ok U c" using assms(2) by (simp add: client_ok_def)
  then have "\<not> client_ok U c0" using assms(1) by (auto simp: good_def)
  then show ?thesis by (simp add: good_def)
qed (use assms in \<open>auto simp: deref_policy_def\<close>)

lemma good_reportChats [good_intros]: "good U c0 c \<Longrightarrow> good U c0 (reportChats U e c)"
  unfolding reportChats_def by (auto intro!: good_intros split: option.split)

lemma good_refreshConnection [good_intros]: "good U c0 c \<Longrightarrow> good U c0 (refreshConnection U c)"
  unfolding refreshConnection_def Let_def by (auto intro!: good_intros simp: needs_state_def)

lemma state_reportChats [simp]: "cl_state (reportChats U e c) = cl_state c"
  by (simp add: reportChats_def split: option.split)

lemma state_changeStatus [simp]: "cl_state (changeStatus t c) = cl_state c"
  by (simp add: changeStatus_def)

text \<open>The same for operations that also return whether they succeeded.\<close>

lemma good_fst [good_intros]:
  shows "good U c0 d \<Longrightarrow> good U c0 (fst (d, b))"
    and "(P \<Longrightarrow> good U c0 (fst x)) \<Longrightarrow> (\<not> P \<Longrightarrow> good U c0 (fst y)) \<Longrightarrow> good U c0 (fst (if P then x else y))"
    and "good U c0 (fst (f t)) \<Longrightarrow> good U c0 (fst (Let t f))"
    and "(m = None \<Longrightarrow> good U c0 (fst x)) \<Longrightarrow> (\<And>v. m = Some v \<Longrightarrow> good U c0 (fst (g v)))
       \<Longrightarrow> good U c0 (fst (case m of None \<Rightarrow> x | Some v \<Rightarrow> g v))"
  by (simp_all split: option.split)

lemma good_fst_result [good_intros]:
  assumes "good U c0 (fst r)" "\<And>d. good U c0 d \<Longrightarrow> good U c0 (fst (f d))"
    "\<And>d. good U c0 d \<Longrightarrow> good U c0 (fst (g d))"
  shows "good U c0 (fst (case r of (d, True) \<Rightarrow> g d | (d, False) \<Rightarrow> f d))"
  using assms by (cases r) (simp split: bool.split)

lemma good_commit:
  fixes r :: "'x \<times> bool"
  shows "(\<And>h. r = (h, False) \<Longrightarrow> good U c0 (fst (f h))) \<Longrightarrow> (\<And>h. r = (h, True) \<Longrightarrow> good U c0 (fst (g h)))
    \<Longrightarrow> good U c0 (fst (case r of (h, True) \<Rightarrow> g h | (h, False) \<Rightarrow> f h))"
  by (cases r) (simp split: bool.split)

lemma readConnection_good [good_intros]: "good U c0 c \<Longrightarrow> good U c0 (fst (readConnection U c))"
  unfolding readConnection_def by (intro good_intros)

section \<open>A host that stores what it commits\<close>

locale managed_host =
  fixes U :: "'h client_setup"
  assumes commit_stores: "su_commit U e b h = (h', True) \<Longrightarrow> su_stored U h' = b"
    and commit_fails: "su_commit U e b h = (h', False) \<Longrightarrow> su_stored U h' = su_stored U h"
    and commit_nonempty: "su_commit U e b h = (h', True) \<Longrightarrow> b \<noteq> []"
    and connection_commit: "su_connectionCommit U = Some f \<Longrightarrow> f e b h = (h', ok) \<Longrightarrow> su_stored U h' = su_stored U h"
begin

lemma good_host: "good U c0 c \<Longrightarrow> su_stored U h = su_stored U (cl_host c) \<Longrightarrow> good U c0 (c\<lparr>cl_host := h\<rparr>)"
  by (erule good_same) simp_all

lemma persistConnection_good [good_intros]:
  "good U c0 c \<Longrightarrow> good U c0 (fst (persistConnection U e v c))"
  unfolding persistConnection_def
  by (intro good_intros good_host good_commit; (assumption | simp add: connection_commit))

lemma apply_state_good [good_intros]:
  assumes "good U c0 c" "st_subject s = su_subject U"
  shows "good U c0 (fst (apply_state U e s c))"
proof -
  have committed: "good U c (c\<lparr>cl_host := h, cl_state := Some s, cl_policy := Some p\<rparr>)"
    (is "good U c ?d")
    if pinned: "\<not> (case cl_state c of None \<Rightarrow> False
          | Some t \<Rightarrow> st_origin s \<noteq> st_origin t \<or> st_publicKey s \<noteq> st_publicKey t
              \<or> st_device s \<noteq> st_device t \<or> st_subject s \<noteq> su_subject U)"
      and V: "VerifyPolicy (su_lib U) (st_envelope s) (st_publicKey s) (su_subject U) (st_device s)
          (revision c) (case cl_policy c of None \<Rightarrow> [] | Some p \<Rightarrow> po_bytes p) (en_now e) = Some p"
      and h: "su_commit U e (SaveState (su_lib U) s) (cl_host c) = (h, True)"
    for p h
  proof -
    have held: "held U s p" using V by (auto simp: held_def)
    have "applied U c ?d" if ok: "client_ok U c"
    proof -
      have head: "same_head s t" if "cl_state c = Some t" for t
        using that pinned ok assms(2) by (auto simp: same_head_def client_ok_def)
      have "po_revision q < po_revision p \<or> p = q" if q: "cl_policy c = Some q" for q
      proof -
        obtain t where t: "cl_state c = Some t" using ok q by (auto simp: client_ok_def)
        have "held U t q" using ok q t by (auto simp: client_ok_def)
        then obtain r b now where Q: "VerifyPolicy (su_lib U) (st_envelope t) (st_publicKey t) (su_subject U)
            (st_device t) r b now = Some q" by (auto simp: held_def)
        have "st_device t = st_device s" using head [OF t] by (simp add: same_head_def)
        with VerifyPolicy_unique [OF V, of _ _ r b now q] Q
        have "po_bytes p = po_bytes q \<Longrightarrow> p = q" by simp
        with VerifyPolicy_SomeD(3,5) [OF V] q show ?thesis by (fastforce simp: revision_def)
      qed
      with head commit_stores [OF h] show ?thesis by (auto simp: applied_def)
    qed
    moreover have "client_ok U ?d" if "client_ok U c"
      using that held assms(2) by (auto simp: client_ok_def reply_ok_def split: option.splits)
    ultimately show ?thesis by (simp add: good_def advances_def)
  qed
  have "good U c (fst (apply_state U e s c))"
    unfolding apply_state_def
    by (intro good_intros good_host good_commit; (rule committed; assumption | simp add: commit_fails))
  with assms(1) show ?thesis by (rule good_trans)
qed

lemma approved_state_subject [simp]: "st_subject (approved_state U v c) = su_subject U"
  by (simp add: approved_state_def)

lemma good_acknowledge_or [good_intros]:
  "good U c0 (fst r) \<Longrightarrow> (\<And>d. good U c0 d \<Longrightarrow> good U c0 (f d)) \<Longrightarrow> good U c0 (acknowledge_or U f r)"
  by (auto simp: acknowledge_or_def intro!: good_acknowledge split: prod.split bool.split)

lemma receiveConnection_good [good_intros]: "good U c0 c \<Longrightarrow> good U c0 (receiveConnection U e bs c)"
  unfolding receiveConnection_def
  by (intro good_intros; simp)

lemma submitHubEnrollment_good [good_intros]: "good U c0 c \<Longrightarrow> good U c0 (submitHubEnrollment U c)"
  unfolding submitHubEnrollment_def by (intro good_intros) (simp_all add: needs_state_def)

lemma after_hub_enroll_good [good_intros]: "good U c0 c \<Longrightarrow> good U c0 (after_hub_enroll U e bs c)"
  unfolding after_hub_enroll_def
  by (intro good_intros; simp)

lemma continue_hub_good [good_intros]: "good U c0 c \<Longrightarrow> good U c0 (continue_hub U e c)"
  unfolding continue_hub_def by (intro good_intros; simp add: needs_state_def)

lemma new_hub_connection_good [good_intros]: "good U c0 c \<Longrightarrow> good U c0 (new_hub_connection U e seed random c)"
  unfolding new_hub_connection_def by (intro good_intros; simp)

lemma stored_hub_good [good_intros]:
  assumes "good U c0 c" "\<And>d. good U c0 d \<Longrightarrow> good U c0 (again d)"
  shows "good U c0 (stored_hub again U e v c)"
proof -
  have random: "good U c0 (case (en_random e, en_random2 e) of
      (Some seed, Some random) \<Rightarrow> new_hub_connection U e seed random d | _ \<Rightarrow> d)" if "good U c0 d" for d
    unfolding prod.case by (intro good_intros that)
  have "good U c0 (case readConnection U c of (d, ok) \<Rightarrow>
      if \<not> ok \<and> cl_connection d = [] then d
      else (case (en_random e, en_random2 e) of
        (Some seed, Some random) \<Rightarrow> new_hub_connection U e seed random d | _ \<Rightarrow> d))"
    using readConnection_good [OF assms(1)] random by (cases "readConnection U c") simp
  then show ?thesis unfolding stored_hub_def by (intro good_intros assms random)
qed

lemma begin_hub_good [good_intros]:
  assumes "good U c0 c" "\<And>d. good U c0 d \<Longrightarrow> good U c0 (again d)"
  shows "good U c0 (begin_hub again U e c)"
  unfolding begin_hub_def by (intro good_intros assms)

lemma refresh_with_good [good_intros]:
  assumes "good U c0 c" "\<And>d. good U c0 d \<Longrightarrow> good U c0 (hub d)"
  shows "good U c0 (refresh_with hub U c)"
  unfolding refresh_with_def by (intro good_intros assms; simp)

lemma refresh_good [good_intros]: "good U c0 c \<Longrightarrow> good U c0 (refresh U e c)"
  unfolding refresh_def beginHubEnrollment_def by (intro good_intros)

lemma beginHubEnrollment_good [good_intros]: "good U c0 c \<Longrightarrow> good U c0 (beginHubEnrollment U e c)"
  unfolding beginHubEnrollment_def by (intro good_intros)

lemma receiveHubChallenge_good [good_intros]: "good U c0 c \<Longrightarrow> good U c0 (receiveHubChallenge U e bs c)"
  unfolding receiveHubChallenge_def by (intro good_intros)

lemma proof_ready_good [good_intros]: "good U c0 c \<Longrightarrow> good U c0 (proof_ready U e g ch prf c)"
  unfolding proof_ready_def by (intro good_intros)

lemma proof_timeout_good [good_intros]: "good U c0 c \<Longrightarrow> good U c0 (proof_timeout U c)"
  unfolding proof_timeout_def by (intro good_intros)

lemma ReadInvitation_subject: "ReadInvitation L t subject = Some iv \<Longrightarrow> iv_subject iv = subject"
  by (auto simp: ReadInvitation_def Let_def split: if_splits option.splits)

lemma ReadEnrollment_subject: "ReadEnrollment L r iv now = Some s \<Longrightarrow> st_subject s = iv_subject iv"
  by (auto simp: ReadEnrollment_def Let_def split: if_splits option.splits json.splits)

lemma pair_good [good_intros]: "good U c0 c \<Longrightarrow> good U c0 (fst (pair U invited c))"
  unfolding pair_def by (intro good_intros) (auto simp: needs_state_def dest: ReadInvitation_subject)

lemma after_enroll_good [good_intros]:
  "good U c0 c \<Longrightarrow> iv_subject iv = su_subject U \<Longrightarrow> good U c0 (after_enroll U e iv r c)"
  unfolding after_enroll_def by (intro good_intros) (simp_all add: ReadEnrollment_subject)

lemma after_ack_good [good_intros]:
  "good U c0 c \<Longrightarrow> cl_state c \<noteq> None \<Longrightarrow> good U c0 (after_ack U e r c)"
  unfolding after_ack_def by (intro good_intros; simp)

lemma good_assume: "(client_ok U c \<Longrightarrow> good U c d) \<Longrightarrow> good U c d"
  by (auto simp: good_def)

lemma after_policy_good [good_intros]:
  assumes "good U c0 c" "cl_state c \<noteq> None" shows "good U c0 (after_policy U e r c)"
proof (rule good_trans [OF assms(1)], rule good_assume)
  obtain s where s: "cl_state c = Some s" using assms(2) by blast
  assume "client_ok U c"
  with s have "st_subject s = su_subject U" by (simp add: client_ok_def)
  then have "st_subject (s\<lparr>st_envelope := r\<rparr>) = su_subject U" by simp
  then show "good U c (after_policy U e r c)"
    unfolding after_policy_def s option.case by (intro good_intros good_refl)
qed

lemma run_after_good:
  assumes "good U c0 c" "needs_state s a \<Longrightarrow> cl_state c \<noteq> None" "\<And>iv. a = After_Enroll iv \<Longrightarrow> iv_subject iv = su_subject U"
  shows "good U c0 (run_after U e a bs c)"
  using assms by (cases a) (auto simp: run_after_def needs_state_def intro: good_intros)

lemma finished_good: "good U c (finished U e r c)"
proof (rule good_assume)
  assume ok: "client_ok U c"
  show "good U c (finished U e r c)"
  proof (cases "cl_reply c")
    case (Some sa)
    obtain s a where sa: "sa = (s, a)" by fastforce
    obtain bs over where R: "foldl consume ([], False) (oc_chunks r) = (bs, over)" by fastforce
    have pre: "needs_state s a \<Longrightarrow> cl_state c \<noteq> None" "\<And>iv. a = After_Enroll iv \<Longrightarrow> iv_subject iv = su_subject U"
      using ok Some sa by (auto simp: client_ok_def reply_ok_def)
    show ?thesis
      unfolding finished_def Some sa option.case prod.case R Let_def
      by (intro good_intros run_after_good [where s = s]; use pre in \<open>auto simp: needs_state_def\<close>)
  qed (simp add: finished_def)
qed

lemma chats_loaded_good [good_intros]: "good U c0 c \<Longrightarrow> good U c0 (chats_loaded U chats c)"
  unfolding chats_loaded_def by (auto simp: Let_def intro!: good_intros split: option.split)

lemma declineDashboard_good [good_intros]: "good U c0 c \<Longrightarrow> good U c0 (fst (declineDashboard U e c))"
  unfolding declineDashboard_def by (intro good_intros)

lemma claimConsentPrompt_good [good_intros]: "good U c0 c \<Longrightarrow> good U c0 (fst (claimConsentPrompt U c))"
  unfolding claimConsentPrompt_def by (intro good_intros)

lemma connectDashboard_good [good_intros]: "good U c0 c \<Longrightarrow> good U c0 (fst (connectDashboard U e c))"
  unfolding connectDashboard_def by (intro good_intros)

lemma step_good: "good U c (step U e ev c)"
  by (cases ev) (auto simp: step_def finished_good intro!: good_intros)

lemma ReadState_SomeD:
  "ReadState L bs subject now = Some s \<Longrightarrow>
     st_subject s = subject \<and> VerifyPolicy L (st_envelope s) (st_publicKey s) subject (st_device s) 0 [] now \<noteq> None"
  by (auto simp: ReadState_def Let_def split: if_splits option.splits)

lemma client_ok_init: "client_ok U (ManagedClient h)"
  by (simp add: client_ok_def reply_ok_def ManagedClient_def)

lemma start_ok: "client_ok U (start U e (ManagedClient h))"
proof (cases "su_stored U h = []")
  case True
  have "good U (ManagedClient h) (start U e (ManagedClient h))"
  proof (cases "su_hubProof U")
    case True
    with \<open>su_stored U h = []\<close> show ?thesis
      by (auto simp: start_def ManagedClient_def Let_def intro: good_intros)
  next
    case False
    have "good U (ManagedClient h) (case readConnection U (ManagedClient h) of
        (c, True) \<Rightarrow> refreshConnection U c | (c, False) \<Rightarrow> c)"
      by (intro good_intros good_refl)
    with False \<open>su_stored U h = []\<close> show ?thesis by (simp add: start_def ManagedClient_def Let_def)
  qed
  with client_ok_init show ?thesis by (simp add: good_def)
next
  case False
  show ?thesis
  proof (cases "ReadState (su_lib U) (su_stored U h) (su_subject U) (en_now e)")
    case None
    with False show ?thesis
      by (simp add: start_def ManagedClient_def changeStatus_def client_ok_def reply_ok_def)
  next
    case (Some s)
    then obtain p where p: "VerifyPolicy (su_lib U) (st_envelope s) (st_publicKey s) (su_subject U) (st_device s)
        0 [] (en_now e) = Some p" "st_subject s = su_subject U" using ReadState_SomeD by blast
    define c where "c = (ManagedClient h)\<lparr>cl_state := Some s, cl_policy := Some p, cl_ackPending := su_liveSync U\<rparr>"
    have "client_ok U c"
      using p by (auto simp: c_def client_ok_def reply_ok_def ManagedClient_def held_def)
    moreover have "good U c (refresh U e (changeStatus (UsingRevision (po_revision p)) c))"
      by (intro good_intros good_refl)
    moreover have "start U e (ManagedClient h) = refresh U e (changeStatus (UsingRevision (po_revision p)) c)"
      using False by (simp add: start_def Some p c_def ManagedClient_def deref_policy_def revision_def)
    ultimately show ?thesis by (simp add: good_def)
  qed
qed

lemma reachable_ok: "reachable U c \<Longrightarrow> client_ok U c"
proof (induction rule: reachable.induct)
  case (stepped c e ev)
  with step_good show ?case by (simp add: good_def)
next
  case (host c h)
  then show ?case by (auto simp: client_ok_def reply_ok_def split: option.splits prod.splits)
qed (rule start_ok)

lemma reachable_step: "reachable U c \<Longrightarrow> advances U c (step U e ev c)"
  using reachable_ok step_good by (simp add: good_def)

end

end
