(* ===== verification/Managed_Live.thy ===== *)
theory Managed_Live
  imports Managed_Run
begin

text \<open>
  When a managed client goes on asking its head.  Once it is past the enrollment with the hub,
  a client that holds a state always has a request, a proof or a timer under way; on the way
  through the enrollment it may stop for good.
\<close>

section \<open>Fields of a changed object\<close>

lemma field_remove_field: "n \<noteq> m \<Longrightarrow> field n (remove_field m ob) = field n ob"
proof -
  assume "n \<noteq> m"
  then have "qlit n \<noteq> qlit m" by (simp add: qlit_inj)
  then show ?thesis unfolding field_def remove_field_def by (induction ob) auto
qed

lemma field_set_field: "field n (set_field m v ob) = (if n = m then Some v else field n ob)"
proof -
  have "map_of (filter (\<lambda>e. fst e \<noteq> qlit m) ob) (qlit n) = (if n = m then None else map_of ob (qlit n))"
    by (induction ob) (auto simp: qlit_inj)
  then show ?thesis by (auto simp: field_def set_field_def map_add_def qlit_inj split: option.split)
qed

lemma field_assign_field: "n \<noteq> m \<Longrightarrow> field n (assign_field m v ob) = field n ob"
  by (simp add: assign_field_def field_remove_field field_set_field split: option.split)

section \<open>Idle clients and clients that go on\<close>

text \<open>Past the enrollment: what a refresh asks is the head.\<close>

definition direct :: "'h client_setup \<Rightarrow> 'h client \<Rightarrow> bool" where
  "direct U c \<longleftrightarrow> \<not> su_hubProof U \<or> cl_hubSuppressed c \<or> hubReady c"

definition no_proof :: "'h client \<Rightarrow> bool" where
  "no_proof c \<longleftrightarrow> \<not> cl_proofDeadline c \<and> (\<forall>p \<in> set (cl_proofs c). fst p \<noteq> cl_proofGeneration c)"

definition basic_ok :: "'h client_setup \<Rightarrow> 'h client \<Rightarrow> bool" where
  "basic_ok U c \<longleftrightarrow> (\<forall>p \<in> set (cl_proofs c). fst p \<le> cl_proofGeneration c) \<and> distinct (map fst (cl_proofs c))
     \<and> (cl_state c \<noteq> None \<longrightarrow> su_stored U (cl_host c) \<noteq> [] \<and> cl_policy c \<noteq> None)"

definition idle :: "'h client_setup \<Rightarrow> 'h client \<Rightarrow> bool" where
  "idle U c \<longleftrightarrow> cl_stopped c \<or> basic_ok U c \<and> cl_reply c = None \<and> \<not> cl_busy c \<and> no_proof c"

fun after_fits :: "'h client_setup \<Rightarrow> 'h client \<Rightarrow> after \<Rightarrow> bool" where
  "after_fits U c After_HubChallenge = (\<not> direct U c)"
| "after_fits U c After_HubEnroll = (\<not> direct U c)"
| "after_fits U c (After_Enroll iv) = (cl_state c = None)"
| "after_fits U c After_Connection = (cl_state c = None)"
| "after_fits U c _ = True"

definition goes_on :: "'h client_setup \<Rightarrow> 'h client \<Rightarrow> bool" where
  "goes_on U c \<longleftrightarrow> cl_stopped c
     \<or> basic_ok U c
       \<and> (case cl_reply c of
            Some (s, a) \<Rightarrow> cl_busy c \<and> no_proof c \<and> after_fits U c a
          | None \<Rightarrow> (cl_busy c \<longrightarrow> \<not> direct U c) \<and> (\<not> cl_busy c \<longrightarrow> no_proof c))
       \<and> (direct U c \<longrightarrow> cl_state c = None \<or> cl_busy c \<or> cl_timer c \<noteq> None)"

lemma goes_on_idle:
  "idle U c \<Longrightarrow> cl_stopped c \<or> \<not> direct U c \<or> cl_state c = None \<or> cl_timer c \<noteq> None \<Longrightarrow> goes_on U c"
  by (auto simp: idle_def goes_on_def)

lemma idle_same:
  assumes "idle U c" "cl_stopped d = cl_stopped c" "cl_proofs d = cl_proofs c"
    "cl_proofGeneration d = cl_proofGeneration c" "cl_proofDeadline d = cl_proofDeadline c" "cl_state d = cl_state c" "cl_policy d = cl_policy c"
    "su_stored U (cl_host d) = su_stored U (cl_host c)" "cl_reply d = cl_reply c" "cl_busy d = cl_busy c"
  shows "idle U d"
  using assms by (simp add: idle_def basic_ok_def no_proof_def)

named_theorems idle_intros

lemma idle_fields [idle_intros]:
  assumes "idle U c"
  shows "idle U (cl_connection_update f1 c)" "idle U (cl_hubSuppressed_update f2 c)"
    "idle U (cl_connectionSubmitted_update f3 c)" "idle U (cl_timer_update f4 c)"
    "idle U (cl_ackPending_update f5 c)" "idle U (cl_waitSupported_update f6 c)"
    "idle U (cl_crashed_update f7 c)" "idle U (changeStatus t c)" "idle U (deref_policy c)"
    "idle U (reportChats U e c)"
  by (rule idle_same [OF assms]; simp add: changeStatus_def deref_policy_def reportChats_def
      split: option.split)+

text \<open>What asks goes on.\<close>

lemma goes_on_later: "idle U c \<Longrightarrow> goes_on U (later U c)"
  by (rule goes_on_idle) (auto simp: later_def intro: idle_intros)

lemma goes_on_timer: "idle U c \<Longrightarrow> goes_on U (c\<lparr>cl_timer := Some n\<rparr>)"
  by (rule goes_on_idle) (auto intro: idle_intros)

lemma goes_on_request: "idle U c \<Longrightarrow> after_fits U c a \<Longrightarrow> goes_on U (request s origin body token a c)"
  by (cases a) (auto simp: idle_def goes_on_def request_def Let_def deref_policy_def basic_ok_def no_proof_def
      direct_def hubReady_def decided_def)

lemma goes_on_acknowledge: "idle U c \<Longrightarrow> goes_on U (acknowledge U c)"
  by (cases "cl_state c"; cases "cl_policy c")
    (auto simp: acknowledge_def idle_def basic_ok_def intro: goes_on_request goes_on_idle)

lemma idle_of_goes_on: "goes_on U c \<Longrightarrow> \<not> cl_busy c \<Longrightarrow> idle U c"
  by (auto simp: goes_on_def idle_def split: option.splits prod.splits)

lemma after_fits_same:
  "direct U d = direct U c \<Longrightarrow> cl_state d = cl_state c \<Longrightarrow> after_fits U d a = after_fits U c a"
  by (cases a) simp_all

lemma goes_on_same:
  assumes "goes_on U c" "cl_stopped d = cl_stopped c" "cl_proofs d = cl_proofs c"
    "cl_proofGeneration d = cl_proofGeneration c" "cl_proofDeadline d = cl_proofDeadline c" "cl_state d = cl_state c" "cl_policy d = cl_policy c"
    "su_stored U (cl_host d) = su_stored U (cl_host c)" "cl_reply d = cl_reply c" "cl_busy d = cl_busy c"
    "cl_hubSuppressed d = cl_hubSuppressed c" "cl_connection d = cl_connection c" "cl_timer d = cl_timer c"
  shows "goes_on U d"
proof -
  have "direct U d = direct U c" using assms by (simp add: direct_def hubReady_def decided_def)
  moreover have "no_proof d = no_proof c" "basic_ok U d = basic_ok U c"
    using assms by (simp_all add: no_proof_def basic_ok_def)
  ultimately show ?thesis
    using assms after_fits_same [of U d c] by (simp add: goes_on_def split: option.splits prod.splits)
qed

lemma goes_on_fields:
  assumes "goes_on U c"
  shows "goes_on U (changeStatus t c)" "goes_on U (cl_promptShown_update f c)"
    "goes_on U (cl_chatsWalk_update g c)" "goes_on U (cl_chatsLoading_update h c)"
    "goes_on U (cl_sent_update k c)"
  by (rule goes_on_same [OF assms]; simp add: changeStatus_def)+

section \<open>Every operation goes on\<close>

context managed_host
begin

lemma persist_cases:
  assumes "persistConnection U e v c = (d, b)"
  shows "\<exists>h t. su_stored U h = su_stored U (cl_host c)
    \<and> d = c\<lparr>cl_host := h, cl_status := t, cl_connection := (if b then v else cl_connection c)\<rparr>"
proof -
  have id: "c = c\<lparr>cl_host := cl_host c, cl_status := cl_status c\<rparr>" by simp
  show ?thesis
  proof (cases "su_connectionCommit U = None \<or> MaxWireBytes < length (lb_compact (su_lib U) (JObject v))")
    case True
    then have "d = changeStatus ConnectionSaveFailed c" "\<not> b"
      using assms by (auto simp: persistConnection_def Let_def split: option.splits)
    then show ?thesis by (intro exI [of _ "cl_host c"] exI [of _ ConnectionSaveFailed]) (simp add: changeStatus_def)
  next
    case False
    then obtain f where f: "su_connectionCommit U = Some f" by auto
    obtain h ok where h: "f e (lb_compact (su_lib U) (JObject v)) (cl_host c) = (h, ok)" by fastforce
    have "d = (if ok then c\<lparr>cl_host := h, cl_connection := v\<rparr>
        else changeStatus ConnectionSaveFailed (c\<lparr>cl_host := h\<rparr>))" "b = ok"
      using assms False by (cases ok; simp add: persistConnection_def Let_def f h)+
    with connection_commit [OF f h] show ?thesis
      by (intro exI [of _ h] exI [of _ "if ok then cl_status c else ConnectionSaveFailed"])
        (simp add: changeStatus_def)
  qed
qed

lemma persist_idle:
  assumes "idle U c" "persistConnection U e v c = (d, b)"
  shows "idle U d" "cl_state d = cl_state c" "cl_connection d = (if b then v else cl_connection c)"
    "cl_hubSuppressed d = cl_hubSuppressed c" "cl_stopped d = cl_stopped c" "cl_busy d = cl_busy c"
  using persist_cases [OF assms(2)] idle_same [OF assms(1), of d] by auto

lemma apply_idle:
  assumes "idle U c" "apply_state U e s c = (d, b)" shows "idle U d"
proof -
  let ?other = "case cl_state c of None \<Rightarrow> False
    | Some t \<Rightarrow> st_origin s \<noteq> st_origin t \<or> st_publicKey s \<noteq> st_publicKey t
        \<or> st_device s \<noteq> st_device t \<or> st_subject s \<noteq> su_subject U"
  let ?V = "VerifyPolicy (su_lib U) (st_envelope s) (st_publicKey s) (su_subject U) (st_device s)
    (revision c) (case cl_policy c of None \<Rightarrow> [] | Some p \<Rightarrow> po_bytes p) (en_now e)"
  obtain h ok where h: "su_commit U e (SaveState (su_lib U) s) (cl_host c) = (h, ok)" by fastforce
  consider "d = c" | "d = changeStatus PolicyRejected c"
    | "\<not> ok" "d = changeStatus SaveFailure (c\<lparr>cl_host := h\<rparr>)"
    | p t where "ok" "d = changeStatus t (c\<lparr>cl_host := h, cl_state := Some s, cl_policy := Some p, cl_ackPending := True\<rparr>)"
  proof (cases ?other)
    case True
    then have "d = c" using assms(2) by (simp add: apply_state_def)
    then show thesis by (rule that(1))
  next
    case False
    show thesis
    proof (cases ?V)
      case None
      with False assms(2) have "d = changeStatus PolicyRejected c" by (simp add: apply_state_def)
      then show thesis by (rule that(2))
    next
      case (Some p)
      with False assms(2) h
      have d: "d = (if ok then changeStatus (AppliedLocally (po_revision p))
          (c\<lparr>cl_host := h, cl_state := Some s, cl_policy := Some p, cl_ackPending := True\<rparr>)
          else changeStatus SaveFailure (c\<lparr>cl_host := h\<rparr>))"
        by (cases ok) (auto simp only: apply_state_def if_False if_True option.case prod.case bool.case prod.inject)
      show thesis
      proof (cases ok)
        case True
        with d show thesis by (intro that(4)) simp_all
      next
        case False
        with d show thesis by (intro that(3)) simp_all
      qed
    qed
  qed
  then show ?thesis
  proof cases
    case 3
    with commit_fails [of e _ _ h] h idle_same [OF assms(1), of d] show ?thesis by (simp add: changeStatus_def)
  next
    case 4
    with commit_stores [of e _ _ h] commit_nonempty [of e _ _ h] h have "su_stored U h \<noteq> []" by metis
    with 4 assms(1) show ?thesis by (auto simp: idle_def basic_ok_def no_proof_def changeStatus_def)
  qed (use assms(1) in \<open>simp_all add: idle_intros\<close>)
qed

lemma acknowledge_or_goes_on:
  assumes "idle U c" "\<And>d. idle U d \<Longrightarrow> goes_on U (f d)"
  shows "goes_on U (acknowledge_or U f (apply_state U e s c))"
  using apply_idle [OF assms(1)] assms(2)
  by (auto simp: acknowledge_or_def intro: goes_on_acknowledge split: prod.split bool.split)

lemma refreshConnection_goes_on:
  assumes "goes_on U c" shows "goes_on U (refreshConnection U c)"
proof (cases "cl_stopped c \<or> cl_busy c \<or> paired U c \<or> \<not> decided ''pending'' c")
  case False
  then have i: "idle U c" using idle_of_goes_on assms by blast
  have "cl_state c = None" using i False by (auto simp: idle_def basic_ok_def paired_def)
  then have "goes_on U (request s origin body token After_Connection (changeStatus t (c\<lparr>cl_timer := None\<rparr>)))"
    for s origin body token t
    by (intro goes_on_request idle_intros i) simp
  then show ?thesis using False by (auto simp: refreshConnection_def Let_def)
qed (use assms in \<open>auto simp: refreshConnection_def\<close>)

lemma refresh_direct:
  assumes "idle U c" "direct U c" shows "goes_on U (refresh_with f U c)"
proof (cases "cl_state c")
  case None
  then have "goes_on U c" using assms(1) by (auto intro: goes_on_idle)
  with None assms(2) show ?thesis
    by (auto simp: refresh_with_def direct_def intro: refreshConnection_goes_on)
next
  case (Some s)
  have i: "idle U (c\<lparr>cl_timer := None\<rparr>)" using assms(1) by (rule idle_intros)
  show ?thesis
  proof (cases "cl_stopped c")
    case True
    then show ?thesis by (simp add: refresh_with_def goes_on_def)
  next
    case False
    then have "\<not> cl_busy c" using assms(1) by (simp add: idle_def)
    with False Some assms(2) show ?thesis
      by (auto simp: refresh_with_def direct_def Let_def
          intro!: goes_on_request [OF i] goes_on_acknowledge [OF i])
  qed
qed

lemma continue_hub_goes_on:
  assumes "idle U c" "\<not> direct U c" shows "goes_on U (continue_hub U e c)"
proof (cases "is_object (field ''enroll_body'' (cl_connection c))
    \<and> en_now e < to_integer (field ''expires_at'' (cl_connection c))")
  case True
  then show ?thesis using assms by (simp add: continue_hub_def submitHubEnrollment_def goes_on_request)
next
  case False
  let ?v = "remove_field ''expires_at'' (remove_field ''enroll_body'' (cl_connection c))"
  obtain d b where d: "persistConnection U e ?v c = (d, b)" by fastforce
  note P = persist_idle [OF assms(1) d]
  have "\<not> direct U d"
    using assms(2) by (auto simp: direct_def hubReady_def decided_def says_def P(3,4) field_remove_field)
  moreover from this have "\<not> direct U (changeStatus ConnectingHub d)"
    by (simp add: direct_def hubReady_def decided_def changeStatus_def)
  ultimately show ?thesis using False P(1)
    by (cases b) (auto simp: continue_hub_def d intro!: goes_on_idle goes_on_request idle_intros)
qed

lemma new_hub_connection_goes_on:
  assumes "idle U c" "\<not> direct U c" shows "goes_on U (new_hub_connection U e seed random c)"
proof -
  have "goes_on U (case persistConnection U e v c of (d, True) \<Rightarrow> continue_hub U e d | (d, False) \<Rightarrow> d)"
    if v: "field ''decision'' v = Some (jstr ''hub-pending'')" for v
  proof -
    obtain d b where d: "persistConnection U e v c = (d, b)" by fastforce
    note P = persist_idle [OF assms(1) d]
    have "\<not> direct U d"
      using assms(2) v by (auto simp: direct_def hubReady_def decided_def says_def jstr_def qlit_inj P(3,4))
    then show ?thesis using P(1) by (cases b) (auto simp: d intro: continue_hub_goes_on goes_on_idle)
  qed
  from this [of "(qlit ''v'', jint 2) # (qlit ''decision'', jstr ''hub-pending'') # ob" for ob] show ?thesis
    using assms by (simp add: new_hub_connection_def Let_def field_Cons goes_on_idle)
qed

lemma fst_rules:
  shows "P d \<Longrightarrow> P (fst (d, b))"
    and "(B \<Longrightarrow> P (fst x)) \<Longrightarrow> (\<not> B \<Longrightarrow> P (fst y)) \<Longrightarrow> P (fst (if B then x else y))"
    and "P (fst (f t)) \<Longrightarrow> P (fst (Let t f))"
    and "(m = None \<Longrightarrow> P (fst x)) \<Longrightarrow> (\<And>v. m = Some v \<Longrightarrow> P (fst (g v)))
       \<Longrightarrow> P (fst (case m of None \<Rightarrow> x | Some v \<Rightarrow> g v))"
  by (simp_all split: option.split)

lemma to_int_default: "to_int (- 1) v = 1 \<Longrightarrow> to_int 0 v = 1"
  by (auto simp: to_int_def Let_def split: option.splits json.splits if_splits)

lemma readConnection_idle:
  assumes "idle U c"
  shows "idle U (fst (readConnection U c)) \<and> \<not> hubReady (fst (readConnection U c))
    \<and> cl_hubSuppressed (fst (readConnection U c)) = cl_hubSuppressed c
    \<and> cl_state (fst (readConnection U c)) = cl_state c"
proof -
  let ?c = "c\<lparr>cl_connection := [], cl_connectionSubmitted := False\<rparr>"
  let ?P = "\<lambda>d. idle U d \<and> \<not> hubReady d \<and> cl_hubSuppressed d = cl_hubSuppressed c
    \<and> cl_state d = cl_state c"
  have i: "idle U ?c" "\<And>v. idle U (?c\<lparr>cl_connection := v\<rparr>)" by (intro idle_intros assms)+
  have empty: "?P (changeStatus t ?c)" for t
    using idle_fields(8) [OF i(1)] by (simp add: hubReady_def to_int_def field_def changeStatus_def)
  have read: "?P (?c\<lparr>cl_connection := v\<rparr>)" "?P (changeStatus t (?c\<lparr>cl_connection := v\<rparr>))"
    if "to_int (- 1) (field ''v'' v) = 1" for v t
    using idle_fields(8) [OF i(2)] i(2) to_int_default [OF that] by (simp_all add: hubReady_def changeStatus_def)
  show ?thesis
    unfolding readConnection_def
    by (intro fst_rules [where P = ?P]; (rule empty | rule read; simp))
qed

lemma stored_hub_goes_on:
  assumes "idle U c" "\<not> direct U c" "cl_hubSuppressed c = False"
    "\<And>d. idle U d \<Longrightarrow> direct U d \<Longrightarrow> goes_on U (again d)"
  shows "goes_on U (stored_hub again U e v c)"
proof -
  have hub: "su_hubProof U" using assms(2) by (simp add: direct_def)
  have new: "goes_on U (case (en_random e, en_random2 e) of
      (Some seed, Some random) \<Rightarrow> new_hub_connection U e seed random d | _ \<Rightarrow> d)"
    if "idle U d" "\<not> direct U d" for d
    using that by (auto intro: new_hub_connection_goes_on goes_on_idle split: option.split)
  obtain d ok where d: "readConnection U c = (d, ok)" by fastforce
  have P: "idle U d" "\<not> direct U d"
    using readConnection_idle [OF assms(1)] hub assms(3) by (simp_all add: d direct_def)
  have stored: "goes_on U (let c = c\<lparr>cl_connection := ob\<rparr>
      in if \<not> hubReady c then continue_hub U e c
         else if cl_state c \<noteq> None then again c else changeStatus PolicyMissing c)" for ob
  proof -
    have i: "idle U (c\<lparr>cl_connection := ob\<rparr>)" by (intro idle_intros assms(1))
    have "\<not> hubReady (c\<lparr>cl_connection := ob\<rparr>) \<Longrightarrow> \<not> direct U (c\<lparr>cl_connection := ob\<rparr>)"
      using hub assms(3) by (simp add: direct_def)
    moreover have "hubReady (c\<lparr>cl_connection := ob\<rparr>) \<Longrightarrow> direct U (c\<lparr>cl_connection := ob\<rparr>)"
      by (simp add: direct_def)
    moreover have "cl_state c = None \<Longrightarrow> goes_on U (changeStatus PolicyMissing (c\<lparr>cl_connection := ob\<rparr>))"
      by (rule goes_on_idle) (auto intro: idle_intros i)
    ultimately show ?thesis using i by (simp add: Let_def continue_hub_goes_on assms(4))
  qed
  have invalid: "goes_on U (changeStatus HubInvalid c)"
    using goes_on_idle [OF assms(1)] assms(2) by (simp add: goes_on_fields)
  show ?thesis
  proof (cases v)
    case None
    then show ?thesis using new [OF assms(1,2)] by (simp add: stored_hub_def)
  next
    case (Some ob)
    show ?thesis
      unfolding stored_hub_def Some option.case d prod.case
      using stored invalid new [OF P] goes_on_idle [OF P(1)] P(2) by simp
  qed
qed

lemma begin_hub_goes_on:
  assumes "idle U c" "\<not> direct U c" "\<And>d. idle U d \<Longrightarrow> direct U d \<Longrightarrow> goes_on U (again d)"
  shows "goes_on U (begin_hub again U e c)"
proof -
  have suppressed: "goes_on U (again (c\<lparr>cl_hubSuppressed := True\<rparr>))"
    by (rule assms(3)) (simp_all add: assms(1) idle_intros direct_def)
  have stay: "goes_on U c" using goes_on_idle [OF assms(1)] assms(2) by simp
  have later: "goes_on U (later U (changeStatus t c))" for t
    by (intro goes_on_later idle_intros assms(1))
  have "cl_hubSuppressed c = False" using assms(2) by (simp add: direct_def)
  note stored = stored_hub_goes_on [OF assms(1,2) this assms(3)]
  show ?thesis
    unfolding begin_hub_def Let_def
    using suppressed stay later stored goes_on_fields(1) [OF stay] by simp
qed

lemma refresh_idle: "idle U c \<Longrightarrow> goes_on U (refresh U e c)"
proof -
  assume i: "idle U c"
  show ?thesis
  proof (cases "direct U c")
    case True
    with i show ?thesis by (simp add: refresh_def refresh_direct)
  next
    case False
    have stay: "goes_on U c" using goes_on_idle [OF i] False by simp
    have "goes_on U (beginHubEnrollment U e c)"
      unfolding beginHubEnrollment_def by (rule begin_hub_goes_on [OF i False]) (rule refresh_direct)
    with stay False show ?thesis by (simp add: refresh_def refresh_with_def direct_def)
  qed
qed

lemma refresh_goes_on: "goes_on U c \<Longrightarrow> goes_on U (refresh U e c)"
  by (cases "cl_busy c") (simp_all add: refresh_idle idle_of_goes_on, simp add: refresh_def refresh_with_def)

lemma timer_goes_on:
  assumes "goes_on U c" shows "goes_on U (refresh U e (c\<lparr>cl_timer := None\<rparr>))"
proof (cases "cl_busy c \<or> cl_stopped c")
  case True
  let ?d = "c\<lparr>cl_timer := None\<rparr>"
  have "direct U ?d = direct U c" by (simp add: direct_def hubReady_def decided_def)
  then have "goes_on U ?d"
    using assms True after_fits_same [of U ?d c]
    by (auto simp: goes_on_def basic_ok_def no_proof_def split: option.splits)
  then show ?thesis by (rule refresh_goes_on)
next
  case False
  then show ?thesis using idle_of_goes_on [OF assms] by (intro refresh_idle idle_intros) simp
qed

section \<open>Answers\<close>

lemma apply_kept_state: "apply_state U e s c = (d, False) \<Longrightarrow> cl_state d = cl_state c"
  by (simp add: apply_state_def changeStatus_def split: if_splits option.splits prod.splits bool.splits) auto

lemma goes_on_changeStatus: "goes_on U (changeStatus t c) = goes_on U c"
  using goes_on_fields(1) [of U c t] goes_on_fields(1) [of U "changeStatus t c" "cl_status c"]
  by (auto simp: changeStatus_def)

lemma goes_on_no_state: "idle U c \<Longrightarrow> cl_state c = None \<Longrightarrow> goes_on U c"
  by (rule goes_on_idle) simp_all

lemma receiveConnection_goes_on:
  assumes "idle U c" "cl_state c = None" shows "goes_on U (receiveConnection U e bs c)"
proof -
  have reject: "goes_on U (later U (changeStatus t c))" "goes_on U (later U (changeStatus t (c\<lparr>cl_connectionSubmitted := True\<rparr>)))" for t
    by (intro goes_on_later idle_intros assms(1))+
  have persist: "goes_on U (case persistConnection U e v c of
      (c, True) \<Rightarrow> changeStatus ConnectionRejected c | (c, False) \<Rightarrow> later U c)" for v
  proof -
    obtain d b where d: "persistConnection U e v c = (d, b)" by fastforce
    note P = persist_idle [OF assms(1) d]
    show ?thesis using P(1,2) assms(2)
      by (cases b) (simp_all add: d goes_on_changeStatus goes_on_no_state goes_on_later)
  qed
  show ?thesis
    unfolding receiveConnection_def Let_def
    using reject persist acknowledge_or_goes_on [OF assms(1) goes_on_later]
    by (simp split: option.split)
qed

lemma after_enroll_goes_on:
  assumes "idle U c" "cl_state c = None" shows "goes_on U (after_enroll U e iv bs c)"
proof (cases "ReadEnrollment (su_lib U) bs iv (en_now e)")
  case None
  then show ?thesis using assms by (simp add: after_enroll_def goes_on_changeStatus goes_on_no_state)
next
  case (Some s)
  obtain d b where d: "apply_state U e s c = (d, b)" by fastforce
  show ?thesis
    using apply_idle [OF assms(1) d] apply_kept_state [of e s c d] d assms(2)
    by (cases b) (simp_all add: after_enroll_def Some acknowledge_or_def goes_on_acknowledge goes_on_no_state)
qed

lemma after_hub_enroll_goes_on:
  assumes "idle U c" shows "goes_on U (after_hub_enroll U e bs c)"
proof -
  have reject: "goes_on U (later U (changeStatus t c))" for t by (intro goes_on_later idle_intros assms)
  have enrolled: "goes_on U (case apply_state U e s c of (c, False) \<Rightarrow> later U c
      | (c, True) \<Rightarrow> (case persistConnection U e (v c) c of (c, False) \<Rightarrow> later U c | (c, True) \<Rightarrow> acknowledge U c))"
    for s v
  proof -
    obtain d b where d: "apply_state U e s c = (d, b)" by fastforce
    obtain f k where f: "persistConnection U e (v d) d = (f, k)" by fastforce
    note i = apply_idle [OF assms d]
    show ?thesis using goes_on_later [OF i] persist_idle(1) [OF i f]
      by (cases b; cases k) (simp_all add: d f goes_on_later goes_on_acknowledge)
  qed
  show ?thesis
    unfolding after_hub_enroll_def Let_def using reject enrolled by (simp split: option.split)
qed

lemma after_ack_goes_on:
  assumes "idle U c" shows "goes_on U (after_ack U e bs c)"
proof -
  let ?d = "\<lambda>t. reportChats U e (changeStatus t (deref_policy (c\<lparr>cl_ackPending := False\<rparr>)))"
  have "idle U (?d t)" for t by (intro idle_intros assms)
  then have "goes_on U (later U (?d t))" "goes_on U ((?d t)\<lparr>cl_timer := Some 100\<rparr>)" for t
    by (simp_all add: goes_on_later goes_on_timer)
  moreover have "goes_on U (later U (changeStatus AckNotConfirmed c))"
    by (intro goes_on_later idle_intros assms)
  ultimately show ?thesis by (simp add: after_ack_def Let_def)
qed

lemma after_policy_goes_on:
  assumes "idle U c" shows "goes_on U (after_policy U e bs c)"
proof (cases "cl_state c")
  case None
  then show ?thesis using idle_fields(7) [OF assms] by (simp add: after_policy_def goes_on_no_state)
next
  case (Some s)
  then show ?thesis using acknowledge_or_goes_on [OF assms goes_on_later] by (simp add: after_policy_def)
qed

lemma receiveHubChallenge_goes_on:
  assumes "idle U c" "\<not> direct U c" shows "goes_on U (receiveHubChallenge U e bs c)"
proof -
  have reject: "goes_on U (later U (changeStatus ChallengeRejected c))" by (intro goes_on_later idle_intros assms)
  let ?d = "\<lambda>v. c\<lparr>cl_busy := True, cl_proofGeneration := cl_proofGeneration c + 1, cl_proofDeadline := True,
    cl_proofs := cl_proofs c @ [(cl_proofGeneration c + 1, v)]\<rparr>"
  have "\<not> direct U (?d v)" for v using assms(2) by (simp add: direct_def hubReady_def decided_def)
  then have "goes_on U (?d v)" for v
    using assms(1) by (fastforce simp: goes_on_def idle_def basic_ok_def)
  with reject show ?thesis unfolding receiveHubChallenge_def Let_def by (simp split: option.split)
qed

lemma run_after_goes_on:
  assumes "idle U c" "after_fits U c a" shows "goes_on U (run_after U e a bs c)"
  using assms
  by (cases a) (simp_all add: run_after_def after_policy_goes_on after_enroll_goes_on after_ack_goes_on
      receiveConnection_goes_on receiveHubChallenge_goes_on after_hub_enroll_goes_on)

lemma finished_goes_on:
  assumes "goes_on U c" shows "goes_on U (finished U e r c)"
proof (cases "cl_reply c = None \<or> cl_stopped c")
  case True
  then show ?thesis using assms by (auto simp: finished_def split: option.split)
next
  case False
  then obtain s a where sa: "cl_reply c = Some (s, a)" "\<not> cl_stopped c" by auto
  obtain bs over where R: "foldl consume ([], False) (oc_chunks r) = (bs, over)" by fastforce
  let ?c = "c\<lparr>cl_reply := None, cl_busy := False\<rparr>"
  have i: "idle U ?c" using assms sa by (simp add: goes_on_def idle_def basic_ok_def no_proof_def)
  have "after_fits U ?c a = after_fits U c a"
    by (rule after_fits_same) (simp_all add: direct_def hubReady_def decided_def)
  then have fits: "after_fits U ?c a" using assms sa by (simp add: goes_on_def)
  have later: "goes_on U (later U ?c)" "goes_on U (later U (changeStatus t ?c))"
    "goes_on U (later U (?c\<lparr>cl_waitSupported := False\<rparr>))"
    "goes_on U (later U (changeStatus t (?c\<lparr>cl_ackPending := False\<rparr>)))" for t
    by (intro goes_on_later idle_intros i)+
  have timer: "goes_on U ((reportChats U e (changeStatus t (deref_policy ?c)))\<lparr>cl_timer := Some 100\<rparr>)" for t
    by (intro goes_on_timer idle_intros i)
  show ?thesis
    unfolding finished_def sa option.case prod.case R Let_def
    using later timer run_after_goes_on [OF i fits] sa(2) by simp
qed

lemma proof_ready_goes_on:
  assumes "goes_on U c" "n < length (cl_proofs c)" "cl_proofs c ! n = (g, ch)"
  shows "goes_on U (proof_ready U e g ch prf (c\<lparr>cl_proofs := take n (cl_proofs c) @ drop (Suc n) (cl_proofs c)\<rparr>))"
    (is "goes_on U (proof_ready U e g ch prf ?d)")
proof -
  have split: "cl_proofs c = take n (cl_proofs c) @ (g, ch) # drop (Suc n) (cl_proofs c)"
    using id_take_nth_drop [OF assms(2)] assms(3) by simp
  have sub: "set (cl_proofs ?d) \<subseteq> set (cl_proofs c)" by (subst (2) split) auto
  have dist: "distinct (map fst (cl_proofs ?d)) \<and> g \<notin> fst ` set (cl_proofs ?d)"
    if "distinct (map fst (cl_proofs c))"
    using that by (subst (asm) split) auto
  have dir: "direct U ?d = direct U c" by (simp add: direct_def hubReady_def decided_def)
  have basic: "basic_ok U c \<Longrightarrow> basic_ok U ?d" using sub dist by (auto simp: basic_ok_def)
  have np: "no_proof c \<Longrightarrow> no_proof ?d" using sub by (auto simp: no_proof_def)
  show ?thesis
  proof (cases "cl_stopped c \<or> g \<noteq> cl_proofGeneration c")
    case True
    have "after_fits U ?d a = after_fits U c a" for a by (rule after_fits_same [OF dir]) simp
    then have "goes_on U ?d"
      using assms(1) basic np by (cases "cl_reply c") (auto simp: goes_on_def dir)
    with True show ?thesis by (auto simp: proof_ready_def)
  next
    case False
    then have now: "\<not> no_proof c" "\<not> cl_stopped c" "g = cl_proofGeneration c"
      using nth_mem [OF assms(2)] assms(3) by (force simp: no_proof_def)+
    then have c: "basic_ok U c" "cl_reply c = None" "\<not> direct U c"
      using assms(1) by (auto simp: goes_on_def split: option.splits)
    let ?f = "?d\<lparr>cl_proofDeadline := False, cl_busy := False\<rparr>"
    have i: "idle U ?f"
    proof -
      have "g \<notin> fst ` set (cl_proofs ?d)" using dist c(1) by (simp add: basic_ok_def)
      then have "\<forall>p \<in> set (cl_proofs ?d). fst p \<noteq> cl_proofGeneration c" using now(3) by force
      then show ?thesis using basic [OF c(1)] c(2) by (simp add: idle_def basic_ok_def no_proof_def)
    qed
    have nd: "\<not> direct U ?f" using c(3) by (simp add: direct_def hubReady_def decided_def)
    have later: "goes_on U (later U ?f)" "goes_on U (later U (changeStatus t ?f))" for t
      by (intro goes_on_later idle_intros i)+
    have persist: "goes_on U (case persistConnection U e
        (assign_field ''expires_at'' x (set_field ''enroll_body'' y (cl_connection ?f))) ?f of
          (d, True) \<Rightarrow> submitHubEnrollment U d | (d, False) \<Rightarrow> d)"
      for x y
    proof -
      let ?v = "assign_field ''expires_at'' x (set_field ''enroll_body'' y (cl_connection ?f))"
      obtain d b where d: "persistConnection U e ?v ?f = (d, b)" by fastforce
      note P = persist_idle [OF i d]
      have "\<not> direct U d"
        using nd by (simp add: direct_def hubReady_def decided_def says_def P(3,4) field_assign_field field_set_field)
      then show ?thesis using P(1)
        unfolding d by (cases b) (simp_all add: submitHubEnrollment_def goes_on_request goes_on_idle)
    qed
    show ?thesis
      unfolding proof_ready_def Let_def using False later persist by simp
  qed
qed

lemma proof_timeout_goes_on:
  assumes "goes_on U c" "cl_proofDeadline c" shows "goes_on U (proof_timeout U c)"
proof -
  have "\<not> no_proof c" using assms(2) by (simp add: no_proof_def)
  then have "cl_stopped c \<or> basic_ok U c \<and> cl_reply c = None"
    using assms(1) by (auto simp: goes_on_def split: option.splits)
  then have "idle U (c\<lparr>cl_proofDeadline := False, cl_proofGeneration := cl_proofGeneration c + 1, cl_busy := False\<rparr>)"
    by (fastforce simp: idle_def basic_ok_def no_proof_def)
  then show ?thesis unfolding proof_timeout_def by (intro goes_on_later idle_intros)
qed

lemma unpaired_no_state: "goes_on U c \<Longrightarrow> \<not> cl_stopped c \<Longrightarrow> \<not> paired U c \<Longrightarrow> cl_state c = None"
  by (auto simp: goes_on_def basic_ok_def paired_def)

lemma unpaired_idle:
  "goes_on U c \<Longrightarrow> \<not> (cl_stopped c \<or> cl_busy c \<or> paired U c \<or> P) \<Longrightarrow> idle U c \<and> cl_state c = None"
  using idle_of_goes_on unpaired_no_state by blast

lemma declineDashboard_goes_on:
  assumes "goes_on U c" shows "goes_on U (fst (declineDashboard U e c))"
proof (cases "su_hubProof U \<or> cl_stopped c \<or> cl_busy c \<or> paired U c \<or> decided ''pending'' c")
  case True
  then show ?thesis using assms by (auto simp: declineDashboard_def)
next
  case False
  then have i: "idle U c" "cl_state c = None" using unpaired_idle [OF assms] by auto
  have "goes_on U (fst (case persistConnection U e v c of (d, True) \<Rightarrow> (changeStatus NotConnected d, True)
      | (d, False) \<Rightarrow> (d, False)))" for v
  proof -
    obtain d b where d: "persistConnection U e v c = (d, b)" by fastforce
    show ?thesis using persist_idle(1,2) [OF i(1) d] i(2)
      by (cases b) (simp_all add: d goes_on_changeStatus goes_on_no_state)
  qed
  with False show ?thesis by (simp add: declineDashboard_def)
qed

lemma connectDashboard_goes_on:
  assumes "goes_on U c" shows "goes_on U (fst (connectDashboard U e c))"
proof (cases "su_hubProof U")
  case True
  then show ?thesis using assms by (simp add: connectDashboard_def Let_def refresh_goes_on)
next
  case hub: False
  show ?thesis
  proof (cases "cl_stopped c \<or> cl_busy c \<or> paired U c \<or> \<not> su_configured U (cl_host c) \<or> \<not> has_connection U")
    case True
    then show ?thesis using assms hub by (simp add: connectDashboard_def)
  next
    case False
    then have i: "idle U c" "cl_state c = None" using unpaired_idle [OF assms] by auto
    have "goes_on U (fst (case persistConnection U e v c of
        (d, True) \<Rightarrow> (refreshConnection U (d\<lparr>cl_connectionSubmitted := False\<rparr>), True) | (d, False) \<Rightarrow> (d, False)))" for v
    proof -
      obtain d b where d: "persistConnection U e v c = (d, b)" by fastforce
      note P = persist_idle(1,2) [OF i(1) d]
      have "goes_on U (d\<lparr>cl_connectionSubmitted := False\<rparr>)"
        using idle_fields(3) [OF P(1)] P(2) i(2) by (intro goes_on_no_state) simp_all
      then show ?thesis using P i(2) by (cases b) (simp_all add: d goes_on_no_state refreshConnection_goes_on)
    qed
    then show ?thesis unfolding connectDashboard_def Let_def
      using False hub assms by (simp add: refreshConnection_goes_on goes_on_changeStatus split: option.split)
  qed
qed

lemma pair_goes_on:
  assumes "goes_on U c" shows "goes_on U (fst (pair U invited c))"
proof -
  have "goes_on U (request s origin body token (After_Enroll iv) (changeStatus ConnectingHead c))"
    if "\<not> (cl_stopped c \<or> cl_busy c)" "\<not> paired U c" for s origin body token iv
    using unpaired_idle [OF assms, of False] that
    by (intro goes_on_request idle_intros) auto
  then show ?thesis unfolding pair_def
    using assms by (simp add: goes_on_changeStatus split: option.split)
qed

lemma step_goes_on:
  assumes "goes_on U c" shows "goes_on U (step U e ev c)"
proof (cases ev)
  case (Proof n bs)
  then show ?thesis using assms proof_ready_goes_on [OF assms, of n] by (simp add: step_def)
next
  case Stop
  then show ?thesis by (simp add: step_def goes_on_def stop_def)
next
  case (Chats chats)
  then show ?thesis using assms
    by (simp add: step_def chats_loaded_def Let_def goes_on_fields split: option.split)
qed (simp_all add: step_def assms refresh_goes_on pair_goes_on connectDashboard_goes_on
      declineDashboard_goes_on claimConsentPrompt_def goes_on_fields timer_goes_on finished_goes_on
      proof_timeout_goes_on)

lemma init_idle: "idle U (ManagedClient h)" "\<not> hubReady (ManagedClient h)"
  by (simp_all add: idle_def basic_ok_def no_proof_def ManagedClient_def hubReady_def to_int_def field_def)

lemma init_fields [simp]:
  "cl_host (ManagedClient h) = h" "cl_stopped (ManagedClient h) = False" "cl_busy (ManagedClient h) = False"
  "cl_state (ManagedClient h) = None" "cl_hubSuppressed (ManagedClient h) = False"
  by (simp_all add: ManagedClient_def)

lemma start_goes_on: "goes_on U (start U e (ManagedClient h))"
proof (cases "su_stored U h = []")
  case stored: True
  show ?thesis
  proof (cases "su_hubProof U")
    case True
    then have "\<not> direct U (ManagedClient h)"
      using init_idle(2) by (simp add: direct_def)
    then have "goes_on U (beginHubEnrollment U e (ManagedClient h))"
      unfolding beginHubEnrollment_def by (rule begin_hub_goes_on [OF init_idle(1)]) (rule refresh_direct)
    with True stored show ?thesis by (simp add: start_def)
  next
    case False
    obtain d b where d: "readConnection U (ManagedClient h) = (d, b)" by fastforce
    have "idle U d" "cl_state d = None"
      using readConnection_idle [OF init_idle(1), of h] by (simp_all add: d)
    then have "goes_on U d" by (rule goes_on_no_state)
    then show ?thesis using False stored d
      by (cases b) (simp_all add: start_def refreshConnection_goes_on)
  qed
next
  case stored: False
  show ?thesis
  proof (cases "ReadState (su_lib U) (su_stored U h) (su_subject U) (en_now e)")
    case None
    have "idle U (changeStatus InvalidSettings (ManagedClient h))" by (intro idle_intros init_idle)
    then have "goes_on U (changeStatus InvalidSettings (ManagedClient h))"
      by (rule goes_on_no_state) (simp add: changeStatus_def)
    moreover have "(ManagedClient h)\<lparr>cl_state := None\<rparr> = ManagedClient h" by (simp add: ManagedClient_def)
    ultimately show ?thesis using None stored unfolding start_def Let_def by (simp only: init_fields simp_thms if_False option.case)
  next
    case (Some s)
    then obtain p where p: "VerifyPolicy (su_lib U) (st_envelope s) (st_publicKey s) (su_subject U) (st_device s)
        0 [] (en_now e) = Some p" using ReadState_SomeD by blast
    let ?c = "(ManagedClient h)\<lparr>cl_state := Some s, cl_policy := Some p, cl_ackPending := su_liveSync U\<rparr>"
    have "idle U ((ManagedClient h)\<lparr>cl_state := Some s, cl_policy := Some p\<rparr>)" using stored by (simp add: idle_def basic_ok_def no_proof_def ManagedClient_def)
    then have "goes_on U (refresh U e (changeStatus t ?c))" for t by (intro refresh_idle idle_intros)
    with stored show ?thesis by (simp add: start_def Some p deref_policy_def Let_def)
  qed
qed

lemma reachable_goes_on: "reachable U c \<Longrightarrow> goes_on U c"
proof (induction rule: reachable.induct)
  case (stepped c e ev)
  show ?case by (rule step_goes_on [OF stepped.IH])
next
  case (host c h)
  show ?case by (rule goes_on_same [OF host.IH]) (simp_all add: host.hyps)
qed (rule start_goes_on)

end

end
