(* ===== verification/Managed_Sample.thy ===== *)
theory Managed_Sample
  imports Managed_Policy
begin

text \<open>
  A head, its key, two policies of revisions one and two, and a JSON parser that reads them: the
  library functions of \<open>managed_lib\<close> made concrete, for the theorems' examples.
\<close>

section \<open>Texts\<close>

text \<open>Texts a JSON parser reads, and base64 of the two it needs.\<close>

definition member_text :: "string \<Rightarrow> string \<Rightarrow> string" where
  "member_text k v = quoted k @ '':'' @ v"

fun joined :: "string list \<Rightarrow> string" where
  "joined [] = []" | "joined [t] = t" | "joined (t # ts) = t @ '','' @ joined ts"

definition object_text :: "(string \<times> string) list \<Rightarrow> string" where
  "object_text ms = ''{'' @ joined (map (\<lambda>(k, v). member_text k v) ms) @ ''}''"

definition sample_device :: string where "sample_device = replicate 32 CHR ''a''"
definition sample_key :: bytes where "sample_key = replicate 32 CHR ''k''"
definition sample_signature :: bytes where "sample_signature = replicate 64 CHR ''s''"

definition sample_policy_text :: "string \<Rightarrow> string" where
  "sample_policy_text revision = object_text
     [(''v'', ''1''), (''telegram_user_id'', quoted ''7''), (''device_id'', quoted sample_device),
      (''revision'', revision), (''issued_at'', ''5''),
      (''peers'', ''['' @ object_text [(''kind'', quoted ''user''), (''id'', quoted ''9'')] @ '']'')]"

definition sample_policy_object :: "rat \<Rightarrow> json_object" where
  "sample_policy_object revision =
     [(qlit ''v'', JNumber (Some 1)), (qlit ''telegram_user_id'', JString (qlit ''7'')),
      (qlit ''device_id'', JString (qlit sample_device)), (qlit ''revision'', JNumber (Some revision)),
      (qlit ''issued_at'', JNumber (Some 5)),
      (qlit ''peers'', JArray [JObject [(qlit ''kind'', JString (qlit ''user'')), (qlit ''id'', JString (qlit ''9''))]])]"

definition sample_envelope :: "string \<Rightarrow> string" where
  "sample_envelope txt = object_text [(''signed'', quoted txt), (''signature'', quoted ''c2ln'')]"

definition sample_envelope_object :: "string \<Rightarrow> json_object" where
  "sample_envelope_object txt =
     [(qlit ''signed'', JString (qlit txt)), (qlit ''signature'', JString (qlit ''c2ln''))]"

definition sample_token :: string where "sample_token = replicate 40 CHR ''t''"

definition sample_url :: url where
  "sample_url = \<lparr>url_scheme = qlit ''https'', url_host = qlit ''h'', url_userInfo = [], url_hasQuery = False,
     url_hasFragment = False, url_path = [], url_port = -1\<rparr>"

definition escaped :: "string \<Rightarrow> string" where
  "escaped s = concat (map (\<lambda>c. if c = CHR 0x22 then [CHR 0x5C, c] else [c]) s)"

definition sample_saved_text :: "string \<Rightarrow> string" where
  "sample_saved_text txt = object_text
     [(''v'', ''1''), (''origin'', quoted ''https://h''), (''subject'', quoted ''7''),
      (''device'', quoted sample_device), (''public_key'', quoted ''a2V5''), (''token'', quoted sample_token),
      (''policy'', quoted (escaped (sample_envelope txt)))]"

definition sample_saved_object :: "string \<Rightarrow> json_object" where
  "sample_saved_object txt =
     [(qlit ''v'', JNumber (Some 1)), (qlit ''origin'', JString (qlit ''https://h'')),
      (qlit ''subject'', JString (qlit ''7'')), (qlit ''device'', JString (qlit sample_device)),
      (qlit ''public_key'', JString (qlit ''a2V5'')), (qlit ''token'', JString (qlit sample_token)),
      (qlit ''policy'', JString (qlit (sample_envelope txt)))]"

definition sample_documents :: "(bytes \<times> json) list" where
  "sample_documents =
     [(sample_policy_text ''1'', JObject (sample_policy_object 1)), (sample_policy_text ''2'', JObject (sample_policy_object 2)),
      (sample_envelope ''cDE'', JObject (sample_envelope_object ''cDE'')), (sample_envelope ''cDI'', JObject (sample_envelope_object ''cDI'')),
      (sample_saved_text ''cDE'', JObject (sample_saved_object ''cDE'')), (sample_saved_text ''cDI'', JObject (sample_saved_object ''cDI''))]"

fun unescaped :: "string \<Rightarrow> string" where
  "unescaped [] = []"
| "unescaped (c # cs) =
     (if c = CHR 0x5C then (case cs of [] \<Rightarrow> [] | e # cs \<Rightarrow> e # unescaped cs) else c # unescaped cs)"

text \<open>It reads the documents, and any text in brackets and quotes.\<close>

definition sample_parse :: json_parser where
  "sample_parse bs =
     (if take 2 bs = [CHR ''['', CHR 0x22]
      then Some (JArray [JString (qlit (unescaped (drop 2 (butlast (butlast bs)))))])
      else map_of sample_documents bs)"

definition sample_base64 :: "(bytes \<times> bytes) list" where
  "sample_base64 = [(''cDE'', sample_policy_text ''1''), (''cDI'', sample_policy_text ''2''),
     (''c2ln'', sample_signature), (''a2V5'', sample_key)]"

definition lookup_or :: "(bytes \<times> bytes) list \<Rightarrow> bytes \<Rightarrow> bytes" where
  "lookup_or t bs = (case map_of t bs of None \<Rightarrow> [] | Some v \<Rightarrow> v)"

definition sample_lib :: managed_lib where
  "sample_lib =
     \<lparr>lb_parse = sample_parse,
      lb_compact = (\<lambda>j. if j = JObject (sample_saved_object ''cDE'') then sample_saved_text ''cDE''
         else if j = JObject (sample_saved_object ''cDI'') then sample_saved_text ''cDI'' else []),
      lb_fromBase64 = lookup_or sample_base64,
      lb_toBase64 = lookup_or (map (\<lambda>(a, b). (b, a)) sample_base64),
      lb_url = (\<lambda>s. if s = qlit ''https://h'' then Some sample_url else None),
      lb_urlString = (\<lambda>u. url_scheme u @ qlit ''://'' @ url_host u),
      lb_fromUtf8 = fromLatin1, lb_toUtf8 = toLatin1,
      lb_sha256hex = take 8,
      lb_ed25519 = (\<lambda>key message signature. key = sample_key \<and> signature = sample_signature
         \<and> take (length policy_prefix) message = policy_prefix)\<rparr>"

text \<open>The limits are too large to compare with one by one.\<close>

lemma sample_unique_policy_1: "unique_keys sample_parse (sample_policy_text ''1'')"
  by code_simp

lemma sample_unique_policy_2: "unique_keys sample_parse (sample_policy_text ''2'')"
  by code_simp

lemma sample_unique_envelope_1: "unique_keys sample_parse (sample_envelope ''cDE'')"
  by code_simp

lemma sample_unique_envelope_2: "unique_keys sample_parse (sample_envelope ''cDI'')"
  by code_simp

lemma sample_unique_saved_1: "unique_keys sample_parse (sample_saved_text ''cDE'')"
  by code_simp

lemma sample_unique_saved_2: "unique_keys sample_parse (sample_saved_text ''cDI'')"
  by code_simp

lemmas sample_unique = sample_unique_policy_1 sample_unique_policy_2 sample_unique_envelope_1
  sample_unique_envelope_2 sample_unique_saved_1 sample_unique_saved_2

lemma sample_distinct: "distinct (map fst sample_documents)"
  by code_simp

lemma sample_parsed: "(txt, j) \<in> set sample_documents \<Longrightarrow> sample_parse txt = Some j"
  using sample_distinct
  by (simp add: sample_parse_def map_of_is_SomeI)
    (auto simp: sample_documents_def sample_policy_text_def sample_envelope_def sample_saved_text_def object_text_def)

lemma sample_short: "list_all (\<lambda>d. fst d \<noteq> [] \<and> length (fst d) \<le> 1000) sample_documents"
  by code_simp

lemma sample_read:
  assumes "unique_keys sample_parse txt" "(txt, JObject ob) \<in> set sample_documents"
  shows "ReadObject (lb_parse sample_lib) txt = Some ob" "length txt \<le> 1000"
proof -
  from assms(2) sample_short have s: "txt \<noteq> [] \<and> length txt \<le> 1000" by (auto simp: list_all_iff)
  with assms sample_parsed [OF assms(2)] show "ReadObject (lb_parse sample_lib) txt = Some ob"
    by (simp add: ReadObject_def MaxWireBytes_def MaxPolicyBytes_def sample_lib_def)
  from s show "length txt \<le> 1000" by simp
qed

lemma sample_ReadObject:
  "ReadObject (lb_parse sample_lib) (sample_policy_text ''1'') = Some (sample_policy_object 1)"
  "ReadObject (lb_parse sample_lib) (sample_policy_text ''2'') = Some (sample_policy_object 2)"
  "ReadObject (lb_parse sample_lib) (sample_envelope ''cDE'') = Some (sample_envelope_object ''cDE'')"
  "ReadObject (lb_parse sample_lib) (sample_envelope ''cDI'') = Some (sample_envelope_object ''cDI'')"
  "ReadObject (lb_parse sample_lib) (sample_saved_text ''cDE'') = Some (sample_saved_object ''cDE'')"
  "ReadObject (lb_parse sample_lib) (sample_saved_text ''cDI'') = Some (sample_saved_object ''cDI'')"
  by (rule sample_read(1); simp add: sample_unique sample_documents_def)+

lemma sample_policy_short:
  "length (sample_policy_text ''1'') \<le> MaxPolicyBytes" "length (sample_policy_text ''2'') \<le> MaxPolicyBytes"
  using sample_short by (simp_all add: sample_documents_def MaxPolicyBytes_def)

definition base64_ok :: "managed_lib \<Rightarrow> bytes \<Rightarrow> bytes \<Rightarrow> bool" where
  "base64_ok L txt raw \<longleftrightarrow> toLatin1 (qlit txt) = txt \<and> txt \<noteq> []
     \<and> list_all (\<lambda>c. url_safe (of_nat (of_char c))) txt \<and> lb_fromBase64 L txt = raw \<and> lb_toBase64 L raw = txt"

lemma Decode_sample:
  assumes "base64_ok L txt raw" "length txt \<le> 2000000" shows "Decode L (qlit txt) = raw"
  using assms by (simp add: Decode_def base64_ok_def Let_def MaxWireBytes_def MaxPolicyBytes_def qlit_def)

lemma sample_base64_ok:
  "base64_ok sample_lib ''cDE'' (sample_policy_text ''1'')"
  "base64_ok sample_lib ''cDI'' (sample_policy_text ''2'')"
  "base64_ok sample_lib ''c2ln'' sample_signature"
  "base64_ok sample_lib ''a2V5'' sample_key"
  by code_simp+

lemma sample_Decode:
  "Decode sample_lib (qlit ''cDE'') = sample_policy_text ''1''"
  "Decode sample_lib (qlit ''cDI'') = sample_policy_text ''2''"
  "Decode sample_lib (qlit ''c2ln'') = sample_signature"
  "Decode sample_lib (qlit ''a2V5'') = sample_key"
  by (simp_all add: Decode_sample sample_base64_ok)

lemma sample_fields:
  "Fields [(qlit ''signed'', x), (qlit ''signature'', y)] [''signed'', ''signature'']"
  "Fields [(qlit ''v'', a), (qlit ''telegram_user_id'', b), (qlit ''device_id'', c), (qlit ''revision'', d),
     (qlit ''issued_at'', e), (qlit ''peers'', f)] [''v'', ''telegram_user_id'', ''device_id'', ''revision'',
     ''issued_at'', ''peers'']"
  "Device (qlit sample_device)"
  by (simp_all add: Fields_def field_def qlit_def Device_def sample_device_def digit_def list_all_iff)

definition sample_policy :: "string \<Rightarrow> int \<Rightarrow> policy" where
  "sample_policy r n = \<lparr>po_subject = qlit ''7'', po_device = qlit sample_device, po_revision = n,
     po_bytes = sample_policy_text r, po_digest = take 8 (sample_policy_text r),
     po_peers = [\<lparr>mp_kind = qlit ''user'', mp_id = 9\<rparr>]\<rparr>"

lemma sample_Id:
  "Id (Some (JString (qlit ''7''))) = Some 7" "Id (Some (JString (qlit ''9''))) = Some 9"
  by (simp_all add: Id_def qlit_def digit_def digits_value_def MaxId_def)

lemma sample_Signature: "Signature sample_lib sample_key bs sample_signature"
  by (simp add: Signature_def sample_key_def sample_signature_def sample_lib_def)

lemma sample_Integer:
  "Integer (Some (JNumber (Some 1))) = Some 1" "Integer (Some (JNumber (Some 2))) = Some 2"
  "Integer (Some (JNumber (Some 5))) = Some 5"
  by (simp_all add: Integer_def MaxInteger_def)

lemma sample_read_peers:
  "read_peers [] [JObject [(qlit ''kind'', JString (qlit ''user'')), (qlit ''id'', JString (qlit ''9''))]]
     = Some [\<lparr>mp_kind = qlit ''user'', mp_id = 9\<rparr>]"
  by (simp add: read_peer_def Fields_def field_Cons to_string_def sample_Id Let_def)

lemma sample_verified:
  assumes "0 \<le> least" "least \<le> 1" "least = 1 \<Longrightarrow> b = sample_policy_text ''1''" "0 \<le> now"
  shows "VerifyPolicy sample_lib (sample_envelope ''cDE'') sample_key (qlit ''7'') (qlit sample_device) least b now
     = Some (sample_policy ''1'' 1)"
  using assms sample_policy_short
  by (simp add: VerifyPolicy_def not_less sample_ReadObject sample_envelope_object_def sample_Id sample_fields
        field_Cons to_string_def sample_Decode sample_Signature sample_policy_object_def
        sample_Integer sample_read_peers sample_policy_def Let_def del: read_peers.simps)
    (auto simp: sample_lib_def)

lemma sample_verified_2:
  assumes "0 \<le> least" "least \<le> 1" "0 \<le> now"
  shows "VerifyPolicy sample_lib (sample_envelope ''cDI'') sample_key (qlit ''7'') (qlit sample_device) least b now
     = Some (sample_policy ''2'' 2)"
  using assms sample_policy_short
  by (simp add: VerifyPolicy_def not_less sample_ReadObject sample_envelope_object_def sample_Id sample_fields
        field_Cons to_string_def sample_Decode sample_Signature sample_policy_object_def
        sample_Integer sample_read_peers sample_policy_def Let_def del: read_peers.simps)
    (auto simp: sample_lib_def)

section \<open>The saved state\<close>

definition sample_state :: "string \<Rightarrow> managed_state" where
  "sample_state txt = \<lparr>st_origin = sample_url, st_subject = qlit ''7'', st_device = qlit sample_device,
     st_publicKey = sample_key, st_token = sample_token, st_envelope = sample_envelope txt\<rparr>"

lemma toLatin1_qlit: "toLatin1 (qlit s) = s"
proof -
  have "(if unat (of_char c :: 16 word) < 256 then char_of (unat (of_char c :: 16 word)) else CHR ''?'') = c" for c
    using unat_of_char [of c] by simp
  then show ?thesis by (simp add: toLatin1_def qlit_def map_idI)
qed

lemma fromLatin1_qlit: "fromLatin1 s = qlit s"
  by (simp add: fromLatin1_def qlit_def of_nat_of_char)

lemma sample_saved_fields:
  "Fields (sample_saved_object txt) [''v'', ''origin'', ''subject'', ''device'', ''public_key'', ''token'', ''policy'']"
  "Token (qlit sample_token)" "Origin sample_lib (qlit ''https://h'') = Some sample_url"
  "length sample_key = 32" "Encode sample_lib sample_key = qlit ''a2V5''"
proof -
  show "Fields (sample_saved_object txt) [''v'', ''origin'', ''subject'', ''device'', ''public_key'', ''token'', ''policy'']"
    by (simp add: Fields_def sample_saved_object_def field_Cons)
  show "Token (qlit sample_token)"
    by (simp add: Token_def sample_token_def qlit_def url_safe_def lower_letter_def list_all_iff)
  show "Origin sample_lib (qlit ''https://h'') = Some sample_url"
    by (simp add: Origin_def sample_lib_def sample_url_def qlit_def)
  show "length sample_key = 32" by (simp add: sample_key_def)
  show "Encode sample_lib sample_key = qlit ''a2V5''"
    using sample_base64_ok(4) by (simp add: Encode_def base64_ok_def fromLatin1_qlit)
qed

lemma sample_ReadState:
  assumes "0 \<le> now"
  shows "ReadState sample_lib (sample_saved_text ''cDE'') (qlit ''7'') now = Some (sample_state ''cDE'')"
    "ReadState sample_lib (sample_saved_text ''cDI'') (qlit ''7'') now = Some (sample_state ''cDI'')"
  using sample_verified [of 0 "[]" now] sample_verified_2 [of 0 now "[]"] assms sample_saved_fields
  by (simp_all add: ReadState_def sample_ReadObject sample_saved_object_def field_Cons to_string_def
      sample_Integer sample_fields sample_Decode sample_state_def toLatin1_qlit Let_def)
    (simp_all add: sample_lib_def toLatin1_qlit)

lemma sample_SaveState:
  "SaveState sample_lib (sample_state ''cDE'') = sample_saved_text ''cDE''"
  "SaveState sample_lib (sample_state ''cDI'') = sample_saved_text ''cDI''"
proof -
  have "SaveState sample_lib (sample_state t) = lb_compact sample_lib (JObject (sample_saved_object t))" for t
    using sample_saved_fields(5)
    by (simp add: SaveState_def sample_state_def sample_saved_object_def fromLatin1_qlit)
      (simp add: sample_lib_def sample_url_def fromLatin1_qlit qlit_def)
  moreover have "sample_saved_object ''cDE'' \<noteq> sample_saved_object ''cDI''"
    by (simp add: sample_saved_object_def qlit_inj sample_envelope_def object_text_def member_text_def quoted_def)
  ultimately show "SaveState sample_lib (sample_state ''cDE'') = sample_saved_text ''cDE''"
    "SaveState sample_lib (sample_state ''cDI'') = sample_saved_text ''cDI''"
    by (simp_all add: sample_lib_def)
qed

theorem verify_policy_sound_witness:
  "distinct (po_peers (sample_policy ''1'' 1)) \<and> po_revision (sample_policy ''1'' 1) \<le> MaxInteger
   \<and> lb_ed25519 sample_lib sample_key (policy_prefix @ sample_policy_text ''1'') sample_signature"
  using verify_policy_sound [OF sample_verified [of 0 "[]" 10]] sample_Signature [of "sample_policy_text ''1''"]
  by (simp add: Signature_def)

end
