(* ===== verification/Managed_Session.thy ===== *)
theory Managed_Session
  imports Managed_Live Managed_Sample Session_Allowlist
begin

text \<open>
  The session as the managed client's host: \<open>applyManagedAllowlist\<close> and the functions given to
  \<open>ManagedClient::Host\<close> in \<open>main/main_session.cpp\<close>, and \<open>validateManagedAllowlist\<close> of
  \<open>main/main_session_settings.cpp\<close>.  The chats the session unloads are recorded.
\<close>

record managed_session = session +
  ms_managed :: bytes
  ms_connection :: bytes
  ms_unloaded :: "peer_id list"

definition managed_peer_id :: "managed_peer \<Rightarrow> peer_id" where
  "managed_peer_id p =
     (if mp_kind p = qlit ''user'' then peerFromUser (of_nat (mp_id p))
      else if mp_kind p = qlit ''chat'' then peerFromChat (of_nat (mp_id p))
      else peerFromChannel (of_nat (mp_id p)))"

definition policy_peers :: "policy \<Rightarrow> peer_id list" where
  "policy_peers p = fold (\<lambda>e ps. insort_insert (managed_peer_id e) ps) (po_peers p) []"

definition subject_text :: "bare_id \<Rightarrow> qstring" where
  "subject_text user = qlit (number_text (unat user))"

definition validateManagedAllowlist ::
  "managed_lib \<Rightarrow> int \<Rightarrow> bare_id \<Rightarrow> bytes \<Rightarrow> peer_id list \<Rightarrow> peer_id list" where
  "validateManagedAllowlist L now user managed peers =
     (if managed = [] then peers
      else case ReadState L managed (subject_text user) now of
        None \<Rightarrow> []
      | Some s \<Rightarrow>
          (case VerifyPolicy L (st_envelope s) (st_publicKey s) (subject_text user) (st_device s) 0 [] now of
             None \<Rightarrow> []
           | Some p \<Rightarrow> policy_peers p))"

text \<open>A session with the settings that were read.\<close>

definition Session :: "managed_lib \<Rightarrow> int \<Rightarrow> bare_id \<Rightarrow> peer_id list \<Rightarrow> bytes \<Rightarrow> bytes \<Rightarrow> managed_session" where
  "Session L now user peers managed connection =
     (let peers = validateManagedAllowlist L now user managed peers
      in \<lparr>se_user = user, se_configured = (managed \<noteq> [] \<or> peers \<noteq> []), se_peers = peers, se_changes = 0,
          ms_managed = managed, ms_connection = connection, ms_unloaded = []\<rparr>)"

text \<open>What a blob is checked against: revision and bytes of the policy held, \<open>None\<close> if it does
  not fit the state held.\<close>

definition held_base :: "managed_lib \<Rightarrow> int \<Rightarrow> managed_session \<Rightarrow> managed_state \<Rightarrow> (int \<times> bytes) option" where
  "held_base L now h s =
     (if ms_managed h = [] then Some (0, [])
      else case ReadState L (ms_managed h) (subject_text (se_user h)) now of
        None \<Rightarrow> None
      | Some current \<Rightarrow>
          if st_origin current \<noteq> st_origin s \<or> st_publicKey current \<noteq> st_publicKey s
             \<or> st_device current \<noteq> st_device s then None
          else map_option (\<lambda>old. (po_revision old, po_bytes old))
            (VerifyPolicy L (st_envelope current) (st_publicKey current) (subject_text (se_user h))
              (st_device current) 0 [] now))"

text \<open>The permissions change once the candidate is on disk; then the chats that fell out go.\<close>

definition replace_managed :: "managed_lib \<Rightarrow> int \<Rightarrow> bytes \<Rightarrow> managed_session \<Rightarrow> managed_session" where
  "replace_managed L now blob h =
     (let peers = validateManagedAllowlist L now (se_user h) blob (se_peers h);
          h' = h\<lparr>ms_managed := blob, se_peers := peers, se_configured := True,
                 se_changes := se_changes h + 1\<rparr>
      in h'\<lparr>ms_unloaded := ms_unloaded h' @
           (if se_peers h = peers then []
            else filter (\<lambda>p. \<not> allowlistAllows (session.truncate h') p) (se_peers h))\<rparr>)"

definition applyManagedAllowlist ::
  "managed_lib \<Rightarrow> int \<Rightarrow> (bytes \<Rightarrow> bool) \<Rightarrow> bytes \<Rightarrow> managed_session \<Rightarrow> managed_session \<times> bool" where
  "applyManagedAllowlist L now saved blob h =
     (if \<not> se_configured h then (h, False)
      else let subject = subject_text (se_user h)
        in case ReadState L blob subject now of
          None \<Rightarrow> (h, False)
        | Some s \<Rightarrow>
            (case held_base L now h s of
               None \<Rightarrow> (h, False)
             | Some (least, previous) \<Rightarrow>
                 if VerifyPolicy L (st_envelope s) (st_publicKey s) subject (st_device s) least previous now = None
                 then (h, False)
                 else if ms_managed h = blob then (h, True)
                 else if \<not> saved blob then (h, False)
                 else (replace_managed L now blob h, True)))"

definition commit_connection :: "(bytes \<Rightarrow> bool) \<Rightarrow> bytes \<Rightarrow> managed_session \<Rightarrow> managed_session \<times> bool" where
  "commit_connection saved blob h =
     (if blob = [] \<or> MaxWireBytes < length blob then (h, False)
      else if \<not> saved blob then (h, False)
      else (h\<lparr>ms_connection := blob\<rparr>, True))"

definition host_peer :: "peer_id \<Rightarrow> managed_peer" where
  "host_peer p =
     \<lparr>mp_kind = (if peerIsUser p then qlit ''user'' else if peerIsChat p then qlit ''chat'' else qlit ''channel''),
      mp_id = unat (p AND k_chat_type_mask)\<rparr>"

definition session_setup ::
  "managed_lib \<Rightarrow> hub_lib \<Rightarrow> bare_id \<Rightarrow> url \<Rightarrow> bytes \<Rightarrow> url \<Rightarrow> managed_session client_setup" where
  "session_setup L H user origin key hub =
     \<lparr>su_lib = L, su_hub = H, su_subject = subject_text user, su_stored = ms_managed,
      su_configured = se_configured, su_initial = (\<lambda>h. map host_peer (se_peers h)),
      su_commit = (\<lambda>e. applyManagedAllowlist L (en_now e) (en_written e)),
      su_connectionStored = Some ms_connection,
      su_connectionCommit = Some (\<lambda>e. commit_connection (en_written e)),
      su_liveSync = True, su_hubProof = True, su_chats = True,
      su_connectionOrigin = origin, su_connectionKey = key, su_hubOrigin = hub\<rparr>"

section \<open>The session keeps the host's contract\<close>

lemma ReadState_Nil [simp]: "ReadState L [] subject now = None"
  by (simp add: ReadState_def ReadObject_def)

lemma applyManagedAllowlist_cases:
  assumes "applyManagedAllowlist L now saved blob h = (h', ok)"
  shows "\<not> ok \<Longrightarrow> h' = h" "ok \<Longrightarrow> ms_managed h' = blob" "ok \<Longrightarrow> blob \<noteq> []"
  using assms unfolding applyManagedAllowlist_def Let_def
  by (auto simp: replace_managed_def Let_def split: if_splits option.splits prod.splits)

interpretation session_host: managed_host "session_setup L H user origin key hub" for L H user origin key hub
proof
  fix e b h h'
  assume "su_commit (session_setup L H user origin key hub) e b h = (h', True)"
  then have "applyManagedAllowlist L (en_now e) (en_written e) b h = (h', True)" by (simp add: session_setup_def)
  from applyManagedAllowlist_cases [OF this]
  show "su_stored (session_setup L H user origin key hub) h' = b" "b \<noteq> []" by (simp_all add: session_setup_def)
next
  fix e b h h'
  assume "su_commit (session_setup L H user origin key hub) e b h = (h', False)"
  then have "applyManagedAllowlist L (en_now e) (en_written e) b h = (h', False)" by (simp add: session_setup_def)
  from applyManagedAllowlist_cases [OF this]
  show "su_stored (session_setup L H user origin key hub) h' = su_stored (session_setup L H user origin key hub) h"
    by simp
next
  fix f e b h h' ok
  assume "su_connectionCommit (session_setup L H user origin key hub) = Some f" "f e b h = (h', ok)"
  then show "su_stored (session_setup L H user origin key hub) h' = su_stored (session_setup L H user origin key hub) h"
    by (auto simp: session_setup_def commit_connection_def split: if_splits)
qed

section \<open>What the session holds is signed\<close>

definition signed_policy :: "managed_lib \<Rightarrow> int \<Rightarrow> qstring \<Rightarrow> bytes \<Rightarrow> managed_state \<Rightarrow> policy \<Rightarrow> bool" where
  "signed_policy L now subject blob s p \<longleftrightarrow> ReadState L blob subject now = Some s
     \<and> VerifyPolicy L (st_envelope s) (st_publicKey s) subject (st_device s) 0 [] now = Some p"

lemma set_policy_peers: "set (policy_peers p) = managed_peer_id ` set (po_peers p)"
proof -
  have "set (fold (\<lambda>e ps. insort_insert (managed_peer_id e) ps) es ps) = set ps \<union> managed_peer_id ` set es" for es ps
    by (induction es arbitrary: ps) auto
  then show ?thesis by (simp add: policy_peers_def)
qed

lemma replace_managed_simps [simp]:
  "ms_managed (replace_managed L now blob h) = blob" "se_configured (replace_managed L now blob h)"
  "se_user (replace_managed L now blob h) = se_user h"
  "se_peers (replace_managed L now blob h) = validateManagedAllowlist L now (se_user h) blob (se_peers h)"
  by (simp_all add: replace_managed_def Let_def)

lemma applyManagedAllowlist_True:
  assumes "applyManagedAllowlist L now saved blob h = (h', True)"
  obtains s r b p where "ReadState L blob (subject_text (se_user h)) now = Some s"
    "held_base L now h s = Some (r, b)"
    "VerifyPolicy L (st_envelope s) (st_publicKey s) (subject_text (se_user h)) (st_device s) r b now = Some p"
    "ms_managed h = blob \<and> h' = h \<or> h' = replace_managed L now blob h"
  using assms unfolding applyManagedAllowlist_def Let_def
  by (auto split: if_splits option.splits prod.splits)

lemma applied_policy:
  assumes "applyManagedAllowlist L now saved blob h = (h', True)"
  obtains s p where "signed_policy L now (subject_text (se_user h)) blob s p"
    "ms_managed h = blob \<and> h' = h \<or> se_peers h' = policy_peers p \<and> se_configured h'"
    "ms_managed h \<noteq> [] \<Longrightarrow> \<exists>t q. signed_policy L now (subject_text (se_user h)) (ms_managed h) t q
       \<and> st_origin s = st_origin t \<and> st_publicKey s = st_publicKey t \<and> st_device s = st_device t
       \<and> (po_revision q < po_revision p \<or> p = q)"
proof (rule applyManagedAllowlist_True [OF assms])
  fix s r b p
  assume s: "ReadState L blob (subject_text (se_user h)) now = Some s"
    and base: "held_base L now h s = Some (r, b)"
    and p: "VerifyPolicy L (st_envelope s) (st_publicKey s) (subject_text (se_user h)) (st_device s) r b now = Some p"
    and h': "ms_managed h = blob \<and> h' = h \<or> h' = replace_managed L now blob h"
  note p0 = VerifyPolicy_base [OF p]
  have "blob \<noteq> []" using s by auto
  then have "validateManagedAllowlist L now (se_user h) blob (se_peers h) = policy_peers p"
    by (simp add: validateManagedAllowlist_def s p0)
  moreover have "\<exists>t q. signed_policy L now (subject_text (se_user h)) (ms_managed h) t q
       \<and> st_origin s = st_origin t \<and> st_publicKey s = st_publicKey t \<and> st_device s = st_device t
       \<and> (po_revision q < po_revision p \<or> p = q)" if m: "ms_managed h \<noteq> []"
  proof -
    obtain t q where t: "ReadState L (ms_managed h) (subject_text (se_user h)) now = Some t"
      "st_origin t = st_origin s" "st_publicKey t = st_publicKey s" "st_device t = st_device s"
      and q: "VerifyPolicy L (st_envelope t) (st_publicKey t) (subject_text (se_user h)) (st_device t) 0 [] now = Some q"
      and rb: "r = po_revision q" "b = po_bytes q"
      using base m by (auto simp: held_base_def split: option.splits if_splits)
    have "po_revision q < po_revision p \<or> p = q"
      using VerifyPolicy_SomeD(3,5) [OF p] VerifyPolicy_unique [OF p, of _ _ _ _ _ q] q t(4) rb by fastforce
    with t q show ?thesis by (auto simp: signed_policy_def)
  qed
  ultimately show thesis using s p0 h' by (intro that [of s p]) (auto simp: signed_policy_def)
qed

text \<open>C2: The session takes a new state only if it carries a policy the head signed for it; a managed
  session keeps its head and its device, and its policy never goes back: the revision grows or the
  policy is the same.  Unless the state is the one it has, its list becomes that of the policy.\<close>

theorem session_never_rolls_back:
  assumes "applyManagedAllowlist L now saved blob h = (h', True)"
  shows "ms_managed h' = blob \<and> (\<exists>s p. signed_policy L now (subject_text (se_user h)) blob s p
    \<and> (ms_managed h = blob \<and> h' = h \<or> se_peers h' = policy_peers p \<and> se_configured h')
    \<and> (ms_managed h \<noteq> [] \<longrightarrow> (\<exists>t q. signed_policy L now (subject_text (se_user h)) (ms_managed h) t q
         \<and> st_origin s = st_origin t \<and> st_publicKey s = st_publicKey t \<and> st_device s = st_device t
         \<and> (po_revision q < po_revision p \<or> p = q))))"
  using applied_policy [OF assms] applyManagedAllowlist_cases(2) [OF assms] by metis

section \<open>Runs of a managed session\<close>

text \<open>\<open>configureAllowlist\<close> sees the session's own fields.\<close>

definition managed_configure ::
  "(peer_id list \<Rightarrow> bool) \<Rightarrow> string \<Rightarrow> string \<Rightarrow> managed_session \<Rightarrow> managed_session" where
  "managed_configure saved users groups h =
     session.extend (fst (configureAllowlist saved users groups (session.truncate h)))
       (managed_session.fields (ms_managed h) (ms_connection h) (ms_unloaded h))"

inductive session_run :: "managed_lib \<Rightarrow> bare_id \<Rightarrow> managed_session \<Rightarrow> bool" for L user where
  read: "session_run L user (Session L now user peers managed connection)"
| policy: "session_run L user h \<Longrightarrow> session_run L user (fst (applyManagedAllowlist L now saved blob h))"
| connection: "session_run L user h \<Longrightarrow> session_run L user (fst (commit_connection saved blob h))"
| configure: "session_run L user h \<Longrightarrow> session_run L user (managed_configure saved_peers users groups h)"

definition listed :: "managed_lib \<Rightarrow> bare_id \<Rightarrow> managed_session \<Rightarrow> bool" where
  "listed L user h \<longleftrightarrow> se_user h = user
     \<and> (ms_managed h \<noteq> [] \<longrightarrow> se_configured h
          \<and> (\<forall>peer \<in> set (se_peers h). \<exists>now s p. signed_policy L now (subject_text user) (ms_managed h) s p
               \<and> peer \<in> set (policy_peers p)))"

lemma validated_listed:
  "blob \<noteq> [] \<Longrightarrow> peer \<in> set (validateManagedAllowlist L now user blob peers) \<Longrightarrow>
     \<exists>s p. signed_policy L now (subject_text user) blob s p \<and> peer \<in> set (policy_peers p)"
  unfolding validateManagedAllowlist_def signed_policy_def
  by (cases "ReadState L blob (subject_text user) now"; simp)
    (cases "VerifyPolicy L (st_envelope (the (ReadState L blob (subject_text user) now)))
      (st_publicKey (the (ReadState L blob (subject_text user) now))) (subject_text user)
      (st_device (the (ReadState L blob (subject_text user) now))) 0 [] now"; simp)

lemma session_run_listed: "session_run L user h \<Longrightarrow> listed L user h"
proof (induction rule: session_run.induct)
  case (read now peers managed connection)
  show ?case using validated_listed by (fastforce simp: listed_def Session_def Let_def)
next
  case (policy h now saved blob)
  obtain h' ok where h': "applyManagedAllowlist L now saved blob h = (h', ok)" by fastforce
  show ?case
  proof (cases ok)
    case False
    then show ?thesis using applyManagedAllowlist_cases(1) [OF h'] policy.IH by (simp add: h')
  next
    case True
    have h'': "applyManagedAllowlist L now saved blob h = (h', True)" using h' True by simp
    have "blob \<noteq> []" by (rule applyManagedAllowlist_cases(3) [OF h']) (rule True)
    from h'' show ?thesis
    proof (rule applyManagedAllowlist_True)
      assume "ms_managed h = blob \<and> h' = h \<or> h' = replace_managed L now blob h"
      moreover have "listed L user (replace_managed L now blob h)"
        using policy.IH validated_listed [OF \<open>blob \<noteq> []\<close>, of _ L now user "se_peers h"]
        by (simp add: listed_def) blast
      ultimately show ?thesis using policy.IH by (auto simp: h')
    qed
  qed
next
  case (connection h saved blob)
  then show ?case by (auto simp: listed_def commit_connection_def)
next
  case (configure h saved users groups)
  then show ?case
    by (cases h) (auto simp: listed_def managed_configure_def configureAllowlist_def session.defs
        managed_session.defs Let_def split: prod.splits)
qed

text \<open>C1: In a session with a managed state a peer is allowed only if it is in a policy of that state, and
  the head's key signed the policy: whatever is offered to the session, and in whatever order.\<close>

theorem managed_allows_only_signed:
  assumes "session_run L user h" "ms_managed h \<noteq> []" "allowlistAllows (session.truncate h) peer"
  shows "\<exists>now s p signature. signed_policy L now (subject_text user) (ms_managed h) s p
    \<and> (\<exists>e \<in> set (po_peers p). managed_peer_id e = peer)
    \<and> lb_ed25519 L (st_publicKey s) (policy_prefix @ po_bytes p) signature"
proof -
  have "peer \<in> set (se_peers h)" using assms(3) by (simp add: allowlistAllows_def session.defs)
  then obtain now s p where P: "signed_policy L now (subject_text user) (ms_managed h) s p"
    "peer \<in> set (policy_peers p)"
    using session_run_listed [OF assms(1)] assms(2) by (auto simp: listed_def)
  then have "VerifyPolicy L (st_envelope s) (st_publicKey s) (subject_text user) (st_device s) 0 [] now = Some p"
    by (simp add: signed_policy_def)
  from VerifyPolicy_SomeD(7) [OF this] obtain signature
    where "lb_ed25519 L (st_publicKey s) (policy_prefix @ po_bytes p) signature"
    by (auto simp: Signature_def)
  with P show ?thesis by (auto simp: set_policy_peers)
qed

section \<open>The client over the session\<close>

lemma session_setup_simps [simp]:
  "su_lib (session_setup L H user origin key hub) = L" "su_subject (session_setup L H user origin key hub) = subject_text user"
  "su_stored (session_setup L H user origin key hub) = ms_managed" "su_hubProof (session_setup L H user origin key hub)"
  by (simp_all add: session_setup_def)


text \<open>C10: Once a client is managed, no event changes its head, device or account, or takes its policy back;
  and a state it goes on with is the one the session has stored.\<close>

theorem client_never_goes_back:
  assumes "reachable (session_setup L H user origin key hub) c" "cl_state c = Some s" "cl_policy c = Some p"
    and "d = step (session_setup L H user origin key hub) e ev c"
  shows "\<exists>t q. cl_state d = Some t \<and> cl_policy d = Some q
    \<and> st_origin t = st_origin s \<and> st_publicKey t = st_publicKey s \<and> st_device t = st_device s
    \<and> st_subject t = st_subject s \<and> (po_revision p < po_revision q \<or> q = p)
    \<and> (t \<noteq> s \<longrightarrow> ms_managed (cl_host d) = SaveState L t)"
proof -
  have "advances (session_setup L H user origin key hub) c d"
    unfolding assms(4) by (rule session_host.reachable_step [OF assms(1)])
  then show ?thesis using assms(2,3) by (auto simp: advances_def unchanged_def applied_def same_head_def)
qed

text \<open>C12: A managed client that is past its enrollment, or has given it up, never falls silent: until it is
  stopped there is a request on its way or a timer running that makes the next.\<close>

theorem client_keeps_asking:
  assumes "reachable (session_setup L H user origin key hub) c" "\<not> cl_stopped c" "cl_state c \<noteq> None"
    and "cl_hubSuppressed c \<or> hubReady c"
  shows "cl_reply c \<noteq> None \<or> cl_timer c \<noteq> None"
proof -
  have "direct (session_setup L H user origin key hub) c" using assms(4) by (simp add: direct_def)
  with session_host.reachable_goes_on [OF assms(1)] assms(2,3) show ?thesis
    by (auto simp: goes_on_def split: option.splits)
qed


end
