(* ===== verification/Managed_Examples.thy ===== *)
theory Managed_Examples
  imports Managed_Session
begin

text \<open>
  A managed session over the sample documents, and the properties of sessions and clients there.
\<close>

definition sample_session :: "bytes \<Rightarrow> managed_session" where
  "sample_session connection =
     \<lparr>se_user = 7, se_configured = True, se_peers = [peerFromUser 9], se_changes = 0,
      ms_managed = sample_saved_text ''cDE'', ms_connection = connection, ms_unloaded = []\<rparr>"

definition sample_hub :: hub_lib where
  "sample_hub = \<lparr>hb_fromBase64 = (\<lambda>bs. []), hb_trimmed = (\<lambda>s. s), hb_url = (\<lambda>s. sample_url), hb_public = (\<lambda>s. []),
     hb_sign = (\<lambda>s m. None), hb_toUcs4 = map unat, hb_fromUcs4 = (\<lambda>p. [of_nat p]), hb_other = (\<lambda>p. p < 32)\<rparr>"

definition sample_env :: env where
  "sample_env = \<lparr>en_now = 10, en_written = (\<lambda>_. True), en_random = None, en_random2 = None\<rparr>"

definition sample_setup :: "url \<Rightarrow> managed_session client_setup" where
  "sample_setup hub = session_setup sample_lib sample_hub 7 sample_url sample_key hub"

definition no_hub :: url where "no_hub = sample_url\<lparr>url_host := []\<rparr>"

section \<open>The session\<close>

lemma subject_text_7: "subject_text 7 = qlit ''7''"
  by code_simp

lemma sample_state_simps [simp]:
  "st_origin (sample_state t) = sample_url" "st_publicKey (sample_state t) = sample_key"
  "st_device (sample_state t) = qlit sample_device" "st_envelope (sample_state t) = sample_envelope t"
  by (simp_all add: sample_state_def)

lemma sample_saved_nonempty [simp]: "sample_saved_text t \<noteq> []"
  by (simp add: sample_saved_text_def object_text_def)

lemma sample_saved_neq: "sample_saved_text ''cDE'' \<noteq> sample_saved_text ''cDI''"
  using sample_ReadObject(5,6) by (auto simp: sample_saved_object_def qlit_inj sample_envelope_def
    object_text_def member_text_def quoted_def)

lemma sample_policy_peers: "policy_peers (sample_policy r n) = [peerFromUser 9]"
  by (simp add: policy_peers_def sample_policy_def managed_peer_id_def insort_insert_key_def)

lemma sample_signed: "signed_policy sample_lib 10 (qlit ''7'') (sample_saved_text ''cDE'') (sample_state ''cDE'') (sample_policy ''1'' 1)"
  using sample_ReadState(1) [of 10] sample_verified [of 0 "[]" 10] by (simp add: signed_policy_def)

lemma sample_validated: "validateManagedAllowlist sample_lib 10 7 (sample_saved_text ''cDE'') peers = [peerFromUser 9]"
  using sample_signed by (simp add: validateManagedAllowlist_def signed_policy_def subject_text_7 sample_policy_peers)

lemma sample_Session: "Session sample_lib 10 7 [] (sample_saved_text ''cDE'') connection = sample_session connection"
  by (simp add: Session_def sample_validated sample_session_def)

lemma sample_applied:
  "applyManagedAllowlist sample_lib 10 (\<lambda>_. True) (sample_saved_text ''cDI'') (sample_session []) =
     (replace_managed sample_lib 10 (sample_saved_text ''cDI'') (sample_session []), True)"
proof -
  have u: "se_user (sample_session []) = 7" "ms_managed (sample_session []) = sample_saved_text ''cDE''"
    "se_configured (sample_session [])"
    by (simp_all add: sample_session_def)
  have b: "held_base sample_lib 10 (sample_session []) (sample_state ''cDI'') = Some (1, sample_policy_text ''1'')"
    using sample_signed
    by (simp add: held_base_def u subject_text_7 signed_policy_def) (simp add: sample_policy_def)
  show ?thesis
    unfolding applyManagedAllowlist_def
    using sample_ReadState(2) [of 10] sample_verified_2 [of 1 10 "sample_policy_text ''1''"] sample_saved_neq
    by (simp add: u b subject_text_7 Let_def)
qed

theorem session_never_rolls_back_witness:
  "\<exists>s p. signed_policy sample_lib 10 (qlit ''7'') (sample_saved_text ''cDI'') s p
     \<and> se_peers (replace_managed sample_lib 10 (sample_saved_text ''cDI'') (sample_session [])) = policy_peers p"
proof -
  have "se_user (sample_session []) = 7" "ms_managed (sample_session []) = sample_saved_text ''cDE''"
    by (simp_all add: sample_session_def)
  with session_never_rolls_back [OF sample_applied] sample_saved_neq show ?thesis
    by (auto simp: subject_text_7)
qed

theorem managed_allows_only_signed_witness:
  "\<exists>now s p signature. signed_policy sample_lib now (qlit ''7'') (sample_saved_text ''cDE'') s p
     \<and> (\<exists>e \<in> set (po_peers p). managed_peer_id e = peerFromUser 9)
     \<and> lb_ed25519 sample_lib (st_publicKey s) (policy_prefix @ po_bytes p) signature"
proof -
  have "session_run sample_lib 7 (sample_session [])"
    using session_run.read [of sample_lib 7 10 "[]" "sample_saved_text ''cDE''" "[]"] by (simp only: sample_Session)
  moreover have "ms_managed (sample_session []) = sample_saved_text ''cDE''" by (simp add: sample_session_def)
  moreover have "allowlistAllows (session.truncate (sample_session [])) (peerFromUser 9)"
    by code_simp
  ultimately show ?thesis
    using managed_allows_only_signed [of sample_lib 7 "sample_session []" "peerFromUser 9"]
    by (simp add: subject_text_7)
qed

section \<open>The client\<close>

definition sample_client :: "managed_session client" where
  "sample_client = Managed_Hub.start (sample_setup no_hub) sample_env (ManagedClient (sample_session []))"

lemma sample_reachable: "reachable (sample_setup no_hub) sample_client"
  unfolding sample_client_def by (rule reachable.started)

lemma sample_client_simps:
  "cl_state sample_client = Some (sample_state ''cDE'')" "cl_policy sample_client = Some (sample_policy ''1'' 1)"
  "\<not> cl_stopped sample_client" "cl_hubSuppressed sample_client"
proof -
  have u: "ReadState sample_lib (sample_saved_text ''cDE'') (qlit ''7'') 10 = Some (sample_state ''cDE'')"
    "VerifyPolicy sample_lib (sample_envelope ''cDE'') sample_key (qlit ''7'') (qlit sample_device) 0 [] 10 = Some (sample_policy ''1'' 1)"
    using sample_ReadState(1) [of 10] sample_verified [of 0 "[]" 10] by simp_all
  have n: "\<not> HubSafeOrigin no_hub" by (simp add: HubSafeOrigin_def no_hub_def)
  let ?c = "(ManagedClient (sample_session []))\<lparr>cl_state := Some (sample_state ''cDE''),
     cl_policy := Some (sample_policy ''1'' 1), cl_ackPending := True, cl_status := UsingRevision (po_revision (sample_policy ''1'' 1))\<rparr>"
  have s: "sample_client = refresh (sample_setup no_hub) sample_env ?c"
    using u by (simp add: sample_client_def Managed_Hub.start_def Let_def sample_setup_def session_setup_def
      subject_text_7 sample_env_def ManagedClient_def sample_session_def deref_policy_def changeStatus_def revision_def)
  let ?d = "?c\<lparr>cl_hubSuppressed := True\<rparr>"
  have r: "refresh (sample_setup no_hub) sample_env ?c = acknowledge (sample_setup no_hub) (?d\<lparr>cl_timer := None\<rparr>)"
    using n by (simp add: refresh_def beginHubEnrollment_def refresh_with_def begin_hub_def paired_def
      hubReady_def field_def to_int_def sample_setup_def session_setup_def ManagedClient_def sample_session_def)
  show "cl_state sample_client = Some (sample_state ''cDE'')" "cl_policy sample_client = Some (sample_policy ''1'' 1)"
    "\<not> cl_stopped sample_client" "cl_hubSuppressed sample_client"
    unfolding s r
    by (simp_all add: acknowledge_def request_def deref_policy_def ManagedClient_def Let_def)
qed


theorem client_never_goes_back_witness:
  "\<exists>t q. cl_state (step (sample_setup no_hub) sample_env Timer sample_client) = Some t
     \<and> cl_policy (step (sample_setup no_hub) sample_env Timer sample_client) = Some q
     \<and> st_device t = qlit sample_device \<and> 1 \<le> po_revision q"
proof -
  have "po_revision (sample_policy ''1'' 1) = 1" by (simp add: sample_policy_def)
  with client_never_goes_back [OF sample_reachable [unfolded sample_setup_def] sample_client_simps(1,2) refl,
      of sample_env Timer, folded sample_setup_def]
  show ?thesis by fastforce
qed

theorem client_keeps_asking_witness: "\<not> (cl_reply sample_client = None \<and> cl_timer sample_client = None)"
  using client_keeps_asking [OF sample_reachable [unfolded sample_setup_def] sample_client_simps(3)]
    sample_client_simps(1,4) by simp


end
