(* ===== verification/Managed_Texts.thy ===== *)
theory Managed_Texts
  imports Managed_Hub "HOL-Library.Multiset"
begin

text \<open>
  What the managed client takes from the network and sends to it: the bound on a body that
  arrives in pieces, the label of a chat, and the canonical list of peers a hub signature covers.
\<close>

section \<open>Bodies\<close>

lemma consume_oversized: "snd r \<Longrightarrow> foldl consume r chunks = r"
  by (induction chunks) (simp_all add: consume_def)

lemma consume_all:
  "length bs \<le> MaxWireBytes \<Longrightarrow>
     (if length (bs @ concat chunks) \<le> MaxWireBytes
      then foldl consume (bs, False) chunks = (bs @ concat chunks, False)
      else snd (foldl consume (bs, False) chunks) \<and> length (fst (foldl consume (bs, False) chunks)) \<le> MaxWireBytes)"
proof (induction chunks arbitrary: bs)
  case (Cons x xs)
  show ?case
  proof (cases "MaxWireBytes - length bs < length x")
    case True
    then have step: "consume (bs, False) x = (bs, True)" by (simp add: consume_def)
    show ?thesis using True Cons.prems by (simp add: step consume_oversized)
  next
    case False
    then have step: "consume (bs, False) x = (bs @ x, False)" by (simp add: consume_def)
    have "length (bs @ x) \<le> MaxWireBytes" using False Cons.prems by simp
    from Cons.IH [OF this] show ?thesis by (simp add: step)
  qed
qed simp

text \<open>Whatever pieces a body arrives in, at most \<open>MaxWireBytes\<close> of it are kept; it is taken as a
  whole if it fits and rejected as oversized if it does not.\<close>

theorem received_body:
  "length (fst (foldl consume ([], False) chunks)) \<le> MaxWireBytes
   \<and> (snd (foldl consume ([], False) chunks) \<longleftrightarrow> MaxWireBytes < length (concat chunks))
   \<and> (\<not> snd (foldl consume ([], False) chunks) \<longrightarrow> fst (foldl consume ([], False) chunks) = concat chunks)"
  using consume_all [of "[]" chunks] by (simp split: if_splits)

theorem received_body_witness: "fst (foldl consume ([], False) [''{'', ''}'']) = ''{}''"
  using received_body [of "[''{'', ''}'']"] by (simp add: MaxWireBytes_def MaxPolicyBytes_def)

section \<open>Labels\<close>

lemma label_points_take: "n \<le> 128 \<Longrightarrow> label_points other n ps = take (128 - n) (filter (\<lambda>p. \<not> other p) ps)"
proof (induction other n ps rule: label_points.induct)
  case (2 other n p ps)
  then show ?case by (cases "n = 128") (auto simp: take_Cons')
qed simp

text \<open>A chat's label is made of the first 128 code points of its title that are not of a control,
  format, surrogate, private or unassigned category, trimmed; a title without any is replaced.\<close>

lemma HubChatLabel_points:
  "HubChatLabel H title fallback =
     (let points = take 128 (filter (\<lambda>p. \<not> hb_other H p) (hb_toUcs4 H (hb_trimmed H title)));
          label = hb_trimmed H (concat (map (hb_fromUcs4 H) points))
      in if label = [] then fallback else label)"
  by (simp add: HubChatLabel_def label_points_take)

section \<open>The peers a signature covers\<close>

text \<open>The canonical text of a list of peers does not depend on the order they are listed in.\<close>

lemma canonical_peers_order:
  assumes "mset ps = mset qs" shows "HubCanonicalPeers L ps = HubCanonicalPeers L qs"
proof -
  have "mset (map peer_pair ps) = mset (map peer_pair qs)" using assms by simp
  then have "sort (map peer_pair ps) = sort (map peer_pair qs)"
    by (metis mset_sort properties_for_sort sorted_sort)
  then show ?thesis by (simp add: HubCanonicalPeers_def)
qed

end
