(* ===== verification/Settings_Tail.thy ===== *)
theory Settings_Tail
  imports Managed_Session
begin

text \<open>
  How the settings of a session keep the allow-list, the managed state and the dashboard
  connection: the end of \<open>SessionSettings::serialize\<close> and of
  \<open>SessionSettings::addFromSerialized\<close> (\<open>main/main_session_settings.cpp\<close>), byte by byte.  A
  \<open>QDataStream\<close> that is read is its remaining bytes and whether its status is still \<open>Ok\<close>;
  numbers are big-endian, and a number that is cut off reads as zero.
\<close>

section \<open>The stream\<close>

type_synonym data_stream = "bytes \<times> bool"

fun be_bytes :: "nat \<Rightarrow> nat \<Rightarrow> bytes" where
  "be_bytes 0 x = []"
| "be_bytes (Suc n) x = char_of (x div 256 ^ n mod 256) # be_bytes n x"

definition be_value :: "bytes \<Rightarrow> nat" where
  "be_value bs = foldl (\<lambda>v c. 256 * v + of_char c) 0 bs"

definition read_be :: "nat \<Rightarrow> data_stream \<Rightarrow> nat \<times> data_stream" where
  "read_be n s = (if n \<le> length (fst s) then (be_value (take n (fst s)), (drop n (fst s), snd s))
     else (0, ([], False)))"

definition kAllowlistMagic :: nat where "kAllowlistMagic = 0x414C5731"
definition kManagedMagic :: nat where "kManagedMagic = 0x41474831"
definition kConnectionMagic :: nat where "kConnectionMagic = 0x41474331"

definition write_chunk :: "nat \<Rightarrow> bytes \<Rightarrow> bytes" where
  "write_chunk magic bs = (if bs = [] then [] else be_bytes 4 magic @ be_bytes 4 (length bs) @ bs)"

definition serialized_peer :: "peer_id \<Rightarrow> nat" where
  "serialized_peer p = (case SerializePeerId p of None \<Rightarrow> 0 | Some w \<Rightarrow> unat w)"

definition write_tail :: "peer_id list \<Rightarrow> bytes \<Rightarrow> bytes \<Rightarrow> bytes" where
  "write_tail peers managed connection =
     be_bytes 4 kAllowlistMagic @ be_bytes 4 (length peers)
     @ concat (map (\<lambda>p. be_bytes 8 (serialized_peer p)) peers)
     @ write_chunk kManagedMagic managed @ write_chunk kConnectionMagic connection"

section \<open>Reading\<close>

definition peer_fits :: "64 word \<Rightarrow> peer_id \<Rightarrow> bool" where
  "peer_fits serialized p \<longleftrightarrow>
     p AND k_chat_type_mask \<noteq> 0 \<and> drop_bit 56 p = 0 \<and> SerializePeerId p = Some serialized
     \<and> (peerIsUser p \<or> peerIsChat p \<or> peerIsChannel p)"

fun read_list :: "nat \<Rightarrow> data_stream \<Rightarrow> peer_id list \<Rightarrow> (peer_id list \<times> data_stream) option" where
  "read_list 0 s peers = Some (peers, s)"
| "read_list (Suc n) s peers =
     (let (v, s) = read_be 8 s; serialized = of_nat v; p = DeserializePeerId serialized
      in if \<not> snd s \<or> \<not> peer_fits serialized p then None
         else read_list n s (insort_insert p peers))"

definition invalid_managed :: bytes where "invalid_managed = ''invalid-managed-state''"
definition invalid_connection :: bytes where "invalid_connection = ''invalid-connection-state''"

text \<open>Whether the end was reached with the status \<open>Ok\<close>, the managed state and the connection.\<close>

function read_chunks :: "data_stream \<Rightarrow> bytes \<Rightarrow> bytes \<Rightarrow> bool \<times> bytes \<times> bytes" where
  "read_chunks s managed connection =
     (if fst s = [] then (snd s, managed, connection)
      else let (tag, s1) = read_be 4 s; (size, s2) = read_be 4 s1;
               is_connection = (tag = kConnectionMagic);
               is_managed = (tag = kManagedMagic \<and> managed = [] \<and> connection = [])
        in if \<not> is_connection \<and> \<not> is_managed \<or> is_connection \<and> connection \<noteq> []
           then (False, invalid_managed, connection)
           else let m = (if is_managed then invalid_managed else managed);
                    k = (if is_managed then connection else invalid_connection)
             in if size = 0 \<or> MaxWireBytes < size \<or> length (fst s2) < size \<or> \<not> snd s2 then (False, m, k)
                else let bs = take size (fst s2); s3 = (drop size (fst s2), snd s2)
                  in if is_managed then read_chunks s3 bs connection
                     else if fst s3 \<noteq> [] then (False, invalid_managed, bs)
                     else read_chunks s3 managed bs)"
  by pat_completeness auto
termination
proof (relation "measure (\<lambda>(s, m, k). length (fst s))")
qed (auto simp: read_be_def split: if_splits)

record settings_tail =
  tl_done :: bool
  tl_peers :: "peer_id list"
  tl_managed :: bytes
  tl_connection :: bytes

definition cut_off :: settings_tail where
  "cut_off = \<lparr>tl_done = False, tl_peers = [], tl_managed = [], tl_connection = []\<rparr>"

text \<open>Only what is read to the end gives the list; the chunks stay as far as they were read.\<close>

definition read_tail :: "bytes \<Rightarrow> settings_tail" where
  "read_tail bs =
     (if bs = [] then cut_off\<lparr>tl_done := True\<rparr>
      else let (magic, s1) = read_be 4 (bs, True); (count, s2) = read_be 4 s1
        in if magic \<noteq> kAllowlistMagic \<or> 2 ^ 31 \<le> count \<or> kMaximumEntries < count then cut_off
           else case read_list count s2 [] of
             None \<Rightarrow> cut_off
           | Some (peers, s3) \<Rightarrow>
               if length peers \<noteq> count then cut_off
               else let (ok, managed, connection) = read_chunks s3 [] []
                 in \<lparr>tl_done = ok, tl_peers = (if ok then peers else []), tl_managed = managed,
                     tl_connection = connection\<rparr>)"

declare read_chunks.simps [simp del]

section \<open>Numbers\<close>

lemma length_be_bytes [simp]: "length (be_bytes n x) = n"
  by (induction n) simp_all

lemma be_value_snoc: "be_value (bs @ [c]) = 256 * be_value bs + of_char c"
  by (simp add: be_value_def)

lemma be_value_Cons: "be_value (c # bs) = of_char c * 256 ^ length bs + be_value bs"
proof (induction bs rule: rev_induct)
  case (snoc d bs)
  have "be_value (c # bs @ [d]) = 256 * be_value (c # bs) + of_char d"
    using be_value_snoc [of "c # bs" d] by simp
  then show ?case using snoc.IH by (simp add: be_value_snoc algebra_simps)
qed (simp add: be_value_def)

lemma be_value_less: "be_value bs < 256 ^ length bs"
proof (induction bs)
  case (Cons c bs)
  have "(of_char c :: nat) < 256" by simp
  then have "(of_char c :: nat) \<le> 255" by linarith
  then have "(of_char c :: nat) * 256 ^ length bs \<le> 255 * 256 ^ length bs"
    by (rule mult_right_mono) simp
  with Cons.IH have "of_char c * 256 ^ length bs + be_value bs < 256 * 256 ^ length bs" by linarith
  then show ?case by (simp add: be_value_Cons)
qed (simp add: be_value_def)

lemma be_value_be_bytes: "be_value (be_bytes n x) = x mod 256 ^ n"
proof (induction n)
  case (Suc n)
  have "x mod 256 ^ Suc n = x div 256 ^ n mod 256 * 256 ^ n + x mod 256 ^ n"
    using mod_mult2_eq [of x "256 ^ n" 256] by (simp add: mult.commute)
  then show ?case by (simp add: be_value_Cons Suc.IH)
qed (simp add: be_value_def)

lemma be_bytes_mod: "be_bytes n (y * 256 ^ n + x) = be_bytes n x"
proof (induction n arbitrary: y)
  case (Suc n)
  have "(y * 256 ^ Suc n + x) div 256 ^ n = y * 256 + x div 256 ^ n"
    using div_mult_self3 [of "256 ^ n" "y * 256" x] by (simp add: algebra_simps)
  moreover have "be_bytes n (y * 256 ^ Suc n + x) = be_bytes n x"
    using Suc.IH [of "y * 256"] by (simp add: algebra_simps)
  ultimately show ?case by simp
qed simp

lemma be_bytes_be_value: "be_bytes (length bs) (be_value bs) = bs"
proof (induction bs)
  case (Cons c bs)
  have "be_value (c # bs) div 256 ^ length bs = of_char c"
    using be_value_less [of bs] by (simp add: be_value_Cons)
  then show ?case
    using Cons.IH nat_of_char_less_256 [of c] by (simp add: be_value_Cons be_bytes_mod)
qed simp

lemma read_be_written: "x < 256 ^ n \<Longrightarrow> read_be n (be_bytes n x @ rest, ok) = (x, (rest, ok))"
  by (simp add: read_be_def be_value_be_bytes)

lemma read_be_ok:
  assumes "read_be n s = (v, t)" "snd t"
  shows "fst s = be_bytes n v @ fst t \<and> snd s \<and> v < 256 ^ n"
proof -
  have l: "n \<le> length (fst s)" "v = be_value (take n (fst s))" "t = (drop n (fst s), snd s)"
    using assms by (auto simp: read_be_def split: if_splits)
  have "be_bytes n v = take n (fst s)" using be_bytes_be_value [of "take n (fst s)"] l by simp
  moreover have "v < 256 ^ n" using be_value_less [of "take n (fst s)"] l by simp
  ultimately show ?thesis using l assms(2) by simp
qed

section \<open>The list\<close>

definition storable :: "peer_id \<Rightarrow> bool" where
  "storable p \<longleftrightarrow> p AND k_chat_type_mask \<noteq> 0 \<and> drop_bit 56 p = 0 \<and> SerializePeerId p \<noteq> None
     \<and> (peerIsUser p \<or> peerIsChat p \<or> peerIsChannel p)"

definition write_peers :: "peer_id list \<Rightarrow> bytes" where
  "write_peers ps = concat (map (\<lambda>p. be_bytes 8 (serialized_peer p)) ps)"

abbreviation peer_set :: "peer_id list \<Rightarrow> peer_id list \<Rightarrow> peer_id list" where
  "peer_set ps acc \<equiv> fold insort_insert ps acc"

lemma serialized_peer_storable:
  assumes "storable p"
  shows "serialized_peer p < 256 ^ 8" "peer_fits (of_nat (serialized_peer p)) (DeserializePeerId (of_nat (serialized_peer p)))"
    "DeserializePeerId (of_nat (serialized_peer p)) = p"
proof -
  obtain w where w: "SerializePeerId p = Some w" using assms by (auto simp: storable_def)
  have "unat w < 2 ^ LENGTH(64)" by (rule unsigned_less)
  then show "serialized_peer p < 256 ^ 8" by (simp add: serialized_peer_def w)
  show d: "DeserializePeerId (of_nat (serialized_peer p)) = p"
    using DeserializePeerId_Serialize [OF w] by (simp add: serialized_peer_def w)
  show "peer_fits (of_nat (serialized_peer p)) (DeserializePeerId (of_nat (serialized_peer p)))"
    unfolding d using assms w by (simp add: peer_fits_def storable_def serialized_peer_def)
qed

lemma read_list_written:
  "list_all storable ps \<Longrightarrow> read_list (length ps) (write_peers ps @ rest, True) acc = Some (peer_set ps acc, (rest, True))"
proof (induction ps arbitrary: acc)
  case (Cons p ps)
  then have p: "storable p" by simp
  have "read_be 8 (write_peers (p # ps) @ rest, True) = (serialized_peer p, (write_peers ps @ rest, True))"
    using read_be_written [OF serialized_peer_storable(1) [OF p]] by (simp add: write_peers_def)
  then show ?case using Cons serialized_peer_storable(2,3) [OF p] by simp
qed (simp add: write_peers_def)

lemma read_list_SomeD:
  "read_list n s acc = Some (peers, t) \<Longrightarrow> snd s \<Longrightarrow>
     \<exists>ps. length ps = n \<and> list_all storable ps \<and> fst s = write_peers ps @ fst t \<and> snd t \<and> peers = peer_set ps acc"
proof (induction n arbitrary: s acc)
  case (Suc n)
  obtain v s1 where v: "read_be 8 s = (v, s1)" by (cases "read_be 8 s")
  let ?p = "DeserializePeerId (of_nat v)"
  have f: "snd s1" "peer_fits (of_nat v) ?p" "read_list n s1 (insort_insert ?p acc) = Some (peers, t)"
    using Suc.prems(1) by (simp_all add: v Let_def split: if_splits)
  from Suc.IH [OF f(3,1)] obtain ps where ps: "length ps = n" "list_all storable ps"
    "fst s1 = write_peers ps @ fst t" "snd t" "peers = peer_set ps (insort_insert ?p acc)" by blast
  note r = read_be_ok [OF v f(1)]
  have "serialized_peer ?p = v"
    using f(2) r by (simp add: peer_fits_def serialized_peer_def unsigned_of_nat take_bit_nat_eq_self)
  moreover have "storable ?p" using f(2) by (auto simp: peer_fits_def storable_def)
  ultimately show ?case using ps r by (intro exI [of _ "?p # ps"]) (simp add: write_peers_def)
qed (simp add: write_peers_def)

lemma read_list_snd: "read_list n s acc = Some (peers, t) \<Longrightarrow> snd t \<Longrightarrow> snd s"
proof (induction n arbitrary: s acc)
  case (Suc n)
  obtain v s1 where v: "read_be 8 s = (v, s1)" by (cases "read_be 8 s")
  from Suc.prems(1) have "snd s1" by (simp add: v Let_def split: if_splits)
  with v show ?case by (auto simp: read_be_def split: if_splits)
qed simp

lemma peer_set_sort: "distinct ps \<Longrightarrow> peer_set ps [] = sort ps"
proof -
  have o: "ordered_set acc \<Longrightarrow> ordered_set (peer_set ps acc) \<and> set (peer_set ps acc) = set ps \<union> set acc" for ps acc
    by (induction ps arbitrary: acc) auto
  assume "distinct ps"
  then have "ordered_set (sort ps)" by (simp add: ordered_set_iff)
  then show ?thesis using o [of "[]" ps] by (intro ordered_set_unique) simp_all
qed

lemma length_peer_set: "length (peer_set ps []) = card (set ps)"
proof -
  have "ordered_set acc \<Longrightarrow> ordered_set (peer_set ps acc) \<and> set (peer_set ps acc) = set ps \<union> set acc" for ps acc
    by (induction ps arbitrary: acc) auto
  from this [of "[]" ps] show ?thesis by (simp add: ordered_set_length)
qed

section \<open>The chunks\<close>

lemma MaxWireBytes_bound: "n \<le> MaxWireBytes \<Longrightarrow> n < 256 ^ 4"
  by (simp add: MaxWireBytes_def MaxPolicyBytes_def)

lemma magic_bounds: "kAllowlistMagic < 256 ^ 4" "kManagedMagic < 256 ^ 4" "kConnectionMagic < 256 ^ 4"
  by (simp_all add: kAllowlistMagic_def kManagedMagic_def kConnectionMagic_def)

lemma magic_distinct: "kManagedMagic \<noteq> kConnectionMagic"
  by (simp add: kManagedMagic_def kConnectionMagic_def)

lemma read_chunks_end: "read_chunks ([], ok) m k = (ok, m, k)"
  by (simp add: read_chunks.simps [of "([], ok)"])

lemma write_chunk_nonempty: "b \<noteq> [] \<Longrightarrow> write_chunk magic b \<noteq> []"
  using length_be_bytes [of 4 magic] by (auto simp: write_chunk_def)

lemma write_chunk_read:
  assumes "b \<noteq> []" "length b \<le> MaxWireBytes" "magic < 256 ^ 4"
  shows "read_be 4 (write_chunk magic b @ rest, True) = (magic, (be_bytes 4 (length b) @ b @ rest, True))"
    "read_be 4 (be_bytes 4 (length b) @ b @ rest, True) = (length b, (b @ rest, True))"
    "write_chunk magic b @ rest \<noteq> []"
  using read_be_written [OF assms(3)] read_be_written [OF MaxWireBytes_bound [OF assms(2)]]
    write_chunk_nonempty [OF assms(1)] assms(1)
  by (simp_all add: write_chunk_def)

lemma read_chunks_managed:
  assumes "b \<noteq> []" "length b \<le> MaxWireBytes"
  shows "read_chunks (write_chunk kManagedMagic b @ rest, True) [] [] = read_chunks (rest, True) b []"
  using assms write_chunk_read [OF assms magic_bounds(2), of rest]
  unfolding read_chunks.simps [of "(write_chunk kManagedMagic b @ rest, True)"]
  by (simp only: Let_def prod.case fst_conv snd_conv if_False) (simp add: magic_distinct)

lemma read_chunks_connection:
  assumes "b \<noteq> []" "length b \<le> MaxWireBytes"
  shows "read_chunks (write_chunk kConnectionMagic b, True) m [] = (True, m, b)"
  using assms write_chunk_read [OF assms magic_bounds(3), of "[]"]
  unfolding read_chunks.simps [of "(write_chunk kConnectionMagic b, True)"] append_Nil2
  by (simp only: Let_def prod.case fst_conv snd_conv if_False)
    (simp add: magic_distinct [symmetric] read_chunks_end)

lemma read_chunks_written:
  assumes "length m \<le> MaxWireBytes" "length k \<le> MaxWireBytes"
  shows "read_chunks (write_chunk kManagedMagic m @ write_chunk kConnectionMagic k, True) [] [] = (True, m, k)"
proof -
  have c: "read_chunks (write_chunk kConnectionMagic k, True) m' [] = (True, m', k)" for m'
  proof (cases "k = []")
    case True
    then show ?thesis by (simp add: read_chunks_end write_chunk_def)
  qed (simp add: read_chunks_connection assms(2))
  show ?thesis
  proof (cases "m = []")
    case True
    then show ?thesis using c [of "[]"] by (simp add: write_chunk_def)
  qed (simp add: read_chunks_managed assms(1) c)
qed

text \<open>What a step that goes on has read.\<close>

lemma read_chunks_step:
  assumes "read_chunks s m [] = (True, m', k')" "fst s \<noteq> []"
  shows "snd s"
    "(\<exists>b. b \<noteq> [] \<and> length b \<le> MaxWireBytes \<and> fst s = write_chunk kConnectionMagic b \<and> m' = m \<and> k' = b)
     \<or> (m = [] \<and> (\<exists>b rest. b \<noteq> [] \<and> length b \<le> MaxWireBytes \<and> fst s = write_chunk kManagedMagic b @ rest
          \<and> read_chunks (rest, True) b [] = (True, m', k')))"
proof -
  obtain tag s1 where 1: "read_be 4 s = (tag, s1)" by (cases "read_be 4 s")
  obtain size s2 where 2: "read_be 4 s1 = (size, s2)" by (cases "read_be 4 s1")
  let ?b = "take size (fst s2)"
  have f: "tag = kConnectionMagic \<or> tag = kManagedMagic \<and> m = []" "size \<noteq> 0" "size \<le> MaxWireBytes"
    "size \<le> length (fst s2)" "snd s2"
    "tag = kConnectionMagic \<Longrightarrow> drop size (fst s2) = [] \<and> read_chunks ([], snd s2) m ?b = (True, m', k')"
    "tag = kManagedMagic \<Longrightarrow> read_chunks (drop size (fst s2), snd s2) ?b [] = (True, m', k')"
    using assms unfolding read_chunks.simps [of s]
    by (simp_all add: 1 2 Let_def magic_distinct magic_distinct [symmetric] split: if_splits)
  note r2 = read_be_ok [OF 2 f(5)]
  note r1 = read_be_ok [OF 1 conjunct1 [OF conjunct2 [OF r2]]]
  show "snd s" using r1 by simp
  have bytes: "fst s = be_bytes 4 tag @ be_bytes 4 (length ?b) @ ?b @ drop size (fst s2)"
    using r1 r2 f(4) by simp
  have b: "?b \<noteq> []" "length ?b \<le> MaxWireBytes" using f(2-4) by auto
  have w: "fst s = write_chunk tag ?b @ drop size (fst s2)"
    using bytes b(1) by (simp only: write_chunk_def if_False append_assoc)
  show "(\<exists>b. b \<noteq> [] \<and> length b \<le> MaxWireBytes \<and> fst s = write_chunk kConnectionMagic b \<and> m' = m \<and> k' = b)
     \<or> (m = [] \<and> (\<exists>b rest. b \<noteq> [] \<and> length b \<le> MaxWireBytes \<and> fst s = write_chunk kManagedMagic b @ rest
          \<and> read_chunks (rest, True) b [] = (True, m', k')))"
  proof (cases "tag = kConnectionMagic")
    case True
    note d = f(6) [OF True]
    have "fst s = write_chunk kConnectionMagic ?b"
      using w conjunct1 [OF d] by (simp only: True append_Nil2)
    moreover have "m' = m \<and> k' = ?b"
      using conjunct2 [OF d] unfolding read_chunks_end by blast
    ultimately show ?thesis using b by blast
  next
    case False
    then have tag: "tag = kManagedMagic" "m = []" using f(1) by blast+
    have "fst s = write_chunk kManagedMagic ?b @ drop size (fst s2)" using w by (simp only: tag)
    moreover have "read_chunks (drop size (fst s2), True) ?b [] = (True, m', k')"
      using f(7) [OF tag(1)] f(5) by simp
    ultimately show ?thesis using b tag(2) by blast
  qed
qed

lemma read_chunks_True:
  assumes "read_chunks s [] [] = (True, m, k)"
  shows "snd s \<and> fst s = write_chunk kManagedMagic m @ write_chunk kConnectionMagic k
    \<and> length m \<le> MaxWireBytes \<and> length k \<le> MaxWireBytes"
proof -
  have rest: "t = write_chunk kConnectionMagic k \<and> m = b \<and> length k \<le> MaxWireBytes"
    if c: "read_chunks (t, True) b [] = (True, m, k)" and b: "b \<noteq> []" for t b
  proof (cases "t = []")
    case True
    then show ?thesis using c by (simp add: read_chunks_end write_chunk_def)
  next
    case False
    then show ?thesis using read_chunks_step(2) [OF c] b by auto
  qed
  show ?thesis
  proof (cases "fst s = []")
    case True
    then show ?thesis using assms by (cases s) (simp add: read_chunks_end write_chunk_def)
  next
    case False
    note step = read_chunks_step [OF assms False]
    from step(2) show ?thesis
    proof (elim disjE exE conjE)
      fix b assume "length b \<le> MaxWireBytes" "fst s = write_chunk kConnectionMagic b" "m = []" "k = b"
      then show ?thesis using step(1) by (simp add: write_chunk_def [of kManagedMagic])
    next
      fix b r assume *: "b \<noteq> []" "length b \<le> MaxWireBytes" "fst s = write_chunk kManagedMagic b @ r"
        "read_chunks (r, True) b [] = (True, m, k)"
      then show ?thesis using step(1) rest [OF *(4,1)] by simp
    qed
  qed
qed

section \<open>The whole tail\<close>

lemma write_tail_peers: "write_tail ps m k = be_bytes 4 kAllowlistMagic @ be_bytes 4 (length ps) @ write_peers ps
    @ write_chunk kManagedMagic m @ write_chunk kConnectionMagic k"
  by (simp add: write_tail_def write_peers_def)

lemma kMaximumEntries_bounds: "n \<le> kMaximumEntries \<Longrightarrow> n < 2 ^ 31" "n \<le> kMaximumEntries \<Longrightarrow> n < 256 ^ 4"
  by (simp_all add: kMaximumEntries_def)

lemma read_tail_written:
  assumes "length m \<le> MaxWireBytes" "length k \<le> MaxWireBytes"
    and ps: "distinct ps" "length ps \<le> kMaximumEntries" "list_all storable ps"
  shows "read_tail (write_tail ps m k) = \<lparr>tl_done = True, tl_peers = sort ps, tl_managed = m, tl_connection = k\<rparr>"
proof -
  let ?c = "write_chunk kManagedMagic m @ write_chunk kConnectionMagic k"
  have 1: "read_be 4 (write_tail ps m k, True)
      = (kAllowlistMagic, (be_bytes 4 (length ps) @ write_peers ps @ ?c, True))"
    using read_be_written [OF magic_bounds(1)] by (simp add: write_tail_peers)
  have 2: "read_be 4 (be_bytes 4 (length ps) @ write_peers ps @ ?c, True) = (length ps, (write_peers ps @ ?c, True))"
    by (rule read_be_written [OF kMaximumEntries_bounds(2) [OF ps(2)]])
  have 3: "read_list (length ps) (write_peers ps @ ?c, True) [] = Some (sort ps, (?c, True))"
    using read_list_written [OF ps(3)] peer_set_sort [OF ps(1)] by simp
  have "4 \<le> length (write_tail ps m k)" by (simp add: write_tail_peers)
  then have n: "write_tail ps m k \<noteq> []" by auto
  show ?thesis
    using n ps(2) kMaximumEntries_bounds(1) [OF ps(2)] read_chunks_written [OF assms(1,2)]
    by (simp add: read_tail_def 1 2 3)
qed

lemma read_tail_done:
  assumes "read_tail bs = \<lparr>tl_done = True, tl_peers = peers, tl_managed = m, tl_connection = k\<rparr>" "bs \<noteq> []"
  shows "length m \<le> MaxWireBytes \<and> length k \<le> MaxWireBytes
    \<and> (\<exists>ps. distinct ps \<and> length ps \<le> kMaximumEntries \<and> list_all storable ps
         \<and> peers = sort ps \<and> bs = write_tail ps m k)"
proof -
  obtain magic s1 where 1: "read_be 4 (bs, True) = (magic, s1)" by (cases "read_be 4 (bs, True)")
  obtain count s2 where 2: "read_be 4 s1 = (count, s2)" by (cases "read_be 4 s1")
  have h: "magic = kAllowlistMagic" "count \<le> kMaximumEntries"
    using assms by (auto simp: read_tail_def 1 2 cut_off_def split: if_splits)
  have "read_list count s2 [] \<noteq> None"
  proof
    assume "read_list count s2 [] = None"
    then show False using assms by (simp add: read_tail_def 1 2 cut_off_def split: if_splits)
  qed
  then obtain set s3 where 3: "read_list count s2 [] = Some (set, s3)" by (metis not_None_eq surj_pair)
  have 4: "read_chunks s3 [] [] = (True, m, k)" "length set = count" "peers = set"
    using assms by (auto simp: read_tail_def 1 2 3 cut_off_def split: if_splits prod.splits)
  note c = read_chunks_True [OF 4(1)]
  have ok2: "snd s2" using read_list_snd [OF 3] c by simp
  note r2 = read_be_ok [OF 2 ok2]
  note r1 = read_be_ok [OF 1 conjunct1 [OF conjunct2 [OF r2]]]
  from read_list_SomeD [OF 3 ok2] obtain ps where ps: "length ps = count" "list_all storable ps"
    "fst s2 = write_peers ps @ fst s3" "set = peer_set ps []" by blast
  have "distinct ps" using ps(1,4) 4(2) by (simp add: length_peer_set card_distinct)
  moreover have "bs = write_tail ps m k" using r1 r2 c ps(1,3) h(1) by (simp add: write_tail_peers)
  ultimately show ?thesis
    using c ps(1,2,4) h(2) 4(3) peer_set_sort by (intro conjI exI [of _ ps]) auto
qed

text \<open>C37: The tail of the settings is read to its end exactly if it is what \<open>serialize\<close> writes for some
  list of at most 10000 storable peers without repetition and chunks of at most \<open>MaxWireBytes\<close>, or
  is missing; then the list, the managed state and the connection are those that were written.\<close>

theorem settings_tail_iff:
  "read_tail bs = \<lparr>tl_done = True, tl_peers = peers, tl_managed = m, tl_connection = k\<rparr>
   \<longleftrightarrow> bs = [] \<and> peers = [] \<and> m = [] \<and> k = []
     \<or> length m \<le> MaxWireBytes \<and> length k \<le> MaxWireBytes
       \<and> (\<exists>ps. distinct ps \<and> length ps \<le> kMaximumEntries \<and> list_all storable ps
            \<and> peers = sort ps \<and> bs = write_tail ps m k)" (is "?read \<longleftrightarrow> ?empty \<or> ?written")
proof
  assume r: ?read
  show "?empty \<or> ?written"
  proof (cases "bs = []")
    case True
    then show ?thesis using r by (simp add: read_tail_def cut_off_def)
  qed (rule disjI2, rule read_tail_done [OF r])
next
  assume "?empty \<or> ?written"
  then show ?read
  proof (elim disjE conjE exE)
    assume "bs = []" "peers = []" "m = []" "k = []"
    then show ?thesis by (simp add: read_tail_def cut_off_def)
  qed (simp add: read_tail_written)
qed

end
