(* ===== verification/Sheet.thy ===== *)
theory Sheet
  imports Managed_Policy Allowlist_Policy
begin

text \<open>
  The protocol of the dashboard's sheet of accounts (\<open>main/allowlist_sheet.{h,cpp}\<close>): the access
  profile of an install, and the answer that names the chats of a phone number.  Qt's JSON,
  UTF-8, base64 and URL code are parameters, in \<open>sheet_lib\<close>; \<open>sl_url\<close> gives a URL only for a text
  that is valid in strict mode.
\<close>

record sheet_lib =
  sl_parse :: json_parser
  sl_compact :: "json \<Rightarrow> bytes"
  sl_fromUtf8 :: "bytes \<Rightarrow> qstring"
  sl_toUtf8 :: "qstring \<Rightarrow> bytes"
  sl_url :: "qstring \<Rightarrow> url option"
  sl_authority :: "url \<Rightarrow> qstring"
  sl_fromBase64 :: "bytes \<Rightarrow> bytes"
  sl_toBase64 :: "bytes \<Rightarrow> bytes"

definition kMaximumProfileBytes :: nat where "kMaximumProfileBytes = 16 * 1024"
definition kMaximumResponseBytes :: nat where "kMaximumResponseBytes = 64 * 1024"
definition kTimeoutMs :: nat where "kTimeoutMs = 10000"

datatype sheet_status = Failed | Matched | NotFound

record profile =
  pf_endpoint :: url
  pf_phone :: qstring
  pf_token :: bytes
  pf_certificateSha256 :: bytes

record sheet_result =
  sr_status :: sheet_status
  sr_users :: "qstring list"
  sr_groups :: "qstring list"

definition NoResult :: sheet_result where
  "NoResult = \<lparr>sr_status = Failed, sr_users = [], sr_groups = []\<rparr>"

section \<open>The flat object\<close>

text \<open>A position is the rest of the text.  \<open>stringEnd\<close> gives the text after the opening quote, the
  closing one included, and the position behind it.\<close>

definition stringEnd :: "bytes \<Rightarrow> (bytes \<times> bytes) option" where
  "stringEnd bs = (case bs of [] \<Rightarrow> None | c # cs \<Rightarrow> if c \<noteq> CHR 0x22 then None else scan_string cs)"

lemma stringEnd_length: "stringEnd bs = Some (t, rest) \<Longrightarrow> length rest + 2 \<le> length bs"
  using scan_string_length by (fastforce simp: stringEnd_def split: list.splits if_splits)

definition key_value :: "json_parser \<Rightarrow> bytes \<Rightarrow> qstring" where
  "key_value parse raw =
     (case parse ([CHR ''[''] @ CHR 0x22 # raw @ [CHR '']'']) of
        Some (JArray (JString s # _)) \<Rightarrow> s
      | _ \<Rightarrow> [])"

text \<open>The value's text and what follows it.\<close>

definition prepend :: "bytes \<Rightarrow> (bytes \<times> bytes) option \<Rightarrow> (bytes \<times> bytes) option" where
  "prepend w r = map_option (\<lambda>(v, rest). (w @ v, rest)) r"

function skip_value :: "int \<Rightarrow> bytes \<Rightarrow> (bytes \<times> bytes) option" where
  "skip_value depth [] = Some ([], [])"
| "skip_value depth (c # cs) =
     (if c = CHR 0x22
      then (case stringEnd (c # cs) of
              None \<Rightarrow> None
            | Some (t, rest) \<Rightarrow> prepend (c # t) (skip_value depth rest))
      else if c = CHR ''{'' then None
      else if c = CHR ''['' then (if 1 < depth + 1 then None else prepend [c] (skip_value (depth + 1) cs))
      else if c = CHR '']'' then prepend [c] (skip_value (depth - 1) cs)
      else if depth = 0 \<and> (c = CHR '','' \<or> c = CHR ''}'') then Some ([], c # cs)
      else prepend [c] (skip_value depth cs))"
  by pat_completeness auto
termination by (relation "measure (\<lambda>(d, bs). length bs)") (auto dest: stringEnd_length)

definition ascii_space :: "char \<Rightarrow> bool" where
  "ascii_space c \<longleftrightarrow> c \<in> {CHR '' '', CHR 0x09, CHR 0x0A, CHR 0x0B, CHR 0x0C, CHR 0x0D}"

definition trimmed :: "bytes \<Rightarrow> bytes" where
  "trimmed bs = rev (dropWhile ascii_space (rev (dropWhile ascii_space bs)))"

definition after_comma :: "bytes \<Rightarrow> bytes" where
  "after_comma bs = (case bs of [] \<Rightarrow> [] | c # cs \<Rightarrow> if c = CHR '','' then space cs else bs)"

lemma prepend_SomeD: "prepend w r = Some (v, rest) \<Longrightarrow> \<exists>v'. r = Some (v', rest) \<and> v = w @ v'"
  by (auto simp: prepend_def)

lemma skip_value_step:
  assumes "skip_value d (c # cs) = Some (v, rest)"
  shows "rest = c # cs \<or> (\<exists>d' bs v'. length bs \<le> length cs \<and> skip_value d' bs = Some (v', rest))"
proof (cases "c = CHR 0x22")
  case True
  then obtain t bs where t: "stringEnd (c # cs) = Some (t, bs)" "prepend (c # t) (skip_value d bs) = Some (v, rest)"
    using assms by (auto split: option.splits)
  have "length bs \<le> length cs" using stringEnd_length [OF t(1)] by simp
  with prepend_SomeD [OF t(2)] show ?thesis by blast
next
  case False
  then show ?thesis using assms by (auto split: if_splits dest!: prepend_SomeD)
qed

lemma skip_value_length: "skip_value d bs = Some (v, rest) \<Longrightarrow> length rest \<le> length bs"
proof (induction bs arbitrary: d v rest rule: length_induct)
  case (1 bs)
  show ?case
  proof (cases bs)
    case (Cons c cs)
    from skip_value_step [OF "1.prems" [unfolded Cons]] show ?thesis
    proof (elim disjE exE conjE)
      fix d' ys v' assume "length ys \<le> length cs" "skip_value d' ys = Some (v', rest)"
      then show ?thesis using "1.IH" [rule_format, of ys d' v' rest] Cons by simp
    qed (simp add: Cons)
  qed (use "1.prems" in simp)
qed

lemma length_after_comma [simp]: "length (after_comma bs) \<le> length bs"
  using length_space by (auto simp: after_comma_def split: list.split intro: le_SucI)

function sheet_members :: "json_parser \<Rightarrow> qstring list \<Rightarrow> bytes \<Rightarrow> bool" where
  "sheet_members parse keys [] = True"
| "sheet_members parse keys (c # cs) =
     (if c = CHR ''}'' then True
      else case stringEnd (c # cs) of
        None \<Rightarrow> False
      | Some (t, bs) \<Rightarrow>
          let key = key_value parse t
          in if key \<in> set keys then False
             else (case space bs of
                [] \<Rightarrow> False
              | b # rest \<Rightarrow>
                  if b \<noteq> CHR '':'' then False
                  else (case skip_value 0 (space rest) of
                     None \<Rightarrow> False
                   | Some (v, rest') \<Rightarrow>
                       if key = qlit ''version'' \<and> trimmed v \<noteq> ''1'' then False
                       else sheet_members parse (key # keys) (after_comma rest'))))"
  by pat_completeness auto
termination
proof (relation "measure (\<lambda>(p, k, bs). length bs)")
  fix parse :: json_parser and keys :: "qstring list" and c cs t bs b rest v rest' and p :: "bytes \<times> bytes" and q :: "bytes \<times> bytes" and key
  assume "stringEnd (c # cs) = Some p" "(t, bs) = p" "space bs = b # rest" "skip_value 0 (space rest) = Some q" "(v, rest') = q"
  then have "length bs + 2 \<le> length (c # cs)" "length (b # rest) \<le> length bs" "length rest' \<le> length (space rest)"
    using stringEnd_length length_space [of bs] skip_value_length by metis+
  moreover have "length (space rest) \<le> length rest" "length (after_comma rest') \<le> length rest'" by simp_all
  ultimately have "length (after_comma rest') < length (c # cs)" by (simp del: length_space length_after_comma)
  then show "((parse, key # keys, after_comma rest'), parse, keys, c # cs) \<in> measure (\<lambda>(p, k, bs). length bs)" by simp
qed simp

definition ReadSheetObject :: "sheet_lib \<Rightarrow> bytes \<Rightarrow> nat \<Rightarrow> json_object option" where
  "ReadSheetObject L bs limit =
     (if bs = [] \<or> limit < length bs \<or> sl_toUtf8 L (sl_fromUtf8 L bs) \<noteq> bs then None
      else case sl_parse L bs of
        Some (JObject ob) \<Rightarrow>
          if sheet_members (sl_parse L) [] (space (drop 1 (space bs))) then Some ob else None
      | _ \<Rightarrow> None)"

section \<open>Patterns\<close>

definition alnum :: "16 word \<Rightarrow> bool" where
  "alnum c \<longleftrightarrow> lower_letter c \<or> upper_letter c \<or> digit c"

definition positive_text :: "qstring \<Rightarrow> bool" where
  "positive_text s \<longleftrightarrow> s \<noteq> [] \<and> digit (hd s) \<and> hd s \<noteq> 0x30 \<and> list_all digit (tl s)"

definition id_text :: "bool \<Rightarrow> qstring \<Rightarrow> bool" where
  "id_text groups s \<longleftrightarrow>
     (if groups then s \<noteq> [] \<and> hd s = 0x2D \<and> positive_text (tl s) else positive_text s)"

fun read_ids :: "bool \<Rightarrow> json list \<Rightarrow> qstring list \<Rightarrow> qstring list option" where
  "read_ids groups [] result = Some result"
| "read_ids groups (v # vs) result =
     (case v of
        JString s \<Rightarrow>
          if 17 < length s \<or> \<not> id_text groups s then None
          else read_ids groups vs (if s \<in> set result then result else result @ [s])
      | _ \<Rightarrow> None)"

definition ReadIds :: "json option \<Rightarrow> bool \<Rightarrow> qstring list option" where
  "ReadIds v groups =
     (case v of
        Some (JArray vs) \<Rightarrow>
          if vs = [] \<or> kMaximumEntries < length vs then None else read_ids groups vs []
      | _ \<Rightarrow> None)"

section \<open>Phone numbers\<close>

definition AuthenticatedPhone :: "qstring \<Rightarrow> qstring" where
  "AuthenticatedPhone phone =
     (let digits = filter digit phone;
          digits = (if length digits = 9 \<and> positive_text digits then qlit ''998'' @ digits else digits)
      in if 8 \<le> length digits \<and> length digits \<le> 15 \<and> positive_text digits then 0x2B # digits else [])"

section \<open>The access profile\<close>

fun index_of :: "qstring \<Rightarrow> qstring \<Rightarrow> int" where
  "index_of sub [] = (if sub = [] then 0 else - 1)"
| "index_of sub (c # cs) =
     (if take (length sub) (c # cs) = sub then 0
      else let i = index_of sub cs in if i < 0 then - 1 else i + 1)"

definition authority_text :: "qstring \<Rightarrow> qstring" where
  "authority_text s = takeWhile (\<lambda>c. c \<noteq> 0x2F) (drop (nat (index_of (qlit ''://'') s + 3)) s)"

definition url_portOr :: "int \<Rightarrow> url \<Rightarrow> int" where
  "url_portOr d u = (if url_port u = - 1 then d else url_port u)"

definition host_text :: "qstring \<Rightarrow> bool" where
  "host_text s \<longleftrightarrow>
     s \<noteq> [] \<and> alnum (hd s) \<and> alnum (last s) \<and> list_all (\<lambda>c. alnum c \<or> c = 0x2E \<or> c = 0x2D) s"

definition label_text :: "qstring \<Rightarrow> bool" where
  "label_text s \<longleftrightarrow>
     s \<noteq> [] \<and> length s \<le> 63 \<and> alnum (hd s) \<and> alnum (last s) \<and> list_all (\<lambda>c. alnum c \<or> c = 0x2D) s"

fun split_at :: "16 word \<Rightarrow> qstring \<Rightarrow> qstring list" where
  "split_at d [] = [[]]"
| "split_at d (c # cs) =
     (if c = d then [] # split_at d cs
      else case split_at d cs of [] \<Rightarrow> [[c]] | w # ws \<Rightarrow> (c # w) # ws)"

definition endpoint_ok :: "sheet_lib \<Rightarrow> qstring \<Rightarrow> url \<Rightarrow> bool" where
  "endpoint_ok L s u \<longleftrightarrow>
     \<not> (2048 < length s \<or> toLatin1 s \<noteq> sl_toUtf8 L s
        \<or> list_ex (\<lambda>c. c \<le> 0x20 \<or> c = 0x7F) s
        \<or> url_scheme u \<noteq> qlit ''https''
        \<or> url_userInfo u \<noteq> [] \<or> 0x40 \<in> set (authority_text s)
        \<or> url_hasQuery u \<or> url_hasFragment u
        \<or> url_path u \<noteq> qlit ''/v1/allowlist/resolve''
        \<or> 0x25 \<in> set s \<or> authority_text s \<noteq> [] \<and> last (authority_text s) = 0x3A
        \<or> url_portOr 443 u < 1 \<or> 65535 < url_portOr 443 u \<or> 253 < length (url_host u)
        \<or> \<not> host_text (url_host u))
     \<and> list_all label_text (split_at 0x2E (url_host u))"

definition ParseProfile :: "sheet_lib \<Rightarrow> bytes \<Rightarrow> qstring \<Rightarrow> profile option" where
  "ParseProfile L bs phone =
     (if phone = [] \<or> AuthenticatedPhone phone \<noteq> phone then None
      else case ReadSheetObject L bs kMaximumProfileBytes of
        None \<Rightarrow> None
      | Some ob \<Rightarrow>
          if \<not> Fields ob [''version'', ''endpoint'', ''phone'', ''token'', ''certificate_sha256''] then None
          else let value = (\<lambda>name. to_string (field name ob))
            in if AuthenticatedPhone (value ''phone'') \<noteq> value ''phone'' then None
               else (case sl_url L (value ''endpoint'') of
                 None \<Rightarrow> None
               | Some u \<Rightarrow>
                   if \<not> endpoint_ok L (value ''endpoint'') u then None
                   else let token = toLatin1 (value ''token'')
                     in if \<not> (length (value ''token'') = 43 \<and> list_all url_safe (value ''token''))
                           \<or> sl_toBase64 L (sl_fromBase64 L token) \<noteq> token
                           \<or> \<not> (length (value ''certificate_sha256'') = 64
                                \<and> list_all (\<lambda>c. 0x61 \<le> c \<and> c \<le> 0x66 \<or> digit c) (value ''certificate_sha256''))
                        then None
                        else Some \<lparr>pf_endpoint = u, pf_phone = phone, pf_token = token,
                               pf_certificateSha256 = toLatin1 (value ''certificate_sha256'')\<rparr>))"

text \<open>The file as it is found: nothing if it is missing, no regular file or a link, else its size and
  what can be read of it.\<close>

definition ReadProfile ::
  "sheet_lib \<Rightarrow> (nat \<times> bytes option) option \<Rightarrow> qstring \<Rightarrow> profile option" where
  "ReadProfile L file phone =
     (case file of
        None \<Rightarrow> None
      | Some (n, contents) \<Rightarrow>
          if kMaximumProfileBytes < n then None
          else (case contents of
             None \<Rightarrow> None
           | Some bs \<Rightarrow> ParseProfile L (take (kMaximumProfileBytes + 1) bs) phone))"

section \<open>The answer\<close>

fun joined_lines :: "qstring list \<Rightarrow> qstring" where
  "joined_lines [] = []"
| "joined_lines [s] = s"
| "joined_lines (s # t # ss) = s @ 0x0A # joined_lines (t # ss)"

definition ParseResponse :: "sheet_lib \<Rightarrow> bytes \<Rightarrow> qstring \<Rightarrow> sheet_result" where
  "ParseResponse L bs phone =
     (case ReadSheetObject L bs kMaximumResponseBytes of
        None \<Rightarrow> NoResult
      | Some ob \<Rightarrow>
          if phone = [] \<or> AuthenticatedPhone phone \<noteq> phone \<or> to_string (field ''phone'' ob) \<noteq> phone then NoResult
          else let status = to_string (field ''status'' ob)
            in if status = qlit ''not_found''
               then (if Fields ob [''version'', ''status'', ''phone''] then NoResult\<lparr>sr_status := NotFound\<rparr> else NoResult)
               else if status \<noteq> qlit ''matched''
                 \<or> \<not> Fields ob [''version'', ''status'', ''phone'', ''user_ids'', ''group_ids''] then NoResult
               else (case (ReadIds (field ''user_ids'' ob) False, ReadIds (field ''group_ids'' ob) True) of
                  (Some users, Some groups) \<Rightarrow>
                    if kMaximumEntries < length users + length groups
                       \<or> pr_error (Parse (sl_toUtf8 L (joined_lines users)) (sl_toUtf8 L (joined_lines groups))) \<noteq> NoError
                    then NoResult
                    else \<lparr>sr_status = Matched, sr_users = users, sr_groups = groups\<rparr>
                | _ \<Rightarrow> NoResult))"

declare sheet_members.simps(2) [simp del] skip_value.simps(2) [simp del]


section \<open>Phone numbers are normal\<close>

lemma positive_text_Cons [simp]: "positive_text (c # s) \<longleftrightarrow> digit c \<and> c \<noteq> 0x30 \<and> list_all digit s"
  by (simp add: positive_text_def)

lemma positive_text_digits: "positive_text s \<Longrightarrow> list_all digit s"
  by (cases s) (simp_all add: positive_text_def)

lemma positive_998: "positive_text (qlit ''998'' @ s) \<longleftrightarrow> list_all digit s" "length (qlit ''998'' @ s) = length s + 3" "qlit ''998'' \<noteq> []"
  by (simp_all add: qlit_def digit_def)

text \<open>A number is authenticated exactly if it is a plus and 8 to 15 digits that do not begin with zero
  and are not a local number of nine; what \<open>AuthenticatedPhone\<close> makes of any text is such a number or
  nothing.\<close>

theorem authenticated_phone_iff:
  "(AuthenticatedPhone phone = phone \<longleftrightarrow> phone = []
     \<or> (\<exists>digits. phone = 0x2B # digits \<and> positive_text digits \<and> 8 \<le> length digits \<and> length digits \<le> 15 \<and> length digits \<noteq> 9))
   \<and> AuthenticatedPhone (AuthenticatedPhone phone) = AuthenticatedPhone phone"
proof -
  define normal where "normal = (\<lambda>phone. phone = []
     \<or> (\<exists>digits. phone = 0x2B # digits \<and> positive_text digits \<and> 8 \<le> length digits \<and> length digits \<le> 15 \<and> length digits \<noteq> 9))"
  have fixed: "AuthenticatedPhone p = p" if "normal p" for p
    using that
  proof (unfold normal_def, elim disjE exE conjE)
    fix digits assume p: "p = 0x2B # digits" and d: "positive_text digits" "8 \<le> length digits" "length digits \<le> 15" "length digits \<noteq> 9"
    have "filter digit digits = digits" using positive_text_digits [OF d(1)] by (simp add: filter_id_conv list_all_iff)
    moreover have "\<not> digit 0x2B" by (simp add: digit_def)
    ultimately show ?thesis using p d by (simp add: AuthenticatedPhone_def)
  qed (simp add: AuthenticatedPhone_def)
  have made: "normal (AuthenticatedPhone p)" for p
  proof -
    let ?d = "filter digit p"
    have "list_all digit ?d" by (simp add: list_all_iff)
    then show ?thesis
      unfolding normal_def
      by (cases "length ?d = 9 \<and> positive_text ?d") (auto simp: AuthenticatedPhone_def Let_def positive_998)
  qed
  from fixed [of phone] made [of phone] have "AuthenticatedPhone phone = phone \<longleftrightarrow> normal phone" by metis
  with fixed [OF made [of phone]] show ?thesis by (simp add: normal_def)
qed

section \<open>An answer that is taken\<close>

fun json_text :: "json \<Rightarrow> qstring" where
  "json_text (JString s) = s"
| "json_text v = []"

lemma read_ids_Some:
  "read_ids groups vs result = Some ids \<Longrightarrow> distinct result \<Longrightarrow>
     distinct ids \<and> set ids = set result \<union> json_text ` set vs \<and> length ids \<le> length result + length vs
     \<and> (\<forall>s \<in> json_text ` set vs. length s \<le> 17 \<and> id_text groups s)"
proof (induction groups vs result rule: read_ids.induct)
  case (2 groups v vs result)
  from "2.prems" obtain s where v: "v = JString s" by (cases v) simp_all
  let ?r = "if s \<in> set result then result else result @ [s]"
  have s: "length s \<le> 17" "id_text groups s" "read_ids groups vs ?r = Some ids"
    using "2.prems"(1) by (auto simp: v split: if_splits)
  have "distinct ?r" "set ?r = insert s (set result)" "length ?r \<le> Suc (length result)" using "2.prems"(2) by auto
  with "2.IH" [OF v _ s(3)] s show ?case by (auto simp: v)
qed simp

text \<open>C20: An answer counts as a match only if it names the number that was asked for, and both lists of ids
  in the right form, none twice, ten thousand together at most; the permission parser takes them as
  they are.  Any other answer carries no id.\<close>

theorem sheet_match_sound:
  assumes "ParseResponse L bs phone = result"
  shows "if sr_status result = Matched
    then (\<exists>ob us gs. ReadSheetObject L bs kMaximumResponseBytes = Some ob
        \<and> AuthenticatedPhone phone = phone \<and> phone \<noteq> [] \<and> field ''phone'' ob = Some (JString phone)
        \<and> field ''user_ids'' ob = Some (JArray us) \<and> set (sr_users result) = json_text ` set us
        \<and> field ''group_ids'' ob = Some (JArray gs) \<and> set (sr_groups result) = json_text ` set gs)
      \<and> distinct (sr_users result) \<and> distinct (sr_groups result) \<and> sr_users result \<noteq> [] \<and> sr_groups result \<noteq> []
      \<and> list_all (\<lambda>s. length s \<le> 17 \<and> id_text False s) (sr_users result)
      \<and> list_all (\<lambda>s. length s \<le> 17 \<and> id_text True s) (sr_groups result)
      \<and> length (sr_users result) + length (sr_groups result) \<le> kMaximumEntries
      \<and> pr_error (Parse (sl_toUtf8 L (joined_lines (sr_users result))) (sl_toUtf8 L (joined_lines (sr_groups result)))) = NoError
    else sr_users result = [] \<and> sr_groups result = []"
proof (cases "sr_status result = Matched")
  case False
  then show ?thesis
    using assms by (auto simp: ParseResponse_def NoResult_def Let_def split: option.splits if_splits)
next
  case True
  obtain ob where ob: "ReadSheetObject L bs kMaximumResponseBytes = Some ob"
    using assms True by (auto simp: ParseResponse_def NoResult_def split: option.splits)
  obtain users groups where ids: "ReadIds (field ''user_ids'' ob) False = Some users"
    "ReadIds (field ''group_ids'' ob) True = Some groups"
    using assms True by (auto simp: ParseResponse_def NoResult_def ob Let_def split: option.splits if_splits)
  have rest: "AuthenticatedPhone phone = phone" "phone \<noteq> []" "to_string (field ''phone'' ob) = phone"
    "length users + length groups \<le> kMaximumEntries"
    "pr_error (Parse (sl_toUtf8 L (joined_lines users)) (sl_toUtf8 L (joined_lines groups))) = NoError"
    "sr_users result = users" "sr_groups result = groups"
    using assms True by (auto simp: ParseResponse_def NoResult_def ob ids Let_def split: if_splits)
  have p: "field ''phone'' ob = Some (JString phone)"
    using rest(2,3) by (auto simp: to_string_def split: option.splits json.splits)
  have read: "\<exists>vs. field name ob = Some (JArray vs) \<and> vs \<noteq> [] \<and> read_ids g vs [] = Some is"
    if "ReadIds (field name ob) g = Some is" for name g "is"
    using that by (auto simp: ReadIds_def split: option.splits json.splits if_splits)
  from read [OF ids(1)] read [OF ids(2)] obtain us gs where v: "field ''user_ids'' ob = Some (JArray us)" "us \<noteq> []"
    "read_ids False us [] = Some users" "field ''group_ids'' ob = Some (JArray gs)" "gs \<noteq> []" "read_ids True gs [] = Some groups"
    by blast
  note u = read_ids_Some [OF v(3)] and g = read_ids_Some [OF v(6)]
  have "users \<noteq> []" using u v(2) by fastforce
  moreover have "groups \<noteq> []" using g v(5) by fastforce
  ultimately show ?thesis
    using True rest ob p v(1,4) u g by (simp add: list_all_iff del: set_empty)
qed

section \<open>Which flat objects are taken\<close>

text \<open>How a flat object is written: members with blanks around the key, the colon and the value; a value
  is made of plain characters, strings, and brackets around such.\<close>

datatype atom = Plain char | Quoted bytes
datatype piece = Outside atom | Bracketed "atom list"

fun atom_text :: "atom \<Rightarrow> bytes" where
  "atom_text (Plain c) = [c]"
| "atom_text (Quoted t) = CHR 0x22 # t"

definition closed_string :: "bytes \<Rightarrow> bool" where
  "closed_string t \<longleftrightarrow> scan_string t = Some (t, [])"

fun atom_ok :: "bool \<Rightarrow> atom \<Rightarrow> bool" where
  "atom_ok outside (Plain c) \<longleftrightarrow> c \<notin> {CHR 0x22, CHR ''{'', CHR ''['', CHR '']''}
     \<and> \<not> (outside \<and> c \<in> {CHR '','', CHR ''}''})"
| "atom_ok outside (Quoted t) \<longleftrightarrow> closed_string t"

fun piece_text :: "piece \<Rightarrow> bytes" where
  "piece_text (Outside a) = atom_text a"
| "piece_text (Bracketed atoms) = CHR ''['' # concat (map atom_text atoms) @ [CHR '']'']"

fun piece_ok :: "piece \<Rightarrow> bool" where
  "piece_ok (Outside a) \<longleftrightarrow> atom_ok True a"
| "piece_ok (Bracketed atoms) \<longleftrightarrow> list_all (atom_ok False) atoms"

record sheet_member =
  me_before :: bytes
  me_key :: bytes
  me_after :: bytes
  me_blank :: bytes
  me_value :: "piece list"

definition value_text :: "sheet_member \<Rightarrow> bytes" where
  "value_text m = concat (map piece_text (me_value m))"

definition member_ok :: "sheet_member \<Rightarrow> bool" where
  "member_ok m \<longleftrightarrow> list_all is_space (me_before m) \<and> closed_string (me_key m) \<and> list_all is_space (me_after m)
     \<and> list_all is_space (me_blank m) \<and> list_all piece_ok (me_value m)
     \<and> value_text m \<noteq> [] \<and> \<not> is_space (hd (value_text m))"

definition written_member :: "sheet_member \<Rightarrow> bytes" where
  "written_member m = CHR 0x22 # me_key m @ me_after m @ CHR '':'' # me_blank m @ value_text m"

fun written_members :: "sheet_member list \<Rightarrow> bytes" where
  "written_members [] = []"
| "written_members [m] = me_before m @ written_member m"
| "written_members (m # n # ms) = me_before m @ written_member m @ CHR '','' # written_members (n # ms)"

lemma prepend_prepend [simp]: "prepend v (prepend w r) = prepend (v @ w) r" "prepend [] r = r"
  "prepend v (Some (w, rest)) = Some (v @ w, rest)"
  by (cases r; auto simp: prepend_def)+

lemma stringEnd_written [simp]: "closed_string t \<Longrightarrow> stringEnd (CHR 0x22 # t @ rest) = Some (t, rest)"
  using scan_string_append [of t t rest] by (simp add: stringEnd_def closed_string_def)

lemma skip_atom:
  assumes "atom_ok outside a" "depth \<noteq> 0 \<or> outside"
  shows "skip_value depth (atom_text a @ rest) = prepend (atom_text a) (skip_value depth rest)"
  using assms by (cases a) (auto simp: skip_value.simps(2))

lemma skip_atoms: "list_all (atom_ok False) atoms \<Longrightarrow>
    skip_value 1 (concat (map atom_text atoms) @ rest) = prepend (concat (map atom_text atoms)) (skip_value 1 rest)"
  by (induction atoms) (simp_all add: skip_atom [of False])

lemma skip_piece: "piece_ok p \<Longrightarrow> skip_value 0 (piece_text p @ rest) = prepend (piece_text p) (skip_value 0 rest)"
  by (cases p) (simp_all add: skip_atom skip_value.simps(2) [of _ "CHR ''[''"] skip_value.simps(2) [of _ "CHR '']''"] skip_atoms)

lemma skip_pieces: "list_all piece_ok ps \<Longrightarrow>
    skip_value 0 (concat (map piece_text ps) @ rest) = prepend (concat (map piece_text ps)) (skip_value 0 rest)"
  by (induction ps) (simp_all add: skip_piece)

lemma skip_value_written:
  assumes "list_all piece_ok (me_value m)" "c = CHR '','' \<or> c = CHR ''}''"
  shows "skip_value 0 (value_text m @ c # rest) = Some (value_text m, c # rest)"
  using assms by (auto simp: value_text_def skip_pieces skip_value.simps(2))

lemma space_blank: "list_all is_space ws \<Longrightarrow> space (ws @ rest) = space rest"
  by (simp add: space_def list_all_iff dropWhile_append2)

definition version_ok :: "json_parser \<Rightarrow> sheet_member \<Rightarrow> bool" where
  "version_ok parse m \<longleftrightarrow> key_value parse (me_key m) = qlit ''version'' \<longrightarrow> trimmed (value_text m) = ''1''"

lemma sheet_member_written:
  assumes "member_ok m" "c = CHR '','' \<or> c = CHR ''}''"
  shows "sheet_members parse keys (written_member m @ c # rest) \<longleftrightarrow>
    key_value parse (me_key m) \<notin> set keys \<and> version_ok parse m
    \<and> sheet_members parse (key_value parse (me_key m) # keys) (after_comma (c # rest))"
proof -
  have v: "value_text m \<noteq> []" "\<not> is_space (hd (value_text m))" and p: "list_all piece_ok (me_value m)"
    and ws: "list_all is_space (me_after m)" "list_all is_space (me_blank m)" and k: "closed_string (me_key m)"
    using assms(1) by (simp_all add: member_ok_def)
  obtain d ds where d: "value_text m = d # ds" "\<not> is_space d" using v by (cases "value_text m") auto
  have blank: "space (me_blank m @ value_text m @ c # rest) = value_text m @ c # rest"
    using space_blank [OF ws(2)] d by simp
  have colon: "space (me_after m @ CHR '':'' # me_blank m @ value_text m @ c # rest)
      = CHR '':'' # me_blank m @ value_text m @ c # rest"
    using space_blank [OF ws(1)] by simp
  show ?thesis
    using k by (simp add: written_member_def sheet_members.simps(2) colon blank skip_value_written [OF p assms(2)]
        version_ok_def Let_def)
qed

lemma sheet_members_written:
  "list_all member_ok ms \<Longrightarrow>
     sheet_members parse keys (space (written_members ms @ CHR ''}'' # rest)) \<longleftrightarrow>
       distinct (map (key_value parse \<circ> me_key) ms) \<and> set keys \<inter> (key_value parse \<circ> me_key) ` set ms = {}
       \<and> list_all (version_ok parse) ms"
proof (induction ms arbitrary: keys rule: written_members.induct)
  case 1
  show ?case by (simp add: sheet_members.simps(2))
next
  case (2 m)
  then have "space (me_before m @ written_member m @ CHR ''}'' # rest) = written_member m @ CHR ''}'' # rest"
    by (simp add: space_blank member_ok_def written_member_def)
  with 2 show ?case by (simp add: sheet_member_written after_comma_def sheet_members.simps(2))
next
  case (3 m n ms)
  then have "space (me_before m @ written_member m @ CHR '','' # written_members (n # ms) @ CHR ''}'' # rest)
      = written_member m @ CHR '','' # written_members (n # ms) @ CHR ''}'' # rest"
    by (simp add: space_blank member_ok_def written_member_def)
  with 3 show ?case by (simp add: sheet_member_written after_comma_def) auto
qed


end
