(* ===== verification/Sheet_Resolver.thy ===== *)
theory Sheet_Resolver
  imports Sheet
begin

text \<open>
  The resolver of the sheet protocol (\<open>main/allowlist_sheet_resolver.{h,cpp}\<close>): one TLS request to
  the pinned dashboard and its answer.  The socket's signals are operations that get what the
  socket shows at that moment; a callback is the number of the \<open>start\<close> it was given to, and what
  was delivered and written is recorded with it (counted from one).  Overwriting the request in memory is not
  modelled.
\<close>

definition kMaximumHeaders :: nat where "kMaximumHeaders = 8192"
definition kReadBuffer :: nat where "kReadBuffer = kMaximumResponseBytes + kMaximumHeaders + 1"

section \<open>State\<close>

datatype ssl_error =
  SelfSignedCertificate | SelfSignedCertificateInChain | UnableToGetLocalIssuerCertificate
| CertificateUntrusted | UnableToVerifyFirstCertificate | OtherSslError nat

fun ExpectedTrustError :: "ssl_error \<Rightarrow> bool" where
  "ExpectedTrustError (OtherSslError n) = False"
| "ExpectedTrustError e = True"

text \<open>What the socket shows: the peer's certificate (its digest, from when and until when it is
  valid), the clock, what verifying the chain for the host gives, and whether it is encrypted.\<close>

record peer_view =
  pv_certificate :: "bytes option"
  pv_effective :: "int option"
  pv_expiry :: "int option"
  pv_now :: int
  pv_verify :: "ssl_error list"
  pv_encrypted :: bool

record resolver =
  rs_socket :: bool
  rs_timer :: "nat option"
  rs_profile :: profile
  rs_done :: "nat option"
  rs_buffer :: bytes
  rs_contentLength :: "nat option"
  rs_sent :: bool
  rs_ignored :: bool \<comment> \<open>the handshake goes on in spite of errors\<close>
  rs_starts :: nat
  rs_written :: "(nat \<times> bytes) list"
  rs_results :: "(nat \<times> sheet_result) list"

definition no_profile :: profile where
  "no_profile = \<lparr>pf_endpoint = \<lparr>url_scheme = [], url_host = [], url_userInfo = [], url_hasQuery = False,
       url_hasFragment = False, url_path = [], url_port = - 1\<rparr>,
     pf_phone = [], pf_token = [], pf_certificateSha256 = []\<rparr>"

definition Resolver :: resolver where
  "Resolver = \<lparr>rs_socket = False, rs_timer = None, rs_profile = no_profile, rs_done = None, rs_buffer = [],
     rs_contentLength = None, rs_sent = False, rs_ignored = False, rs_starts = 0, rs_written = [],
     rs_results = []\<rparr>"

section \<open>Operations\<close>

definition resolver_cancel :: "resolver \<Rightarrow> resolver" where
  "resolver_cancel r = r\<lparr>rs_done := None, rs_timer := None, rs_socket := False, rs_profile := no_profile,
     rs_buffer := [], rs_contentLength := None, rs_sent := False, rs_ignored := False\<rparr>"

definition finish :: "sheet_result \<Rightarrow> resolver \<Rightarrow> resolver" where
  "finish result r =
     (let d = rs_done r; r = resolver_cancel r
      in case d of None \<Rightarrow> r | Some n \<Rightarrow> r\<lparr>rs_results := rs_results r @ [(n, result)]\<rparr>)"

definition resolver_start ::
  "sheet_lib \<Rightarrow> (nat \<times> bytes option) option \<Rightarrow> qstring \<Rightarrow> resolver \<Rightarrow> resolver" where
  "resolver_start L file phone r =
     (let r = resolver_cancel r; r = r\<lparr>rs_done := Some (rs_starts r + 1), rs_starts := rs_starts r + 1\<rparr>
      in case ReadProfile L file phone of
           None \<Rightarrow> r\<lparr>rs_timer := Some 0\<rparr>
         | Some p \<Rightarrow> r\<lparr>rs_profile := p, rs_socket := True, rs_timer := Some kTimeoutMs\<rparr>)"

definition certificateAllowed :: "resolver \<Rightarrow> peer_view \<Rightarrow> bool" where
  "certificateAllowed r v \<longleftrightarrow>
     (case (pv_certificate v, pv_effective v, pv_expiry v) of
        (Some digest, Some effective, Some expiry) \<Rightarrow>
          digest = pf_certificateSha256 (rs_profile r)
          \<and> \<not> (pv_now v < effective \<or> expiry < pv_now v)
          \<and> list_all ExpectedTrustError (pv_verify v)
      | _ \<Rightarrow> False)"

definition sslErrors :: "ssl_error list \<Rightarrow> peer_view \<Rightarrow> resolver \<Rightarrow> resolver" where
  "sslErrors errors v r =
     (if \<not> certificateAllowed r v \<or> \<not> list_all ExpectedTrustError errors then finish NoResult r
      else r\<lparr>rs_ignored := True\<rparr>)"

definition crlf :: bytes where "crlf = [CHR 0x0D, CHR 0x0A]"

definition request_text :: "sheet_lib \<Rightarrow> profile \<Rightarrow> bytes" where
  "request_text L p =
     (let body = sl_compact L (JObject [(qlit ''version'', JNumber (Some 1)), (qlit ''phone'', JString (pf_phone p))])
      in ''POST /v1/allowlist/resolve HTTP/1.1'' @ crlf @ ''Host: ''
         @ toLatin1 (sl_authority L (pf_endpoint p)) @ crlf @ ''Authorization: Bearer '' @ pf_token p
         @ crlf @ ''Content-Type: application/json'' @ crlf @ ''Connection: close'' @ crlf
         @ ''Content-Length: '' @ number_text (length body) @ crlf @ crlf @ body)"

text \<open>\<open>accepted\<close> is how much of it the socket takes.\<close>

definition sendRequest :: "sheet_lib \<Rightarrow> peer_view \<Rightarrow> int \<Rightarrow> resolver \<Rightarrow> resolver" where
  "sendRequest L v accepted r =
     (if rs_sent r \<or> \<not> pv_encrypted v \<or> \<not> certificateAllowed r v then finish NoResult r
      else let out = request_text L (rs_profile r);
               r = r\<lparr>rs_sent := True, rs_written := rs_written r @ [(rs_starts r, out)],
                     rs_profile := (rs_profile r)\<lparr>pf_token := []\<rparr>\<rparr>
        in if accepted \<noteq> int (length out) then finish NoResult r else r)"

section \<open>The answer's head\<close>

fun split_lines :: "bytes \<Rightarrow> bytes list" where
  "split_lines [] = [[]]"
| "split_lines (c # cs) =
     (if c = CHR 0x0A then [] # split_lines cs
      else case split_lines cs of [] \<Rightarrow> [[c]] | w # ws \<Rightarrow> (c # w) # ws)"

definition ascii_lower :: "char \<Rightarrow> char" where
  "ascii_lower c = (let n = of_char c :: nat in if 65 \<le> n \<and> n \<le> 90 then char_of (n + 32) else c)"

fun read_headers :: "(bytes \<times> bytes) list \<Rightarrow> bytes list \<Rightarrow> (bytes \<times> bytes) list option" where
  "read_headers headers [] = Some headers"
| "read_headers headers (l # ls) =
     (let line = trimmed l; key = map ascii_lower (takeWhile (\<lambda>c. c \<noteq> CHR '':'') line)
      in if CHR '':'' \<notin> set line \<or> hd line = CHR '':'' \<or> map_of headers key \<noteq> None then None
         else read_headers ((key, trimmed (drop (length key + 1) line)) # headers) ls)"

definition header :: "(bytes \<times> bytes) list \<Rightarrow> string \<Rightarrow> bytes" where
  "header headers key = (case map_of headers key of None \<Rightarrow> [] | Some v \<Rightarrow> v)"

text \<open>A length counts only as \<open>QByteArray::number\<close> would write it, so what else \<open>toInt\<close> takes
  (signs, blanks, leading zeros) is left out.\<close>

definition length_value :: "bytes \<Rightarrow> nat option" where
  "length_value s =
     (if s \<noteq> [] \<and> list_all is_digit s
      then (let n = Allowlist_Policy.digits_value s in if n < 2 ^ 31 \<and> number_text n = s then Some n else None)
      else None)"

definition parse_head :: "bytes \<Rightarrow> nat option" where
  "parse_head head =
     (let lines = split_lines head
      in if take 13 (hd lines) \<noteq> ''HTTP/1.1 200 '' \<and> take 13 (hd lines) \<noteq> ''HTTP/1.0 200 '' then None
         else case read_headers [] (tl lines) of
           None \<Rightarrow> None
         | Some hs \<Rightarrow>
             (case length_value (header hs ''content-length'') of
                None \<Rightarrow> None
              | Some n \<Rightarrow>
                  if n = 0 \<or> kMaximumResponseBytes < n \<or> map_of hs ''transfer-encoding'' \<noteq> None
                     \<or> map_of hs ''content-encoding'' \<noteq> None
                     \<or> map ascii_lower (header hs ''content-type'') \<noteq> ''application/json''
                  then None else Some n))"

section \<open>Reading the answer\<close>

fun head_end :: "bytes \<Rightarrow> nat option" where
  "head_end [] = None"
| "head_end (c # cs) =
     (if take 4 (c # cs) = crlf @ crlf then Some 0 else map_option Suc (head_end cs))"

definition take_body :: "sheet_lib \<Rightarrow> nat \<Rightarrow> resolver \<Rightarrow> resolver" where
  "take_body L n r =
     (if n < length (rs_buffer r) then finish NoResult r
      else if length (rs_buffer r) = n
      then finish (ParseResponse L (rs_buffer r) (pf_phone (rs_profile r))) r
      else r)"

text \<open>\<open>available\<close> is what the socket has; it holds no more than its read buffer.\<close>

definition readResponse :: "sheet_lib \<Rightarrow> bytes \<Rightarrow> resolver \<Rightarrow> resolver" where
  "readResponse L available r =
     (if \<not> rs_sent r then finish NoResult r
      else let r = r\<lparr>rs_buffer := rs_buffer r @ take (kReadBuffer - length (rs_buffer r)) available\<rparr>
        in case rs_contentLength r of
             Some n \<Rightarrow> take_body L n r
           | None \<Rightarrow>
               (case head_end (rs_buffer r) of
                  None \<Rightarrow> if kMaximumHeaders < length (rs_buffer r) then finish NoResult r else r
                | Some k \<Rightarrow>
                    if kMaximumHeaders < k then finish NoResult r
                    else (case parse_head (take k (rs_buffer r)) of
                       None \<Rightarrow> finish NoResult r
                     | Some n \<Rightarrow>
                         take_body L n (r\<lparr>rs_contentLength := Some n, rs_buffer := drop (k + 4) (rs_buffer r)\<rparr>))))"

section \<open>Runs\<close>

text \<open>Signals come only from a socket that is connected to the resolver.\<close>

datatype resolver_event =
  Start "(nat \<times> bytes option) option" qstring | Cancel | SslErrors "ssl_error list" peer_view
| Encrypted peer_view int | ReadyRead bytes | Disconnected | ErrorOccurred | TimedOut

definition resolver_step :: "sheet_lib \<Rightarrow> resolver_event \<Rightarrow> resolver \<Rightarrow> resolver" where
  "resolver_step L ev r =
     (case ev of
        Start file phone \<Rightarrow> resolver_start L file phone r
      | Cancel \<Rightarrow> resolver_cancel r
      | TimedOut \<Rightarrow> if rs_timer r = None then r else finish NoResult (r\<lparr>rs_timer := None\<rparr>)
      | SslErrors errors v \<Rightarrow> if rs_socket r then sslErrors errors v r else r
      | Encrypted v accepted \<Rightarrow> if rs_socket r then sendRequest L v accepted r else r
      | ReadyRead available \<Rightarrow> if rs_socket r then readResponse L available r else r
      | Disconnected \<Rightarrow> if rs_socket r then finish NoResult r else r
      | ErrorOccurred \<Rightarrow> if rs_socket r then finish NoResult r else r)"

inductive resolver_run :: "sheet_lib \<Rightarrow> resolver \<Rightarrow> bool" for L where
  made: "resolver_run L Resolver"
| step: "resolver_run L r \<Longrightarrow> resolver_run L (resolver_step L ev r)"

section \<open>What is kept\<close>

text \<open>A resolver that waits has a timer; without a callback it has nothing.  Whoever was answered
  does not wait, and only a start that wrote its request is answered with more than a failure.\<close>

definition resolver_ok :: "resolver \<Rightarrow> bool" where
  "resolver_ok r \<longleftrightarrow>
     (rs_done r = None \<longrightarrow> rs_timer r = None \<and> \<not> rs_socket r)
     \<and> (\<forall>n. rs_done r = Some n \<longrightarrow> n = rs_starts r \<and> rs_timer r \<noteq> None \<and> n \<notin> fst ` set (rs_results r))
     \<and> (rs_sent r \<longrightarrow> rs_socket r \<and> rs_starts r \<in> fst ` set (rs_written r))
     \<and> (rs_socket r \<and> \<not> rs_sent r \<longrightarrow> rs_starts r \<notin> fst ` set (rs_written r))
     \<and> length (rs_buffer r) \<le> kMaximumResponseBytes
     \<and> (\<forall>n. rs_contentLength r = Some n \<longrightarrow> n \<le> kMaximumResponseBytes)
     \<and> distinct (map fst (rs_results r)) \<and> distinct (map fst (rs_written r))
     \<and> (\<forall>n \<in> fst ` set (rs_results r). n \<le> rs_starts r) \<and> (\<forall>n \<in> fst ` set (rs_written r). n \<le> rs_starts r)
     \<and> (\<forall>(n, result) \<in> set (rs_results r). sr_status result = Failed \<or> n \<in> fst ` set (rs_written r))"

lemma finish_simps [simp]:
  "rs_done (finish result r) = None" "rs_timer (finish result r) = None" "\<not> rs_socket (finish result r)"
  "\<not> rs_sent (finish result r)" "rs_buffer (finish result r) = []" "rs_contentLength (finish result r) = None" "rs_starts (finish result r) = rs_starts r"
  "rs_written (finish result r) = rs_written r"
  "rs_results (finish result r) = rs_results r @ (case rs_done r of None \<Rightarrow> [] | Some n \<Rightarrow> [(n, result)])"
  by (simp_all add: finish_def resolver_cancel_def Let_def split: option.split)

lemma cancel_simps [simp]:
  "rs_done (resolver_cancel r) = None" "rs_timer (resolver_cancel r) = None" "\<not> rs_socket (resolver_cancel r)"
  "\<not> rs_sent (resolver_cancel r)" "rs_buffer (resolver_cancel r) = []" "rs_contentLength (resolver_cancel r) = None" "rs_starts (resolver_cancel r) = rs_starts r"
  "rs_written (resolver_cancel r) = rs_written r" "rs_results (resolver_cancel r) = rs_results r"
  by (simp_all add: resolver_cancel_def)

lemma cancel_ok: "resolver_ok r \<Longrightarrow> resolver_ok (resolver_cancel r)"
  by (simp add: resolver_ok_def)

lemma finish_ok:
  assumes "resolver_ok r" "sr_status result = Failed \<or> rs_sent r" shows "resolver_ok (finish result r)"
  using assms by (auto simp: resolver_ok_def split: option.splits)

lemma NoResult_Failed [simp]: "sr_status NoResult = Failed"
  by (simp add: NoResult_def)

lemma resolver_start_ok:
  assumes "resolver_ok r" shows "resolver_ok (resolver_start L file phone r)"
proof -
  have b: "\<forall>n \<in> fst ` set (rs_results r). n \<le> rs_starts r" "\<forall>n \<in> fst ` set (rs_written r). n \<le> rs_starts r"
    using assms unfolding resolver_ok_def by blast+
  have fresh: "Suc (rs_starts r) \<notin> fst ` set (rs_results r)" "Suc (rs_starts r) \<notin> fst ` set (rs_written r)"
    using bspec [OF b(1), of "Suc (rs_starts r)"] bspec [OF b(2), of "Suc (rs_starts r)"] by linarith+
  have below: "\<forall>n \<in> fst ` set (rs_results r). n \<le> Suc (rs_starts r)" "\<forall>n \<in> fst ` set (rs_written r). n \<le> Suc (rs_starts r)"
    using b by (meson le_SucI)+
  let ?r = "(resolver_cancel r)\<lparr>rs_done := Some (rs_starts r + 1), rs_starts := rs_starts r + 1\<rparr>"
  have ok: "resolver_ok (?r\<lparr>rs_timer := Some t\<rparr>)" "resolver_ok (?r\<lparr>rs_profile := p, rs_socket := True, rs_timer := Some t\<rparr>)" for t p
    using assms fresh below by (simp_all add: resolver_ok_def)
  then show ?thesis by (simp add: resolver_start_def Let_def split: option.split)
qed

lemma sendRequest_ok:
  assumes "resolver_ok r" "rs_socket r" shows "resolver_ok (sendRequest L v accepted r)"
proof (cases "rs_sent r \<or> \<not> pv_encrypted v \<or> \<not> certificateAllowed r v")
  case True
  then show ?thesis using assms by (simp add: sendRequest_def finish_ok)
next
  case False
  let ?r = "r\<lparr>rs_sent := True, rs_written := rs_written r @ [(rs_starts r, request_text L (rs_profile r))],
     rs_profile := (rs_profile r)\<lparr>pf_token := []\<rparr>\<rparr>"
  have "resolver_ok ?r" using assms False by (auto simp: resolver_ok_def split: option.splits)
  then show ?thesis using False by (simp add: sendRequest_def Let_def finish_ok)
qed

lemma parse_head_bound: "parse_head head = Some n \<Longrightarrow> 0 < n \<and> n \<le> kMaximumResponseBytes"
  by (auto simp: parse_head_def Let_def split: if_splits option.splits)

lemma take_body_ok:
  assumes "resolver_ok (r\<lparr>rs_buffer := []\<rparr>)" "rs_sent r" "n \<le> kMaximumResponseBytes"
  shows "resolver_ok (take_body L n r)"
proof -
  have "finish result r = finish result (r\<lparr>rs_buffer := []\<rparr>)" for result
    by (simp add: finish_def resolver_cancel_def)
  moreover have "resolver_ok r" if "length (rs_buffer r) \<le> kMaximumResponseBytes"
    using assms(1) that by (simp add: resolver_ok_def)
  ultimately show ?thesis using assms by (simp add: take_body_def finish_ok)
qed

lemma readResponse_ok:
  assumes "resolver_ok r" shows "resolver_ok (readResponse L available r)"
proof (cases "rs_sent r")
  case True
  let ?r = "r\<lparr>rs_buffer := rs_buffer r @ take (kReadBuffer - length (rs_buffer r)) available\<rparr>"
  have r0: "resolver_ok (?r\<lparr>rs_buffer := []\<rparr>)" "n \<le> kMaximumResponseBytes \<Longrightarrow> resolver_ok (?r\<lparr>rs_contentLength := Some n, rs_buffer := []\<rparr>)" for n
    using assms(1) by (simp_all add: resolver_ok_def)
  have f: "resolver_ok (finish NoResult ?r)"
    using assms(1) finish_ok [OF r0(1), of NoResult] by (simp add: finish_def resolver_cancel_def Let_def)
  have short: "resolver_ok ?r" if "\<not> kMaximumHeaders < length (rs_buffer ?r)"
    using assms(1) that by (simp add: resolver_ok_def kMaximumHeaders_def kMaximumResponseBytes_def)
  show ?thesis
  proof (cases "rs_contentLength r")
    case (Some n)
    then have "n \<le> kMaximumResponseBytes" using assms by (simp add: resolver_ok_def)
    with Some True r0(1) show ?thesis by (simp add: readResponse_def Let_def take_body_ok)
  next
    case None
    show ?thesis
    proof (cases "head_end (rs_buffer ?r)")
      case n: None
      show ?thesis using None n True f short by (simp add: readResponse_def Let_def)
    next
      case (Some k)
      show ?thesis
        using None Some True f r0(2) parse_head_bound [of "take k (rs_buffer ?r)"]
        by (simp add: readResponse_def Let_def take_body_ok split: option.split)
    qed
  qed
qed (simp add: readResponse_def finish_ok assms(1))

lemma step_ok: "resolver_ok r \<Longrightarrow> resolver_ok (resolver_step L ev r)"
proof -
  assume r: "resolver_ok r"
  have "finish NoResult (r\<lparr>rs_timer := None\<rparr>) = finish NoResult r" by (simp add: finish_def resolver_cancel_def)
  moreover have "resolver_ok (r\<lparr>rs_ignored := True\<rparr>)" using r by (simp add: resolver_ok_def)
  ultimately show ?thesis using r
    by (cases ev) (simp_all add: resolver_step_def resolver_start_ok cancel_ok finish_ok sendRequest_ok readResponse_ok sslErrors_def)
qed

lemma run_ok: "resolver_run L r \<Longrightarrow> resolver_ok r"
  by (induction rule: resolver_run.induct) (simp_all add: step_ok, simp add: resolver_ok_def Resolver_def)

text \<open>C29: Every start is answered at most once and writes at most one request; one that waits has a timer
  running, which answers it with a failure; and only a start whose request was written is answered
  with a list or with \<open>NotFound\<close>.\<close>

theorem resolver_answers_once:
  assumes "resolver_run L r"
  shows "distinct (map fst (rs_results r)) \<and> distinct (map fst (rs_written r))
    \<and> (\<forall>n. rs_done r = Some n \<longrightarrow> rs_timer r \<noteq> None
         \<and> rs_results (resolver_step L TimedOut r) = rs_results r @ [(n, NoResult)])
    \<and> (\<forall>(n, result) \<in> set (rs_results r). sr_status result \<noteq> Failed \<longrightarrow> n \<in> fst ` set (rs_written r))"
proof -
  have "rs_results (resolver_step L TimedOut r) = rs_results r @ [(n, NoResult)]" if "rs_done r = Some n" "rs_timer r \<noteq> None" for n
    using that by (simp add: resolver_step_def)
  then show ?thesis using run_ok [OF assms] by (auto simp: resolver_ok_def)
qed

section \<open>The pin\<close>

lemma written_kept [simp]:
  "rs_written (resolver_start L file phone r) = rs_written r" "rs_written (sslErrors errors v r) = rs_written r"
  "rs_written (take_body L n r) = rs_written r"
  by (simp_all add: resolver_start_def sslErrors_def take_body_def Let_def split: option.split)

lemma readResponse_written [simp]: "rs_written (readResponse L available r) = rs_written r"
  by (simp add: readResponse_def Let_def split: option.split)

text \<open>C21: The access token leaves only over an encrypted connection whose certificate is the pinned one and
  is valid now, with no error but the expected ones of trust; it leaves once and is then forgotten.\<close>

theorem resolver_pins_certificate:
  assumes "rs_written (resolver_step L ev r) \<noteq> rs_written r"
  shows "\<exists>v accepted. ev = Encrypted v accepted \<and> pv_encrypted v \<and> \<not> rs_sent r
    \<and> pv_certificate v = Some (pf_certificateSha256 (rs_profile r))
    \<and> (\<exists>from till. pv_effective v = Some from \<and> pv_expiry v = Some till \<and> from \<le> pv_now v \<and> pv_now v \<le> till)
    \<and> list_all ExpectedTrustError (pv_verify v)
    \<and> rs_written (resolver_step L ev r) = rs_written r @ [(rs_starts r, request_text L (rs_profile r))]
    \<and> pf_token (rs_profile (resolver_step L ev r)) = []"
proof -
  obtain v accepted where ev: "ev = Encrypted v accepted" "rs_socket r"
    using assms by (cases ev) (auto simp: resolver_step_def split: if_splits)
  then have c: "\<not> rs_sent r" "pv_encrypted v" "certificateAllowed r v"
    using assms by (auto simp: resolver_step_def sendRequest_def split: if_splits)
  have "pf_token (rs_profile (finish NoResult s)) = []" for s
    by (simp add: finish_def resolver_cancel_def no_profile_def Let_def split: option.split)
  then have "rs_written (resolver_step L ev r) = rs_written r @ [(rs_starts r, request_text L (rs_profile r))]
    \<and> pf_token (rs_profile (resolver_step L ev r)) = []"
    using c ev by (simp add: resolver_step_def sendRequest_def Let_def)
  moreover have "pv_certificate v = Some (pf_certificateSha256 (rs_profile r))
    \<and> (\<exists>from till. pv_effective v = Some from \<and> pv_expiry v = Some till \<and> from \<le> pv_now v \<and> pv_now v \<le> till)
    \<and> list_all ExpectedTrustError (pv_verify v)"
    using c(3) by (auto simp: certificateAllowed_def split: option.splits)
  ultimately show ?thesis using c(1,2) ev(1) by blast
qed

section \<open>The answer in pieces\<close>

lemma head_end_iff: "head_end bs = Some k \<longleftrightarrow>
    take 4 (drop k bs) = crlf @ crlf \<and> (\<forall>j<k. take 4 (drop j bs) \<noteq> crlf @ crlf)"
proof (induction bs arbitrary: k)
  case (Cons c cs)
  show ?case
  proof (cases "take 4 (c # cs) = crlf @ crlf")
    case True
    then show ?thesis by (cases k) auto
  next
    case False
    then show ?thesis using Cons.IH by (cases k) (auto simp: less_Suc_eq_0_disj)
  qed
qed (simp add: crlf_def)

lemma head_end_take:
  assumes "head_end bs = Some k"
  shows "head_end (take m bs) = (if m < k + 4 then None else Some k)"
proof -
  have bs: "take 4 (drop k bs) = crlf @ crlf" "\<And>j. j < k \<Longrightarrow> take 4 (drop j bs) \<noteq> crlf @ crlf"
    using assms by (simp_all add: head_end_iff)
  have same: "take 4 (drop j (take m bs)) = take 4 (drop j bs)" if "j + 4 \<le> m" for j
    using that by (simp add: drop_take)
  show ?thesis
  proof (cases "m < k + 4")
    case True
    have "head_end (take m bs) \<noteq> Some j" for j
    proof
      assume "head_end (take m bs) = Some j"
      then have j: "take 4 (drop j (take m bs)) = crlf @ crlf" by (simp add: head_end_iff)
      then have "length (take 4 (drop j (take m bs))) = 4" by (simp add: crlf_def)
      then have "j + 4 \<le> m" by simp
      with True same j bs(2) [of j] show False by simp
    qed
    then show ?thesis using True by (metis not_None_eq)
  next
    case False
    then have "head_end (take m bs) = Some k"
      unfolding head_end_iff using same bs by (metis add.commute add_le_cancel_left leD le_trans less_imp_le_nat not_less)
    then show ?thesis using False by simp
  qed
qed

text \<open>What is kept after a part of the answer.\<close>

definition partly_read :: "nat \<Rightarrow> nat \<Rightarrow> bytes \<Rightarrow> resolver \<Rightarrow> resolver" where
  "partly_read k n p r =
     (if length p < k + 4 then r\<lparr>rs_buffer := p\<rparr>
      else r\<lparr>rs_contentLength := Some n, rs_buffer := drop (k + 4) p\<rparr>)"

lemma readResponse_new:
  assumes "rs_sent r" "rs_contentLength r = None" "p @ take (kReadBuffer - length p) c = b"
  shows "readResponse L c (r\<lparr>rs_buffer := p\<rparr>) =
    (case head_end b of
       None \<Rightarrow> if kMaximumHeaders < length b then finish NoResult (r\<lparr>rs_buffer := b\<rparr>) else r\<lparr>rs_buffer := b\<rparr>
     | Some i \<Rightarrow> if kMaximumHeaders < i then finish NoResult (r\<lparr>rs_buffer := b\<rparr>)
         else (case parse_head (take i b) of
            None \<Rightarrow> finish NoResult (r\<lparr>rs_buffer := b\<rparr>)
          | Some n \<Rightarrow> take_body L n (r\<lparr>rs_contentLength := Some n, rs_buffer := drop (i + 4) b\<rparr>)))"
proof (cases "head_end b")
  case None
  then show ?thesis using assms by (simp add: readResponse_def Let_def)
next
  case (Some i)
  show ?thesis
  proof (cases "parse_head (take i b)")
    case None
    then show ?thesis using assms Some by (simp add: readResponse_def Let_def)
  next
    case n: (Some n)
    then show ?thesis using assms Some by (simp add: readResponse_def Let_def)
  qed
qed

lemma readResponse_part:
  assumes r: "rs_sent r" "rs_contentLength r = None"
    and answer: "head_end answer = Some k" "parse_head (take k answer) = Some n" "length answer = k + 4 + n"
    and k: "k + 4 \<le> kMaximumHeaders"
    and m: "m < length answer" "m + length c \<le> length answer" "c = take (length c) (drop m answer)"
  shows "readResponse L c (partly_read k n (take m answer) r) =
    (if m + length c = length answer
     then finish (ParseResponse L (drop (k + 4) answer) (pf_phone (rs_profile r))) (partly_read k n answer r)
     else partly_read k n (take (m + length c) answer) r)"
proof -
  have n: "0 < n" "n \<le> kMaximumResponseBytes" using parse_head_bound [OF answer(2)] by simp_all
  have fits: "length answer \<le> kReadBuffer" using n k answer(3) by (simp add: kReadBuffer_def)
  let ?m = "m + length c"
  have p: "take m answer @ c = take ?m answer" using m(3) by (simp add: take_add)
  let ?full = "r\<lparr>rs_contentLength := Some n, rs_buffer := drop (k + 4) (take ?m answer)\<rparr>"
  have body: "take_body L n ?full =
     (if ?m = length answer then finish (ParseResponse L (drop (k + 4) answer) (pf_phone (rs_profile r))) (partly_read k n answer r)
      else partly_read k n (take ?m answer) r)" if "k + 4 \<le> ?m"
    using that m(2) answer(3) by (auto simp: take_body_def partly_read_def)
  show ?thesis
  proof (cases "m < k + 4")
    case True
    have "take m answer @ take (kReadBuffer - m) c = take ?m answer" using m fits p by simp
    then have step: "readResponse L c (partly_read k n (take m answer) r) =
      (case head_end (take ?m answer) of
         None \<Rightarrow> if kMaximumHeaders < length (take ?m answer) then finish NoResult (r\<lparr>rs_buffer := take ?m answer\<rparr>)
           else r\<lparr>rs_buffer := take ?m answer\<rparr>
       | Some i \<Rightarrow> if kMaximumHeaders < i then finish NoResult (r\<lparr>rs_buffer := take ?m answer\<rparr>)
           else (case parse_head (take i (take ?m answer)) of
              None \<Rightarrow> finish NoResult (r\<lparr>rs_buffer := take ?m answer\<rparr>)
            | Some n \<Rightarrow> take_body L n (r\<lparr>rs_contentLength := Some n, rs_buffer := drop (i + 4) (take ?m answer)\<rparr>)))"
      using True r m readResponse_new [of r "take m answer" c "take ?m answer" L]
      by (simp add: partly_read_def)
    show ?thesis
    proof (cases "?m < k + 4")
      case short: True
      then show ?thesis
        unfolding step using n k m answer(3) head_end_take [OF answer(1), of ?m] by (simp add: partly_read_def)
    next
      case False
      then show ?thesis
        using k head_end_take [OF answer(1), of ?m] answer(2) body by (simp add: step)
    qed
  next
    case False
    then have "drop (k + 4) (take m answer) @ c = drop (k + 4) (take ?m answer)"
      using m p [symmetric] by simp
    then have "readResponse L c (partly_read k n (take m answer) r) = take_body L n ?full"
      using False r m fits by (simp add: readResponse_def partly_read_def Let_def)
    then show ?thesis using False body by simp
  qed
qed

text \<open>C22: The answer counts the same in whatever pieces it arrives: a head of at most 8188 bytes that
  announces the length of the body that follows it leads to exactly the result of that body.\<close>

theorem resolver_any_pieces:
  assumes "rs_socket r" "rs_sent r" "rs_contentLength r = None" "rs_buffer r = []" "rs_done r = Some i"
    and "head_end (head @ crlf @ crlf @ body) = Some (length head)" "length head + 4 \<le> kMaximumHeaders"
    and "parse_head head = Some (length body)" "concat pieces = head @ crlf @ crlf @ body"
  shows "rs_results (foldl (\<lambda>r piece. resolver_step L (ReadyRead piece) r) r pieces)
    = rs_results r @ [(i, ParseResponse L body (pf_phone (rs_profile r)))]"
proof -
  obtain a where a: "a = head @ crlf @ crlf @ body" by simp
  let ?k = "length head" and ?n = "length body"
  let ?f = "foldl (\<lambda>r piece. resolver_step L (ReadyRead piece) r)"
  let ?result = "ParseResponse L body (pf_phone (rs_profile r))"
  have k: "head_end a = Some ?k" "parse_head (take ?k a) = Some ?n" "length a = ?k + 4 + ?n" "drop (?k + 4) a = body"
    using assms(6,8) by (simp_all add: a crlf_def)
  have idle: "?f s ps = s" if "\<not> rs_socket s" for s ps
    using that by (induction ps) (simp_all add: resolver_step_def)
  have run: "rs_results (?f (partly_read ?k ?n (take m a) r) ps) = rs_results r @ [(i, ?result)]"
    if "m < length a" "concat ps = drop m a" for m ps
    using that
  proof (induction ps arbitrary: m)
    case (Cons c ps)
    have drop: "drop m a = c @ concat ps" using Cons.prems(2) by simp
    have c: "c = take (length c) (drop m a)" by (simp add: drop)
    have l: "m + length c \<le> length a" using arg_cong [OF drop, of length] Cons.prems(1) by simp
    have sock: "rs_socket (partly_read ?k ?n (take m a) r)" using assms(1) by (simp add: partly_read_def)
    have s: "resolver_step L (ReadyRead c) (partly_read ?k ?n (take m a) r) =
      (if m + length c = length a then finish ?result (partly_read ?k ?n a r)
       else partly_read ?k ?n (take (m + length c) a) r)"
      using readResponse_part [OF assms(2,3) k(1-3) assms(7) Cons.prems(1) l c, of L] k(4) sock
      by (simp add: resolver_step_def)
    show ?case
    proof (cases "m + length c = length a")
      case True
      have "rs_results (partly_read ?k ?n a r) = rs_results r" "rs_done (partly_read ?k ?n a r) = Some i"
        using assms(5) by (simp_all add: partly_read_def)
      then show ?thesis using s True by (simp add: idle)
    next
      case False
      have "concat ps = drop (m + length c) a"
        using arg_cong [OF drop, of "drop (length c)"] by (simp add: add.commute)
      then show ?thesis using s False Cons.IH [of "m + length c"] l by simp
    qed
  qed simp
  have "partly_read ?k ?n (take 0 a) r = r" using assms(4) by (simp add: partly_read_def)
  moreover have "0 < length a" by (simp add: k(3))
  moreover have "concat pieces = drop 0 a" using assms(9) by (simp add: a)
  ultimately show ?thesis using run [of 0 pieces] by simp
qed

end
