(* ===== verification/Sheet_Examples.thy ===== *)
theory Sheet_Examples
  imports Sheet_Resolver
begin

text \<open>
  The sheet protocol on a small answer: the properties of \<open>Sheet\<close> and \<open>Sheet_Resolver\<close> there.
\<close>

definition answer_text :: string where
  "answer_text = ''{'' @ [CHR 0x22] @ ''version'' @ [CHR 0x22] @ '':1,'' @ [CHR 0x22] @ ''status'' @ [CHR 0x22, CHR '':'', CHR 0x22]
     @ ''matched'' @ [CHR 0x22, CHR '','', CHR 0x22] @ ''phone'' @ [CHR 0x22, CHR '':'', CHR 0x22] @ ''+998920436145''
     @ [CHR 0x22, CHR '','', CHR 0x22] @ ''user_ids'' @ [CHR 0x22, CHR '':'', CHR ''['', CHR 0x22, CHR ''7'', CHR 0x22, CHR '']'', CHR '','', CHR 0x22]
     @ ''group_ids'' @ [CHR 0x22, CHR '':'', CHR ''['', CHR 0x22, CHR ''-'', CHR ''9'', CHR 0x22, CHR '']'', CHR ''}'']"

definition answer_object :: json_object where
  "answer_object = [(qlit ''version'', JNumber (Some 1)), (qlit ''status'', JString (qlit ''matched'')),
     (qlit ''phone'', JString (qlit ''+998920436145'')), (qlit ''user_ids'', JArray [JString (qlit ''7'')]),
     (qlit ''group_ids'', JArray [JString (qlit ''-9'')])]"

definition version_text :: string where
  "version_text = [CHR ''{'', CHR 0x22] @ ''version'' @ [CHR 0x22, CHR '':'', CHR ''1'', CHR ''}'']"

definition sheet_parse :: json_parser where
  "sheet_parse bs =
     (if take 2 bs = [CHR ''['', CHR 0x22] then Some (JArray [JString (qlit (drop 2 (butlast (butlast bs))))])
      else map_of [(answer_text, JObject answer_object),
        (version_text, JObject [(qlit ''version'', JNumber (Some 1))])] bs)"

definition sheet_url :: url where
  "sheet_url = \<lparr>url_scheme = qlit ''https'', url_host = qlit ''h'', url_userInfo = [], url_hasQuery = False,
     url_hasFragment = False, url_path = qlit ''/v1/allowlist/resolve'', url_port = - 1\<rparr>"

definition sample_sheet :: sheet_lib where
  "sample_sheet = \<lparr>sl_parse = sheet_parse, sl_compact = (\<lambda>v. ''{}''), sl_fromUtf8 = fromLatin1, sl_toUtf8 = toLatin1,
     sl_url = (\<lambda>s. Some sheet_url), sl_authority = url_host, sl_fromBase64 = (\<lambda>bs. bs), sl_toBase64 = (\<lambda>bs. bs)\<rparr>"

definition sheet_phone :: qstring where "sheet_phone = qlit ''+998920436145''"

lemma sheet_phone_normal: "AuthenticatedPhone sheet_phone = sheet_phone" "sheet_phone \<noteq> []"
  by code_simp+

lemma answer_members: "sheet_members sheet_parse [] (space (drop 1 (space answer_text)))"
  by code_simp

lemma answer_short: "length answer_text \<le> 200" "answer_text \<noteq> []" "toLatin1 (fromLatin1 answer_text) = answer_text"
  "sheet_parse answer_text = Some (JObject answer_object)"
  by code_simp+

lemma answer_read: "ReadSheetObject sample_sheet answer_text kMaximumResponseBytes = Some answer_object"
  using answer_members answer_short
  by (simp add: ReadSheetObject_def sample_sheet_def kMaximumResponseBytes_def)

lemma answer_ids: "id_text False (qlit ''7'')" "id_text True (qlit ''-9'')" "length (qlit ''7'') = 1" "length (qlit ''-9'') = 2"
  by code_simp+

lemma answer_joined: "toLatin1 (qlit ''7'') = ''7''" "toLatin1 (qlit ''-9'') = ''-9''"
  by code_simp+

lemma answer_fields:
  "field ''phone'' answer_object = Some (JString sheet_phone)" "field ''status'' answer_object = Some (JString (qlit ''matched''))"
  "field ''user_ids'' answer_object = Some (JArray [JString (qlit ''7'')])"
  "field ''group_ids'' answer_object = Some (JArray [JString (qlit ''-9'')])"
  "Fields answer_object [''version'', ''status'', ''phone'', ''user_ids'', ''group_ids'']"
  "qlit ''matched'' \<noteq> qlit ''not_found''"
  by code_simp+

lemma answer_parsed:
  "ParseResponse sample_sheet answer_text sheet_phone = \<lparr>sr_status = Matched, sr_users = [qlit ''7''], sr_groups = [qlit ''-9'']\<rparr>"
proof -
  have u: "sl_toUtf8 sample_sheet = toLatin1" by (simp add: sample_sheet_def)
  have p: "pr_error (Parse ''7'' ''-9'') = NoError"
    by (simp add: Parse_def ParseField_tokens parse_eval)
  have i: "ReadIds (Some (JArray [JString (qlit ''7'')])) False = Some [qlit ''7'']"
    "ReadIds (Some (JArray [JString (qlit ''-9'')])) True = Some [qlit ''-9'']"
    using answer_ids by (simp_all add: ReadIds_def kMaximumEntries_def)
  show ?thesis
    using sheet_phone_normal answer_fields
    by (simp add: ParseResponse_def answer_read to_string_def i u answer_joined p kMaximumEntries_def)
qed

theorem sheet_match_sound_witness:
  "sr_status (ParseResponse sample_sheet answer_text sheet_phone) = Matched
   \<and> distinct (sr_users (ParseResponse sample_sheet answer_text sheet_phone))
   \<and> (\<exists>ob. ReadSheetObject sample_sheet answer_text kMaximumResponseBytes = Some ob
        \<and> field ''phone'' ob = Some (JString sheet_phone))"
  using sheet_match_sound [OF answer_parsed] by (auto simp: answer_parsed)

definition version_member :: sheet_member where
  "version_member = \<lparr>me_before = [], me_key = ''version'' @ [CHR 0x22], me_after = [], me_blank = [],
     me_value = [Outside (Plain CHR ''1'')]\<rparr>"


section \<open>The resolver\<close>

theorem resolver_answers_once_witness:
  "rs_results (resolver_step sample_sheet TimedOut (resolver_step sample_sheet (Start None sheet_phone) Resolver)) = [(1, NoResult)]"
proof -
  have "resolver_run sample_sheet (resolver_step sample_sheet (Start None sheet_phone) Resolver)"
    by (intro resolver_run.intros)
  from resolver_answers_once [OF this] show ?thesis
    by (simp add: resolver_step_def resolver_start_def ReadProfile_def Resolver_def resolver_cancel_def)
qed

definition sheet_digest :: bytes where "sheet_digest = replicate 64 CHR ''a''"

definition waiting :: resolver where
  "waiting = Resolver\<lparr>rs_socket := True, rs_done := Some 1, rs_starts := 1, rs_timer := Some kTimeoutMs,
     rs_profile := \<lparr>pf_endpoint = sheet_url, pf_phone = sheet_phone, pf_token = ''t'', pf_certificateSha256 = sheet_digest\<rparr>\<rparr>"

definition sheet_view :: peer_view where
  "sheet_view = \<lparr>pv_certificate = Some sheet_digest, pv_effective = Some 0, pv_expiry = Some 9, pv_now = 5,
     pv_verify = [SelfSignedCertificate], pv_encrypted = True\<rparr>"

theorem resolver_pins_certificate_witness:
  "pf_token (rs_profile (resolver_step sample_sheet (Encrypted sheet_view 0) waiting)) = []
   \<and> rs_written (resolver_step sample_sheet (Encrypted sheet_view 0) waiting) = [(1, request_text sample_sheet (rs_profile waiting))]"
proof -
  have "certificateAllowed waiting sheet_view" by (simp add: certificateAllowed_def sheet_view_def waiting_def)
  then have "rs_written (resolver_step sample_sheet (Encrypted sheet_view 0) waiting) \<noteq> rs_written waiting"
    by (simp add: resolver_step_def sendRequest_def waiting_def Resolver_def sheet_view_def Let_def)
  from resolver_pins_certificate [OF this] show ?thesis
    by (auto simp: waiting_def Resolver_def)
qed

definition answer_head :: bytes where
  "answer_head = ''HTTP/1.1 200 OK'' @ crlf @ ''Content-Type: application/json'' @ crlf @ ''Content-Length: 2''"

lemma answer_head_lines: "split_lines answer_head =
    [''HTTP/1.1 200 OK'' @ [CHR 0x0D], ''Content-Type: application/json'' @ [CHR 0x0D], ''Content-Length: 2'']"
  by code_simp

lemma answer_headers: "read_headers [] (tl (split_lines answer_head))
    = Some [(''content-length'', ''2''), (''content-type'', ''application/json'')]"
  by code_simp

lemma answer_head_end: "head_end (answer_head @ crlf @ crlf @ ''{}'') = Some (length answer_head)" "length answer_head = 66"
  by code_simp+

lemma answer_head_parsed: "parse_head answer_head = Some 2"
proof -
  have n: "number_text 2 = ''2''" by code_simp
  have "length_value ''2'' = Some 2"
    by (simp add: length_value_def is_digit_def Allowlist_Policy.digits_value_def digit_value_def n)
  moreover have "map ascii_lower ''application/json'' = ''application/json''" by code_simp
  ultimately show ?thesis
    by (simp add: parse_head_def Let_def answer_headers header_def kMaximumResponseBytes_def) (simp add: answer_head_lines)
qed

theorem resolver_any_pieces_witness:
  "rs_results (foldl (\<lambda>r piece. resolver_step sample_sheet (ReadyRead piece) r) (waiting\<lparr>rs_sent := True\<rparr>)
     [answer_head, crlf @ crlf @ ''{'', ''}'']) = [(1, ParseResponse sample_sheet ''{}'' sheet_phone)]"
  using resolver_any_pieces [of "waiting\<lparr>rs_sent := True\<rparr>" 1 answer_head "''{}''"
      "[answer_head, crlf @ crlf @ ''{'', ''}'']" sample_sheet]
    answer_head_end answer_head_parsed
  by (simp add: waiting_def Resolver_def kMaximumHeaders_def)

end
