(* ===== verification/Chat_Catalog.thy ===== *)
theory Chat_Catalog
  imports Session_Allowlist
begin

text \<open>
  Walking the chats of an account (\<open>window/window_allowlist.cpp\<close>): pages read from the server's
  answers, the catalog of chats a managed session reports, and the walk of the lock widget that
  offers them for the first list.  What the session knows of a peer is an argument; of a message
  the walk reads the identifier, the peer and the date.
\<close>

section \<open>Pages\<close>

datatype chat_state =
  UserState bool \<comment> \<open>inaccessible\<close>
| ChatState bool bool \<comment> \<open>am in, migrated\<close>
| ChannelState bool \<comment> \<open>am in\<close>

record peer_data =
  pd_name :: bytes
  pd_state :: chat_state

definition Selectable :: "peer_id \<Rightarrow> peer_id \<Rightarrow> peer_data \<Rightarrow> bool" where
  "Selectable self peer d =
     (if peer = self \<or> pd_name d = [] then False
      else case pd_state d of
        UserState inaccessible \<Rightarrow> \<not> inaccessible
      | ChatState am_in migrated \<Rightarrow> am_in \<and> \<not> migrated
      | ChannelState am_in \<Rightarrow> am_in)"

record tl_message =
  tm_id :: int
  tm_peer :: peer_id
  tm_date :: int

datatype tl_dialog = TlDialog peer_id int | OtherDialog

record dialogs_data =
  dd_dialogs :: "tl_dialog list"
  dd_messages :: "tl_message list"

fun message_date :: "tl_message list \<Rightarrow> int \<Rightarrow> peer_id \<Rightarrow> int" where
  "message_date [] top_message peer = 0"
| "message_date (m # ms) top_message peer =
     (if tm_id m = top_message \<and> tm_peer m = peer then tm_date m else message_date ms top_message peer)"

fun read_dialogs :: "peer_id \<Rightarrow> (peer_id \<Rightarrow> peer_data) \<Rightarrow> tl_message list \<Rightarrow> tl_dialog list \<Rightarrow> dialog list" where
  "read_dialogs self peers messages [] = []"
| "read_dialogs self peers messages (OtherDialog # ds) = read_dialogs self peers messages ds"
| "read_dialogs self peers messages (TlDialog peer top_message # ds) =
     (if peer = 0 then read_dialogs self peers messages ds
      else \<lparr>dl_peer = ToEntry peer, dl_message = top_message, dl_date = message_date messages top_message peer,
             dl_title = pd_name (peers peer), dl_selectable = Selectable self peer (peers peer)\<rparr>
           # read_dialogs self peers messages ds)"

definition ReadPage :: "peer_id \<Rightarrow> (peer_id \<Rightarrow> peer_data) \<Rightarrow> dialogs_data \<Rightarrow> bool \<Rightarrow> page" where
  "ReadPage self peers data complete =
     \<lparr>pg_dialogs = read_dialogs self peers (dd_messages data) (dd_dialogs data), pg_complete = complete\<rparr>"

text \<open>What a request for a cursor comes back with.\<close>

datatype dialogs_answer =
  DialogsError | NotModified | Dialogs dialogs_data | DialogsSlice dialogs_data

definition answer_page :: "peer_id \<Rightarrow> (peer_id \<Rightarrow> peer_data) \<Rightarrow> dialogs_answer \<Rightarrow> page option" where
  "answer_page self peers answer =
     (case answer of
        DialogsError \<Rightarrow> None
      | NotModified \<Rightarrow> None
      | Dialogs data \<Rightarrow> Some (ReadPage self peers data True)
      | DialogsSlice data \<Rightarrow> Some (ReadPage self peers data False))"

section \<open>The catalog\<close>

record catalog_chat =
  ca_peer :: entry
  ca_title :: bytes

record catalog =
  ct_model :: picker
  ct_generation :: "64 word"
  ct_chats :: "catalog_chat list"
  ct_seen :: "entry list"
  ct_done :: "catalog_chat list list" \<comment> \<open>every call of \<open>done\<close>\<close>
  ct_next :: bool \<comment> \<open>a request is made or about to be made\<close>

definition kMaxCatalogChats :: nat where "kMaxCatalogChats = 1000"

definition catalog_start :: catalog where
  "catalog_start =
     (let m = start initial_picker
      in \<lparr>ct_model = m, ct_generation = pk_generation m, ct_chats = [], ct_seen = [], ct_done = [], ct_next = True\<rparr>)"

definition catalog_finish :: "bool \<Rightarrow> catalog \<Rightarrow> catalog" where
  "catalog_finish ok st =
     (let chats = (if ok then ct_chats st else [])
      in st\<lparr>ct_next := False, ct_done := ct_done st @ [chats]\<rparr>)"

fun catalog_rows :: "dialog list \<Rightarrow> catalog \<Rightarrow> catalog" where
  "catalog_rows [] st = st"
| "catalog_rows (row # rows) st =
     catalog_rows rows
       (if dl_selectable row \<and> length (ct_chats st) < kMaxCatalogChats \<and> dl_peer row \<notin> set (ct_seen st)
        then st\<lparr>ct_seen := dl_peer row # ct_seen st,
                ct_chats := ct_chats st @ [\<lparr>ca_peer = dl_peer row, ca_title = dl_title row\<rparr>]\<rparr>
        else st)"

definition catalog_receive :: "page \<Rightarrow> catalog \<Rightarrow> catalog" where
  "catalog_receive page st =
     (let st = catalog_rows (pg_dialogs page) st
      in case accept (ct_generation st) page (ct_model st) of
           (m, False) \<Rightarrow> catalog_finish False (st\<lparr>ct_model := m\<rparr>)
         | (m, True) \<Rightarrow> if ready m then catalog_finish True (st\<lparr>ct_model := m\<rparr>) else st\<lparr>ct_model := m\<rparr>)"

text \<open>One request of a session that is still there, and its answer.\<close>

definition catalog_step :: "(cursor \<Rightarrow> page option) \<Rightarrow> catalog \<Rightarrow> catalog" where
  "catalog_step answer st =
     (if \<not> ct_next st then st
      else case answer (pk_cursor (ct_model st)) of
        None \<Rightarrow> catalog_finish False st
      | Some page \<Rightarrow> catalog_receive page st)"

section \<open>The walk of the catalog ends\<close>

fun first_rows :: "entry list \<Rightarrow> dialog list \<Rightarrow> catalog_chat list" where
  "first_rows seen [] = []"
| "first_rows seen (row # rows) =
     (if dl_selectable row \<and> dl_peer row \<notin> set seen
      then \<lparr>ca_peer = dl_peer row, ca_title = dl_title row\<rparr> # first_rows (dl_peer row # seen) rows
      else first_rows seen rows)"

lemma first_rows_seen: "set seen = set seen' \<Longrightarrow> first_rows seen rows = first_rows seen' rows"
proof (induction rows arbitrary: seen seen')
  case (Cons row rows)
  have "first_rows (dl_peer row # seen) rows = first_rows (dl_peer row # seen') rows"
    using Cons.prems by (intro Cons.IH) simp
  with Cons.prems Cons.IH [OF Cons.prems] show ?case by simp
qed simp

lemma first_rows_append:
  "first_rows seen (rows @ rows') = first_rows seen rows @ first_rows (map ca_peer (first_rows seen rows) @ seen) rows'"
proof (induction rows arbitrary: seen)
  case (Cons row rows)
  have "first_rows (map ca_peer (first_rows (dl_peer row # seen) rows) @ dl_peer row # seen) rows'
      = first_rows (dl_peer row # map ca_peer (first_rows (dl_peer row # seen) rows) @ seen) rows'"
    by (rule first_rows_seen) auto
  then show ?case
    using Cons.IH [of seen] Cons.IH [of "dl_peer row # seen"]
    by (cases "dl_selectable row \<and> dl_peer row \<notin> set seen") auto
qed simp

definition catalog_ok :: "dialog list \<Rightarrow> catalog \<Rightarrow> bool" where
  "catalog_ok rows st \<longleftrightarrow>
     ct_chats st = take kMaxCatalogChats (first_rows [] rows)
     \<and> (length (ct_chats st) < kMaxCatalogChats \<longrightarrow> set (ct_seen st) = ca_peer ` set (ct_chats st))"

lemma catalog_rows_ok: "catalog_ok done st \<Longrightarrow> catalog_ok (done @ rows) (catalog_rows rows st)"
proof (induction rows arbitrary: "done" st)
  case (Cons row rows)
  let ?st = "if dl_selectable row \<and> length (ct_chats st) < kMaxCatalogChats \<and> dl_peer row \<notin> set (ct_seen st)
     then st\<lparr>ct_seen := dl_peer row # ct_seen st, ct_chats := ct_chats st @ [\<lparr>ca_peer = dl_peer row, ca_title = dl_title row\<rparr>]\<rparr>
     else st"
  have "catalog_ok (done @ [row]) ?st"
  proof (cases "length (ct_chats st) < kMaxCatalogChats")
    case True
    then have c: "ct_chats st = first_rows [] done" "set (ct_seen st) = ca_peer ` set (first_rows [] done)"
      using Cons.prems by (auto simp: catalog_ok_def min_def split: if_splits)
    then have "length (first_rows [] done) < kMaxCatalogChats" using True by simp
    then show ?thesis using True c by (auto simp: catalog_ok_def first_rows_append)
  next
    case False
    then show ?thesis using Cons.prems by (auto simp: catalog_ok_def first_rows_append)
  qed
  from Cons.IH [OF this] show ?case by simp
qed simp

lemma catalog_rows_fields [simp]:
  "ct_model (catalog_rows rows st) = ct_model st" "ct_generation (catalog_rows rows st) = ct_generation st"
  "ct_done (catalog_rows rows st) = ct_done st" "ct_next (catalog_rows rows st) = ct_next st"
  by (induction rows arbitrary: st) simp_all

lemma accept_rows_valid:
  "accept_rows g rows m = (m', True) \<Longrightarrow>
     \<forall>row \<in> set rows. dl_selectable row \<longrightarrow> valid_entry (dl_peer row) \<and> dl_title row \<noteq> []"
proof (induction g rows m rule: accept_rows.induct)
  case (2 generation row rows m)
  show ?case
  proof (cases "dl_selectable row")
    case True
    with "2.prems" have "valid_entry (dl_peer row) \<and> dl_title row \<noteq> []"
      by (auto simp: valid_entry_def Let_def split: if_splits)
    moreover have "\<forall>row \<in> set rows. dl_selectable row \<longrightarrow> valid_entry (dl_peer row) \<and> dl_title row \<noteq> []"
      using "2.prems" True "2.IH"(2) by (simp add: Let_def split: if_splits)
    ultimately show ?thesis by simp
  next
    case False
    then show ?thesis using "2.prems" "2.IH"(1) by simp
  qed
qed simp

lemma accept_True:
  assumes "accept g page m = (m', True)" "g = pk_generation m" "pk_state m = Loading"
  shows "pk_generation m' = pk_generation m" "pk_pages m' = pk_pages m + 1" "pk_pages m' \<le> 1000"
    "pk_state m' = Loading \<or> pk_state m' = Ready"
    "\<forall>row \<in> set (pg_dialogs page). dl_selectable row \<longrightarrow> valid_entry (dl_peer row) \<and> dl_title row \<noteq> []"
proof -
  let ?m = "m\<lparr>pk_pages := pk_pages m + 1\<rparr>"
  have p: "\<not> 1000 < pk_pages m + 1" using assms by (auto simp: accept_def Let_def split: if_splits)
  obtain m1 ok where rows: "accept_rows g (pg_dialogs page) ?m = (m1, ok)" by fastforce
  with assms p have ok: ok by (cases ok) (simp_all add: accept_def Let_def)
  note f = accept_rows_fields [OF rows]
  have a: "pk_generation m2 = pk_generation m1 \<and> pk_pages m2 = pk_pages m1 \<and> pk_state m2 = pk_state m1"
    if "advance is m1 = Some m2" for "is" m2
    using advance_fields [OF that] by auto
  have "pk_generation m' = pk_generation m1 \<and> pk_pages m' = pk_pages m1
    \<and> (pk_state m' = pk_state m1 \<or> pk_state m' = Ready)"
    using assms p rows ok a by (auto simp: accept_def Let_def split: if_splits option.splits)
  then show "pk_generation m' = pk_generation m" "pk_pages m' = pk_pages m + 1" "pk_pages m' \<le> 1000"
    "pk_state m' = Loading \<or> pk_state m' = Ready"
    using f ok p assms(3) by auto
  show "\<forall>row \<in> set (pg_dialogs page). dl_selectable row \<longrightarrow> valid_entry (dl_peer row) \<and> dl_title row \<noteq> []"
    using rows ok by (auto dest!: accept_rows_valid)
qed

text \<open>The walk over a server that answers the nth request as it likes, and the rows it got.\<close>

fun catalog_walk :: "(nat \<Rightarrow> cursor \<Rightarrow> page option) \<Rightarrow> nat \<Rightarrow> catalog" where
  "catalog_walk answers 0 = catalog_start"
| "catalog_walk answers (Suc n) = catalog_step (answers n) (catalog_walk answers n)"

fun walk_rows :: "(nat \<Rightarrow> cursor \<Rightarrow> page option) \<Rightarrow> nat \<Rightarrow> dialog list" where
  "walk_rows answers 0 = []"
| "walk_rows answers (Suc n) =
     walk_rows answers n
     @ (if ct_next (catalog_walk answers n)
        then case answers n (pk_cursor (ct_model (catalog_walk answers n))) of None \<Rightarrow> [] | Some page \<Rightarrow> pg_dialogs page
        else [])"

definition walked :: "nat \<Rightarrow> dialog list \<Rightarrow> catalog \<Rightarrow> bool" where
  "walked n rows st \<longleftrightarrow>
     (if ct_next st
      then ct_done st = [] \<and> pk_pages (ct_model st) = int n \<and> n \<le> 1000 \<and> pk_state (ct_model st) = Loading
        \<and> ct_generation st = pk_generation (ct_model st) \<and> catalog_ok rows st
        \<and> (\<forall>row \<in> set rows. dl_selectable row \<longrightarrow> valid_entry (dl_peer row) \<and> dl_title row \<noteq> [])
      else \<exists>chats. ct_done st = [chats]
        \<and> (chats = [] \<or> chats = take kMaxCatalogChats (first_rows [] rows)
             \<and> (\<forall>row \<in> set rows. dl_selectable row \<longrightarrow> valid_entry (dl_peer row) \<and> dl_title row \<noteq> [])))"

lemma catalog_finish_simps [simp]:
  "\<not> ct_next (catalog_finish ok st)" "ct_done (catalog_finish ok st) = ct_done st @ [if ok then ct_chats st else []]"
  by (simp_all add: catalog_finish_def)

lemma walked_step:
  assumes "walked n rows st" "ct_next st"
  shows "walked (Suc n) (case answer (pk_cursor (ct_model st)) of None \<Rightarrow> rows | Some page \<Rightarrow> rows @ pg_dialogs page)
    (catalog_step answer st)"
proof (cases "answer (pk_cursor (ct_model st))")
  case None
  then show ?thesis using assms by (simp add: walked_def catalog_step_def)
next
  case (Some page)
  let ?st = "catalog_rows (pg_dialogs page) st"
  have w: "ct_done st = []" "pk_pages (ct_model st) = int n" "pk_state (ct_model st) = Loading"
    "ct_generation st = pk_generation (ct_model st)" "catalog_ok rows st"
    "\<forall>row \<in> set rows. dl_selectable row \<longrightarrow> valid_entry (dl_peer row) \<and> dl_title row \<noteq> []"
    using assms by (simp_all add: walked_def)
  have ok: "catalog_ok (rows @ pg_dialogs page) ?st" by (rule catalog_rows_ok [OF w(5)])
  obtain m b where m: "accept (ct_generation st) page (ct_model st) = (m, b)" by fastforce
  have step: "catalog_step answer st =
    (if \<not> b then catalog_finish False (?st\<lparr>ct_model := m\<rparr>)
     else if ready m then catalog_finish True (?st\<lparr>ct_model := m\<rparr>) else ?st\<lparr>ct_model := m\<rparr>)"
    using assms(2) Some m by (simp add: catalog_step_def catalog_receive_def Let_def split: bool.split)
  show ?thesis
  proof (cases b)
    case False
    then show ?thesis using w(1) by (simp add: step Some walked_def)
  next
    case True
    then have "accept (ct_generation st) page (ct_model st) = (m, True)" using m by simp
    note a = accept_True [OF this w(4,3)]
    have n: "int n + 1 \<le> 1000" using a(2,3) w(2) by simp
    show ?thesis
    proof (cases "ready m")
      case True
      then show ?thesis using \<open>b\<close> w a(5) ok by (auto simp: step Some walked_def catalog_ok_def)
    next
      case False
      then have "pk_state m = Loading" using a(4) by (simp add: ready_def)
      then show ?thesis
        using \<open>b\<close> False w a ok n assms(2) by (auto simp: step Some walked_def catalog_ok_def)
    qed
  qed
qed

lemma walked_walk: "walked n (walk_rows answers n) (catalog_walk answers n)"
proof (induction n)
  case 0
  show ?case
    by (simp add: walked_def catalog_start_def start_def initial_picker_def catalog_ok_def Let_def)
next
  case (Suc n)
  show ?case
  proof (cases "ct_next (catalog_walk answers n)")
    case True
    from walked_step [OF Suc True, of "answers n"] True show ?thesis by (simp split: option.splits)
  next
    case False
    then show ?thesis using Suc by (simp add: catalog_step_def walked_def)
  qed
qed

lemma first_rows_distinct: "distinct (map ca_peer (first_rows seen rows)) \<and> ca_peer ` set (first_rows seen rows) \<inter> set seen = {}"
  by (induction seen rows rule: first_rows.induct) auto

lemma first_rows_of: "c \<in> set (first_rows seen rows) \<Longrightarrow>
    \<exists>row \<in> set rows. dl_selectable row \<and> c = \<lparr>ca_peer = dl_peer row, ca_title = dl_title row\<rparr>"
  by (induction seen rows rule: first_rows.induct) (auto split: if_splits)

text \<open>C31: Whatever the server answers, the walk is over after at most 1001 answers and has called \<open>done\<close>
  once: with nothing, or with the first thousand chats among the rows it got that can be selected,
  in their order, none twice, each a valid peer with a title.\<close>

theorem catalog_walk_ends:
  "\<exists>chats. ct_done (catalog_walk answers 1001) = [chats]
     \<and> (chats = [] \<or> chats = take kMaxCatalogChats (first_rows [] (walk_rows answers 1001)))
     \<and> length chats \<le> kMaxCatalogChats \<and> distinct (map ca_peer chats)
     \<and> list_all (\<lambda>c. valid_entry (ca_peer c) \<and> ca_title c \<noteq> []) chats"
proof -
  note w = walked_walk [of 1001 answers]
  then have "\<not> ct_next (catalog_walk answers 1001)" by (auto simp: walked_def simp del: catalog_walk.simps)
  with w obtain chats where c: "ct_done (catalog_walk answers 1001) = [chats]"
    "chats = [] \<or> chats = take kMaxCatalogChats (first_rows [] (walk_rows answers 1001))
       \<and> (\<forall>row \<in> set (walk_rows answers 1001). dl_selectable row \<longrightarrow> valid_entry (dl_peer row) \<and> dl_title row \<noteq> [])"
    by (auto simp: walked_def simp del: catalog_walk.simps walk_rows.simps)
  have "distinct (map ca_peer chats)"
    using c(2) first_rows_distinct [of "[]" "walk_rows answers 1001"] by (auto simp flip: take_map)
  moreover have "list_all (\<lambda>c. valid_entry (ca_peer c) \<and> ca_title c \<noteq> []) chats"
    using c(2) by (auto simp: list_all_iff dest!: in_set_takeD first_rows_of)
  moreover have "length chats \<le> kMaxCatalogChats" using c(2) by auto
  ultimately show ?thesis using c by (intro exI [of _ chats]) (simp del: catalog_walk.simps walk_rows.simps, blast)
qed

end
