(* ===== verification/Mtp_Received_Ids.thy ===== *)
theory Mtp_Received_Ids
  imports Allow_Prelude
begin

text \<open>
  \<open>ReceivedIdsManager\<close> (\<open>mtproto/details/mtproto_received_ids_manager.h\<close> and
  \<open>.cpp\<close>): the window of message identifiers that an MTProto session has received.
  \<open>_idsNeedAck\<close> is a flat map from identifiers to the acknowledgement flag.  The
  protection against replayed messages rests on \<open>registerMsgId\<close> never answering
  \<open>Success\<close> twice for one identifier, although \<open>shrink\<close> forgets old ones.
\<close>

type_synonym msg_id = "64 word"
type_synonym received_ids = "(msg_id \<times> bool) list"

datatype ids_state = NotFound | NeedsAck | NoAckNeeded
datatype ids_result = IdsSuccess | IdsDuplicate | IdsTooOld

definition kIdsBufferSize :: nat where "kIdsBufferSize = 400"

section \<open>Operations\<close>

definition ids_min :: "received_ids \<Rightarrow> msg_id" where
  "ids_min m = (case m of [] \<Rightarrow> 0 | e # _ \<Rightarrow> fst e)"

definition ids_max :: "received_ids \<Rightarrow> msg_id" where
  "ids_max m = (if m = [] then 0 else fst (last m))"

definition lookup :: "msg_id \<Rightarrow> received_ids \<Rightarrow> ids_state" where
  "lookup msgId m =
     (case map_of m msgId of
        None \<Rightarrow> NotFound
      | Some needAck \<Rightarrow> if needAck then NeedsAck else NoAckNeeded)"

definition registerMsgId :: "msg_id \<Rightarrow> bool \<Rightarrow> received_ids \<Rightarrow> ids_result \<times> received_ids" where
  "registerMsgId msgId needAck m =
     (if map_of m msgId \<noteq> None then (IdsDuplicate, m)
      else if length m < kIdsBufferSize \<or> ids_min m < msgId
      then (IdsSuccess, emplace msgId needAck m)
      else (IdsTooOld, m))"

text \<open>The loop \<open>while (size-- > kIdsBufferSize)\<close> erases the least identifier.\<close>

fun shrink_loop :: "nat \<Rightarrow> received_ids \<Rightarrow> received_ids" where
  "shrink_loop n m = (if kIdsBufferSize < n then shrink_loop (n - 1) (tl m) else m)"

declare shrink_loop.simps [simp del]

definition shrink :: "received_ids \<Rightarrow> received_ids" where
  "shrink m = shrink_loop (length m) m"

lemma shrink_loop_drop: "shrink_loop n m = drop (n - kIdsBufferSize) m"
proof (induction n m rule: shrink_loop.induct)
  case (1 n m)
  show ?case
  proof (cases "kIdsBufferSize < n")
    case True
    then have "n - kIdsBufferSize = Suc (n - 1 - kIdsBufferSize)" by simp
    with 1 True show ?thesis by (subst shrink_loop.simps) (simp add: drop_Suc)
  next
    case False
    then show ?thesis by (subst shrink_loop.simps) simp
  qed
qed

lemma shrink_drop: "shrink m = drop (length m - kIdsBufferSize) m"
  by (simp add: shrink_def shrink_loop_drop)

lemma length_shrink: "length (shrink m) = min (length m) kIdsBufferSize"
  by (simp add: shrink_drop)

lemma map_ok_shrink [simp, intro]: "map_ok m \<Longrightarrow> map_ok (shrink m)"
  by (simp add: shrink_drop)

lemma registerMsgId_snd:
  "snd (registerMsgId i a m) = m \<or>
     map_of m i = None \<and> fst (registerMsgId i a m) = IdsSuccess \<and>
     snd (registerMsgId i a m) = emplace i a m"
  by (auto simp: registerMsgId_def)

lemma map_ok_registerMsgId [simp, intro]: "map_ok m \<Longrightarrow> map_ok (snd (registerMsgId i a m))"
  using registerMsgId_snd [of i a m] by auto

section \<open>Accepted identifiers stay known\<close>

text \<open>
  \<open>remembers m i\<close>: the window still answers \<open>Duplicate\<close> or \<open>TooOld\<close> for \<open>i\<close>.
\<close>

definition remembers :: "received_ids \<Rightarrow> msg_id \<Rightarrow> bool" where
  "remembers m i \<longleftrightarrow> map_of m i \<noteq> None \<or> kIdsBufferSize \<le> length m \<and> i < ids_min m"

lemma remembers_iff: "map_ok m \<Longrightarrow> remembers m i \<longleftrightarrow> fst (registerMsgId i a m) \<noteq> IdsSuccess"
proof -
  assume ok: "map_ok m"
  have "i \<noteq> ids_min m" if "map_of m i = None" "kIdsBufferSize \<le> length m"
    using that by (cases m) (auto simp: ids_min_def kIdsBufferSize_def split: if_splits)
  then show ?thesis by (auto simp: remembers_def registerMsgId_def)
qed

lemma ids_min_le: "map_ok m \<Longrightarrow> map_of m i \<noteq> None \<Longrightarrow> ids_min m \<le> i"
  by (cases m) (fastforce simp: ids_min_def split: if_splits dest: map_of_SomeD less_imp_le)+

lemma ids_min_emplace:
  assumes "map_ok m" "m \<noteq> []" "ids_min m < i"
  shows "ids_min (emplace i a m) = ids_min m"
  using assms by (cases m) (auto simp: ids_min_def emplace_def split: option.split)

lemma remembers_registerMsgId:
  assumes ok: "map_ok m" and i: "remembers m i"
  shows "remembers (snd (registerMsgId j a m)) i"
proof (cases "fst (registerMsgId j a m) = IdsSuccess")
  case False
  then have "snd (registerMsgId j a m) = m" using registerMsgId_snd [of j a m] by auto
  with i show ?thesis by simp
next
  case True
  then have new: "map_of m j = None" "snd (registerMsgId j a m) = emplace j a m"
    and room: "length m < kIdsBufferSize \<or> ids_min m < j"
    by (auto simp: registerMsgId_def split: if_splits)
  show ?thesis
  proof (cases "map_of m i = None")
    case False
    with new ok show ?thesis by (auto simp: remembers_def map_of_emplace)
  next
    case True
    with i have full: "kIdsBufferSize \<le> length m" "i < ids_min m" by (auto simp: remembers_def)
    then have "m \<noteq> []" by (auto simp: kIdsBufferSize_def)
    with room full ids_min_emplace [OF ok, of j a] have "ids_min (emplace j a m) = ids_min m" by auto
    with full new show ?thesis by (simp add: remembers_def length_emplace)
  qed
qed

lemma ids_min_drop: "map_ok m \<Longrightarrow> n < length m \<Longrightarrow> ids_min m \<le> ids_min (drop n m)"
proof -
  assume ok: "map_ok m" and n: "n < length m"
  then obtain e es where e: "drop n m = e # es" by (cases "drop n m") auto
  then have "e \<in> set m" by (metis in_set_dropD list.set_intros(1))
  then have "map_of m (fst e) \<noteq> None" by (simp add: map_of_None_notin)
  with ids_min_le [OF ok] e show ?thesis by (simp add: ids_min_def)
qed

lemma drop_forgets:
  assumes "map_ok m" "n < length m" "map_of m i \<noteq> None" "map_of (drop n m) i = None"
  shows "i < ids_min (drop n m)"
  using assms
proof (induction m arbitrary: n)
  case Nil
  then show ?case by simp
next
  case (Cons e m)
  obtain k v where e: "e = (k, v)" by (cases e)
  show ?case
  proof (cases n)
    case 0
    with Cons.prems show ?thesis by simp
  next
    case (Suc j)
    show ?thesis
    proof (cases "i = k")
      case True
      have "drop j m \<noteq> []" using Cons.prems Suc by simp
      then have "hd (drop j m) \<in> set m" by (meson hd_in_set in_set_dropD)
      with Cons.prems e True \<open>drop j m \<noteq> []\<close> Suc show ?thesis
        by (auto simp: ids_min_def split: list.split)
    next
      case False
      with Cons.prems e Suc Cons.IH [of j] show ?thesis by auto
    qed
  qed
qed

lemma remembers_shrink:
  assumes ok: "map_ok m" and i: "remembers m i"
  shows "remembers (shrink m) i"
proof (cases "kIdsBufferSize < length m")
  case False
  with i show ?thesis by (simp add: shrink_drop)
next
  case True
  let ?n = "length m - kIdsBufferSize"
  have n: "?n < length m" using True by (simp add: kIdsBufferSize_def)
  have size: "kIdsBufferSize \<le> length (shrink m)" using True by (simp add: length_shrink)
  have "i < ids_min (drop ?n m)" if "map_of (drop ?n m) i = None"
  proof (cases "map_of m i = None")
    case True
    with i have "i < ids_min m" by (simp add: remembers_def)
    with ids_min_drop [OF ok n] show ?thesis by simp
  next
    case False
    from drop_forgets [OF ok n False that] show ?thesis .
  qed
  with size show ?thesis by (auto simp: remembers_def shrink_drop)
qed

lemma registered_remembered:
  "map_ok m \<Longrightarrow> fst (registerMsgId i a m) = IdsSuccess \<Longrightarrow> remembers (snd (registerMsgId i a m)) i"
  by (auto simp: registerMsgId_def remembers_def map_of_emplace split: if_splits)

section \<open>Runs\<close>

datatype ids_command = IdsRegister msg_id bool | IdsShrink

definition ids_step :: "ids_command \<Rightarrow> received_ids \<Rightarrow> msg_id list \<times> received_ids" where
  "ids_step c m =
     (case c of
        IdsRegister i a \<Rightarrow>
          (if fst (registerMsgId i a m) = IdsSuccess then [i] else [], snd (registerMsgId i a m))
      | IdsShrink \<Rightarrow> ([], shrink m))"

text \<open>The identifiers that were accepted, in order, from a window on.\<close>

fun ids_run :: "ids_command list \<Rightarrow> received_ids \<Rightarrow> msg_id list" where
  "ids_run [] m = []"
| "ids_run (c # cs) m = fst (ids_step c m) @ ids_run cs (snd (ids_step c m))"

lemma ids_run_forgets_nothing:
  "map_ok m \<Longrightarrow> distinct (ids_run cs m) \<and> (\<forall>i \<in> set (ids_run cs m). \<not> remembers m i)"
proof (induction cs m rule: ids_run.induct)
  case (1 m)
  then show ?case by simp
next
  case (2 c cs m)
  let ?m = "snd (ids_step c m)"
  have ok: "map_ok ?m" using "2.prems" by (cases c) (auto simp: ids_step_def)
  have kept: "remembers ?m i" if "remembers m i" for i
    using that "2.prems" remembers_registerMsgId remembers_shrink
    by (cases c) (simp_all add: ids_step_def)
  have now: "\<not> remembers m i \<and> remembers ?m i" if "i \<in> set (fst (ids_step c m))" for i
  proof (cases c)
    case (IdsRegister j a)
    with that have i: "i = j" "fst (registerMsgId j a m) = IdsSuccess"
      by (auto simp: ids_step_def split: if_splits)
    with remembers_iff [OF "2.prems", of j a] registered_remembered [OF "2.prems"] IdsRegister
    show ?thesis by (simp add: ids_step_def)
  next
    case IdsShrink
    with that show ?thesis by (simp add: ids_step_def)
  qed
  have "distinct (fst (ids_step c m))" by (cases c) (simp_all add: ids_step_def)
  with "2.IH" [OF ok] kept now show ?case by auto
qed

text \<open>Whatever messages arrive and whenever the window is shrunk, no identifier is
  accepted twice.\<close>

lemma received_ids_once: "distinct (ids_run cs [])"
  using ids_run_forgets_nothing [of "[]" cs] by simp

end
