(* ===== verification/Mtp_Request.thy ===== *)
theory Mtp_Request
  imports Tl_Objects Mtp_Received_Ids
begin

text \<open>
  \<open>SerializedRequest\<close> (\<open>mtproto/details/mtproto_serialized_request.h\<close> and \<open>.cpp\<close>)
  and the functions of \<open>mtproto/session_private.cpp\<close> that build outgoing messages:
  \<open>WrapInvokeAfter\<close> and the plaintext part of \<open>sendSecureRequest\<close>.

  A request is a buffer of 32-bit primes: two of salt, two of session, two of message
  identifier, one of sequence number, one of length in bytes, then the body.
  \<open>count_length(request) >> 2\<close>, computed by the library \<open>lib_tl\<close> from the bytes that
  \<open>SerializedRequest::write\<close> puts, is the length word in primes.  The \<open>Expects\<close> of the
  accessors (a buffer longer than \<open>kMessageBodyPosition\<close>) is the predicate \<open>has_body\<close>.
\<close>

section \<open>The buffer\<close>

definition kMessageIdPosition :: nat where "kMessageIdPosition = 4"
definition kSeqNoPosition :: nat where "kSeqNoPosition = 6"
definition kLengthPosition :: nat where "kLengthPosition = 7"
definition kBodyPosition :: nat where "kBodyPosition = 8"

lemmas positions = kMessageIdPosition_def kSeqNoPosition_def kLengthPosition_def kBodyPosition_def

text \<open>\<open>*(uint64*)&ints[i]\<close> and \<open>memcpy(&ints[i], &value, 8)\<close>, little-endian.\<close>

definition join64 :: "prime \<Rightarrow> prime \<Rightarrow> 64 word" where
  "join64 lo hi = ucast lo OR push_bit 32 (ucast hi)"

definition lo32 :: "64 word \<Rightarrow> prime" where "lo32 w = ucast w"
definition hi32 :: "64 word \<Rightarrow> prime" where "hi32 w = ucast (drop_bit 32 w)"

definition read64 :: "nat \<Rightarrow> prime list \<Rightarrow> 64 word" where
  "read64 i ws = join64 (ws ! i) (ws ! Suc i)"

definition write64 :: "nat \<Rightarrow> 64 word \<Rightarrow> prime list \<Rightarrow> prime list" where
  "write64 i w ws = ws[i := lo32 w, Suc i := hi32 w]"

lemma join64_split [simp]: "join64 (lo32 w) (hi32 w) = w"
  by (rule bit_word_eqI)
     (auto simp: join64_def lo32_def hi32_def bit_simps not_less)

lemma read64_write64: "Suc i < length ws \<Longrightarrow> read64 i (write64 i w ws) = w"
  by (simp add: read64_def write64_def)

lemma length_write64 [simp]: "length (write64 i w ws) = length ws"
  by (simp add: write64_def)

lemma write64_other: "j \<noteq> i \<Longrightarrow> j \<noteq> Suc i \<Longrightarrow> write64 i w ws ! j = ws ! j"
  by (simp add: write64_def)

definition resize :: "nat \<Rightarrow> prime list \<Rightarrow> prime list" where
  "resize n ws = take n ws @ replicate (n - length ws) 0"

lemma length_resize [simp]: "length (resize n ws) = n"
  by (simp add: resize_def)

definition has_body :: "prime list \<Rightarrow> bool" where
  "has_body ws \<longleftrightarrow> kBodyPosition < length ws"

section \<open>Operations\<close>

definition Prepare :: "32 word \<Rightarrow> prime list" where
  "Prepare n = (resize kBodyPosition [])[kLengthPosition := push_bit 2 n]"

definition Serialize :: "prime list \<Rightarrow> prime list" where
  "Serialize body = Prepare (of_nat (length body)) @ body"

definition setMsgId :: "msg_id \<Rightarrow> prime list \<Rightarrow> prime list" where
  "setMsgId msgId ws = write64 kMessageIdPosition msgId ws"

definition getMsgId :: "prime list \<Rightarrow> msg_id" where
  "getMsgId ws = read64 kMessageIdPosition ws"

definition setSeqNo :: "32 word \<Rightarrow> prime list \<Rightarrow> prime list" where
  "setSeqNo seqNo ws = ws[kSeqNoPosition := seqNo]"

definition getSeqNo :: "prime list \<Rightarrow> 32 word" where
  "getSeqNo ws = ws ! kSeqNoPosition"

text \<open>\<open>tl::count_length(*this) >> 2\<close>.\<close>

definition lengthInts :: "prime list \<Rightarrow> 32 word" where
  "lengthInts ws = drop_bit 2 (ws ! kLengthPosition)"

definition messageSize :: "prime list \<Rightarrow> 32 word" where
  "messageSize ws = 4 + lengthInts ws"

definition CountPaddingPrimesCount :: "32 word \<Rightarrow> bool \<Rightarrow> 8 word \<Rightarrow> 32 word" where
  "CountPaddingPrimesCount requestSize forAuthKeyInner random =
     (let rest = (8 + requestSize) AND 3;
          result = (if rest \<noteq> 0 then 4 - rest else 0)
      in if forAuthKeyInner then result
         else (if result < 3 then result + 4 else result) + push_bit 2 (ucast (random AND 0x0F)))"

text \<open>\<open>random\<close> is the random byte of the count, \<open>noise\<close> the random primes.\<close>

definition addPadding :: "bool \<Rightarrow> 8 word \<Rightarrow> (nat \<Rightarrow> prime) \<Rightarrow> prime list \<Rightarrow> prime list" where
  "addPadding forAuthKeyInner random noise ws =
     (let requestSize = lengthInts ws;
          padding = unat (CountPaddingPrimesCount requestSize forAuthKeyInner random);
          fullSize = kBodyPosition + unat requestSize + padding
      in if length ws \<noteq> fullSize
         then take (fullSize - padding) (resize fullSize ws) @ map noise [0..<padding]
         else ws)"

definition mtpc_rpc_result :: type_id where "mtpc_rpc_result = 0xf35c6d01"
definition mtpc_msg_container :: type_id where "mtpc_msg_container = 0x73f1f8dc"
definition mtpc_gzip_packed :: type_id where "mtpc_gzip_packed = 0x3072cfa1"
definition mtpc_msgs_ack :: type_id where "mtpc_msgs_ack = 0x62d6b459"
definition mtpc_http_wait :: type_id where "mtpc_http_wait = 0x9299359f"
definition mtpc_bad_msg_notification :: type_id where "mtpc_bad_msg_notification = 0xa7eff811"
definition mtpc_bad_server_salt :: type_id where "mtpc_bad_server_salt = 0xedab447b"
definition mtpc_msgs_state_req :: type_id where "mtpc_msgs_state_req = 0xda69fb52"
definition mtpc_msgs_state_info :: type_id where "mtpc_msgs_state_info = 0x04deb57d"
definition mtpc_msgs_all_info :: type_id where "mtpc_msgs_all_info = 0x8cc0d131"
definition mtpc_msg_detailed_info :: type_id where "mtpc_msg_detailed_info = 0x276d3ec6"
definition mtpc_msg_new_detailed_info :: type_id where "mtpc_msg_new_detailed_info = 0x809db6df"
definition mtpc_rpc_error :: type_id where "mtpc_rpc_error = 0x2144ca19"
definition mtpc_new_session_created :: type_id where "mtpc_new_session_created = 0x9ec20908"
definition mtpc_pong :: type_id where "mtpc_pong = 0x347773c5"
definition mtpc_invokeAfterMsg :: type_id where "mtpc_invokeAfterMsg = 0xcb9f372d"

definition needAck :: "prime list \<Rightarrow> bool" where
  "needAck ws \<longleftrightarrow>
     ws ! kBodyPosition \<notin> {mtpc_msg_container, mtpc_msgs_ack, mtpc_http_wait,
       mtpc_bad_msg_notification, mtpc_msgs_all_info, mtpc_msgs_state_info,
       mtpc_msg_detailed_info, mtpc_msg_new_detailed_info}"

text \<open>\<open>WrapInvokeAfter\<close>: the message of \<open>from\<close> is appended to \<open>to\<close>, with room for
  \<open>skip\<close> primes before its body, as an \<open>invokeAfterMsg\<close> of \<open>afterId\<close> where that message
  is still in \<open>haveSent\<close>.\<close>

definition WrapInvokeAfter ::
    "prime list \<Rightarrow> prime list \<Rightarrow> msg_id \<Rightarrow> (msg_id \<Rightarrow> bool) \<Rightarrow> nat \<Rightarrow> prime list" where
  "WrapInvokeAfter to from afterId haveSent skip =
     (let at = length to;
          len = unat (lengthInts from);
          head = take 4 (drop kMessageIdPosition from);
          body = take len (drop kBodyPosition from)
      in if afterId = 0 \<or> \<not> haveSent afterId
         then to @ head @ replicate skip 0 @ body
         else (let to' = (if at + 3 \<noteq> 7 then to[7 := to ! 7 + 12] else to)
               in to' @ head[3 := head ! 3 + 12] @ replicate skip 0 @
                  [mtpc_invokeAfterMsg, lo32 afterId, hi32 afterId] @ body))"

text \<open>The plaintext that \<open>sendSecureRequest\<close> encrypts; \<open>None\<close> where it returns false.\<close>

definition secure_plaintext ::
    "64 word \<Rightarrow> 64 word \<Rightarrow> 8 word \<Rightarrow> (nat \<Rightarrow> prime) \<Rightarrow> prime list \<Rightarrow> prime list option" where
  "secure_plaintext salt session random noise ws =
     (let padded = addPadding False random noise ws;
          fullSize = length padded;
          n = unat (messageSize padded)
      in if fullSize < 9 then None
         else if n < 5 \<or> fullSize < n + 4 then None
         else Some (write64 2 session (write64 0 salt padded)))"

section \<open>Facts\<close>

text \<open>A request as \<open>Serialize\<close> makes it and the session keeps it: its length word is
  the size of its body.\<close>

definition request_ok :: "prime list \<Rightarrow> bool" where
  "request_ok ws \<longleftrightarrow>
     has_body ws \<and> length ws < 2 ^ 28 \<and> unat (ws ! kLengthPosition) = 4 * (length ws - kBodyPosition)"

lemma lengthInts_ok: "request_ok ws \<Longrightarrow> unat (lengthInts ws) = length ws - kBodyPosition"
proof -
  assume ok: "request_ok ws"
  have "unat (lengthInts ws) = unat (ws ! kLengthPosition) div 4"
    by (simp only: lengthInts_def unat_drop_bit_eq) (simp only: drop_bit_eq_div, simp)
  with ok show ?thesis by (simp add: request_ok_def)
qed

lemma unat_messageSize: "request_ok ws \<Longrightarrow> unat (messageSize ws) = length ws - 4"
proof -
  assume ok: "request_ok ws"
  have "length ws < 2 ^ 28" using ok by (simp add: request_ok_def)
  then have "unat (4 :: 32 word) + unat (lengthInts ws) < 2 ^ LENGTH(32)"
    using lengthInts_ok [OF ok] by simp
  from iffD1 [OF unat_add_lem this]
  have "unat (4 + lengthInts ws) = 4 + unat (lengthInts ws)" by simp
  with ok lengthInts_ok [OF ok] show ?thesis
    by (simp add: messageSize_def request_ok_def has_body_def positions)
qed

lemma unat_push_2:
  fixes w :: "32 word"
  assumes "unat w < 2 ^ 30"
  shows "unat (push_bit 2 w) = 4 * unat w"
proof -
  have "push_bit 2 w = 4 * w" by (simp add: push_bit_eq_mult)
  moreover have "unat (4 * w) = unat (4 :: 32 word) * unat w"
    using assms by (subst unat_mult_lem [THEN iffD1]) simp_all
  ultimately show ?thesis by simp
qed

lemma request_ok_Serialize:
  assumes "body \<noteq> []" "length body < 2 ^ 27"
  shows "request_ok (Serialize body)"
proof -
  have "unat (of_nat (length body) :: 32 word) = length body"
    using assms(2) by (simp add: unat_of_nat)
  then have "unat (push_bit 2 (of_nat (length body) :: 32 word)) = 4 * length body"
    using assms(2) by (simp add: unat_push_2)
  moreover have "Serialize body ! kLengthPosition = push_bit 2 (of_nat (length body))"
    by (simp add: Serialize_def Prepare_def resize_def nth_append positions)
  moreover have "length (Serialize body) = 8 + length body"
    by (simp add: Serialize_def Prepare_def kBodyPosition_def)
  ultimately show ?thesis using assms by (simp add: request_ok_def has_body_def positions)
qed

lemma length_setMsgId [simp]: "length (setMsgId i ws) = length ws"
  by (simp add: setMsgId_def)

lemma length_setSeqNo [simp]: "length (setSeqNo n ws) = length ws"
  by (simp add: setSeqNo_def)

lemma getMsgId_setMsgId: "has_body ws \<Longrightarrow> getMsgId (setMsgId i ws) = i"
  by (simp add: getMsgId_def setMsgId_def read64_write64 has_body_def positions)

lemma getMsgId_setSeqNo [simp]: "getMsgId (setSeqNo n ws) = getMsgId ws"
  by (simp add: getMsgId_def setSeqNo_def read64_def positions)

lemma getSeqNo_setSeqNo: "has_body ws \<Longrightarrow> getSeqNo (setSeqNo n ws) = n"
  by (simp add: getSeqNo_def setSeqNo_def has_body_def positions)

lemma request_ok_setMsgId [simp]: "request_ok (setMsgId i ws) = request_ok ws"
  by (simp add: request_ok_def has_body_def setMsgId_def write64_other positions)

lemma request_ok_setSeqNo [simp]: "request_ok (setSeqNo n ws) = request_ok ws"
  by (simp add: request_ok_def has_body_def setSeqNo_def positions)

lemma needAck_setMsgId [simp]: "needAck (setMsgId i ws) = needAck ws"
  by (simp add: needAck_def setMsgId_def write64_other positions)

subsection \<open>Padding\<close>

lemma unat_and_3: "unat ((x :: 32 word) AND 3) = unat x mod 4"
proof -
  have "x AND 3 = take_bit 2 x" by (simp add: take_bit_eq_mask mask_eq_decr_exp)
  then have "x AND 3 = x mod 4" by (simp add: take_bit_eq_mod)
  then show ?thesis by (simp add: unat_mod)
qed

lemma and_3_cases: "(x :: 32 word) AND 3 \<in> {0, 1, 2, 3}"
proof -
  have "unat x mod 4 = 0 \<or> unat x mod 4 = 1 \<or> unat x mod 4 = 2 \<or> unat x mod 4 = 3"
    by presburger
  then show ?thesis by (simp add: word_unat_eq_iff unat_and_3)
qed

lemma random_part:
  "\<exists>k<16. unat (push_bit 2 (ucast ((r :: 8 word) AND 0x0F)) :: 32 word) = 4 * k"
proof -
  let ?k = "unat (r AND 0x0F)"
  have "r AND 0x0F = take_bit 4 r" by (simp add: take_bit_eq_mask mask_eq_decr_exp)
  then have "r AND 0x0F = r mod 16" by (simp add: take_bit_eq_mod)
  then have k: "?k < 16" by (simp add: unat_mod)
  then have c: "unat (ucast (r AND 0x0F) :: 32 word) = ?k" by (simp add: unsigned_ucast_eq take_bit_nat_eq_self)
  then have "unat (push_bit 2 (ucast (r AND 0x0F)) :: 32 word) = 4 * ?k"
    using k by (simp add: unat_push_2)
  with k show ?thesis by blast
qed

lemma block_rest:
  fixes t :: "32 word"
  assumes "t \<in> {0, 1, 2, 3}"
  defines "b \<equiv> (if t \<noteq> 0 then 4 - t else 0)"
  defines "c \<equiv> (if b < 3 then b + 4 else b)"
  shows "3 \<le> unat c \<and> unat c \<le> 6 \<and> (unat t + unat c) mod 4 = 0"
  using assms(1) by (auto simp: c_def b_def)

text \<open>Between 3 and 66 primes, to a whole number of 16-byte blocks.\<close>

lemma padding_bounds:
  fixes n :: "32 word"
  assumes small: "unat n < 2 ^ 28"
  shows "3 \<le> unat (CountPaddingPrimesCount n False r)"
    "unat (CountPaddingPrimesCount n False r) \<le> 66"
    "(8 + unat n + unat (CountPaddingPrimesCount n False r)) mod 4 = 0"
proof -
  let ?rest = "(8 + n) AND 3"
  obtain k where k: "k < 16" "unat (push_bit 2 (ucast (r AND 0x0F)) :: 32 word) = 4 * k"
    using random_part [of r] by blast
  have "unat (8 + n) = 8 + unat n"
    using small by (subst unat_add_lem [THEN iffD1]) auto
  then have "unat ?rest = (8 + unat n) mod 4" by (simp only: unat_and_3)
  then have rest: "unat ?rest = unat n mod 4" by presburger
  define b where "b = (let result = (if ?rest \<noteq> 0 then 4 - ?rest else 0)
    in if result < 3 then result + 4 else result)"
  have b: "3 \<le> unat b \<and> unat b \<le> 6 \<and> (unat n mod 4 + unat b) mod 4 = 0"
    using block_rest [OF and_3_cases [of "8 + n"]] by (simp only: b_def Let_def rest)
  have count: "CountPaddingPrimesCount n False r = b + push_bit 2 (ucast (r AND 0x0F))"
    by (simp add: CountPaddingPrimesCount_def b_def Let_def)
  have "unat (CountPaddingPrimesCount n False r) = unat b + 4 * k"
    unfolding count using b k by (subst unat_add_lem [THEN iffD1]) auto
  with b k show "3 \<le> unat (CountPaddingPrimesCount n False r)"
    "unat (CountPaddingPrimesCount n False r) \<le> 66"
    "(8 + unat n + unat (CountPaddingPrimesCount n False r)) mod 4 = 0"
    by presburger+
qed

lemma addPadding_shape:
  assumes ok: "request_ok ws"
  shows "addPadding False r noise ws =
    ws @ map noise [0..<unat (CountPaddingPrimesCount (lengthInts ws) False r)]"
proof -
  let ?p = "unat (CountPaddingPrimesCount (lengthInts ws) False r)"
  have small: "unat (lengthInts ws) < 2 ^ 28"
    using ok lengthInts_ok [OF ok] unfolding request_ok_def by linarith
  have full: "kBodyPosition + unat (lengthInts ws) = length ws"
    using ok lengthInts_ok [OF ok] by (simp add: request_ok_def has_body_def)
  have "0 < ?p" using padding_bounds(1) [OF small, of r] by simp
  with full show ?thesis
    by (simp add: addPadding_def Let_def resize_def)
qed

end
