(* ===== verification/Mtp_Session.thy ===== *)
theory Mtp_Session
  imports Mtp_Request
begin

text \<open>
  The bookkeeping of sent requests of one MTProto session: \<open>SessionPrivate\<close> of
  \<open>mtproto/session_private.h\<close> and \<open>.cpp\<close>, and the maps of \<open>SessionData\<close>
  (\<open>mtproto/session.h\<close>, \<open>mtproto/session.cpp\<close>) that it works on.

  A \<open>SerializedRequest\<close> is a shared pointer, so requests live in a store
  (\<open>ms_heap\<close>) and the maps hold references: \<open>resend\<close> moves the same request from
  \<open>_haveSent\<close> to \<open>_toSend\<close> and changes it there.  Request identifiers (\<open>int32\<close>) are
  integers; \<open>mtpRequestId(0xFFFFFFFF)\<close> is \<open>-1\<close>.
\<close>

section \<open>State\<close>

type_synonym ref = nat
type_synonym request_id = int
type_synonym time = int

record request_data =
  rq_words :: "prime list"
  rq_after :: "ref option"
  rq_lastSentTime :: time
  rq_requestId :: request_id
  rq_needsLayer :: bool
  rq_forceSendInContainer :: bool

record sent_container =
  sc_sent :: time
  sc_messages :: "msg_id list"

text \<open>\<open>Response\<close> of \<open>mtproto/mtproto_response.h\<close>.\<close>

record response =
  rs_reply :: "prime list"
  rs_outerMsgId :: msg_id
  rs_requestId :: request_id

text \<open>What a session asks of its owner, the main thread and the clock.\<close>

datatype session_event =
    QueueSendAnything time
  | QueueNeedToResumeAndSend
  | QueueConnectionStateChange int
  | RetryTimer time
  | QueueTryToReceive
  | QueueResetDone
  | NotifyConnectionInited
  | UpdateUnixtime int bool \<comment> \<open>\<open>base::unixtime::update(serverTime, force)\<close>\<close>
  | ReleaseKeyCreationOnDone
  | KeyDestroyedOnServer
  | DestroyTemporaryKeyCall
  | RestartCall

datatype key_creator = NoKeyCreator | KeyCreator

record session =
  ms_state :: int
  ms_regular :: bool \<comment> \<open>\<open>_currentDcType == DcType::Regular\<close>\<close>
  ms_keyCreator :: key_creator
  ms_needSessionReset :: bool
  ms_sessionId :: "64 word"
  ms_sessionSalt :: "64 word"
  ms_messagesCounter :: "32 word"
  ms_pingId :: "64 word"
  ms_pingMsgId :: msg_id
  ms_bindMsgId :: msg_id
  ms_ackRequestData :: "msg_id list"
  ms_resendRequestData :: "msg_id list"
  ms_stateRequestData :: "msg_id list"
  ms_receivedMessageIds :: received_ids
  ms_resendingIds :: "(msg_id \<times> request_id) list"
  ms_ackedIds :: "(msg_id \<times> request_id) list"
  ms_stateAndResend :: "(msg_id \<times> ref) list"
  ms_sentContainers :: "(msg_id \<times> sent_container) list"
  ms_haveSent :: "(msg_id \<times> ref) list"
  ms_toSend :: "(request_id \<times> ref) list"
  ms_haveReceived :: "response list"
  ms_heap :: "ref \<Rightarrow> request_data"
  ms_syncDuration :: time \<comment> \<open>\<open>SyncTimeRequestDuration\<close>\<close>
  ms_events :: "session_event list"

text \<open>What the session reads of its surroundings within one step.\<close>

record session_env =
  se_now :: time \<comment> \<open>\<open>crl::now()\<close>\<close>
  se_hasCallback :: "request_id \<Rightarrow> bool" \<comment> \<open>\<open>Instance::hasCallback\<close>\<close>

definition ConnectedState :: int where "ConnectedState = 2"
definition ConnectingState :: int where "ConnectingState = 1"
definition kUpdateStateAlways :: int where "kUpdateStateAlways = 666"
definition kFastRequestDuration :: time where "kFastRequestDuration = 500"
definition kCheckSentRequestTimeout :: time where "kCheckSentRequestTimeout = 10 * 1000"
definition kSendStateRequestWaiting :: time where "kSendStateRequestWaiting = 1000"
definition kSentContainerLives :: time where "kSentContainerLives = 600 * 1000"
definition anyRequest :: request_id where "anyRequest = -1"

definition emit :: "session_event \<Rightarrow> session \<Rightarrow> session" where
  "emit ev s = s\<lparr>ms_events := ms_events s @ [ev]\<rparr>"

section \<open>Operations\<close>

definition setState :: "int \<Rightarrow> int \<Rightarrow> session \<Rightarrow> bool \<times> session" where
  "setState state ifState s =
     (if ifState \<noteq> kUpdateStateAlways \<and> ms_state s \<noteq> ifState then (False, s)
      else if ms_state s = state then (False, s)
      else let s = s\<lparr>ms_state := state\<rparr>;
               s = (if state < 0 then emit (RetryTimer (- state)) s else s)
           in (True, emit (QueueConnectionStateChange state) s))"

definition wasSent :: "session \<Rightarrow> msg_id \<Rightarrow> request_id" where
  "wasSent s msgId =
     (if msgId = ms_pingMsgId s \<or> msgId = ms_bindMsgId s then anyRequest
      else case map_of (ms_resendingIds s) msgId of Some r \<Rightarrow> r
      | None \<Rightarrow>
      (case map_of (ms_ackedIds s) msgId of Some r \<Rightarrow> r
      | None \<Rightarrow>
      (case map_of (ms_sentContainers s) msgId of Some _ \<Rightarrow> anyRequest
      | None \<Rightarrow>
      (case map_of (ms_haveSent s) msgId of
         Some r \<Rightarrow> (let i = rq_requestId (ms_heap s r) in if i \<noteq> 0 then i else anyRequest)
       | None \<Rightarrow> 0))))"

definition correctUnixtimeWithBadLocal :: "int \<Rightarrow> session \<Rightarrow> session" where
  "correctUnixtimeWithBadLocal serverTime s =
     emit (UpdateUnixtime serverTime True) (s\<lparr>ms_syncDuration := kFastRequestDuration\<rparr>)"

fun correctUnixtimeByFastRequest ::
    "session_env \<Rightarrow> msg_id list \<Rightarrow> int \<Rightarrow> session \<Rightarrow> session" where
  "correctUnixtimeByFastRequest e [] serverTime s = s"
| "correctUnixtimeByFastRequest e (i # ids) serverTime s =
     (case map_of (ms_haveSent s) i of
        None \<Rightarrow> correctUnixtimeByFastRequest e ids serverTime s
      | Some r \<Rightarrow>
          (let duration = se_now e - rq_lastSentTime (ms_heap s r)
           in if duration < 0 \<or> ms_syncDuration s < duration
              then correctUnixtimeByFastRequest e ids serverTime s
              else emit (UpdateUnixtime serverTime False) (s\<lparr>ms_syncDuration := duration\<rparr>)))"

definition clearSpecialMsgId :: "msg_id \<Rightarrow> session \<Rightarrow> session" where
  "clearSpecialMsgId msgId s =
     (if msgId = ms_pingMsgId s then s\<lparr>ms_pingMsgId := 0, ms_pingId := 0\<rparr>
      else if msgId = ms_bindMsgId s then s\<lparr>ms_bindMsgId := 0\<rparr>
      else s)"

subsection \<open>Resending\<close>

definition update_request :: "ref \<Rightarrow> (request_data \<Rightarrow> request_data) \<Rightarrow> session \<Rightarrow> session" where
  "update_request r f s = s\<lparr>ms_heap := (ms_heap s)(r := f (ms_heap s r))\<rparr>"

text \<open>The common tail of \<open>resend\<close> and the loop of \<open>resendAll\<close>: the request goes back
  to the requests to send.\<close>

definition requeue :: "session_env \<Rightarrow> msg_id \<Rightarrow> ref \<Rightarrow> session \<Rightarrow> session" where
  "requeue e msgId r s =
     (let requestId = rq_requestId (ms_heap s r);
          s = update_request r (\<lambda>q. q\<lparr>rq_lastSentTime := se_now e,
                rq_forceSendInContainer := True\<rparr>) s
      in s\<lparr>ms_resendingIds := emplace msgId requestId (ms_resendingIds s),
           ms_toSend := emplace requestId r (ms_toSend s)\<rparr>)"

definition resend_request :: "session_env \<Rightarrow> msg_id \<Rightarrow> session \<Rightarrow> session" where
  "resend_request e msgId s =
     (case map_of (ms_haveSent s) msgId of
        None \<Rightarrow> s
      | Some r \<Rightarrow> requeue e msgId r (s\<lparr>ms_haveSent := remove_key msgId (ms_haveSent s)\<rparr>))"

definition resend_guard :: "msg_id \<Rightarrow> time \<Rightarrow> session \<Rightarrow> session" where
  "resend_guard msgId msCanWait s =
     (let s = clearSpecialMsgId msgId s
      in if 0 \<le> msCanWait then emit (QueueSendAnything msCanWait) s else s)"

text \<open>\<open>resend\<close> of a container erases it and resends what it held; the fuel is the number
  of containers, one of which goes with every nesting.\<close>

fun resend_fuel :: "nat \<Rightarrow> session_env \<Rightarrow> msg_id \<Rightarrow> time \<Rightarrow> session \<Rightarrow> session" where
  "resend_fuel 0 e msgId msCanWait s = s"
| "resend_fuel (Suc n) e msgId msCanWait s =
     resend_guard msgId msCanWait
       (case map_of (ms_sentContainers s) msgId of
          Some c \<Rightarrow>
            fold (\<lambda>i. resend_fuel n e i (-1)) (sc_messages c)
              (s\<lparr>ms_sentContainers := remove_key msgId (ms_sentContainers s)\<rparr>)
        | None \<Rightarrow> resend_request e msgId s)"

definition resend :: "session_env \<Rightarrow> msg_id \<Rightarrow> time \<Rightarrow> session \<Rightarrow> session" where
  "resend e msgId msCanWait s =
     resend_fuel (Suc (length (ms_sentContainers s))) e msgId msCanWait s"

definition resendAll :: "session_env \<Rightarrow> session \<Rightarrow> session" where
  "resendAll e s =
     emit (QueueSendAnything 0)
       (fold (\<lambda>(msgId, r). requeue e msgId r) (ms_haveSent s) (s\<lparr>ms_haveSent := []\<rparr>))"

subsection \<open>Acknowledgements\<close>

text \<open>One round of the loop of \<open>requestsAcked\<close>, on the session and \<open>toAckMore\<close>.\<close>

definition ack_one ::
    "session_env \<Rightarrow> bool \<Rightarrow> msg_id \<Rightarrow> session \<times> msg_id list \<Rightarrow> session \<times> msg_id list" where
  "ack_one e byResponse msgId st =
     (let (s, toAck) = st in
      case map_of (ms_sentContainers s) msgId of
        Some c \<Rightarrow> (s\<lparr>ms_sentContainers := remove_key msgId (ms_sentContainers s)\<rparr>, toAck @ sc_messages c)
      | None \<Rightarrow>
      (case map_of (ms_stateAndResend s) msgId of
        Some _ \<Rightarrow> (s\<lparr>ms_stateAndResend := remove_key msgId (ms_stateAndResend s)\<rparr>, toAck)
      | None \<Rightarrow>
      (case map_of (ms_haveSent s) msgId of
        Some r \<Rightarrow>
          (let requestId = rq_requestId (ms_heap s r)
           in if \<not> byResponse \<and> se_hasCallback e requestId then (s, toAck)
              else (s\<lparr>ms_haveSent := remove_key msgId (ms_haveSent s),
                      ms_ackedIds := emplace msgId requestId (ms_ackedIds s)\<rparr>, toAck))
      | None \<Rightarrow>
      (case map_of (ms_resendingIds s) msgId of
        Some requestId \<Rightarrow>
          (if \<not> byResponse \<and> se_hasCallback e requestId then (s, toAck)
           else let s = s\<lparr>ms_resendingIds := remove_key msgId (ms_resendingIds s)\<rparr> in
             case map_of (ms_toSend s) requestId of
               None \<Rightarrow> (s, toAck)
             | Some r \<Rightarrow>
                 (s\<lparr>ms_ackedIds := emplace msgId (rq_requestId (ms_heap s r)) (ms_ackedIds s),
                    ms_toSend := remove_key requestId (ms_toSend s)\<rparr>, toAck))
      | None \<Rightarrow> (s, toAck)))))"

text \<open>The loop \<open>while (ackedCount-- > kIdsBufferSize)\<close> erases the first entries.\<close>

definition trim_acked :: "session \<Rightarrow> session" where
  "trim_acked s =
     s\<lparr>ms_ackedIds := drop (length (ms_ackedIds s) - kIdsBufferSize) (ms_ackedIds s)\<rparr>"

lemma remove_key_length_less: "map_of m k = Some v \<Longrightarrow> length (remove_key k m) < length m"
  using map_of_SomeD [of m k v] by (auto simp: remove_key_def intro!: length_filter_less)

lemma remove_key_length_le: "length (remove_key k m) \<le> length m"
  by (simp add: remove_key_def)

lemma ack_one_containers:
  "length (ms_sentContainers (fst (ack_one e b i (s, toAck)))) \<le> length (ms_sentContainers s)"
  "snd (ack_one e b i (s, toAck)) = toAck \<or>
     length (ms_sentContainers (fst (ack_one e b i (s, toAck)))) < length (ms_sentContainers s)"
  by (auto simp: ack_one_def Let_def remove_key_length_less remove_key_length_le
      split: option.splits)

lemma fold_ack_containers:
  "length (ms_sentContainers (fst (fold (ack_one e b) ids (s, toAck)))) \<le> length (ms_sentContainers s) \<and>
   (snd (fold (ack_one e b) ids (s, toAck)) = toAck \<or>
    length (ms_sentContainers (fst (fold (ack_one e b) ids (s, toAck)))) < length (ms_sentContainers s))"
proof (induction ids arbitrary: s toAck)
  case Nil
  then show ?case by simp
next
  case (Cons i ids)
  obtain s' toAck' where one: "ack_one e b i (s, toAck) = (s', toAck')" by (metis surj_pair)
  show ?case using Cons.IH [of s' toAck'] ack_one_containers [of e b i s toAck] one by auto
qed

function requestsAcked :: "session_env \<Rightarrow> msg_id list \<Rightarrow> bool \<Rightarrow> session \<Rightarrow> session" where
  "requestsAcked e ids byResponse s =
     (let (s', toAck) = fold (ack_one e byResponse) ids (s, []);
          s'' = trim_acked s'
      in if toAck \<noteq> [] then requestsAcked e toAck False s'' else s'')"
  by auto
termination
proof (relation "measure (\<lambda>(e, ids, b, s). length (ms_sentContainers s))", goal_cases)
  case 1
  then show ?case by simp
next
  case (2 e ids b s x s' toAck s'')
  then show ?case using fold_ack_containers [of e b ids s "[]"]
    by (cases "fold (ack_one e b) ids (s, [])") (auto simp: trim_acked_def)
qed

declare requestsAcked.simps [simp del]

definition handle_state ::
    "session_env \<Rightarrow> msg_id \<times> char \<Rightarrow> session \<times> msg_id list \<Rightarrow> session \<times> msg_id list" where
  "handle_state e p st =
     (let (requestMsgId, state) = p; (s, acked) = st;
          was_received = ((of_char state :: 8 word) AND 7 = 4)
      in if map_of (ms_haveSent s) requestMsgId = None
         then (if map_of (ms_resendingIds s) requestMsgId \<noteq> None \<and> was_received
               then (s, acked @ [requestMsgId]) else (s, acked))
         else if \<not> was_received then (resend e requestMsgId 10 s, acked)
         else (s, acked @ [requestMsgId]))"

definition handleMsgsStates :: "session_env \<Rightarrow> msg_id list \<Rightarrow> bytes \<Rightarrow> session \<Rightarrow> session" where
  "handleMsgsStates e ids states s =
     (if ids = [] then s
      else if length states \<noteq> length ids then s
      else let (s', acked) = fold (handle_state e) (zip ids states) (s, [])
           in requestsAcked e acked False s')"

text \<open>\<open>requestsFixTimeSalt\<close>: with a bad time the salt and the clock are taken from a
  message that answers one that was sent.\<close>

definition fix_salt_time :: "64 word \<Rightarrow> int \<Rightarrow> session \<Rightarrow> session" where
  "fix_salt_time serverSalt serverTime s =
     correctUnixtimeWithBadLocal serverTime
       (if serverSalt \<noteq> 0 then s\<lparr>ms_sessionSalt := serverSalt\<rparr> else s)"

definition requestsFixTimeSalt ::
    "msg_id list \<Rightarrow> 64 word \<Rightarrow> int \<Rightarrow> session \<Rightarrow> bool \<times> session" where
  "requestsFixTimeSalt ids serverSalt serverTime s =
     (if \<exists>i \<in> set ids. wasSent s i \<noteq> 0 then (True, fix_salt_time serverSalt serverTime s)
      else (False, s))"

subsection \<open>Timers\<close>

text \<open>The loop of \<open>checkSentRequests\<close> over \<open>_haveSent\<close>: (requesting, next timeout).\<close>

fun check_sent_loop ::
    "session_env \<Rightarrow> (msg_id \<times> ref) list \<Rightarrow> bool \<times> time \<times> session \<Rightarrow> bool \<times> time \<times> session" where
  "check_sent_loop e [] st = st"
| "check_sent_loop e ((msgId, r) # rest) (requesting, nextTimeout, s) =
     (let checkTime = se_now e - kCheckSentRequestTimeout;
          sent = rq_lastSentTime (ms_heap s r)
      in if sent \<le> checkTime
         then let new = (msgId \<notin> set (ms_stateRequestData s));
                  s = update_request r (\<lambda>q. q\<lparr>rq_lastSentTime := se_now e\<rparr>) s
              in check_sent_loop e rest
                   (requesting \<or> new, nextTimeout,
                    s\<lparr>ms_stateRequestData := insort_insert msgId (ms_stateRequestData s)\<rparr>)
         else check_sent_loop e rest (requesting, min (sent - checkTime) nextTimeout, s))"

text \<open>\<open>checkSentRequests\<close>: the new session and the timeout of its timer, if it is
  started.  \<open>bindMessageSent\<close> is \<open>_bindMessageSent\<close>.\<close>

definition checkSentRequests :: "session_env \<Rightarrow> time \<Rightarrow> session \<Rightarrow> session \<times> time option" where
  "checkSentRequests e bindMessageSent s =
     (if ms_bindMsgId s \<noteq> 0 \<and> bindMessageSent < se_now e - kCheckSentRequestTimeout
      then (emit RestartCall s, Some kCheckSentRequestTimeout)
      else let (requesting, nextTimeout, s') =
                 check_sent_loop e (ms_haveSent s) (False, kCheckSentRequestTimeout, s)
           in (if requesting then emit (QueueSendAnything kSendStateRequestWaiting) s' else s',
               if nextTimeout < kCheckSentRequestTimeout then Some nextTimeout else None))"

subsection \<open>The owner's side\<close>

text \<open>\<open>Session::sendPrepared\<close> and \<open>Session::cancel\<close> of \<open>mtproto/session.cpp\<close>.\<close>

definition sendPrepared :: "ref \<Rightarrow> time \<Rightarrow> session \<Rightarrow> session" where
  "sendPrepared r msCanWait s =
     (let s = s\<lparr>ms_toSend := emplace (rq_requestId (ms_heap s r)) r (ms_toSend s)\<rparr>;
          s = update_request r (\<lambda>q. q\<lparr>rq_words := setSeqNo 0 (setMsgId 0 (rq_words q))\<rparr>) s
      in if 0 \<le> msCanWait then emit (QueueSendAnything msCanWait) s else s)"

definition cancel :: "request_id \<Rightarrow> msg_id \<Rightarrow> session \<Rightarrow> session" where
  "cancel requestId msgId s =
     (let s = (if requestId \<noteq> 0 then s\<lparr>ms_toSend := remove_key requestId (ms_toSend s)\<rparr> else s)
      in if msgId \<noteq> 0 then s\<lparr>ms_haveSent := remove_key msgId (ms_haveSent s)\<rparr> else s)"

definition changeSessionId :: "64 word \<Rightarrow> session \<Rightarrow> session" where
  "changeSessionId fresh s =
     s\<lparr>ms_sessionId := fresh, ms_messagesCounter := 0, ms_ackRequestData := [],
       ms_resendRequestData := [], ms_stateRequestData := [], ms_receivedMessageIds := []\<rparr>"

definition resetSession :: "64 word \<Rightarrow> session \<Rightarrow> session" where
  "resetSession fresh s =
     emit QueueResetDone (changeSessionId fresh (s\<lparr>ms_needSessionReset := False\<rparr>))"

definition nextRequestSeqNumber :: "bool \<Rightarrow> session \<Rightarrow> 32 word \<times> session" where
  "nextRequestSeqNumber needs_ack s =
     (ms_messagesCounter s * 2 + (if needs_ack then 1 else 0),
      s\<lparr>ms_messagesCounter := ms_messagesCounter s + (if needs_ack then 1 else 0)\<rparr>)"

end
