(* ===== verification/Mtp_Sent.thy ===== *)
theory Mtp_Sent
  imports Mtp_Session
begin

text \<open>
  Properties of the bookkeeping of sent requests: resending loses no request, an
  acknowledgement drops no request whose caller still waits for an answer, and the
  tables stay ordered and bounded.
\<close>

section \<open>Pending requests\<close>

text \<open>The identifiers of the requests that are sent and unanswered or wait to be sent.\<close>

definition pending :: "session \<Rightarrow> request_id set" where
  "pending s =
     {rq_requestId (ms_heap s r) |i r. (i, r) \<in> set (ms_haveSent s)} \<union> fst ` set (ms_toSend s)"

lemma fst_set_emplace: "fst ` set (emplace k v m) = insert k (fst ` set m)"
  by (cases "map_of m k")
     (force simp: emplace_def fst_set_upsert dest: map_of_SomeD)+

lemma remove_key_entry:
  assumes "map_ok m" "map_of m k = Some v"
  shows "set m = insert (k, v) (set (remove_key k m))"
  using assms by (auto simp: remove_key_def map_ok_map_of_in dest: map_of_SomeD)

lemma heap_update_request [simp]:
  "rq_requestId (ms_heap (update_request r (\<lambda>q. q\<lparr>rq_lastSentTime := t, rq_forceSendInContainer := b\<rparr>) s) x) =
     rq_requestId (ms_heap s x)"
  by (simp add: update_request_def)

lemma update_request_fields [simp]:
  "ms_haveSent (update_request r f s) = ms_haveSent s"
  "ms_toSend (update_request r f s) = ms_toSend s"
  "ms_resendingIds (update_request r f s) = ms_resendingIds s"
  "ms_sentContainers (update_request r f s) = ms_sentContainers s"
  "ms_receivedMessageIds (update_request r f s) = ms_receivedMessageIds s"
  by (simp_all add: update_request_def)

lemma emit_fields [simp]:
  "ms_haveSent (emit ev s) = ms_haveSent s"
  "ms_toSend (emit ev s) = ms_toSend s"
  "ms_heap (emit ev s) = ms_heap s"
  "ms_sentContainers (emit ev s) = ms_sentContainers s"
  "ms_receivedMessageIds (emit ev s) = ms_receivedMessageIds s"
  by (simp_all add: emit_def)

lemma clearSpecialMsgId_fields [simp]:
  "ms_haveSent (clearSpecialMsgId i s) = ms_haveSent s"
  "ms_toSend (clearSpecialMsgId i s) = ms_toSend s"
  "ms_heap (clearSpecialMsgId i s) = ms_heap s"
  "ms_sentContainers (clearSpecialMsgId i s) = ms_sentContainers s"
  "ms_receivedMessageIds (clearSpecialMsgId i s) = ms_receivedMessageIds s"
  by (simp_all add: clearSpecialMsgId_def)

lemma resend_guard_fields [simp]:
  "ms_haveSent (resend_guard i w s) = ms_haveSent s"
  "ms_toSend (resend_guard i w s) = ms_toSend s"
  "ms_heap (resend_guard i w s) = ms_heap s"
  "ms_sentContainers (resend_guard i w s) = ms_sentContainers s"
  "ms_receivedMessageIds (resend_guard i w s) = ms_receivedMessageIds s"
  by (simp_all add: resend_guard_def Let_def)

lemma requeue_fields [simp]:
  "ms_haveSent (requeue e i r s) = ms_haveSent s"
  "ms_sentContainers (requeue e i r s) = ms_sentContainers s"
  "ms_receivedMessageIds (requeue e i r s) = ms_receivedMessageIds s"
  "rq_requestId (ms_heap (requeue e i r s) x) = rq_requestId (ms_heap s x)"
  by (simp_all add: requeue_def Let_def update_request_def)

lemma pending_cong:
  assumes "ms_haveSent s' = ms_haveSent s" "ms_toSend s' = ms_toSend s"
    and "\<And>x. rq_requestId (ms_heap s' x) = rq_requestId (ms_heap s x)"
  shows "pending s' = pending s"
  using assms by (simp add: pending_def)

lemma pending_emit [simp]: "pending (emit ev s) = pending s"
  by (simp add: pending_def)

lemma pending_requeue:
  "pending (requeue e i r s) = insert (rq_requestId (ms_heap s r)) (pending s)"
proof -
  have "fst ` set (ms_toSend (requeue e i r s)) =
      insert (rq_requestId (ms_heap s r)) (fst ` set (ms_toSend s))"
    by (simp add: requeue_def Let_def fst_set_emplace)
  then show ?thesis by (simp add: pending_def)
qed

lemma resend_request_pending:
  assumes "map_ok (ms_haveSent s)"
  shows "pending (resend_request e i s) = pending s"
proof (cases "map_of (ms_haveSent s) i")
  case None
  then show ?thesis by (simp add: resend_request_def)
next
  case (Some r)
  show ?thesis
    using remove_key_entry [OF assms Some]
    by (auto simp: resend_request_def Some pending_requeue) (auto simp: pending_def)
qed

lemma resend_request_fields:
  "map_ok (ms_haveSent s) \<Longrightarrow> map_ok (ms_haveSent (resend_request e i s))"
  "ms_sentContainers (resend_request e i s) = ms_sentContainers s"
  "ms_receivedMessageIds (resend_request e i s) = ms_receivedMessageIds s"
  by (auto simp: resend_request_def split: option.split)

lemma fold_preserves:
  assumes "\<And>x s. P s \<Longrightarrow> P (f x s) \<and> g (f x s) = g s" "P s"
  shows "P (fold f xs s) \<and> g (fold f xs s) = g s"
  using assms(2) by (induction xs arbitrary: s) (simp_all add: assms(1))

lemma resend_fuel_pending:
  "map_ok (ms_haveSent s) \<Longrightarrow>
     map_ok (ms_haveSent (resend_fuel n e i w s)) \<and> pending (resend_fuel n e i w s) = pending s"
proof (induction n arbitrary: i w s)
  case 0
  then show ?case by simp
next
  case (Suc n)
  show ?case
  proof (cases "map_of (ms_sentContainers s) i")
    case None
    have "pending (resend_guard i w (resend_request e i s)) = pending s"
      using resend_request_pending [OF Suc.prems, of e i] by (simp add: pending_def)
    with None Suc.prems show ?thesis by (simp add: resend_request_fields)
  next
    case (Some c)
    let ?s = "s\<lparr>ms_sentContainers := remove_key i (ms_sentContainers s)\<rparr>"
    let ?f = "fold (\<lambda>j. resend_fuel n e j (-1)) (sc_messages c) ?s"
    have "map_ok (ms_haveSent ?f) \<and> pending ?f = pending ?s"
      by (rule fold_preserves) (use Suc in simp_all)
    moreover have "pending ?s = pending s" by (rule pending_cong) simp_all
    moreover have "pending (resend_guard i w ?f) = pending ?f" by (rule pending_cong) simp_all
    ultimately show ?thesis using Some by simp
  qed
qed

section \<open>Enough fuel\<close>

lemma resend_fuel_containers:
  "length (ms_sentContainers (resend_fuel n e i w s)) \<le> length (ms_sentContainers s)"
proof (induction n arbitrary: i w s)
  case 0
  then show ?case by simp
next
  case (Suc n)
  have run: "length (ms_sentContainers (fold (\<lambda>j. resend_fuel n e j (-1)) is t))
      \<le> length (ms_sentContainers t)" for "is" t
    by (induction "is" arbitrary: t) (auto intro: order_trans [OF _ Suc.IH])
  show ?case
  proof (cases "map_of (ms_sentContainers s) i")
    case None
    then show ?thesis by (simp add: resend_request_fields)
  next
    case (Some c)
    have "length (ms_sentContainers (s\<lparr>ms_sentContainers := remove_key i (ms_sentContainers s)\<rparr>))
        \<le> length (ms_sentContainers s)"
      by (simp add: remove_key_length_le)
    from order_trans [OF run this] Some show ?thesis by simp
  qed
qed

lemma resend_fuel_more:
  "length (ms_sentContainers s) < n \<Longrightarrow> resend_fuel (Suc n) e i w s = resend_fuel n e i w s"
proof (induction n arbitrary: i w s)
  case 0
  then show ?case by simp
next
  case (Suc n)
  have run: "fold (\<lambda>j. resend_fuel (Suc n) e j (-1)) is t = fold (\<lambda>j. resend_fuel n e j (-1)) is t"
    if "length (ms_sentContainers t) < n" for "is" t
    using that
  proof (induction "is" arbitrary: t)
    case Nil
    then show ?case by simp
  next
    case (Cons j js)
    have "resend_fuel (Suc n) e j (-1) t = resend_fuel n e j (-1) t" by (rule Suc.IH [OF Cons.prems])
    moreover have "length (ms_sentContainers (resend_fuel n e j (-1) t)) < n"
      using resend_fuel_containers [of n e j "-1" t] Cons.prems by simp
    ultimately show ?case using Cons.IH by simp
  qed
  show ?case
  proof (cases "map_of (ms_sentContainers s) i")
    case None
    then show ?thesis by simp
  next
    case (Some c)
    let ?s = "s\<lparr>ms_sentContainers := remove_key i (ms_sentContainers s)\<rparr>"
    have "length (ms_sentContainers ?s) < n"
      using remove_key_length_less [OF Some] Suc.prems by simp
    from run [OF this] have "fold (\<lambda>j. resend_fuel (Suc n) e j (-1)) (sc_messages c) ?s =
        fold (\<lambda>j. resend_fuel n e j (-1)) (sc_messages c) ?s" .
    then show ?thesis
      unfolding resend_fuel.simps(2) [of "Suc n" e i w s] resend_fuel.simps(2) [of n e i w s] Some
      by simp
  qed
qed

lemma resend_fuel_enough:
  "length (ms_sentContainers s) < n \<Longrightarrow> resend_fuel n e i w s = resend e i w s"
proof (induction n)
  case 0
  then show ?case by simp
next
  case (Suc n)
  show ?case
  proof (cases "n = length (ms_sentContainers s)")
    case True
    then show ?thesis by (simp only: resend_def)
  next
    case False
    with Suc.prems have "length (ms_sentContainers s) < n" by simp
    with Suc.IH resend_fuel_more [of s n e i w] show ?thesis by simp
  qed
qed

text \<open>\<open>resend\<close> without fuel, as the code has it.\<close>

lemma resend_unfold:
  "resend e i w s =
     resend_guard i w
       (case map_of (ms_sentContainers s) i of
          Some c \<Rightarrow>
            fold (\<lambda>j. resend e j (-1)) (sc_messages c)
              (s\<lparr>ms_sentContainers := remove_key i (ms_sentContainers s)\<rparr>)
        | None \<Rightarrow> resend_request e i s)"
proof (cases "map_of (ms_sentContainers s) i")
  case None
  then show ?thesis by (simp add: resend_def)
next
  case (Some c)
  let ?n = "length (ms_sentContainers s)"
  have run: "fold (\<lambda>j. resend_fuel ?n e j (-1)) is t = fold (\<lambda>j. resend e j (-1)) is t"
    if "length (ms_sentContainers t) < ?n" for "is" t
    using that
  proof (induction "is" arbitrary: t)
    case Nil
    then show ?case by simp
  next
    case (Cons j js)
    have "resend_fuel ?n e j (-1) t = resend e j (-1) t" by (rule resend_fuel_enough [OF Cons.prems])
    moreover have "length (ms_sentContainers (resend_fuel ?n e j (-1) t)) < ?n"
      using resend_fuel_containers [of ?n e j "-1" t] Cons.prems by simp
    ultimately show ?case using Cons.IH [of "resend_fuel ?n e j (-1) t"] by simp
  qed
  have "length (ms_sentContainers
      (s\<lparr>ms_sentContainers := remove_key i (ms_sentContainers s)\<rparr>)) < ?n"
    using remove_key_length_less [OF Some] by simp
  from run [OF this, of "sc_messages c"] Some show ?thesis by (simp add: resend_def)
qed

lemma resend_fields:
  "map_ok (ms_haveSent s) \<Longrightarrow> map_ok (ms_haveSent (resend e i w s))"
  "map_ok (ms_haveSent s) \<Longrightarrow> pending (resend e i w s) = pending s"
  "length (ms_sentContainers (resend e i w s)) \<le> length (ms_sentContainers s)"
  using resend_fuel_pending resend_fuel_containers by (simp_all add: resend_def del: resend_fuel.simps)

lemma resend_fuel_received:
  "ms_receivedMessageIds (resend_fuel n e i w s) = ms_receivedMessageIds s"
proof (induction n arbitrary: i w s)
  case 0
  then show ?case by simp
next
  case (Suc n)
  have "ms_receivedMessageIds (fold (\<lambda>j. resend_fuel n e j (-1)) is t) = ms_receivedMessageIds t"
    for "is" t by (induction "is" arbitrary: t) (simp_all add: Suc.IH)
  then show ?case by (simp add: resend_request_fields split: option.split)
qed

lemma resend_received: "ms_receivedMessageIds (resend e i w s) = ms_receivedMessageIds s"
  by (simp only: resend_def resend_fuel_received)

lemma resendAll_pending: "pending (resendAll e s) = pending s"
proof -
  have run: "pending (fold (\<lambda>(i, r). requeue e i r) ps t) =
      (\<lambda>p. rq_requestId (ms_heap t (snd p))) ` set ps \<union> pending t" for ps t
  proof (induction ps arbitrary: t)
    case Nil
    then show ?case by simp
  next
    case (Cons p ps)
    have "pending (fold (\<lambda>(i, r). requeue e i r) ps (requeue e (fst p) (snd p) t)) =
        (\<lambda>p. rq_requestId (ms_heap t (snd p))) ` set ps \<union>
        insert (rq_requestId (ms_heap t (snd p))) (pending t)"
      by (simp add: Cons.IH pending_requeue)
    then show ?case by (cases p) auto
  qed
  have "pending s = (\<lambda>p. rq_requestId (ms_heap s (snd p))) ` set (ms_haveSent s) \<union>
      fst ` set (ms_toSend s)"
    by (force simp: pending_def)
  moreover have "pending (s\<lparr>ms_haveSent := []\<rparr>) = fst ` set (ms_toSend s)"
    by (simp add: pending_def)
  ultimately show ?thesis
    using run [of "ms_haveSent s" "s\<lparr>ms_haveSent := []\<rparr>"] by (simp add: resendAll_def)
qed

section \<open>Acknowledgements\<close>

text \<open>The requests that message identifiers name, among those sent or being resent.\<close>

definition named :: "session \<Rightarrow> msg_id set \<Rightarrow> request_id set" where
  "named s I =
     {rq_requestId (ms_heap s r) |i r. i \<in> I \<and> map_of (ms_haveSent s) i = Some r} \<union>
     {q. \<exists>i \<in> I. map_of (ms_resendingIds s) i = Some q}"

lemma named_mono:
  assumes "\<And>j r. map_of (ms_haveSent t) j = Some r \<Longrightarrow> map_of (ms_haveSent s) j = Some r"
    and "\<And>j q. map_of (ms_resendingIds t) j = Some q \<Longrightarrow> map_of (ms_resendingIds s) j = Some q"
    and "ms_heap t = ms_heap s"
  shows "named t I \<subseteq> named s I"
proof
  fix q
  assume "q \<in> named t I"
  then consider i r where "i \<in> I" "map_of (ms_haveSent t) i = Some r" "q = rq_requestId (ms_heap t r)"
    | i where "i \<in> I" "map_of (ms_resendingIds t) i = Some q"
    by (auto simp: named_def)
  then show "q \<in> named s I"
    by cases (use assms in \<open>force simp: named_def\<close>)+
qed

lemma pending_mono:
  assumes "\<And>p. p \<in> set (ms_haveSent s) \<Longrightarrow> rq_requestId (ms_heap s (snd p)) = q \<Longrightarrow> p \<in> set (ms_haveSent t)"
    and "\<And>k. k \<in> fst ` set (ms_toSend s) \<Longrightarrow> k = q \<Longrightarrow> k \<in> fst ` set (ms_toSend t)"
    and "ms_heap t = ms_heap s" "q \<in> pending s"
  shows "q \<in> pending t"
proof -
  consider i r where "(i, r) \<in> set (ms_haveSent s)" "rq_requestId (ms_heap s r) = q"
    | "q \<in> fst ` set (ms_toSend s)"
    using assms(4) by (auto simp: pending_def)
  then show ?thesis
  proof cases
    case 1
    with assms(1) [of "(i, r)"] assms(3) show ?thesis by (auto simp: pending_def)
  next
    case 2
    with assms(2) [of q] show ?thesis by (simp add: pending_def)
  qed
qed

lemma in_remove_key: "p \<in> set (remove_key k m) \<longleftrightarrow> p \<in> set m \<and> fst p \<noteq> k"
  by (simp add: remove_key_def)

lemma remove_key_SomeD: "map_of (remove_key k m) j = Some v \<Longrightarrow> map_of m j = Some v"
  by (simp split: if_splits)

text \<open>What one round of the acknowledgement loop does to the tables.\<close>

lemma ack_one_cases:
  assumes t_def: "t = fst (ack_one e b i (s, toAck))"
  obtains
    (same) "ms_haveSent t = ms_haveSent s" "ms_toSend t = ms_toSend s"
      "ms_heap t = ms_heap s" "ms_resendingIds t = ms_resendingIds s"
  | (sent) r where "map_of (ms_haveSent s) i = Some r"
      "\<not> (\<not> b \<and> se_hasCallback e (rq_requestId (ms_heap s r)))"
      "ms_haveSent t = remove_key i (ms_haveSent s)" "ms_toSend t = ms_toSend s"
      "ms_heap t = ms_heap s" "ms_resendingIds t = ms_resendingIds s"
  | (resending) k where "map_of (ms_resendingIds s) i = Some k"
      "\<not> (\<not> b \<and> se_hasCallback e k)" "ms_haveSent t = ms_haveSent s"
      "ms_toSend t = ms_toSend s \<or> ms_toSend t = remove_key k (ms_toSend s)"
      "ms_heap t = ms_heap s"
      "ms_resendingIds t = remove_key i (ms_resendingIds s)"
proof (cases "map_of (ms_sentContainers s) i")
  case (Some c)
  then show ?thesis by (intro same) (simp_all add: t_def ack_one_def Let_def)
next
  case container: None
  show ?thesis
  proof (cases "map_of (ms_stateAndResend s) i")
    case (Some c)
    with container show ?thesis by (intro same) (simp_all add: t_def ack_one_def Let_def)
  next
    case state: None
    show ?thesis
    proof (cases "map_of (ms_haveSent s) i")
      case (Some r)
      show ?thesis
      proof (cases "\<not> b \<and> se_hasCallback e (rq_requestId (ms_heap s r))")
        case True
        with container state Some show ?thesis
          by (intro same) (simp_all add: t_def ack_one_def Let_def)
      next
        case False
        with container state Some show ?thesis
          by (intro sent [of r]) (simp_all add: t_def ack_one_def Let_def, blast)
      qed
    next
      case unsent: None
      show ?thesis
      proof (cases "map_of (ms_resendingIds s) i")
        case None
        with container state unsent show ?thesis
          by (intro same) (simp_all add: t_def ack_one_def Let_def)
      next
        case (Some k)
        show ?thesis
        proof (cases "\<not> b \<and> se_hasCallback e k")
          case True
          with container state unsent Some show ?thesis
            by (intro same) (simp_all add: t_def ack_one_def Let_def)
        next
          case False
          with container state unsent Some show ?thesis
            by (intro resending [of k])
              (simp_all add: t_def ack_one_def Let_def split: option.split, blast)
        qed
      qed
    qed
  qed
qed

lemma ack_one_step:
  assumes ok: "map_ok (ms_haveSent s)" and q: "q \<in> pending s"
    and free: "\<not> b \<and> se_hasCallback e q \<or> q \<notin> named s I" and i: "i \<in> I"
    and t_def: "t = fst (ack_one e b i (s, toAck))"
  shows "map_ok (ms_haveSent t) \<and> q \<in> pending t \<and> named t I \<subseteq> named s I"
  using t_def
proof (cases rule: ack_one_cases)
  case same
  with ok q show ?thesis by (simp add: pending_def named_def)
next
  case (sent r)
  have "rq_requestId (ms_heap s r) \<in> named s I" using sent(1) i by (auto simp: named_def)
  with free sent(2) have ne: "rq_requestId (ms_heap s r) \<noteq> q" by auto
  have "q \<in> pending t"
  proof (rule pending_mono [OF _ _ _ q])
    show "p \<in> set (ms_haveSent t)"
      if "p \<in> set (ms_haveSent s)" "rq_requestId (ms_heap s (snd p)) = q" for p
      using that ne remove_key_entry [OF ok sent(1)] sent(3) by auto
  qed (use sent in \<open>simp_all\<close>)
  moreover have "named t I \<subseteq> named s I"
    by (rule named_mono) (use sent remove_key_SomeD in \<open>simp_all split: if_splits\<close>)
  ultimately show ?thesis using ok sent(3) by simp
next
  case (resending k)
  have "k \<in> named s I" using resending(1) i by (auto simp: named_def)
  with free resending(2) have ne: "k \<noteq> q" by auto
  have "q \<in> pending t"
  proof (rule pending_mono [OF _ _ _ q])
    show "j \<in> fst ` set (ms_toSend t)" if "j \<in> fst ` set (ms_toSend s)" "j = q" for j
      using that ne resending(4) by (force simp: in_remove_key)
  qed (use resending in \<open>simp_all\<close>)
  moreover have "named t I \<subseteq> named s I"
    by (rule named_mono) (use resending in \<open>simp_all split: if_splits\<close>)
  ultimately show ?thesis using ok resending(3) by simp
qed

lemma fold_ack_keeps:
  assumes "map_ok (ms_haveSent s)" "q \<in> pending s"
    and "\<not> b \<and> se_hasCallback e q \<or> q \<notin> named s I" "set ids \<subseteq> I"
  shows "map_ok (ms_haveSent (fst (fold (ack_one e b) ids (s, m)))) \<and>
    q \<in> pending (fst (fold (ack_one e b) ids (s, m)))"
  using assms
proof (induction ids arbitrary: s m)
  case Nil
  then show ?case by simp
next
  case (Cons i ids)
  obtain s' m' where one: "ack_one e b i (s, m) = (s', m')" by (metis surj_pair)
  have i: "i \<in> I" using Cons.prems(4) by simp
  have step: "map_ok (ms_haveSent s')" "q \<in> pending s'" "named s' I \<subseteq> named s I"
    using ack_one_step [OF Cons.prems(1-3) i, of s' m] one by simp_all
  then have "\<not> b \<and> se_hasCallback e q \<or> q \<notin> named s' I" using Cons.prems(3) by blast
  from Cons.IH [OF step(1,2) this] Cons.prems(4) one show ?case by simp
qed

lemma requestsAcked_keeps:
  "map_ok (ms_haveSent s) \<Longrightarrow> q \<in> pending s \<Longrightarrow> se_hasCallback e q \<Longrightarrow>
     (b \<longrightarrow> q \<notin> named s (set ids)) \<Longrightarrow>
     map_ok (ms_haveSent (requestsAcked e ids b s)) \<and> q \<in> pending (requestsAcked e ids b s)"
proof (induction e ids b s rule: requestsAcked.induct)
  case (1 e ids b s)
  obtain s' m where f: "fold (ack_one e b) ids (s, []) = (s', m)" by (metis surj_pair)
  have "map_ok (ms_haveSent s') \<and> q \<in> pending s'"
    using fold_ack_keeps [of s q b e "set ids" ids "[]"] "1.prems" f by auto
  then have t: "map_ok (ms_haveSent (trim_acked s'))" "q \<in> pending (trim_acked s')"
    by (simp_all add: trim_acked_def pending_def)
  show ?case
  proof (cases "m = []")
    case True
    with t f show ?thesis by (subst (1 2) requestsAcked.simps) simp
  next
    case False
    have "map_ok (ms_haveSent (requestsAcked e m False (trim_acked s'))) \<and>
        q \<in> pending (requestsAcked e m False (trim_acked s'))"
      by (rule "1.IH" [OF f [symmetric] _ refl _ t "1.prems"(3)]) (use False in simp_all)
    with f False show ?thesis by (subst (1 2) requestsAcked.simps) simp
  qed
qed

lemma requestsAcked_bounded: "length (ms_ackedIds (requestsAcked e ids b s)) \<le> kIdsBufferSize"
proof (induction e ids b s rule: requestsAcked.induct)
  case (1 e ids b s)
  obtain s' m where f: "fold (ack_one e b) ids (s, []) = (s', m)" by (metis surj_pair)
  show ?case
  proof (cases "m = []")
    case True
    with f show ?thesis by (subst requestsAcked.simps) (simp add: trim_acked_def)
  next
    case False
    have "length (ms_ackedIds (requestsAcked e m False (trim_acked s'))) \<le> kIdsBufferSize"
      by (rule "1.IH" [OF f [symmetric] _ refl]) (use False in simp_all)
    with f False show ?thesis by (subst requestsAcked.simps) simp
  qed
qed

lemma ack_one_received:
  "ms_receivedMessageIds (fst (ack_one e b i (s, m))) = ms_receivedMessageIds s"
  by (auto simp: ack_one_def Let_def split: option.splits)

lemma fold_ack_received:
  "ms_receivedMessageIds (fst (fold (ack_one e b) ids (s, m))) = ms_receivedMessageIds s"
proof (induction ids arbitrary: s m)
  case Nil
  then show ?case by simp
next
  case (Cons i ids)
  obtain s' m' where one: "ack_one e b i (s, m) = (s', m')" by (metis surj_pair)
  with Cons.IH [of s' m'] ack_one_received [of e b i s m] show ?case by simp
qed

lemma requestsAcked_received:
  "ms_receivedMessageIds (requestsAcked e ids b s) = ms_receivedMessageIds s"
proof (induction e ids b s rule: requestsAcked.induct)
  case (1 e ids b s)
  obtain s' m where f: "fold (ack_one e b) ids (s, []) = (s', m)" by (metis surj_pair)
  have r: "ms_receivedMessageIds (trim_acked s') = ms_receivedMessageIds s"
    using fold_ack_received [of e b ids s "[]"] f by (simp add: trim_acked_def)
  show ?case
  proof (cases "m = []")
    case True
    with f r show ?thesis by (subst requestsAcked.simps) simp
  next
    case False
    have "ms_receivedMessageIds (requestsAcked e m False (trim_acked s')) =
        ms_receivedMessageIds (trim_acked s')"
      by (rule "1.IH" [OF f [symmetric] _ refl]) (use False in simp_all)
    with f r False show ?thesis by (subst requestsAcked.simps) simp
  qed
qed

section \<open>Old containers\<close>

text \<open>The loop of \<open>clearOldContainers\<close>, with the iterator as a position: a container
  whose acknowledgement is overdue is erased and what it held is resent.\<close>

lemma fold_resend_containers:
  "length (ms_sentContainers (fold (\<lambda>i. resend e i w) ids s)) \<le> length (ms_sentContainers s)"
  by (induction ids arbitrary: s) (auto intro: order_trans [OF _ resend_fields(3)])

function clear_old_loop ::
    "session_env \<Rightarrow> nat \<Rightarrow> time \<Rightarrow> bool \<Rightarrow> session \<Rightarrow> time \<times> bool \<times> session" where
  "clear_old_loop e p nextTimeout resent s =
     (if length (ms_sentContainers s) \<le> p then (nextTimeout, resent, s)
      else
        let c = snd (ms_sentContainers s ! p);
            checkTime = se_now e - kSentContainerLives
        in if sc_sent c \<le> checkTime
           then
             clear_old_loop e p nextTimeout (resent \<or> sc_messages c \<noteq> [])
               (fold (\<lambda>i. resend e i (-1)) (sc_messages c)
                 (s\<lparr>ms_sentContainers :=
                   take p (ms_sentContainers s) @ drop (Suc p) (ms_sentContainers s)\<rparr>))
           else clear_old_loop e (Suc p) (min (sc_sent c - checkTime) nextTimeout) resent s)"
  by auto
termination
proof (relation "measure (\<lambda>(e, p, n, r, s). length (ms_sentContainers s) - p)", goal_cases)
  case 1
  then show ?case by simp
next
  case (2 e p n r s c t)
  let ?s = "s\<lparr>ms_sentContainers :=
    take p (ms_sentContainers s) @ drop (Suc p) (ms_sentContainers s)\<rparr>"
  have "length (ms_sentContainers (fold (\<lambda>i. resend e i (-1)) (sc_messages c) ?s))
      \<le> length (ms_sentContainers s) - 1"
    using fold_resend_containers [of e "-1" "sc_messages c" ?s] 2(1) by simp
  with 2(1) show ?case by simp
next
  case (3 e p n r s c t)
  then show ?case by simp
qed

declare clear_old_loop.simps [simp del]

text \<open>The new session and the timeout of its timer, if it is started once.\<close>

definition clearOldContainers :: "session_env \<Rightarrow> session \<Rightarrow> session \<times> time option" where
  "clearOldContainers e s =
     (let (nextTimeout, resent, s') = clear_old_loop e 0 kSentContainerLives False s
      in (if resent then emit QueueNeedToResumeAndSend s' else s',
          if nextTimeout < kSentContainerLives then Some nextTimeout else None))"

lemma fold_resend_pending:
  "map_ok (ms_haveSent s) \<Longrightarrow>
     map_ok (ms_haveSent (fold (\<lambda>i. resend e i w) ids s)) \<and>
     pending (fold (\<lambda>i. resend e i w) ids s) = pending s"
  by (rule fold_preserves) (simp_all add: resend_fields)

lemma clear_old_loop_pending:
  "map_ok (ms_haveSent s) \<Longrightarrow> pending (snd (snd (clear_old_loop e p n r s))) = pending s"
proof (induction e p n r s rule: clear_old_loop.induct)
  case (1 e p n r s)
  let ?c = "snd (ms_sentContainers s ! p)"
  let ?s = "s\<lparr>ms_sentContainers :=
    take p (ms_sentContainers s) @ drop (Suc p) (ms_sentContainers s)\<rparr>"
  have same: "pending ?s = pending s" by (rule pending_cong) simp_all
  have ok: "map_ok (ms_haveSent ?s)" using "1.prems" by simp
  note f = fold_resend_pending [OF ok, of e "-1" "sc_messages ?c"]
  show ?case
  proof (cases "length (ms_sentContainers s) \<le> p")
    case True
    then show ?thesis by (simp add: clear_old_loop.simps [of e p])
  next
    case some: False
    show ?thesis
    proof (cases "sc_sent ?c \<le> se_now e - kSentContainerLives")
      case True
      with "1.IH"(1) [OF some refl refl True] f same some show ?thesis
        by (subst clear_old_loop.simps) (simp add: Let_def)
    next
      case False
      with "1.IH"(2) [OF some refl refl False "1.prems"] some show ?thesis
        by (subst clear_old_loop.simps) (simp add: Let_def)
    qed
  qed
qed

lemma clearOldContainers_pending:
  "map_ok (ms_haveSent s) \<Longrightarrow> pending (fst (clearOldContainers e s)) = pending s"
  using clear_old_loop_pending [of s e 0 kSentContainerLives False]
  by (simp add: clearOldContainers_def case_prod_beta)

section \<open>Promises\<close>

text \<open>C7: Resending a message, a container, all messages or the overdue containers loses and
  adds no request.\<close>

theorem resend_keeps_requests:
  "map_ok (ms_haveSent s) \<Longrightarrow>
     pending (resend e i w s) = pending s \<and> pending (resendAll e s) = pending s \<and>
     pending (fst (clearOldContainers e s)) = pending s"
  by (simp add: resend_fields(2) resendAll_pending clearOldContainers_pending)

text \<open>C8: A request whose caller waits for an answer stays pending under every
  acknowledgement, unless it is answered itself.\<close>

theorem ack_keeps_awaiting:
  assumes "map_ok (ms_haveSent s)" "q \<in> pending s" "se_hasCallback e q"
    and "byResponse \<longrightarrow> q \<notin> named s (set ids)"
  shows "q \<in> pending (requestsAcked e ids byResponse s)"
  using requestsAcked_keeps [OF assms] by simp

end
