(* ===== verification/Mtp_Send.thy ===== *)
theory Mtp_Send
  imports Mtp_Sent
begin

text \<open>
  Sending: \<open>prepareToSend\<close>, \<open>replaceMsgId\<close>, \<open>placeToContainer\<close> and the second half of
  \<open>tryToSend\<close> (\<open>mtproto/session_private.cpp\<close>), from the choice of the queued requests to
  the message that \<open>sendSecureRequest\<close> gets.

  \<open>base::unixtime::mtproto_msg_id()\<close> belongs to the library \<open>lib_base\<close>: its answers are
  the sequence \<open>sv_fresh\<close>, and the state of a send counts how many were taken.  The
  service requests (ping, acknowledgements and so on) that the first half of
  \<open>tryToSend\<close> serializes are given as references; so are the primes of the
  \<open>initConnection\<close> wrapper (\<open>invokeWithLayer\<close>, the layer and the fields).
\<close>

record send_env =
  sv_session :: session_env
  sv_fresh :: "nat \<Rightarrow> msg_id"
  sv_init :: "prime list" \<comment> \<open>empty unless \<open>needsLayer\<close>\<close>

definition kCutContainerOnSize :: nat where "kCutContainerOnSize = 16 * 1024"

definition words_of :: "session \<Rightarrow> ref \<Rightarrow> prime list" where
  "words_of s r = rq_words (ms_heap s r)"

definition set_words :: "ref \<Rightarrow> (prime list \<Rightarrow> prime list) \<Rightarrow> session \<Rightarrow> session" where
  "set_words r f = update_request r (\<lambda>q. q\<lparr>rq_words := f (rq_words q)\<rparr>)"

section \<open>Identifiers\<close>

text \<open>The identifier and the sequence number of a message that is new on the wire.\<close>

definition stamp :: "ref \<Rightarrow> msg_id \<Rightarrow> session \<Rightarrow> session" where
  "stamp r msgId s =
     (let s = set_words r (setMsgId msgId) s;
          (seqNo, s) = nextRequestSeqNumber (needAck (words_of s r)) s
      in set_words r (setSeqNo seqNo) s)"

definition taken :: "session \<Rightarrow> msg_id \<Rightarrow> bool" where
  "taken s i \<longleftrightarrow>
     map_of (ms_resendingIds s) i \<noteq> None \<or> map_of (ms_ackedIds s) i \<noteq> None \<or>
     map_of (ms_haveSent s) i \<noteq> None"

text \<open>The loop that looks for an unused identifier; the fuel exceeds the number of
  identifiers in the tables.\<close>

fun unused_id :: "nat \<Rightarrow> send_env \<Rightarrow> session \<Rightarrow> msg_id \<Rightarrow> nat \<Rightarrow> msg_id \<times> nat" where
  "unused_id 0 e s newId k = (newId, k)"
| "unused_id (Suc n) e s newId k =
     (if taken s newId then unused_id n e s (sv_fresh e k) (Suc k) else (newId, k))"

definition id_fuel :: "session \<Rightarrow> nat" where
  "id_fuel s =
     2 + length (ms_resendingIds s) + length (ms_ackedIds s) + length (ms_haveSent s)"

definition rename_key :: "'k::linorder \<Rightarrow> 'k \<Rightarrow> ('k \<times> 'v) list \<Rightarrow> ('k \<times> 'v) list" where
  "rename_key old new m =
     (case map_of m old of None \<Rightarrow> m | Some v \<Rightarrow> emplace new v (remove_key old m))"

definition replaceMsgId :: "send_env \<Rightarrow> ref \<Rightarrow> msg_id \<Rightarrow> nat \<times> session \<Rightarrow> msg_id \<times> nat \<times> session" where
  "replaceMsgId e r newId st =
     (let (k, s) = st; oldMsgId = getMsgId (words_of s r)
      in if oldMsgId = newId then (newId, k, s)
         else
           let (newId, k) = unused_id (id_fuel s) e s newId k;
               rename = (\<lambda>i. if i = oldMsgId then newId else i)
           in (newId, k, stamp r newId
                (s\<lparr>ms_resendingIds := rename_key oldMsgId newId (ms_resendingIds s),
                   ms_ackedIds := rename_key oldMsgId newId (ms_ackedIds s),
                   ms_haveSent := rename_key oldMsgId newId (ms_haveSent s),
                   ms_sentContainers := map (\<lambda>(i, c).
                     (i, c\<lparr>sc_messages := map rename (sc_messages c)\<rparr>)) (ms_sentContainers s)\<rparr>)))"

definition prepareToSend ::
    "send_env \<Rightarrow> ref \<Rightarrow> msg_id \<Rightarrow> bool \<Rightarrow> nat \<times> session \<Rightarrow> msg_id \<times> nat \<times> session" where
  "prepareToSend e r currentLastId forceNewMsgId st =
     (let (k, s) = st; msgId = getMsgId (words_of s r)
      in if msgId \<noteq> 0
         then
           let s = s\<lparr>ms_resendingIds := remove_key msgId (ms_resendingIds s)\<rparr>
           in if forceNewMsgId \<or> currentLastId < msgId
              then replaceMsgId e r currentLastId (k, s)
              else (msgId, k, s)
         else (currentLastId, k, stamp r currentLastId s))"

section \<open>The queue\<close>

text \<open>The requests of one container: up to the one that brings their combined length to
  the limit.  \<open>someSkipped\<close> is whether any is left.\<close>

fun cut_range :: "session \<Rightarrow> nat \<Rightarrow> (request_id \<times> ref) list \<Rightarrow> (request_id \<times> ref) list" where
  "cut_range s combinedLength [] = []"
| "cut_range s combinedLength (p # ps) =
     (let combinedLength = combinedLength + length (words_of s (snd p))
      in if kCutContainerOnSize \<le> combinedLength then [p] else p # cut_range s combinedLength ps)"

definition erase_range :: "(request_id \<times> ref) list \<Rightarrow> session \<Rightarrow> session" where
  "erase_range queued s = s\<lparr>ms_toSend := drop (length queued) (ms_toSend s)\<rparr>"

record outgoing =
  og_ping :: "ref option"
  og_ack :: "ref option"
  og_resend :: "ref option"
  og_state :: "ref option"
  og_httpWait :: "ref option"
  og_bind :: "ref option"

definition services :: "outgoing \<Rightarrow> ref list" where
  "services og = concat (map (\<lambda>x. case x of None \<Rightarrow> [] | Some r \<Rightarrow> [r])
     [og_ping og, og_ack og, og_resend og, og_state og, og_httpWait og, og_bind og])"

section \<open>A container\<close>

record building =
  bd_words :: "prime list" \<comment> \<open>\<open>*toSendRequest\<close>\<close>
  bd_big :: msg_id \<comment> \<open>\<open>bigMsgId\<close>\<close>
  bd_taken :: nat \<comment> \<open>identifiers taken from the clock\<close>
  bd_session :: session
  bd_sent :: "msg_id list" \<comment> \<open>\<open>sentIdsWrap.messages\<close>\<close>

definition message_of :: "prime list \<Rightarrow> prime list" where
  "message_of ws = take (unat (messageSize ws)) (drop kMessageIdPosition ws)"

definition take_id :: "send_env \<Rightarrow> bool \<Rightarrow> ref \<Rightarrow> building \<Rightarrow> msg_id \<times> building" where
  "take_id e forceNewMsgId r b =
     (let (msgId, k, s) = prepareToSend e r (bd_big b) forceNewMsgId (bd_taken b, bd_session b)
      in (msgId, if bd_big b \<le> msgId
                 then b\<lparr>bd_big := sv_fresh e k, bd_taken := Suc k, bd_session := s\<rparr>
                 else b\<lparr>bd_taken := k, bd_session := s\<rparr>))"

definition placeToContainer :: "send_env \<Rightarrow> bool \<Rightarrow> ref \<Rightarrow> building \<Rightarrow> msg_id \<times> building" where
  "placeToContainer e forceNewMsgId r b =
     (let (msgId, b) = take_id e forceNewMsgId r b
      in (msgId, b\<lparr>bd_words := bd_words b @ message_of (words_of (bd_session b) r)\<rparr>))"

text \<open>The identifier of the request that the one of \<open>r\<close> is to be invoked after.\<close>

definition after_id :: "session \<Rightarrow> ref \<Rightarrow> msg_id" where
  "after_id s r = (case rq_after (ms_heap s r) of None \<Rightarrow> 0 | Some a \<Rightarrow> getMsgId (words_of s a))"

text \<open>The wrapper written into the room that was left for it, and its bytes added to the
  length of its message, which starts at \<open>at\<close>.\<close>

definition put_init :: "nat \<Rightarrow> prime list \<Rightarrow> prime list \<Rightarrow> prime list" where
  "put_init at init ws =
     (let ws = take (at + 4) ws @ init @ drop (at + 4 + length init) ws
      in ws[at + 3 := ws ! (at + 3) + 4 * of_nat (length init)])"

definition wrapped_message :: "send_env \<Rightarrow> ref \<Rightarrow> session \<Rightarrow> prime list \<Rightarrow> prime list" where
  "wrapped_message e r s to =
     (let ws = words_of s r;
          init = (if rq_needsLayer (ms_heap s r) then sv_init e else [])
      in if rq_after (ms_heap s r) \<noteq> None
         then
           let to' = WrapInvokeAfter to ws (after_id s r)
                 (\<lambda>i. map_of (ms_haveSent s) i \<noteq> None) (length init)
           in if init \<noteq> [] then put_init (length to) init to' else to'
         else if init \<noteq> []
         then
           to @ (take 4 (drop 4 ws))[3 := ws ! 7 + 4 * of_nat (length init)] @ init @
             take (unat (lengthInts ws)) (drop kBodyPosition ws)
         else to @ message_of ws)"

definition send_queued :: "send_env \<Rightarrow> bool \<Rightarrow> request_id \<times> ref \<Rightarrow> building \<Rightarrow> building" where
  "send_queued e forceNewMsgId p b =
     (let r = snd p;
          (msgId, b) = take_id e forceNewMsgId r b;
          s = bd_session b;
          q = rq_requestId (ms_heap s r)
      in if q \<noteq> 0 \<and> needAck (words_of s r)
         then
           let s = update_request r (\<lambda>x. x\<lparr>rq_lastSentTime := se_now (sv_session e)\<rparr>) s
           in b\<lparr>bd_words := wrapped_message e r s (bd_words b),
                bd_session := s\<lparr>ms_haveSent := emplace msgId r (ms_haveSent s)\<rparr>,
                bd_sent := bd_sent b @ [msgId]\<rparr>
         else
           b\<lparr>bd_words := bd_words b @ message_of (words_of s r),
             bd_session := (if q \<noteq> 0 then s\<lparr>ms_ackedIds := emplace msgId q (ms_ackedIds s)\<rparr> else s)\<rparr>)"

definition place_service ::
    "send_env \<Rightarrow> bool \<Rightarrow> (msg_id \<Rightarrow> building \<Rightarrow> building) \<Rightarrow> ref option \<Rightarrow> building \<Rightarrow> building" where
  "place_service e forceNewMsgId note r b =
     (case r of
        None \<Rightarrow> b
      | Some r \<Rightarrow> (case placeToContainer e forceNewMsgId r b of (msgId, b) \<Rightarrow> note msgId b))"

definition note_bind :: "msg_id \<Rightarrow> building \<Rightarrow> building" where
  "note_bind i b = b\<lparr>bd_session := (bd_session b)\<lparr>ms_bindMsgId := i\<rparr>, bd_sent := bd_sent b @ [i]\<rparr>"

definition note_ping :: "msg_id \<Rightarrow> building \<Rightarrow> building" where
  "note_ping i b = b\<lparr>bd_session := (bd_session b)\<lparr>ms_pingMsgId := i\<rparr>, bd_sent := bd_sent b @ [i]\<rparr>"

definition note_state :: "ref option \<Rightarrow> msg_id \<Rightarrow> building \<Rightarrow> building" where
  "note_state r i b =
     (case r of
        None \<Rightarrow> b
      | Some r \<Rightarrow> b\<lparr>bd_session := (bd_session b)\<lparr>ms_stateAndResend :=
          emplace i r (ms_stateAndResend (bd_session b))\<rparr>\<rparr>)"

definition container_ints :: "send_env \<Rightarrow> outgoing \<Rightarrow> (request_id \<times> ref) list \<Rightarrow> session \<Rightarrow> 32 word" where
  "container_ints e og queued s =
     2 + sum_list (map (\<lambda>r. messageSize (words_of s r)) (services og)) +
     sum_list (map (\<lambda>p. messageSize (words_of s (snd p)) +
       (if rq_needsLayer (ms_heap s (snd p)) then of_nat (length (sv_init e)) else 0)) queued)"

text \<open>The container is a request of its own: \<open>prepareToSend\<close> gives it the identifier
  \<open>bigMsgId\<close>, as it has none, and its sequence number.\<close>

definition send_container ::
    "send_env \<Rightarrow> outgoing \<Rightarrow> (request_id \<times> ref) list \<Rightarrow> bool \<Rightarrow> nat \<times> session \<Rightarrow>
       prime list \<times> nat \<times> session" where
  "send_container e og queued forceNewMsgId st =
     (let (k, s) = st;
          total = length queued + length (services og);
          b = \<lparr>bd_words = Prepare (container_ints e og queued s) @ [mtpc_msg_container, of_nat total],
               bd_big = sv_fresh e k, bd_taken = Suc k, bd_session = s, bd_sent = []\<rparr>;
          b = place_service e False note_bind (og_bind og) b;
          b = place_service e forceNewMsgId note_ping (og_ping og) b;
          b = fold (send_queued e forceNewMsgId) queued b;
          b = b\<lparr>bd_session := erase_range queued (bd_session b)\<rparr>;
          b = place_service e forceNewMsgId (note_state (og_state og)) (og_state og) b;
          b = place_service e forceNewMsgId (note_state (og_resend og)) (og_resend og) b;
          b = place_service e forceNewMsgId (\<lambda>i b. b) (og_ack og) b;
          b = place_service e forceNewMsgId (\<lambda>i b. b) (og_httpWait og) b;
          (seqNo, s) = nextRequestSeqNumber (needAck (bd_words b)) (bd_session b)
      in (setSeqNo seqNo (setMsgId (bd_big b) (bd_words b)), bd_taken b,
          s\<lparr>ms_sentContainers := emplace (bd_big b)
              \<lparr>sc_sent = se_now (sv_session e), sc_messages = bd_sent b\<rparr> (ms_sentContainers s)\<rparr>))"

section \<open>One message\<close>

definition wrap_after :: "ref \<Rightarrow> session \<Rightarrow> prime list" where
  "wrap_after r s =
     (let ws = words_of s r in
      if rq_after (ms_heap s r) = None then ws
      else WrapInvokeAfter (take 4 ws) ws (after_id s r) (\<lambda>i. map_of (ms_haveSent s) i \<noteq> None) 0)"

definition wrap_layer :: "prime list \<Rightarrow> prime list \<Rightarrow> prime list" where
  "wrap_layer init ws =
     (let n = lengthInts ws
      in take 7 ws @ [push_bit 2 (n + of_nat (length init))] @ init @
         take (unat n) (drop kBodyPosition ws))"

definition send_single ::
    "send_env \<Rightarrow> outgoing \<Rightarrow> (request_id \<times> ref) list \<Rightarrow> ref \<Rightarrow> bool \<Rightarrow> nat \<times> session \<Rightarrow>
       prime list \<times> nat \<times> session" where
  "send_single e og queued r forceNewMsgId st =
     (let (k, s) = st;
          (msgId, k, s) = prepareToSend e r (sv_fresh e k) (forceNewMsgId \<and> og_bind og = None)
            (Suc k, erase_range queued s);
          s = (if og_bind og \<noteq> None then s\<lparr>ms_bindMsgId := msgId\<rparr>
               else if og_ping og \<noteq> None then s\<lparr>ms_pingMsgId := msgId\<rparr>
               else if og_state og \<noteq> None \<or> og_resend og \<noteq> None
               then s\<lparr>ms_stateAndResend := emplace msgId
                      (case og_state og of Some x \<Rightarrow> x | None \<Rightarrow> the (og_resend og))
                      (ms_stateAndResend s)\<rparr>
               else s);
          q = rq_requestId (ms_heap s r)
      in if q = 0 then (words_of s r, k, s)
         else if needAck (words_of s r)
         then
           let s = update_request r (\<lambda>x. x\<lparr>rq_lastSentTime := se_now (sv_session e)\<rparr>) s;
               s = s\<lparr>ms_haveSent := emplace msgId r (ms_haveSent s)\<rparr>;
               ws = wrap_after r s
           in (if sv_init e \<noteq> [] \<and> rq_needsLayer (ms_heap s r) then wrap_layer (sv_init e) ws else ws,
               k, s)
         else (words_of s r, k, s\<lparr>ms_ackedIds := emplace msgId q (ms_ackedIds s)\<rparr>))"

text \<open>The message to send, if there is anything, and whether \<open>tryToSend\<close> runs again for
  what did not fit.\<close>

definition send_all ::
    "send_env \<Rightarrow> outgoing \<Rightarrow> bool \<Rightarrow> bool \<Rightarrow> nat \<times> session \<Rightarrow>
       (prime list \<times> nat \<times> session) option \<times> bool" where
  "send_all e og sendAll forceNewMsgId st =
     (let s = snd st;
          toSend = (if sendAll then ms_toSend s else []);
          queued = cut_range s 0 toSend;
          waiting = services og @ map snd queued
      in case waiting of
           [] \<Rightarrow> (None, False)
         | r # rest \<Rightarrow>
             (Some (if rest = [] \<and> \<not> rq_forceSendInContainer (ms_heap s r)
                    then send_single e og queued r forceNewMsgId st
                    else send_container e og queued forceNewMsgId st),
              queued \<noteq> toSend))"

end
