(* ===== verification/Mtp_Container.thy ===== *)
theory Mtp_Container
  imports Mtp_Send
begin

text \<open>
  What a container that is sent promises: it is framed as the receiver reads it, whatever
  is wrapped in \<open>invokeAfterMsg\<close> or \<open>initConnection\<close>, and its identifier is above those
  of the messages it holds.
\<close>

section \<open>Identifiers\<close>

lemma unused_id_cases:
  "unused_id n e s i k = (j, k') \<Longrightarrow> j = i \<and> k' = k \<or> k < k' \<and> j = sv_fresh e (k' - 1)"
proof (induction n arbitrary: i k)
  case 0
  then show ?case by simp
next
  case (Suc n)
  show ?case
  proof (cases "taken s i")
    case True
    with Suc.prems Suc.IH [of "sv_fresh e k" "Suc k"] show ?thesis by auto
  next
    case False
    with Suc.prems show ?thesis by simp
  qed
qed

lemma replaceMsgId_cases:
  "replaceMsgId e r i (k, s) = (j, k', s') \<Longrightarrow> j = i \<and> k' = k \<or> k < k' \<and> j = sv_fresh e (k' - 1)"
  using unused_id_cases [of "id_fuel s" e s i k]
  by (auto simp: replaceMsgId_def Let_def split: if_splits prod.splits)

lemma prepareToSend_cases:
  assumes "prepareToSend e r i force (k, s) = (j, k', s')"
  shows "j \<le> i \<and> k' = k \<or> k < k' \<and> j = sv_fresh e (k' - 1)"
proof -
  let ?id = "getMsgId (words_of s r)"
  let ?s = "s\<lparr>ms_resendingIds := remove_key ?id (ms_resendingIds s)\<rparr>"
  consider "?id = 0" | "?id \<noteq> 0" "force \<or> i < ?id" | "?id \<noteq> 0" "\<not> (force \<or> i < ?id)"
    by blast
  then show ?thesis
  proof cases
    case 1
    with assms show ?thesis by (simp add: prepareToSend_def Let_def)
  next
    case 2
    with assms have "replaceMsgId e r i (k, ?s) = (j, k', s')"
      by (simp add: prepareToSend_def Let_def)
    from replaceMsgId_cases [OF this] show ?thesis by auto
  next
    case 3
    with assms show ?thesis by (auto simp: prepareToSend_def Let_def not_less)
  qed
qed

text \<open>The loop of \<open>replaceMsgId\<close> ends with an identifier that no table has, as long as
  the clock gives different ones.\<close>

lemma unused_id_taken:
  "taken s (fst (unused_id n e s i k)) \<Longrightarrow> j < n \<Longrightarrow> taken s (sv_fresh e (k + j))"
proof (induction n arbitrary: i k j)
  case 0
  then show ?case by simp
next
  case (Suc n)
  show ?case
  proof (cases "taken s i")
    case True
    with Suc.prems(1) have t: "taken s (fst (unused_id n e s (sv_fresh e k) (Suc k)))" by simp
    show ?thesis
    proof (cases j)
      case 0
      show ?thesis
      proof (cases n)
        case zero: 0
        with t 0 show ?thesis by simp
      next
        case (Suc m)
        with t 0 show ?thesis by (cases "taken s (sv_fresh e k)") simp_all
      qed
    next
      case later: (Suc j')
      with Suc.IH [OF t, of j'] Suc.prems(2) show ?thesis by simp
    qed
  next
    case False
    with Suc.prems(1) show ?thesis by simp
  qed
qed

lemma card_taken: "card {i. taken s i} < id_fuel s"
proof -
  let ?keys = "fst ` set (ms_resendingIds s) \<union> fst ` set (ms_ackedIds s) \<union> fst ` set (ms_haveSent s)"
  have "{i. taken s i} \<subseteq> ?keys"
    by (auto simp: taken_def map_of_eq_None_iff)
  then have "card {i. taken s i} \<le> card ?keys" by (rule card_mono [rotated]) simp
  also have "\<dots> \<le> card (fst ` set (ms_resendingIds s)) + card (fst ` set (ms_ackedIds s)) +
      card (fst ` set (ms_haveSent s))"
    by (rule order_trans [OF card_Un_le]) (simp add: card_Un_le)
  also have "\<dots> \<le> length (ms_resendingIds s) + length (ms_ackedIds s) + length (ms_haveSent s)"
    using card_length [of "map fst (ms_resendingIds s)"] card_length [of "map fst (ms_ackedIds s)"]
      card_length [of "map fst (ms_haveSent s)"] by simp
  finally show ?thesis by (simp add: id_fuel_def)
qed

lemma unused_id_unused:
  assumes "inj_on (sv_fresh e) {k..<k + id_fuel s}"
  shows "\<not> taken s (fst (unused_id (id_fuel s) e s i k))"
proof
  assume "taken s (fst (unused_id (id_fuel s) e s i k))"
  then have all: "taken s (sv_fresh e (k + j))" if "j < id_fuel s" for j
    using unused_id_taken that by blast
  have "taken s (sv_fresh e j)" if "j \<in> {k..<k + id_fuel s}" for j
  proof -
    have "j - k < id_fuel s" "k + (j - k) = j" using that by auto
    with all [of "j - k"] show ?thesis by simp
  qed
  then have "sv_fresh e ` {k..<k + id_fuel s} \<subseteq> {i. taken s i}" by blast
  moreover have "finite {i. taken s i}"
    by (rule finite_subset [of _ UNIV]) simp_all
  ultimately have "card (sv_fresh e ` {k..<k + id_fuel s}) \<le> card {i. taken s i}"
    by (rule card_mono [rotated])
  with assms card_taken [of s] show False by (simp add: card_image)
qed

text \<open>The state of a container under construction: \<open>bigMsgId\<close> is the last identifier
  that was taken and above all that were placed, as long as the clock has given only
  increasing ones.\<close>

definition above :: "nat \<Rightarrow> send_env \<Rightarrow> building \<Rightarrow> bool" where
  "above N e b \<longleftrightarrow> 0 < bd_taken b \<and>
     (bd_taken b \<le> N \<longrightarrow>
       bd_big b = sv_fresh e (bd_taken b - 1) \<and> (\<forall>i \<in> set (bd_sent b). i < bd_big b))"

lemma take_id_cases:
  assumes "take_id e force r b = (i, b')"
  obtains (small) k s where "prepareToSend e r (bd_big b) force (bd_taken b, bd_session b) = (i, k, s)"
    "i < bd_big b" "b' = b\<lparr>bd_taken := k, bd_session := s\<rparr>"
  | (big) k s where "prepareToSend e r (bd_big b) force (bd_taken b, bd_session b) = (i, k, s)"
    "bd_big b \<le> i" "b' = b\<lparr>bd_big := sv_fresh e k, bd_taken := Suc k, bd_session := s\<rparr>"
proof -
  obtain k s where p: "prepareToSend e r (bd_big b) force (bd_taken b, bd_session b) = (i, k, s)"
    using assms by (auto simp: take_id_def split: prod.splits)
  show ?thesis
  proof (cases "i < bd_big b")
    case True
    with assms p have "b' = b\<lparr>bd_taken := k, bd_session := s\<rparr>"
      by (auto simp: take_id_def)
    with p True show ?thesis by (rule small)
  next
    case False
    with assms p have "b' = b\<lparr>bd_big := sv_fresh e k, bd_taken := Suc k, bd_session := s\<rparr>"
      by (auto simp: take_id_def)
    moreover from False have "bd_big b \<le> i" by simp
    ultimately show ?thesis using p by (intro big)
  qed
qed

lemma above_cong:
  assumes "above N e b"
    and same: "bd_taken b' = bd_taken b" "bd_big b' = bd_big b" "bd_sent b' = bd_sent b"
  shows "above N e b'"
  using assms(1) unfolding above_def same .

lemma above_bigD: "above N e b \<Longrightarrow> bd_taken b \<le> N \<Longrightarrow> bd_big b = sv_fresh e (bd_taken b - 1)"
  unfolding above_def by blast

lemma above_sentD: "above N e b \<Longrightarrow> bd_taken b \<le> N \<Longrightarrow> i \<in> set (bd_sent b) \<Longrightarrow> i < bd_big b"
  unfolding above_def by blast

lemma take_id_above:
  assumes mono: "strict_mono_on {..<N} (sv_fresh e)" and b: "above N e b"
    and t: "take_id e force r b = (i, b')"
  shows "above N e b' \<and> (bd_taken b' \<le> N \<longrightarrow> i < bd_big b')"
proof -
  have pos: "0 < bd_taken b" using b by (simp only: above_def)
  have less: "sv_fresh e m < sv_fresh e n" if "m < n" "n < N" for m n
    using strict_mono_onD [OF mono] that by simp
  note D = above_bigD [OF b] above_sentD [OF b]
  from t show ?thesis
  proof (cases rule: take_id_cases)
    case (small k s)
    have k: "k = bd_taken b" if "k \<le> N"
    proof (rule ccontr)
      assume "k \<noteq> bd_taken b"
      with prepareToSend_cases [OF small(1)] have k: "bd_taken b < k" "i = sv_fresh e (k - 1)" by auto
      have "sv_fresh e (bd_taken b - 1) < sv_fresh e (k - 1)"
        by (rule less) (use k pos that in auto)
      with small(2) D(1) k that show False by simp
    qed
    have "0 < k" using prepareToSend_cases [OF small(1)] pos by auto
    have "above N e b'"
      unfolding above_def small(3)
    proof (simp, intro conjI impI ballI)
      show "0 < k" by fact
      show "bd_big b = sv_fresh e (k - Suc 0)" if "k \<le> N" using D(1) k [OF that] that by simp
      show "j < bd_big b" if "k \<le> N" "j \<in> set (bd_sent b)" for j
        using D(2) k [OF that(1)] that by simp
    qed
    with small show ?thesis by simp
  next
    case (big k s)
    have k: "bd_taken b \<le> k" using prepareToSend_cases [OF big(1)] by auto
    have step: "i < sv_fresh e k" if "Suc k \<le> N"
    proof -
      from prepareToSend_cases [OF big(1)] big(2)
      consider "i = bd_big b" "k = bd_taken b" | "bd_taken b < k" "i = sv_fresh e (k - 1)" by fastforce
      then show ?thesis
      proof cases
        case 1
        have "sv_fresh e (bd_taken b - 1) < sv_fresh e k"
          by (rule less) (use 1 pos that in auto)
        with 1 D(1) that show ?thesis by simp
      next
        case 2
        have "sv_fresh e (k - 1) < sv_fresh e k" by (rule less) (use 2 that in auto)
        with 2 show ?thesis by simp
      qed
    qed
    have "above N e b'"
      unfolding above_def big(3)
    proof (simp, intro impI ballI)
      fix j assume n: "Suc k \<le> N" and "j \<in> set (bd_sent b)"
      with D(2) k have "j < bd_big b" by simp
      also have "\<dots> \<le> i" by (rule big(2))
      also have "i < sv_fresh e k" by (rule step [OF n])
      finally show "j < sv_fresh e k" .
    qed
    with step big(3) show ?thesis by simp
  qed
qed

lemma take_id_same:
  "take_id e force r b = (i, b') \<Longrightarrow> bd_sent b' = bd_sent b \<and> bd_words b' = bd_words b"
  by (auto elim: take_id_cases)

lemma place_service_above:
  assumes mono: "strict_mono_on {..<N} (sv_fresh e)" and b: "above N e b"
    and noted: "\<And>i b. above N e b \<Longrightarrow> (bd_taken b \<le> N \<Longrightarrow> i < bd_big b) \<Longrightarrow> above N e (note i b)"
  shows "above N e (place_service e force note r b)"
proof (cases r)
  case None
  with b show ?thesis by (simp add: place_service_def)
next
  case (Some x)
  obtain i b' where t: "take_id e force x b = (i, b')" by (metis surj_pair)
  let ?b = "b'\<lparr>bd_words := bd_words b' @ message_of (words_of (bd_session b') x)\<rparr>"
  have "above N e ?b"
    by (rule above_cong [of N e b']) (use take_id_above [OF mono b t] in simp_all)
  moreover have "bd_taken ?b \<le> N \<Longrightarrow> i < bd_big ?b"
    using take_id_above [OF mono b t] by simp
  ultimately have "above N e (note i ?b)" by (rule noted)
  with Some t show ?thesis
    by (simp add: place_service_def placeToContainer_def)
qed

lemma send_queued_above:
  assumes mono: "strict_mono_on {..<N} (sv_fresh e)" and b: "above N e b"
  shows "above N e (send_queued e force p b)"
proof -
  obtain i b' where t: "take_id e force (snd p) b = (i, b')" by (metis surj_pair)
  let ?r = "snd p"
  let ?out = "send_queued e force p b"
  have keep: "bd_taken ?out = bd_taken b'" "bd_big ?out = bd_big b'"
    "set (bd_sent ?out) \<subseteq> insert i (set (bd_sent b'))"
    using t by (auto simp: send_queued_def Let_def)
  have a: "above N e b'" "bd_taken b' \<le> N \<Longrightarrow> i < bd_big b'"
    using take_id_above [OF mono b t] by simp_all
  have "j < bd_big b'" if "bd_taken b' \<le> N" "j \<in> set (bd_sent ?out)" for j
    using keep(3) that a(2) above_sentD [OF a(1)] by blast
  with a(1) show ?thesis unfolding above_def keep by blast
qed

lemma notes_above:
  "above N e b \<Longrightarrow> (bd_taken b \<le> N \<Longrightarrow> i < bd_big b) \<Longrightarrow> above N e (note_bind i b)"
  "above N e b \<Longrightarrow> (bd_taken b \<le> N \<Longrightarrow> i < bd_big b) \<Longrightarrow> above N e (note_ping i b)"
  "above N e b \<Longrightarrow> above N e (note_state r i b)"
  by (auto simp: above_def note_bind_def note_ping_def note_state_def split: option.split)

text \<open>What is sent keeps the ten primes it began with: the head of the request, the
  constructor and the count.\<close>

lemma length_put_init: "length ws \<le> length (put_init at init ws)"
  by (simp add: put_init_def Let_def)

lemma length_WrapInvokeAfter: "length to \<le> length (WrapInvokeAfter to from i P n)"
  by (simp add: WrapInvokeAfter_def Let_def)

lemma length_wrapped: "length to \<le> length (wrapped_message e r s to)"
  by (auto simp: wrapped_message_def Let_def
      intro: length_WrapInvokeAfter order_trans [OF length_WrapInvokeAfter length_put_init])

lemma length_place_service:
  assumes "\<And>i b. bd_words (noted i b) = bd_words b"
  shows "length (bd_words b) \<le> length (bd_words (place_service e force noted r b))"
  by (auto simp: place_service_def placeToContainer_def take_id_def assms Let_def
      split: option.split prod.split)

lemma length_send_queued: "length (bd_words b) \<le> length (bd_words (send_queued e force p b))"
  using length_wrapped
  by (auto simp: send_queued_def take_id_def Let_def split: prod.split)

lemma length_fold_queued:
  "length (bd_words b) \<le> length (bd_words (fold (send_queued e force) ps b))"
  by (induction ps arbitrary: b) (auto intro: order_trans [OF length_send_queued])

lemma notes_words:
  "bd_words (note_bind i b) = bd_words b" "bd_words (note_ping i b) = bd_words b"
  "bd_words (note_state r i b) = bd_words b"
  by (simp_all add: note_bind_def note_ping_def note_state_def split: option.split)

text \<open>The container as it stands before it is stamped.\<close>

definition filled ::
    "send_env \<Rightarrow> outgoing \<Rightarrow> (request_id \<times> ref) list \<Rightarrow> bool \<Rightarrow> nat \<Rightarrow> session \<Rightarrow> building" where
  "filled e og queued force k s =
     (let b = \<lparr>bd_words = Prepare (container_ints e og queued s) @
                [mtpc_msg_container, of_nat (length queued + length (services og))],
               bd_big = sv_fresh e k, bd_taken = Suc k, bd_session = s, bd_sent = []\<rparr>;
          b = place_service e False note_bind (og_bind og) b;
          b = place_service e force note_ping (og_ping og) b;
          b = fold (send_queued e force) queued b;
          b = b\<lparr>bd_session := erase_range queued (bd_session b)\<rparr>;
          b = place_service e force (note_state (og_state og)) (og_state og) b;
          b = place_service e force (note_state (og_resend og)) (og_resend og) b;
          b = place_service e force (\<lambda>i b. b) (og_ack og) b
      in place_service e force (\<lambda>i b. b) (og_httpWait og) b)"

lemma send_container_filled:
  assumes "send_container e og queued force (k, s) = (ws, k', s')"
  defines "b \<equiv> filled e og queued force k s"
  shows "ws = setSeqNo (fst (nextRequestSeqNumber (needAck (bd_words b)) (bd_session b)))
      (setMsgId (bd_big b) (bd_words b))" "k' = bd_taken b"
    "ms_sentContainers s' = emplace (bd_big b)
      \<lparr>sc_sent = se_now (sv_session e), sc_messages = bd_sent b\<rparr>
      (ms_sentContainers (bd_session b))"
  using assms unfolding send_container_def filled_def Let_def
  by (auto simp: nextRequestSeqNumber_def)

text \<open>What every step keeps holds of the filled container.\<close>

lemma filled_induct:
  assumes start: "P \<lparr>bd_words = Prepare (container_ints e og queued s) @
        [mtpc_msg_container, of_nat (length queued + length (services og))],
      bd_big = sv_fresh e k, bd_taken = Suc k, bd_session = s, bd_sent = []\<rparr>"
    and place: "\<And>f n r b. P b \<Longrightarrow>
      n \<in> {note_bind, note_ping, note_state (og_state og), note_state (og_resend og), \<lambda>i b. b} \<Longrightarrow>
      P (place_service e f n r b)"
    and queue: "\<And>p b. P b \<Longrightarrow> P (send_queued e force p b)"
    and erase: "\<And>b t. P b \<Longrightarrow> P (b\<lparr>bd_session := t\<rparr>)"
  shows "P (filled e og queued force k s)"
proof -
  have fold_queue: "P (fold (send_queued e force) ps b)" if "P b" for ps b
    using that by (induction ps arbitrary: b) (simp_all add: queue)
  show ?thesis
    unfolding filled_def Let_def
    by (intro place erase fold_queue start) simp_all
qed

lemma filled_above:
  assumes "strict_mono_on {..<N} (sv_fresh e)"
  shows "above N e (filled e og queued force k s)"
proof (rule filled_induct)
  show "above N e (place_service e f n r b)" if "above N e b"
    "n \<in> {note_bind, note_ping, note_state (og_state og), note_state (og_resend og), \<lambda>i b. b}"
    for f n r b
    by (rule place_service_above [OF assms that(1)]) (use that(2) notes_above in auto)
  show "above N e (send_queued e force p b)" if "above N e b" for p b
    by (rule send_queued_above [OF assms that])
qed (auto simp: above_def)

lemma filled_length: "10 \<le> length (bd_words (filled e og queued force k s))"
proof (rule filled_induct)
  show "10 \<le> length (bd_words (place_service e f n r b))" if "10 \<le> length (bd_words b)"
    "n \<in> {note_bind, note_ping, note_state (og_state og), note_state (og_resend og), \<lambda>i b. b}"
    for f n r b
    by (rule order_trans [OF that(1) length_place_service]) (use that(2) notes_words in auto)
  show "10 \<le> length (bd_words (send_queued e force p b))" if "10 \<le> length (bd_words b)" for p b
    using that length_send_queued [of b e force p] by simp
qed (simp_all add: Prepare_def kBodyPosition_def)


subsection \<open>New messages\<close>

lemma take_id_new:
  "getMsgId (words_of (bd_session b) r) = 0 \<Longrightarrow>
   take_id e force r b =
     (bd_big b, b\<lparr>bd_big := sv_fresh e (bd_taken b), bd_taken := Suc (bd_taken b),
        bd_session := stamp r (bd_big b) (bd_session b)\<rparr>)"
  by (simp add: take_id_def prepareToSend_def)

lemma taken_send_queued:
  "getMsgId (words_of (bd_session b) (snd p)) = 0 \<Longrightarrow>
   bd_taken (send_queued e force p b) = Suc (bd_taken b)"
  by (simp add: send_queued_def take_id_new Let_def)

lemma words_of_stamp: "q \<noteq> r \<Longrightarrow> words_of (stamp r i s) q = words_of s q"
  by (simp add: stamp_def set_words_def update_request_def words_of_def
      nextRequestSeqNumber_def Let_def)

section \<open>Framing\<close>

text \<open>A message within a container: two primes of identifier, the sequence number, the
  bytes of its body, the body.\<close>

definition framed :: "prime list \<Rightarrow> bool" where
  "framed m \<longleftrightarrow> 4 \<le> length m \<and> m ! 3 = 4 * of_nat (length m - 4)"

text \<open>Stamping changes identifiers and sequence numbers, never the shape of a request.\<close>

definition same_shape :: "session \<Rightarrow> session \<Rightarrow> bool" where
  "same_shape s s' \<longleftrightarrow>
     (\<forall>r. request_ok (words_of s' r) = request_ok (words_of s r) \<and>
       messageSize (words_of s' r) = messageSize (words_of s r) \<and>
       needAck (words_of s' r) = needAck (words_of s r) \<and>
       rq_requestId (ms_heap s' r) = rq_requestId (ms_heap s r) \<and>
       rq_needsLayer (ms_heap s' r) = rq_needsLayer (ms_heap s r))"

lemma same_shape_refl [simp]: "same_shape s s"
  by (simp add: same_shape_def)

lemma same_shape_trans: "same_shape s t \<Longrightarrow> same_shape t u \<Longrightarrow> same_shape s u"
  by (simp add: same_shape_def)

lemma same_shape_heap: "ms_heap t = ms_heap s \<Longrightarrow> same_shape u s \<Longrightarrow> same_shape u t"
  by (simp add: same_shape_def words_of_def)

lemma messageSize_stamps [simp]:
  "messageSize (setMsgId i ws) = messageSize ws" "messageSize (setSeqNo n ws) = messageSize ws"
  by (simp_all add: messageSize_def lengthInts_def setMsgId_def setSeqNo_def write64_other positions)

lemma needAck_setSeqNo [simp]: "needAck (setSeqNo n ws) = needAck ws"
  by (simp add: needAck_def setSeqNo_def positions)

lemma same_shape_stamp: "same_shape s (stamp r i s)"
  by (simp add: same_shape_def stamp_def set_words_def update_request_def words_of_def
      nextRequestSeqNumber_def Let_def)

lemma same_shape_prepare:
  assumes "prepareToSend e r i force (k, s) = (j, k', s')"
  shows "same_shape s s'"
proof -
  have "same_shape u (stamp r j t)" if "ms_heap t = ms_heap u" for u t :: session and j
    using same_shape_trans [OF same_shape_heap [OF that same_shape_refl] same_shape_stamp] .
  with assms show ?thesis
    by (auto simp: prepareToSend_def replaceMsgId_def Let_def same_shape_heap
        split: if_splits prod.splits)
qed

lemma same_shape_touch:
  "same_shape s (update_request r (\<lambda>x. x\<lparr>rq_lastSentTime := t\<rparr>) s)"
  by (simp add: same_shape_def update_request_def words_of_def)

lemma take_id_shape:
  assumes "take_id e force r b = (i, b')"
  shows "same_shape (bd_session b) (bd_session b')" "bd_words b' = bd_words b"
  using assms same_shape_prepare [of e r "bd_big b" force "bd_taken b" "bd_session b"]
  by (auto simp: take_id_def Let_def split: prod.splits if_splits)

lemma message_of_framed:
  assumes ok: "request_ok ws"
  shows "framed (message_of ws)" "of_nat (length (message_of ws)) = messageSize ws"
proof -
  have n: "unat (messageSize ws) = length ws - 4" "8 < length ws"
    using unat_messageSize [OF ok] ok by (simp_all add: request_ok_def has_body_def positions)
  then have m: "message_of ws = drop 4 ws" by (simp add: message_of_def positions)
  have "of_nat (unat (messageSize ws)) = messageSize ws" by simp
  then show "of_nat (length (message_of ws)) = messageSize ws" by (simp only: m n length_drop)
  have "ws ! 7 = of_nat (unat (ws ! 7))" by simp
  also have "\<dots> = 4 * of_nat (length ws - 8)" using ok by (simp add: request_ok_def positions)
  finally show "framed (message_of ws)" using n(2) by (simp add: framed_def m)
qed

text \<open>A message with a longer body, its length word raised by as much.\<close>

lemma framed_longer:
  assumes ok: "request_ok ws"
  defines "body \<equiv> take (unat (lengthInts ws)) (drop kBodyPosition ws)"
  shows "framed ((take 4 (drop kMessageIdPosition ws))
      [3 := ws ! 7 + 4 * of_nat (length extra)] @ extra @ body)"
    "of_nat (length ((take 4 (drop kMessageIdPosition ws))
      [3 := ws ! 7 + 4 * of_nat (length extra)] @ extra @ body)) =
      messageSize ws + of_nat (length extra)"
proof -
  have n: "unat (lengthInts ws) = length ws - 8" "8 < length ws"
    using lengthInts_ok [OF ok] ok by (simp_all add: request_ok_def has_body_def positions)
  have b: "body = drop 8 ws" using n by (simp add: body_def positions)
  have "ws ! 7 = of_nat (unat (ws ! 7))" by simp
  also have "\<dots> = 4 * of_nat (length ws - 8)" using ok by (simp add: request_ok_def positions)
  finally have w: "ws ! 7 = 4 * of_nat (length ws - 8)" .
  have l: "lengthInts ws = of_nat (length ws - 8)"
    using n(1) by (metis of_nat_unat ucast_id)
  show "framed ((take 4 (drop kMessageIdPosition ws))
      [3 := ws ! 7 + 4 * of_nat (length extra)] @ extra @ body)"
    using n(2) by (simp add: framed_def b w positions nth_append algebra_simps)
  show "of_nat (length ((take 4 (drop kMessageIdPosition ws))
      [3 := ws ! 7 + 4 * of_nat (length extra)] @ extra @ body)) =
      messageSize ws + of_nat (length extra)"
    using n(2) by (simp add: b positions messageSize_def l)
qed

lemma put_init_room:
  assumes "length h = 4"
  shows "put_init (length to) init (to @ h @ replicate (length init) 0 @ rest) =
    to @ h[3 := h ! 3 + 4 * of_nat (length init)] @ init @ rest"
  using assms by (simp add: put_init_def Let_def nth_append list_update_append)

lemma wrapped_message_framed:
  fixes to :: "prime list"
  assumes ok: "request_ok (words_of s r)" and long: "10 \<le> length to"
    and init_def: "init = (if rq_needsLayer (ms_heap s r) then sv_init e else [])"
  obtains to' m d where "wrapped_message e r s to = to' @ m" "framed m"
    "d = 0 \<and> to' = to \<or> d = 3 \<and> to' = to[7 := to ! 7 + 12]"
    "of_nat (length m) = messageSize (words_of s r) + of_nat (length init) + of_nat d"
proof -
  let ?ws = "words_of s r"
  let ?head = "take 4 (drop kMessageIdPosition ?ws)"
  let ?body = "take (unat (lengthInts ?ws)) (drop kBodyPosition ?ws)"
  have n: "8 < length ?ws" using ok by (simp add: request_ok_def has_body_def positions)
  have head: "length ?head = 4" "?head ! 3 = ?ws ! 7" using n by (simp_all add: positions)
  note longer = framed_longer [OF ok]
  have plain: "message_of ?ws = ?head @ ?body"
  proof -
    have "unat (messageSize ?ws) = length ?ws - 4" "unat (lengthInts ?ws) = length ?ws - 8"
      using unat_messageSize [OF ok] lengthInts_ok [OF ok] by (simp_all add: positions)
    then show ?thesis
      using n append_take_drop_id [of 4 "drop 4 ?ws"] by (simp add: message_of_def positions)
  qed
  show ?thesis
  proof (cases "rq_after (ms_heap s r)")
    case None
    show ?thesis
    proof (cases "init = []")
      case True
      with None have "wrapped_message e r s to = to @ message_of ?ws"
        by (auto simp: wrapped_message_def init_def Let_def)
      then show ?thesis
        by (rule that [of _ _ 0]) (use message_of_framed [OF ok] True in simp_all)
    next
      case False
      with None have "wrapped_message e r s to =
          to @ (?head[3 := ?ws ! 7 + 4 * of_nat (length init)] @ init @ ?body)"
        by (simp add: wrapped_message_def init_def Let_def positions)
      then show ?thesis
        by (rule that [of _ _ 0]) (use longer [of init] in simp_all)
    qed
  next
    case (Some a)
    let ?id = "after_id s r"
    have seven: "length to + 3 \<noteq> 7" "7 < length to" using long by auto
    show ?thesis
    proof (cases "?id = 0 \<or> map_of (ms_haveSent s) ?id = None")
      case True
      then have w: "WrapInvokeAfter to ?ws ?id (\<lambda>i. map_of (ms_haveSent s) i \<noteq> None) (length init) =
          to @ ?head @ replicate (length init) 0 @ ?body"
        by (auto simp: WrapInvokeAfter_def Let_def)
      have "wrapped_message e r s to =
          to @ (?head[3 := ?ws ! 7 + 4 * of_nat (length init)] @ init @ ?body)"
      proof (cases "init = []")
        case empty: True
        have "?head[3 := ?ws ! 7] = ?head" using head(2) by (metis list_update_id)
        with empty w Some show ?thesis by (simp add: wrapped_message_def init_def Let_def)
      next
        case False
        with w Some put_init_room [OF head(1), of to init ?body] head(2) show ?thesis
          by (simp add: wrapped_message_def init_def [symmetric] Let_def)
      qed
      then show ?thesis
        by (rule that [of _ _ 0]) (use longer [of init] in simp_all)
    next
      case False
      let ?inv = "[mtpc_invokeAfterMsg, lo32 ?id, hi32 ?id]"
      let ?to = "to[7 := to ! 7 + 12]"
      have w: "WrapInvokeAfter to ?ws ?id (\<lambda>i. map_of (ms_haveSent s) i \<noteq> None) (length init) =
          ?to @ ?head[3 := ?head ! 3 + 12] @ replicate (length init) 0 @ ?inv @ ?body"
        using False seven by (simp add: WrapInvokeAfter_def Let_def)
      have "wrapped_message e r s to =
          ?to @ (?head[3 := ?ws ! 7 + 4 * of_nat (length (init @ ?inv))] @ (init @ ?inv) @ ?body)"
      proof (cases "init = []")
        case True
        with w Some head(2) show ?thesis by (simp add: wrapped_message_def init_def Let_def)
      next
        case False
        have "length (?head[3 := ?head ! 3 + 12]) = 4" using head(1) by simp
        from put_init_room [OF this, of ?to init "?inv @ ?body"] w Some False head
        show ?thesis
          by (simp add: wrapped_message_def init_def [symmetric] Let_def algebra_simps)
      qed
      then show ?thesis
        by (rule that [of _ _ 3]) (use longer [of "init @ ?inv"] in \<open>simp_all add: algebra_simps\<close>)
    qed
  qed
qed

text \<open>
  The container in the making: after its first ten primes come framed messages, and its
  length word counts them and what \<open>container_ints\<close> foresaw for the rest.
\<close>

definition built :: "session \<Rightarrow> prime \<Rightarrow> nat \<Rightarrow> prime \<Rightarrow> building \<Rightarrow> bool" where
  "built s0 amount n rest b \<longleftrightarrow>
     same_shape s0 (bd_session b) \<and>
     (\<exists>h ms. bd_words b = h @ concat ms \<and> length h = 10 \<and>
       h ! 8 = mtpc_msg_container \<and> h ! 9 = amount \<and> length ms = n \<and>
       (\<forall>m \<in> set ms. framed m) \<and> h ! 7 = 4 * (2 + of_nat (length (concat ms)) + rest))"

lemma built_shape: "built s0 amount n rest b \<Longrightarrow> same_shape s0 (bd_session b)"
  by (simp add: built_def)

lemma built_cong:
  assumes "built s0 amount n rest b" "bd_words b' = bd_words b"
    and "same_shape (bd_session b) (bd_session b')"
  shows "built s0 amount n rest b'"
  using assms same_shape_trans [OF built_shape [OF assms(1)] assms(3)] by (simp add: built_def)

lemma length_word_raised:
  "4 * (2 + l + (sz + rest)) + 4 * d = 4 * (2 + (l + (sz + d)) + (rest :: prime))"
  by (simp add: algebra_simps)

lemma built_append:
  assumes b: "built s0 amount n (sz + rest) b" and m: "framed m"
    and words: "bd_words b' = to @ m" "d = 0 \<and> to = bd_words b \<or> d = 3 \<and> to = (bd_words b)[7 := bd_words b ! 7 + 12]"
    and sz: "of_nat (length m) = sz + (of_nat d :: prime)"
    and shape: "same_shape (bd_session b) (bd_session b')"
  shows "built s0 amount (Suc n) rest b'"
proof -
  obtain h ms where h: "bd_words b = h @ concat ms" "length h = 10"
    "h ! 8 = mtpc_msg_container" "h ! 9 = amount" "length ms = n" "\<forall>m \<in> set ms. framed m"
    "h ! 7 = 4 * (2 + of_nat (length (concat ms)) + (sz + rest))"
    using b by (auto simp: built_def)
  let ?h = "h[7 := h ! 7 + 4 * of_nat d]"
  have to: "to = ?h @ concat ms"
  proof (cases "d = 0")
    case True
    with words(2) h(1) show ?thesis by simp
  next
    case False
    with words(2) have "to = (bd_words b)[7 := bd_words b ! 7 + 12]" "d = 3" by auto
    with h(1,2) show ?thesis by (simp add: nth_append list_update_append)
  qed
  show ?thesis
    unfolding built_def
  proof (intro conjI exI)
    show "same_shape s0 (bd_session b')"
      by (rule same_shape_trans [OF built_shape [OF b] shape])
    show "bd_words b' = ?h @ concat (ms @ [m])" by (simp add: words(1) to)
    have "?h ! 7 = 4 * (2 + of_nat (length (concat ms)) + (sz + rest)) + 4 * of_nat d"
      using h(2) by (simp only: nth_list_update_eq h(7))
    also have "\<dots> = 4 * (2 + (of_nat (length (concat ms)) + (sz + of_nat d)) + rest)"
      by (rule length_word_raised)
    also have "of_nat (length (concat ms)) + (sz + of_nat d) =
        (of_nat (length (concat (ms @ [m]))) :: prime)"
      by (simp only: sz [symmetric] concat_append length_append of_nat_add) simp
    finally show "?h ! 7 = 4 * (2 + of_nat (length (concat (ms @ [m]))) + rest)" .
    show "length ?h = 10" "?h ! 8 = mtpc_msg_container" "?h ! 9 = amount"
      using h(2-4) by simp_all
    show "length (ms @ [m]) = Suc n" using h(5) by simp
    show "\<forall>m \<in> set (ms @ [m]). framed m" using h(6) m by simp
  qed
qed

definition service_size :: "session \<Rightarrow> ref option \<Rightarrow> prime" where
  "service_size s r = (case r of None \<Rightarrow> 0 | Some r \<Rightarrow> messageSize (words_of s r))"

definition service_count :: "ref option \<Rightarrow> nat" where
  "service_count r = (case r of None \<Rightarrow> 0 | Some _ \<Rightarrow> 1)"

definition queued_size :: "send_env \<Rightarrow> session \<Rightarrow> request_id \<times> ref \<Rightarrow> prime" where
  "queued_size e s p = messageSize (words_of s (snd p)) +
     (if rq_needsLayer (ms_heap s (snd p)) then of_nat (length (sv_init e)) else 0)"

lemma place_service_built:
  assumes ok: "\<And>r. request_ok (words_of s0 r)"
    and b: "built s0 amount n (service_size s0 r + rest) b"
    and noted: "\<And>i b. bd_words (noted i b) = bd_words b"
      "\<And>i b. ms_heap (bd_session (noted i b)) = ms_heap (bd_session b)"
  shows "built s0 amount (n + service_count r) rest (place_service e force noted r b)"
proof (cases r)
  case None
  with b show ?thesis by (simp add: place_service_def service_size_def service_count_def)
next
  case (Some x)
  obtain i b1 where t: "take_id e force x b = (i, b1)" by (metis surj_pair)
  let ?ws = "words_of (bd_session b1) x"
  let ?b = "noted i (b1\<lparr>bd_words := bd_words b1 @ message_of ?ws\<rparr>)"
  note shape = take_id_shape [OF t]
  have s01: "same_shape s0 (bd_session b1)"
    by (rule same_shape_trans [OF built_shape [OF b] shape(1)])
  then have ws: "request_ok ?ws" "messageSize ?ws = messageSize (words_of s0 x)"
    using ok by (simp_all add: same_shape_def)
  have "same_shape (bd_session b) (bd_session ?b)"
    by (rule same_shape_heap [OF _ shape(1)]) (simp add: noted)
  moreover have "bd_words ?b = bd_words b @ message_of ?ws" by (simp add: noted shape)
  moreover have "of_nat (length (message_of ?ws)) = service_size s0 r + (of_nat 0 :: prime)"
    using message_of_framed(2) [OF ws(1)] ws(2) Some by (simp add: service_size_def)
  ultimately have "built s0 amount (Suc n) rest ?b"
    using built_append [OF b message_of_framed(1) [OF ws(1)]] by blast
  with Some t show ?thesis
    by (simp add: place_service_def placeToContainer_def service_count_def)
qed

lemma send_queued_built:
  assumes ok: "\<And>r. request_ok (words_of s0 r)"
    and p: "rq_requestId (ms_heap s0 (snd p)) \<noteq> 0" "needAck (words_of s0 (snd p))"
    and b: "built s0 amount n (queued_size e s0 p + rest) b"
  shows "built s0 amount (Suc n) rest (send_queued e force p b)"
proof -
  let ?r = "snd p"
  obtain i b1 where t: "take_id e force ?r b = (i, b1)" by (metis surj_pair)
  note shape = take_id_shape [OF t]
  let ?s = "update_request ?r (\<lambda>x. x\<lparr>rq_lastSentTime := se_now (sv_session e)\<rparr>) (bd_session b1)"
  have s01: "same_shape s0 (bd_session b1)"
    by (rule same_shape_trans [OF built_shape [OF b] shape(1)])
  have s1: "same_shape (bd_session b) ?s"
    by (rule same_shape_trans [OF shape(1) same_shape_touch])
  have s0s: "same_shape s0 ?s" by (rule same_shape_trans [OF s01 same_shape_touch])
  have q: "rq_requestId (ms_heap (bd_session b1) ?r) \<noteq> 0" "needAck (words_of (bd_session b1) ?r)"
    using s01 p by (simp_all add: same_shape_def)
  let ?b = "send_queued e force p b"
  have out: "bd_words ?b = wrapped_message e ?r ?s (bd_words b)"
    "ms_heap (bd_session ?b) = ms_heap ?s"
    using q by (simp_all add: send_queued_def t Let_def shape)
  have long: "10 \<le> length (bd_words b)" using b by (auto simp: built_def)
  have ws: "request_ok (words_of ?s ?r)" "messageSize (words_of ?s ?r) = messageSize (words_of s0 ?r)"
    "rq_needsLayer (ms_heap ?s ?r) = rq_needsLayer (ms_heap s0 ?r)"
    using ok s0s by (simp_all add: same_shape_def)
  obtain to' m d where w: "wrapped_message e ?r ?s (bd_words b) = to' @ m" "framed m"
    "d = 0 \<and> to' = bd_words b \<or> d = 3 \<and> to' = (bd_words b)[7 := bd_words b ! 7 + 12]"
    "(of_nat (length m) :: prime) = messageSize (words_of ?s ?r) +
      of_nat (length (if rq_needsLayer (ms_heap ?s ?r) then sv_init e else [])) + of_nat d"
    by (rule wrapped_message_framed [OF ws(1) long refl])
  have "of_nat (length m) = queued_size e s0 p + (of_nat d :: prime)"
    using w(4) ws by (simp add: queued_size_def)
  moreover have "same_shape (bd_session b) (bd_session ?b)"
    by (rule same_shape_heap [OF out(2) s1])
  ultimately show ?thesis
    using built_append [OF b w(2) _ w(3)] out(1) w(1) by simp
qed

lemma fold_queued_built:
  assumes "\<And>r. request_ok (words_of s0 r)"
    and "\<forall>p \<in> set ps. rq_requestId (ms_heap s0 (snd p)) \<noteq> 0 \<and> needAck (words_of s0 (snd p))"
    and "built s0 amount n (sum_list (map (queued_size e s0) ps) + rest) b"
  shows "built s0 amount (n + length ps) rest (fold (send_queued e force) ps b)"
  using assms(2,3)
proof (induction ps arbitrary: n b)
  case Nil
  then show ?case by simp
next
  case (Cons p ps)
  have "built s0 amount (Suc n) (sum_list (map (queued_size e s0) ps) + rest) (send_queued e force p b)"
    using Cons.prems by (intro send_queued_built [OF assms(1)]) (simp_all add: add.assoc)
  from Cons.IH [OF _ this] Cons.prems(1)
  have "built s0 amount (Suc n + length ps) rest
    (fold (send_queued e force) ps (send_queued e force p b))" by simp
  then show ?case by simp
qed

lemma notes_heap:
  "ms_heap (bd_session (note_bind i b)) = ms_heap (bd_session b)"
  "ms_heap (bd_session (note_ping i b)) = ms_heap (bd_session b)"
  "ms_heap (bd_session (note_state r i b)) = ms_heap (bd_session b)"
  by (simp_all add: note_bind_def note_ping_def note_state_def split: option.split)

lemma services_count:
  "length (services og) = service_count (og_bind og) + service_count (og_ping og) +
     service_count (og_state og) + service_count (og_resend og) + service_count (og_ack og) +
     service_count (og_httpWait og)"
  by (simp add: services_def service_count_def split: option.split)

lemma container_ints_split:
  "container_ints e og queued s = 2 + (service_size s (og_bind og) + (service_size s (og_ping og) +
     (sum_list (map (queued_size e s) queued) + (service_size s (og_state og) +
     (service_size s (og_resend og) + (service_size s (og_ack og) +
      service_size s (og_httpWait og)))))))"
  by (simp add: container_ints_def services_def service_size_def queued_size_def [abs_def]
      add_ac split: option.split)

lemma filled_built:
  assumes ok: "\<And>r. request_ok (words_of s r)"
    and queue: "\<forall>p \<in> set queued. rq_requestId (ms_heap s (snd p)) \<noteq> 0 \<and> needAck (words_of s (snd p))"
  shows "built s (of_nat (length queued + length (services og)))
    (length queued + length (services og)) 0 (filled e og queued force k s)"
proof -
  define amount :: prime where amount: "amount = of_nat (length queued + length (services og))"
  let ?z = "service_size s"
  define b0 where "b0 = \<lparr>bd_words = Prepare (container_ints e og queued s) @ [mtpc_msg_container, amount],
    bd_big = sv_fresh e k, bd_taken = Suc k, bd_session = s, bd_sent = []\<rparr>"
  note place = place_service_built [OF ok]
  have four: "push_bit 2 (x :: prime) = 4 * x" for x by (simp add: push_bit_eq_mult)
  define b1 where "b1 = place_service e False note_bind (og_bind og) b0"
  define b2 where "b2 = place_service e force note_ping (og_ping og) b1"
  define b3 where "b3 = fold (send_queued e force) queued b2"
  define b4 where "b4 = b3\<lparr>bd_session := erase_range queued (bd_session b3)\<rparr>"
  define b5 where "b5 = place_service e force (note_state (og_state og)) (og_state og) b4"
  define b6 where "b6 = place_service e force (note_state (og_resend og)) (og_resend og) b5"
  define b7 where "b7 = place_service e force (\<lambda>i b. b) (og_ack og) b6"
  define r7 where "r7 = ?z (og_httpWait og) + 0"
  define r6 where "r6 = ?z (og_ack og) + r7"
  define r5 where "r5 = ?z (og_resend og) + r6"
  define r4 where "r4 = ?z (og_state og) + r5"
  define r2 where "r2 = sum_list (map (queued_size e s) queued) + r4"
  define r1 where "r1 = ?z (og_ping og) + r2"
  have "container_ints e og queued s = 2 + (?z (og_bind og) + r1)"
    by (simp add: container_ints_split r1_def r2_def r4_def r5_def r6_def r7_def)
  then have "built s amount 0 (?z (og_bind og) + r1) b0"
    unfolding built_def
    by (intro conjI exI [of _ "bd_words b0"] exI [of _ "[]"])
       (simp_all add: b0_def Prepare_def resize_def nth_append positions four)
  from place [OF this notes_words(1) notes_heap(1), where e = e and force = False]
  have "built s amount (0 + service_count (og_bind og)) (?z (og_ping og) + r2) b1"
    by (simp only: b1_def r1_def)
  from place [OF this notes_words(2) notes_heap(2), where e = e and force = force]
  have "built s amount (0 + service_count (og_bind og) + service_count (og_ping og))
      (sum_list (map (queued_size e s) queued) + r4) b2"
    by (simp only: b2_def r2_def)
  from fold_queued_built [OF ok queue this, of force]
  have b3: "built s amount (0 + service_count (og_bind og) + service_count (og_ping og) + length queued) r4 b3"
    by (simp only: b3_def)
  have "built s amount (0 + service_count (og_bind og) + service_count (og_ping og) + length queued)
      (?z (og_state og) + r5) b4"
    by (rule built_cong [OF b3 [unfolded r4_def]]) (simp_all add: b4_def erase_range_def same_shape_heap)
  from place [OF this notes_words(3) [where r = "og_state og"] notes_heap(3) [where r = "og_state og"], where e = e and force = force]
  have "built s amount (0 + service_count (og_bind og) + service_count (og_ping og) + length queued +
      service_count (og_state og)) (?z (og_resend og) + r6) b5"
    by (simp only: b5_def r5_def)
  from place [OF this notes_words(3) [where r = "og_resend og"] notes_heap(3) [where r = "og_resend og"], where e = e and force = force]
  have "built s amount (0 + service_count (og_bind og) + service_count (og_ping og) + length queued +
      service_count (og_state og) + service_count (og_resend og)) (?z (og_ack og) + r7) b6"
    by (simp only: b6_def r6_def)
  from place [OF this refl refl, where e = e and force = force]
  have "built s amount (0 + service_count (og_bind og) + service_count (og_ping og) + length queued +
      service_count (og_state og) + service_count (og_resend og) + service_count (og_ack og))
      (?z (og_httpWait og) + 0) b7"
    by (simp only: b7_def r7_def)
  from place [OF this refl refl, where e = e and force = force]
  have "built s amount (length queued + length (services og)) 0
      (place_service e force (\<lambda>i b. b) (og_httpWait og) b7)"
    by (simp add: services_count add_ac)
  moreover have "filled e og queued force k s = place_service e force (\<lambda>i b. b) (og_httpWait og) b7"
    by (simp only: filled_def Let_def b0_def b1_def b2_def b3_def b4_def b5_def b6_def b7_def amount)
  ultimately show ?thesis by (simp only: amount)
qed

text \<open>C17:
  What is sent as a container is a request with the container's constructor, the count of
  its messages and just these messages, each framed; its own length word is the size of
  its body, with the wrappers.
\<close>

theorem container_well_framed:
  assumes "\<And>r. request_ok (words_of s r)"
    and "\<forall>p \<in> set queued. rq_requestId (ms_heap s (snd p)) \<noteq> 0 \<and> needAck (words_of s (snd p))"
    and "send_container e og queued force (k, s) = (ws, k', s')"
  shows "\<exists>ms. drop kBodyPosition ws =
      [mtpc_msg_container, of_nat (length ms)] @ concat ms \<and>
    length ms = length queued + length (services og) \<and> (\<forall>m \<in> set ms. framed m) \<and>
    ws ! kLengthPosition = 4 * of_nat (length ws - kBodyPosition)"
proof -
  let ?b = "filled e og queued force k s"
  obtain h ms where h: "bd_words ?b = h @ concat ms" "length h = 10" "h ! 8 = mtpc_msg_container"
    "h ! 9 = of_nat (length ms)" "length ms = length queued + length (services og)"
    "\<forall>m \<in> set ms. framed m" "h ! 7 = 4 * (2 + of_nat (length (concat ms)) + 0)"
    using filled_built [OF assms(1,2), of og e force k] unfolding built_def by auto
  note f = send_container_filled(1) [OF assms(3)]
  have tail: "drop 8 ws = drop 8 h @ concat ms" "ws ! 7 = h ! 7" "length ws = 10 + length (concat ms)"
    using h(1,2) by (simp_all add: f setSeqNo_def setMsgId_def write64_def positions nth_append)
  have "drop 8 h = [h ! 8, h ! 9]"
  proof (rule nth_equalityI)
    show "drop 8 h ! i = [h ! 8, h ! 9] ! i" if "i < length (drop 8 h)" for i
      using that h(2) by (cases i) (auto simp: less_Suc_eq)
  qed (simp add: h(2))
  with tail h show ?thesis
    by (intro exI [of _ ms]) (simp add: positions)
qed

end
