(* ===== verification/Mtp_Receive.thy ===== *)
theory Mtp_Receive
  imports Mtp_Sent
begin

text \<open>
  What a session does with one decrypted message: \<open>handleOneReceived\<close>,
  \<open>handleBindResponse\<close> and \<open>ungzip\<close> of \<open>mtproto/session_private.cpp\<close>.

  The TL classes of \<open>mtproto/scheme/mtproto.tl\<close> are generated by the build, zlib is a
  library and the key binder is a separate object: their functions are fields of
  \<open>recv_env\<close>.  A message is the list of primes from \<open>from\<close> to \<open>end\<close>; a failed
  assertion or a read past \<open>end\<close> is a \<open>fault\<close>.  The parameter \<open>msgId\<close> of
  \<open>handleOneReceived\<close>, which only the debug log uses, is left out.
\<close>

section \<open>Surroundings\<close>

record mtp_readers =
  mr_long :: "64 word reader"
  mr_int :: "prime reader"
  mr_packed :: "bytes reader"
  mr_msgs_ack :: "msg_id list reader"
  mr_bad_msg_notification :: "(msg_id \<times> prime) reader" \<comment> \<open>\<open>bad_msg_id\<close>, \<open>error_code\<close>\<close>
  mr_bad_server_salt :: "(msg_id \<times> 64 word) reader" \<comment> \<open>\<open>bad_msg_id\<close>, \<open>new_server_salt\<close>\<close>
  mr_msgs_state_info :: "(msg_id \<times> bytes) reader" \<comment> \<open>\<open>req_msg_id\<close>, \<open>info\<close>\<close>
  mr_msgs_all_info :: "(msg_id list \<times> bytes) reader" \<comment> \<open>\<open>msg_ids\<close>, \<open>info\<close>\<close>
  mr_msg_detailed_info :: "(msg_id \<times> msg_id) reader" \<comment> \<open>\<open>msg_id\<close>, \<open>answer_msg_id\<close>\<close>
  mr_msg_new_detailed_info :: "msg_id reader" \<comment> \<open>\<open>answer_msg_id\<close>\<close>
  mr_new_session_created :: "(msg_id \<times> 64 word) reader" \<comment> \<open>\<open>first_msg_id\<close>, \<open>server_salt\<close>\<close>
  mr_pong :: "(msg_id \<times> 64 word) reader" \<comment> \<open>\<open>msg_id\<close>, \<open>ping_id\<close>\<close>
  mr_msgs_state_req :: "msg_id list reader"
  mr_msg_resend_req :: "msg_id list reader"
  mr_rpc_error :: "(prime \<times> bytes) reader" \<comment> \<open>\<open>error_code\<close>, \<open>error_message\<close>\<close>

text \<open>A stream of zlib: \<open>zl_inflate z n\<close> is \<open>inflate\<close> with \<open>n\<close> bytes of room, the bytes
  it put and the stream after it; \<open>Z_ERROR\<close> is every other code.\<close>

datatype zcode = Z_OK | Z_STREAM_END | Z_ERROR

record 'z zlib =
  zl_init :: "bytes \<Rightarrow> 'z option"
  zl_inflate :: "'z \<Rightarrow> nat \<Rightarrow> zcode \<times> bytes \<times> 'z"

datatype bind_state = BindSuccess | BindDefinitelyDestroyed | BindFailed

record 'z recv_env =
  re_session :: session_env
  re_readers :: mtp_readers
  re_zlib :: "'z zlib"
  re_protocol_error :: "prime list" \<comment> \<open>\<open>rpc_error 500 PROTOCOL_ERROR\<close>, written\<close>
  re_bind :: "prime list \<Rightarrow> bind_state" \<comment> \<open>\<open>_keyCreator->handleBindResponse\<close>\<close>
  re_released :: bool \<comment> \<open>\<open>_sessionData->releaseKeyCreationOnDone\<close>\<close>
  re_destroyOld :: bool \<comment> \<open>\<open>destroyOldEnoughPersistentKey\<close>\<close>

datatype handle_result =
    Success | Ignored | RestartConnection | ResetSession | DestroyTemporaryKey | ParseError

datatype fault = EmptyMessage | ReadPastEnd | BadStateRequest

record outer_info =
  oi_outerMsgId :: msg_id
  oi_serverSalt :: "64 word"
  oi_serverTime :: int
  oi_badTime :: bool

section \<open>Packed data\<close>

definition kMaxUnpackedMessageLength :: int where
  "kMaxUnpackedMessageLength = 32 * 1024 * 1024"
definition kUnpackedChunkSize :: nat where "kUnpackedChunkSize = 1024 * 1024"
definition kMaxGzipNesting :: nat where "kMaxGzipNesting = 64"

fun words_of_bytes :: "bytes \<Rightarrow> prime list" where
  "words_of_bytes (a # b # c # d # rest) =
     (of_char a + 256 * of_char b + 65536 * of_char c + 16777216 * of_char d) #
     words_of_bytes rest"
| "words_of_bytes _ = []"

text \<open>The loop of \<open>ungzip\<close>: the bytes unpacked and the room left in the last chunk.\<close>

function ungzip_loop :: "'z zlib \<Rightarrow> nat \<Rightarrow> 'z \<Rightarrow> bytes \<Rightarrow> (bytes \<times> nat) option" where
  "ungzip_loop zl sizeLimit stream result =
     (if sizeLimit \<le> length result
      then (case zl_inflate zl stream 1 of
              (res, extra, _) \<Rightarrow>
                if res = Z_STREAM_END \<and> extra = [] then Some (result, 0) else None)
      else let chunkSize = min kUnpackedChunkSize (sizeLimit - length result) in
        (case zl_inflate zl stream chunkSize of
           (res, put, stream') \<Rightarrow>
             if res = Z_ERROR then None
             else if res = Z_STREAM_END then Some (result @ put, chunkSize - length put)
             else if length put < chunkSize then None
             else ungzip_loop zl sizeLimit stream' (result @ put)))"
  by auto
termination
  by (relation "measure (\<lambda>(zl, l, z, out). l - length out)")
     (auto simp: kUnpackedChunkSize_def)

declare ungzip_loop.simps [simp del]

text \<open>\<open>ungzip\<close>; the empty buffer stands for each failure.\<close>

definition ungzip :: "'z recv_env \<Rightarrow> prime list \<Rightarrow> int \<Rightarrow> prime list" where
  "ungzip e from sizeLimit =
     (if sizeLimit \<le> 0 then []
      else case mr_packed (re_readers e) from of
        None \<Rightarrow> []
      | Some (packed, _) \<Rightarrow>
          (case zl_init (re_zlib e) packed of
             None \<Rightarrow> []
           | Some stream \<Rightarrow>
               (case ungzip_loop (re_zlib e) (nat sizeLimit) stream [] of
                  None \<Rightarrow> []
                | Some (result, avail) \<Rightarrow>
                    if avail mod 4 \<noteq> 0 then [] else words_of_bytes result)))"

section \<open>Service messages\<close>

text \<open>The answer with a bad time to a message that was not sent.\<close>

definition ignored_if_bad :: "outer_info \<Rightarrow> handle_result" where
  "ignored_if_bad info = (if oi_badTime info then Ignored else Success)"

definition on_msgs_ack ::
    "'z recv_env \<Rightarrow> outer_info \<Rightarrow> prime list \<Rightarrow> session \<Rightarrow> handle_result \<times> session" where
  "on_msgs_ack e info ws s =
     (case mr_msgs_ack (re_readers e) ws of
        None \<Rightarrow> (ParseError, s)
      | Some (ids, _) \<Rightarrow>
          if ids = [] then (ignored_if_bad info, s)
          else if oi_badTime info
          then (case requestsFixTimeSalt ids (oi_serverSalt info) (oi_serverTime info) s of
                  (True, s) \<Rightarrow> (Success, requestsAcked (re_session e) ids False s)
                | (False, s) \<Rightarrow> (Ignored, s))
          else (Success, requestsAcked (re_session e) ids False
                  (correctUnixtimeByFastRequest (re_session e) ids (oi_serverTime info) s)))"

definition push_received :: "response \<Rightarrow> session \<Rightarrow> session" where
  "push_received r s = s\<lparr>ms_haveReceived := ms_haveReceived s @ [r]\<rparr>"

definition on_bad_msg_notification ::
    "'z recv_env \<Rightarrow> outer_info \<Rightarrow> prime list \<Rightarrow> session \<Rightarrow> handle_result \<times> session" where
  "on_bad_msg_notification e info ws s =
     (case mr_bad_msg_notification (re_readers e) ws of
        None \<Rightarrow> (ParseError, s)
      | Some ((resendId, errorCode), _) \<Rightarrow>
          if errorCode \<in> {16, 17, 32, 33, 64}
          then
            if wasSent s resendId = 0 then (ignored_if_bad info, s)
            else if errorCode \<in> {16, 17, 64}
            then (Success, resend (re_session e) resendId 0
                    (fix_salt_time (oi_serverSalt info) (oi_serverTime info) s))
            else
              let s = (if oi_badTime info
                       then fix_salt_time (oi_serverSalt info) (oi_serverTime info) s else s)
              in if ms_bindMsgId s \<noteq> 0 then (RestartConnection, s) else (ResetSession, s)
          else
            let requestId = wasSent s resendId in
            if ms_bindMsgId s \<noteq> 0 then (RestartConnection, s)
            else if requestId \<noteq> 0
            then (ignored_if_bad info,
                  push_received \<lparr>rs_reply = re_protocol_error e,
                    rs_outerMsgId = oi_outerMsgId info, rs_requestId = requestId\<rparr> s)
            else (ignored_if_bad info, s))"

definition on_bad_server_salt ::
    "'z recv_env \<Rightarrow> outer_info \<Rightarrow> prime list \<Rightarrow> session \<Rightarrow> handle_result \<times> session" where
  "on_bad_server_salt e info ws s =
     (case mr_bad_server_salt (re_readers e) ws of
        None \<Rightarrow> (ParseError, s)
      | Some ((resendId, newSalt), _) \<Rightarrow>
          if wasSent s resendId = 0 then (ignored_if_bad info, s)
          else
            let s = emit (UpdateUnixtime (oi_serverTime info) False) (s\<lparr>ms_sessionSalt := newSalt\<rparr>)
            in if ms_bindMsgId s \<noteq> 0 then (RestartConnection, s)
               else case setState ConnectedState ConnectingState s of
                      (changed, s) \<Rightarrow>
                        (Success, resend (re_session e) resendId 0
                          (if changed then resendAll (re_session e) s else s)))"

definition on_msgs_state_info ::
    "'z recv_env \<Rightarrow> outer_info \<Rightarrow> prime list \<Rightarrow> session \<Rightarrow> fault + handle_result \<times> session" where
  "on_msgs_state_info e info ws s =
     (case mr_msgs_state_info (re_readers e) ws of
        None \<Rightarrow> Inr (ParseError, s)
      | Some ((reqMsgId, states), _) \<Rightarrow>
          (case map_of (ms_stateAndResend s) reqMsgId of
             None \<Rightarrow> Inr (ignored_if_bad info, s)
           | Some r \<Rightarrow>
               let s = (if oi_badTime info
                        then fix_salt_time (oi_serverSalt info) (oi_serverTime info) s else s);
                   original = rq_words (ms_heap s r)
               in if length original \<le> kBodyPosition then Inl BadStateRequest
                  else
                    let s = requestsAcked (re_session e) [reqMsgId] True s;
                        rFrom = drop kBodyPosition original;
                        ids = (if hd rFrom = mtpc_msgs_state_req
                               then mr_msgs_state_req (re_readers e) rFrom
                               else mr_msg_resend_req (re_readers e) rFrom)
                    in case ids of
                         None \<Rightarrow> Inr (ParseError, s)
                       | Some (ids, _) \<Rightarrow>
                           Inr (Success, handleMsgsStates (re_session e) ids states s)))"

definition on_msgs_all_info ::
    "'z recv_env \<Rightarrow> outer_info \<Rightarrow> prime list \<Rightarrow> session \<Rightarrow> handle_result \<times> session" where
  "on_msgs_all_info e info ws s =
     (if oi_badTime info then (Ignored, s)
      else case mr_msgs_all_info (re_readers e) ws of
             None \<Rightarrow> (ParseError, s)
           | Some ((ids, states), _) \<Rightarrow>
               (Success, handleMsgsStates (re_session e) ids states s))"

text \<open>An answer that was announced: acknowledged when it was received, otherwise asked
  for again.\<close>

definition ask_answer :: "msg_id \<Rightarrow> session \<Rightarrow> session" where
  "ask_answer resMsgId s =
     (if lookup resMsgId (ms_receivedMessageIds s) \<noteq> NotFound
      then s\<lparr>ms_ackRequestData := ms_ackRequestData s @ [resMsgId]\<rparr>
      else s\<lparr>ms_resendRequestData := ms_resendRequestData s @ [resMsgId]\<rparr>)"

definition on_msg_detailed_info ::
    "'z recv_env \<Rightarrow> outer_info \<Rightarrow> prime list \<Rightarrow> session \<Rightarrow> handle_result \<times> session" where
  "on_msg_detailed_info e info ws s =
     (case mr_msg_detailed_info (re_readers e) ws of
        None \<Rightarrow> (ParseError, s)
      | Some ((msgId, answerId), _) \<Rightarrow>
          (case (if oi_badTime info
                 then requestsFixTimeSalt [msgId] (oi_serverSalt info) (oi_serverTime info) s
                 else (True, s)) of
             (False, s) \<Rightarrow> (Ignored, s)
           | (True, s) \<Rightarrow>
               (Success, ask_answer answerId (requestsAcked (re_session e) [msgId] False s))))"

definition on_msg_new_detailed_info ::
    "'z recv_env \<Rightarrow> outer_info \<Rightarrow> prime list \<Rightarrow> session \<Rightarrow> handle_result \<times> session" where
  "on_msg_new_detailed_info e info ws s =
     (if oi_badTime info then (Ignored, s)
      else case mr_msg_new_detailed_info (re_readers e) ws of
             None \<Rightarrow> (ParseError, s)
           | Some (answerId, _) \<Rightarrow> (Success, ask_answer answerId s))"

definition on_new_session_created ::
    "'z recv_env \<Rightarrow> outer_info \<Rightarrow> prime list \<Rightarrow> session \<Rightarrow> handle_result \<times> session" where
  "on_new_session_created e info ws s =
     (case mr_new_session_created (re_readers e) ws of
        None \<Rightarrow> (ParseError, s)
      | Some ((firstMsgId, salt), rest) \<Rightarrow>
          (case (if oi_badTime info
                 then requestsFixTimeSalt [firstMsgId] (oi_serverSalt info) (oi_serverTime info) s
                 else (True, s)) of
             (False, s) \<Rightarrow> (Ignored, s)
           | (True, s) \<Rightarrow>
               let s = s\<lparr>ms_sessionSalt := salt\<rparr>;
                   toResend = map fst (filter (\<lambda>p. rq_requestId (ms_heap s (snd p)) \<noteq> 0)
                     (takeWhile (\<lambda>p. fst p < firstMsgId) (ms_haveSent s)));
                   s = fold (\<lambda>i. resend (re_session e) i 10) toResend s;
                   update = take (length ws - length rest) ws
               in (Success, push_received \<lparr>rs_reply = update,
                     rs_outerMsgId = oi_outerMsgId info, rs_requestId = 0\<rparr> s)))"

definition on_pong ::
    "'z recv_env \<Rightarrow> outer_info \<Rightarrow> prime list \<Rightarrow> session \<Rightarrow> handle_result \<times> session" where
  "on_pong e info ws s =
     (case mr_pong (re_readers e) ws of
        None \<Rightarrow> (ParseError, s)
      | Some ((msgId, pingId), _) \<Rightarrow>
          if wasSent s msgId = 0 then (Ignored, s)
          else
            let s = (if pingId = ms_pingId s then s\<lparr>ms_pingId := 0\<rparr> else s)
            in case (if oi_badTime info
                     then requestsFixTimeSalt [msgId] (oi_serverSalt info) (oi_serverTime info) s
                     else (True, s)) of
                 (False, s) \<Rightarrow> (Ignored, s)
               | (True, s) \<Rightarrow> (Success, requestsAcked (re_session e) [msgId] True s))"

text \<open>Everything else is an update, whole from the type on.\<close>

definition on_update :: "outer_info \<Rightarrow> prime list \<Rightarrow> session \<Rightarrow> handle_result \<times> session" where
  "on_update info ws s =
     (if oi_badTime info then (ResetSession, s)
      else if ms_regular s
      then (Success, push_received \<lparr>rs_reply = ws, rs_outerMsgId = oi_outerMsgId info,
              rs_requestId = 0\<rparr> s)
      else (Success, s))"

text \<open>The cases of the \<open>switch\<close> that neither recurse nor unpack.\<close>

definition handle_service ::
    "'z recv_env \<Rightarrow> outer_info \<Rightarrow> prime list \<Rightarrow> session \<Rightarrow> fault + handle_result \<times> session" where
  "handle_service e info ws s =
     (let t = hd ws in
      if t = mtpc_msgs_ack then Inr (on_msgs_ack e info ws s)
      else if t = mtpc_bad_msg_notification then Inr (on_bad_msg_notification e info ws s)
      else if t = mtpc_bad_server_salt then Inr (on_bad_server_salt e info ws s)
      else if t = mtpc_msgs_state_info then on_msgs_state_info e info ws s
      else if t = mtpc_msgs_all_info then Inr (on_msgs_all_info e info ws s)
      else if t = mtpc_msg_detailed_info then Inr (on_msg_detailed_info e info ws s)
      else if t = mtpc_msg_new_detailed_info then Inr (on_msg_new_detailed_info e info ws s)
      else if t = mtpc_new_session_created then Inr (on_new_session_created e info ws s)
      else if t = mtpc_pong then Inr (on_pong e info ws s)
      else Inr (on_update info ws s))"

section \<open>Answers\<close>

text \<open>\<open>IsDestroyedTemporaryKeyError\<close> of \<open>mtproto/details/mtproto_bound_key_creator.cpp\<close>.\<close>

definition IsDestroyedTemporaryKeyError :: "'z recv_env \<Rightarrow> prime list \<Rightarrow> bool" where
  "IsDestroyedTemporaryKeyError e buffer =
     (case mr_rpc_error (re_readers e) buffer of
        None \<Rightarrow> False
      | Some ((code, message), _) \<Rightarrow> code = 401 \<and> message = ''AUTH_KEY_PERM_EMPTY'')"

definition handleBindResponse ::
    "'z recv_env \<Rightarrow> msg_id \<Rightarrow> prime list \<Rightarrow> session \<Rightarrow> handle_result \<times> session" where
  "handleBindResponse e requestMsgId reply s =
     (if ms_keyCreator s = NoKeyCreator \<or> ms_bindMsgId s = 0 \<or> ms_bindMsgId s \<noteq> requestMsgId
      then (Ignored, s)
      else
        let s = s\<lparr>ms_bindMsgId := 0\<rparr> in
        case re_bind e reply of
          BindSuccess \<Rightarrow>
            let s = emit ReleaseKeyCreationOnDone (s\<lparr>ms_keyCreator := NoKeyCreator\<rparr>)
            in if re_released e then (Success, emit QueueNeedToResumeAndSend s)
               else (DestroyTemporaryKey, s)
        | BindDefinitelyDestroyed \<Rightarrow>
            if re_destroyOld e then (DestroyTemporaryKey, emit KeyDestroyedOnServer s)
            else (Success, emit QueueNeedToResumeAndSend s)
        | BindFailed \<Rightarrow> (Success, emit QueueNeedToResumeAndSend s))"

text \<open>What \<open>rpc_result\<close> does with the answer, once it is unpacked.\<close>

definition deliver_result ::
    "'z recv_env \<Rightarrow> outer_info \<Rightarrow> msg_id \<Rightarrow> prime list \<Rightarrow> session \<Rightarrow> handle_result \<times> session" where
  "deliver_result e info requestMsgId reply s =
     (if hd reply = mtpc_rpc_error \<and> IsDestroyedTemporaryKeyError e reply
      then (DestroyTemporaryKey, s)
      else
        let s = (if hd reply = mtpc_rpc_error then s else emit NotifyConnectionInited s);
            s = requestsAcked (re_session e) [requestMsgId] True s
        in case handleBindResponse e requestMsgId reply s of
             (bindResult, s) \<Rightarrow>
               if bindResult \<noteq> Ignored then (bindResult, s)
               else
                 let requestId = wasSent s requestMsgId
                 in if requestId \<noteq> 0 \<and> requestId \<noteq> anyRequest
                    then (Success, push_received \<lparr>rs_reply = reply,
                            rs_outerMsgId = oi_outerMsgId info, rs_requestId = requestId\<rparr> s)
                    else (Success, s))"

definition on_rpc_result ::
    "'z recv_env \<Rightarrow> outer_info \<Rightarrow> prime list \<Rightarrow> int \<Rightarrow> nat \<Rightarrow> session \<Rightarrow>
       fault + handle_result \<times> int \<times> session" where
  "on_rpc_result e info ws unpackedBudget gzipDepth s =
     (if length ws < 3 then Inr (ParseError, unpackedBudget, s)
      else case mr_long (re_readers e) (tl ws) of
        None \<Rightarrow> Inr (ParseError, unpackedBudget, s)
      | Some (requestMsgId, from) \<Rightarrow>
          (case (if oi_badTime info
                 then requestsFixTimeSalt [requestMsgId] (oi_serverSalt info) (oi_serverTime info) s
                 else (True, s)) of
             (False, s) \<Rightarrow> Inr (Ignored, unpackedBudget, s)
           | (True, s) \<Rightarrow>
               if from = [] then Inl ReadPastEnd
               else if hd from = mtpc_gzip_packed
               then
                 if kMaxGzipNesting \<le> gzipDepth then Inr (RestartConnection, unpackedBudget, s)
                 else
                   let reply = ungzip e (tl from) unpackedBudget
                   in if reply = [] then Inr (RestartConnection, unpackedBudget, s)
                      else Inr (fst (deliver_result e info requestMsgId reply s),
                             unpackedBudget - 4 * int (length reply),
                             snd (deliver_result e info requestMsgId reply s))
               else Inr (fst (deliver_result e info requestMsgId from s), unpackedBudget,
                      snd (deliver_result e info requestMsgId from s))))"

section \<open>One message\<close>

text \<open>The head of a contained message: its identifier, whether it needs an
  acknowledgement, the primes of its body and the primes after the head.\<close>

definition container_head ::
    "mtp_readers \<Rightarrow> prime list \<Rightarrow> handle_result + msg_id \<times> bool \<times> nat \<times> prime list" where
  "container_head mr ws =
     (if length ws \<le> 4 then Inl ParseError
      else case mr_long mr (take 4 ws) of
        None \<Rightarrow> Inl ParseError
      | Some (inMsgId, r1) \<Rightarrow>
          if inMsgId AND 3 \<noteq> 1 \<and> inMsgId AND 3 \<noteq> 3 then Inl RestartConnection
          else (case mr_int mr r1 of
            None \<Rightarrow> Inl ParseError
          | Some (inSeqNo, r2) \<Rightarrow>
              (case mr_int mr r2 of
                 None \<Rightarrow> Inl ParseError
               | Some (len, r3) \<Rightarrow>
                   if len AND 3 \<noteq> 0 \<or> sint len < 4 then Inl RestartConnection
                   else Inr (inMsgId, inSeqNo AND 1 \<noteq> 0, nat (sint len) div 4,
                          drop (4 - length r3) ws))))"

lemma container_head_some:
  assumes "container_head mr ws = Inr (i, a, m, rest)"
  shows "1 \<le> m" "length rest \<le> length ws" "i AND 3 = 1 \<or> i AND 3 = 3"
proof -
  have four: "Suc 0 \<le> nat (sint n) div 4" if "\<not> sint (n :: prime) < 4" for n
  proof -
    have "4 \<le> nat (sint n)" using that by simp
    then show ?thesis by linarith
  qed
  show "1 \<le> m" "length rest \<le> length ws" "i AND 3 = 1 \<or> i AND 3 = 3"
    using assms by (auto simp: container_head_def four simp del: not_less split: if_splits option.splits)
qed

definition push_ack :: "bool \<Rightarrow> msg_id \<Rightarrow> session \<Rightarrow> session" where
  "push_ack needs_ack i s =
     (if needs_ack then s\<lparr>ms_ackRequestData := ms_ackRequestData s @ [i]\<rparr> else s)"

definition register_id :: "msg_id \<Rightarrow> bool \<Rightarrow> session \<Rightarrow> ids_result \<times> session" where
  "register_id i needs_ack s =
     (case registerMsgId i needs_ack (ms_receivedMessageIds s) of
        (res, ids) \<Rightarrow> (res, s\<lparr>ms_receivedMessageIds := ids\<rparr>))"

text \<open>A packed message is one level deeper, a contained one shorter.\<close>

definition receive_measure ::
    "('z recv_env \<times> prime list \<times> outer_info \<times> int \<times> nat \<times> session) +
     ('z recv_env \<times> nat \<times> prime list \<times> outer_info \<times> int \<times> nat \<times> session) \<Rightarrow> nat \<times> nat" where
  "receive_measure x =
     (case x of
        Inl (e, ws, info, b, d, s) \<Rightarrow> (kMaxGzipNesting - d, 2 * length ws)
      | Inr (e, n, ws, info, b, d, s) \<Rightarrow> (kMaxGzipNesting - d, Suc (2 * length ws)))"

function (sequential) handleOneReceived ::
    "'z recv_env \<Rightarrow> prime list \<Rightarrow> outer_info \<Rightarrow> int \<Rightarrow> nat \<Rightarrow> session \<Rightarrow>
       fault + handle_result \<times> int \<times> session" and
  container_loop ::
    "'z recv_env \<Rightarrow> nat \<Rightarrow> prime list \<Rightarrow> outer_info \<Rightarrow> int \<Rightarrow> nat \<Rightarrow> session \<Rightarrow>
       fault + handle_result \<times> int \<times> session" where
  "handleOneReceived e ws info unpackedBudget gzipDepth s =
     (if ws = [] then Inl EmptyMessage
      else if hd ws = mtpc_gzip_packed
      then
        if kMaxGzipNesting \<le> gzipDepth then Inr (RestartConnection, unpackedBudget, s)
        else
          let reply = ungzip e (tl ws) unpackedBudget
          in if reply = [] then Inr (RestartConnection, unpackedBudget, s)
             else handleOneReceived e reply info (unpackedBudget - 4 * int (length reply))
                    (Suc gzipDepth) s
      else if hd ws = mtpc_msg_container
      then
        if length ws \<le> 1 then Inr (ParseError, unpackedBudget, s)
        else container_loop e (unat (ws ! 1)) (drop 2 ws) info unpackedBudget gzipDepth s
      else if hd ws = mtpc_rpc_result then on_rpc_result e info ws unpackedBudget gzipDepth s
      else case handle_service e info ws s of
             Inl f \<Rightarrow> Inl f
           | Inr (res, s') \<Rightarrow> Inr (res, unpackedBudget, s'))"
| "container_loop e msgsLeft ws info unpackedBudget gzipDepth s =
     (if msgsLeft = 0 then Inr (Success, unpackedBudget, s)
      else case container_head (re_readers e) ws of
        Inl res \<Rightarrow> Inr (res, unpackedBudget, s)
      | Inr (inMsgId, needs_ack, m, rest) \<Rightarrow>
          let s = push_ack needs_ack inMsgId s in
          if length rest < m then Inr (ParseError, unpackedBudget, s)
          else
            let registered = fst (register_id inMsgId needs_ack s);
                s = snd (register_id inMsgId needs_ack s)
            in if registered = IdsTooOld then Inr (ResetSession, unpackedBudget, s)
               else if registered = IdsDuplicate
               then container_loop e (msgsLeft - 1) (drop m rest) info unpackedBudget gzipDepth s
               else case handleOneReceived e (take m rest) info unpackedBudget gzipDepth s of
                      Inl f \<Rightarrow> Inl f
                    | Inr (res, budget, s') \<Rightarrow>
                        if res \<noteq> Success then Inr (res, budget, s')
                        else container_loop e (msgsLeft - 1) (drop m rest)
                               (info\<lparr>oi_badTime := False\<rparr>) budget gzipDepth s')"
  by pat_completeness auto

termination
proof (relation "inv_image (less_than <*lex*> less_than) receive_measure", goal_cases)
  case 1
  then show ?case by auto
next
  case (2 e ws info b d s)
  then show ?case by (simp add: receive_measure_def diff_less_mono2)
next
  case (3 e ws info b d s)
  then show ?case by (auto simp: receive_measure_def)
next
  case (4 e n ws info b d s)
  then show ?case using container_head_some [of "re_readers e" ws]
    by (fastforce simp: receive_measure_def)
next
  case (5 e n ws info b d s)
  then show ?case using container_head_some [of "re_readers e" ws]
    by (fastforce simp: receive_measure_def)
next
  case (6 e n ws info b d s)
  then show ?case using container_head_some [of "re_readers e" ws]
    by (fastforce simp: receive_measure_def)
qed

declare handleOneReceived.simps [simp del] container_loop.simps [simp del]

end
