(* ===== verification/Mtp_Replay.thy ===== *)
theory Mtp_Replay
  imports Mtp_Receive
begin

text \<open>
  What every message leaves intact.  The locale \<open>receive_invariant\<close> states what the
  handlers of single messages must promise of a predicate on the unpacking budget and
  the session; its lemma carries the predicate through containers and packed messages.
  It is interpreted for the window of received identifiers (no identifier that was
  accepted is forgotten) and for the budget.
\<close>

section \<open>The window is touched by registration only\<close>

named_theorems received_simps

lemmas [received_simps] = resend_received requestsAcked_received

lemma received_fields [received_simps]:
  "ms_receivedMessageIds (push_received r s) = ms_receivedMessageIds s"
  "ms_receivedMessageIds (ask_answer i s) = ms_receivedMessageIds s"
  "ms_receivedMessageIds (push_ack a i s) = ms_receivedMessageIds s"
  "ms_receivedMessageIds (fix_salt_time salt t s) = ms_receivedMessageIds s"
  by (simp_all add: push_received_def ask_answer_def push_ack_def fix_salt_time_def
      correctUnixtimeWithBadLocal_def)

lemma requestsFixTimeSalt_received [received_simps]:
  "ms_receivedMessageIds (snd (requestsFixTimeSalt ids salt t s)) = ms_receivedMessageIds s"
  by (simp add: requestsFixTimeSalt_def received_simps)

lemma setState_received [received_simps]:
  "ms_receivedMessageIds (snd (setState a b s)) = ms_receivedMessageIds s"
  by (simp add: setState_def Let_def)

lemma resendAll_received [received_simps]:
  "ms_receivedMessageIds (resendAll e s) = ms_receivedMessageIds s"
proof -
  have "ms_receivedMessageIds (fold (\<lambda>(i, r). requeue e i r) ps t) = ms_receivedMessageIds t"
    for ps t by (induction ps arbitrary: t) auto
  then show ?thesis by (simp add: resendAll_def)
qed

lemma correctUnixtimeByFastRequest_received [received_simps]:
  "ms_receivedMessageIds (correctUnixtimeByFastRequest e ids t s) = ms_receivedMessageIds s"
  by (induction e ids t s rule: correctUnixtimeByFastRequest.induct)
     (auto simp: Let_def split: option.split)

lemma handle_state_received:
  "ms_receivedMessageIds (fst (handle_state e p (s, acked))) = ms_receivedMessageIds s"
  by (cases p) (simp add: handle_state_def Let_def received_simps)

lemma handleMsgsStates_received [received_simps]:
  "ms_receivedMessageIds (handleMsgsStates e ids states s) = ms_receivedMessageIds s"
proof -
  have run: "ms_receivedMessageIds (fst (fold (handle_state e) ps (t, acked))) =
      ms_receivedMessageIds t" for ps t acked
  proof (induction ps arbitrary: t acked)
    case Nil
    then show ?case by simp
  next
    case (Cons p ps)
    obtain t' acked' where one: "handle_state e p (t, acked) = (t', acked')" by (metis surj_pair)
    with Cons.IH [of t' acked'] handle_state_received [of e p t acked] show ?case by simp
  qed
  obtain t acked where f: "fold (handle_state e) (zip ids states) (s, []) = (t, acked)"
    by (metis surj_pair)
  with run [of "zip ids states" s "[]"] show ?thesis
    by (simp add: handleMsgsStates_def received_simps)
qed

lemma fold_resend_received [received_simps]:
  "ms_receivedMessageIds (fold (\<lambda>i. resend e i w) ids s) = ms_receivedMessageIds s"
  by (induction ids arbitrary: s) (simp_all add: resend_received)

lemma requestsFixTimeSalt_keeps:
  "requestsFixTimeSalt ids salt t s = (ok, s') \<Longrightarrow> ms_receivedMessageIds s' = ms_receivedMessageIds s"
  using requestsFixTimeSalt_received [of ids salt t s] by simp

lemma setState_keeps:
  "setState a b s = (ok, s') \<Longrightarrow> ms_receivedMessageIds s' = ms_receivedMessageIds s"
  using setState_received [of a b s] by simp

lemma on_msgs_ack_received:
  "ms_receivedMessageIds (snd (on_msgs_ack e info ws s)) = ms_receivedMessageIds s"
  by (auto simp: on_msgs_ack_def received_simps dest!: requestsFixTimeSalt_keeps
      split: option.split prod.split bool.split)

lemma on_bad_msg_notification_received:
  "ms_receivedMessageIds (snd (on_bad_msg_notification e info ws s)) = ms_receivedMessageIds s"
  by (simp add: on_bad_msg_notification_def Let_def received_simps split: option.split prod.split)

lemma on_bad_server_salt_received:
  "ms_receivedMessageIds (snd (on_bad_server_salt e info ws s)) = ms_receivedMessageIds s"
  by (auto simp: on_bad_server_salt_def Let_def received_simps dest!: setState_keeps
      split: option.split prod.split)

lemma on_msgs_all_info_received:
  "ms_receivedMessageIds (snd (on_msgs_all_info e info ws s)) = ms_receivedMessageIds s"
  by (simp add: on_msgs_all_info_def received_simps split: option.split prod.split)

lemma on_msg_new_detailed_info_received:
  "ms_receivedMessageIds (snd (on_msg_new_detailed_info e info ws s)) = ms_receivedMessageIds s"
  by (simp add: on_msg_new_detailed_info_def received_simps split: option.split prod.split)

lemma on_update_received:
  "ms_receivedMessageIds (snd (on_update info ws s)) = ms_receivedMessageIds s"
  by (simp add: on_update_def received_simps)

lemma on_msg_detailed_info_received:
  "ms_receivedMessageIds (snd (on_msg_detailed_info e info ws s)) = ms_receivedMessageIds s"
  by (auto simp: on_msg_detailed_info_def received_simps dest!: requestsFixTimeSalt_keeps
      split: option.split prod.split bool.split if_splits)

lemma on_new_session_created_received:
  "ms_receivedMessageIds (snd (on_new_session_created e info ws s)) = ms_receivedMessageIds s"
  by (auto simp: on_new_session_created_def Let_def received_simps
      dest!: requestsFixTimeSalt_keeps split: option.split prod.split bool.split if_splits)

lemma on_pong_received:
  "ms_receivedMessageIds (snd (on_pong e info ws s)) = ms_receivedMessageIds s"
  by (auto simp: on_pong_def Let_def received_simps dest!: requestsFixTimeSalt_keeps
      split: option.split prod.split bool.split if_splits)

lemma on_msgs_state_info_received:
  "on_msgs_state_info e info ws s = Inr (res, s') \<Longrightarrow>
     ms_receivedMessageIds s' = ms_receivedMessageIds s"
  by (auto simp: on_msgs_state_info_def Let_def received_simps split: option.splits if_splits)

lemmas service_received =
  on_msgs_ack_received on_bad_msg_notification_received on_bad_server_salt_received
  on_msgs_all_info_received on_msg_new_detailed_info_received on_update_received
  on_msg_detailed_info_received on_new_session_created_received on_pong_received

lemma handle_service_received:
  assumes "handle_service e info ws s = Inr (res, s')"
  shows "ms_receivedMessageIds s' = ms_receivedMessageIds s"
proof -
  have pair: "ms_receivedMessageIds s' = ms_receivedMessageIds s"
    if "r = (res, s')" "ms_receivedMessageIds (snd r) = ms_receivedMessageIds s" for r
    using that by simp
  from assms show ?thesis
    unfolding handle_service_def Let_def
    by (simp split: if_splits) (erule pair, rule service_received | erule on_msgs_state_info_received)+
qed

lemma handleBindResponse_received:
  "ms_receivedMessageIds (snd (handleBindResponse e i reply s)) = ms_receivedMessageIds s"
  by (simp add: handleBindResponse_def Let_def split: bind_state.split)

lemma handleBindResponse_keeps:
  "handleBindResponse e i reply s = (res, s') \<Longrightarrow> ms_receivedMessageIds s' = ms_receivedMessageIds s"
  using handleBindResponse_received [of e i reply s] by simp

lemma deliver_result_received:
  "ms_receivedMessageIds (snd (deliver_result e info i reply s)) = ms_receivedMessageIds s"
  by (auto simp: deliver_result_def Let_def received_simps dest!: handleBindResponse_keeps
      split: prod.split)

text \<open>An answer spends what it unpacks, and leaves the window alone.\<close>

lemma on_rpc_result_cases:
  assumes "on_rpc_result e info ws b d s = Inr (res, b', s')"
  shows "ms_receivedMessageIds s' = ms_receivedMessageIds s \<and>
    (b' = b \<or> (\<exists>from. ungzip e from b \<noteq> [] \<and> b' = b - 4 * int (length (ungzip e from b))))"
  using assms unfolding on_rpc_result_def Let_def
  by (auto simp: deliver_result_received dest!: requestsFixTimeSalt_keeps
      split: if_splits option.splits prod.splits bool.splits)

section \<open>Invariants of reception\<close>

locale receive_invariant =
  fixes e :: "'z recv_env" and P :: "int \<Rightarrow> session \<Rightarrow> bool"
  assumes service: "\<And>info ws b s res s'. P b s \<Longrightarrow>
      handle_service e info ws s = Inr (res, s') \<Longrightarrow> P b s'"
    and answer: "\<And>info ws b d s res b' s'. P b s \<Longrightarrow>
      on_rpc_result e info ws b d s = Inr (res, b', s') \<Longrightarrow> P b' s'"
    and unpacked: "\<And>ws b s. P b s \<Longrightarrow> ungzip e ws b \<noteq> [] \<Longrightarrow>
      P (b - 4 * int (length (ungzip e ws b))) s"
    and acked: "\<And>a i b s. P b s \<Longrightarrow> P b (push_ack a i s)"
    and registered: "\<And>a i b s. P b s \<Longrightarrow> P b (snd (register_id i a s))"
begin

lemma kept_by:
  shows "x = e \<Longrightarrow> P b s \<Longrightarrow> handleOneReceived x ws info b d s = Inr (res, b', s') \<Longrightarrow> P b' s'"
    and "x = e \<Longrightarrow> P b s \<Longrightarrow> container_loop x n ws info b d s = Inr (res, b', s') \<Longrightarrow> P b' s'"
proof (induction x ws info b d s and x n ws info b d s
    arbitrary: res b' s' and res b' s'
    rule: handleOneReceived_container_loop.induct)
  case (1 x ws info b d s)
  note x = "1.prems"(1) and here = "1.prems"(2)
  note run = "1.prems"(3) [unfolded handleOneReceived.simps [of x ws info b d s] Let_def]
  consider (gzip) "ws \<noteq> []" "hd ws = mtpc_gzip_packed"
    | (container) "ws \<noteq> []" "hd ws \<noteq> mtpc_gzip_packed" "hd ws = mtpc_msg_container"
    | (other) "ws = [] \<or> hd ws \<noteq> mtpc_gzip_packed \<and> hd ws \<noteq> mtpc_msg_container"
    by blast
  then show ?case
  proof cases
    case gzip
    show ?thesis
    proof (cases "kMaxGzipNesting \<le> d \<or> ungzip x (tl ws) b = []")
      case True
      with run gzip here show ?thesis by (auto split: if_splits)
    next
      case False
      with run gzip have next_run: "handleOneReceived x (ungzip x (tl ws) b) info
          (b - 4 * int (length (ungzip x (tl ws) b))) (Suc d) s = Inr (res, b', s')" by simp
      have spent: "P (b - 4 * int (length (ungzip x (tl ws) b))) s"
        by (rule unpacked [folded x, OF here]) (use False in simp)
      show ?thesis
        by (rule "1.IH"(1) [OF gzip _ refl _ x spent next_run]) (use False in simp_all)
    qed
  next
    case container
    show ?thesis
    proof (cases "length ws \<le> 1")
      case True
      with run here container show ?thesis by simp
    next
      case False
      with run container have "container_loop x (unat (ws ! 1)) (drop 2 ws) info b d s =
          Inr (res, b', s')" by simp
      from "1.IH"(2) [OF container False x here this] show ?thesis .
    qed
  next
    case other
    show ?thesis
    proof (cases "ws = []")
      case True
      with run show ?thesis by simp
    next
      case some: False
      show ?thesis
      proof (cases "hd ws = mtpc_rpc_result")
        case True
        with run some other have "on_rpc_result x info ws b d s = Inr (res, b', s')" by simp
        with answer [folded x, OF here] show ?thesis by blast
      next
        case False
        with run some other have "(case handle_service x info ws s of Inl f \<Rightarrow> Inl f
            | Inr (res, s') \<Rightarrow> Inr (res, b, s')) = Inr (res, b', s')" by simp
        then have "handle_service x info ws s = Inr (res, s')" "b' = b"
          by (auto split: sum.splits)
        with service [folded x, OF here] show ?thesis by blast
      qed
    qed
  qed
next
  case (2 x n ws info b d s)
  note x = "2.prems"(1) and here = "2.prems"(2)
  note run = "2.prems"(3) [unfolded container_loop.simps [of x n ws info b d s] Let_def]
  show ?case
  proof (cases "n = 0")
    case True
    with run here show ?thesis by simp
  next
    case n: False
    show ?thesis
    proof (cases "container_head (re_readers x) ws")
      case (Inl r)
      with run n here show ?thesis by simp
    next
      case head: (Inr h)
      obtain i a m rest where h: "h = (i, a, m, rest)" by (cases h)
      let ?s1 = "push_ack a i s"
      let ?reg = "register_id i a ?s1"
      have P1: "P b ?s1" by (rule acked [OF here])
      have P2: "P b (snd ?reg)" by (rule registered [OF P1])
      show ?thesis
      proof (cases "length rest < m")
        case True
        with run n head h P1 show ?thesis by simp
      next
        case room: False
        note ih = "2.IH" [OF n head [unfolded h] refl refl refl refl room refl refl]
        show ?thesis
        proof (cases "fst ?reg")
          case IdsTooOld
          with run n head h room P2 show ?thesis by simp
        next
          case IdsDuplicate
          with run n head h room have next_run:
            "container_loop x (n - 1) (drop m rest) info b d (snd ?reg) = Inr (res, b', s')" by simp
          show ?thesis
            by (rule ih(1) [OF _ IdsDuplicate x P2 next_run]) (simp add: IdsDuplicate)
        next
          case IdsSuccess
          then have reg: "fst ?reg \<noteq> IdsTooOld" "fst ?reg \<noteq> IdsDuplicate" by simp_all
          show ?thesis
          proof (cases "handleOneReceived x (take m rest) info b d (snd ?reg)")
            case (Inl f)
            with run n head h room IdsSuccess show ?thesis by simp
          next
            case one: (Inr o1)
            obtain r1 b1 s1 where o1: "o1 = (r1, b1, s1)" by (cases o1)
            have P3: "P b1 s1" by (rule ih(2) [OF reg x P2 one [unfolded o1]])
            show ?thesis
            proof (cases "r1 = Success")
              case False
              with run n head h room IdsSuccess one o1 P3 show ?thesis by simp
            next
              case True
              with run n head h room IdsSuccess one o1 have next_run:
                "container_loop x (n - 1) (drop m rest) (info\<lparr>oi_badTime := False\<rparr>) b1 d s1 =
                  Inr (res, b', s')" by simp
              show ?thesis
                by (rule ih(3) [OF reg one [unfolded o1] refl refl _ x P3 next_run])
                   (simp add: True)
            qed
          qed
        qed
      qed
    qed
  qed
qed

lemmas kept = kept_by [OF refl]

end

lemma register_id_received:
  "ms_receivedMessageIds (snd (register_id i a s)) =
     snd (registerMsgId i a (ms_receivedMessageIds s))"
  by (simp add: register_id_def case_prod_beta)

section \<open>Nothing that was accepted is forgotten\<close>

interpretation window:
  receive_invariant e
    "\<lambda>b s. map_ok (ms_receivedMessageIds s) \<and> remembers (ms_receivedMessageIds s) i" for e i
proof
  show "map_ok (ms_receivedMessageIds s') \<and> remembers (ms_receivedMessageIds s') i"
    if "map_ok (ms_receivedMessageIds s) \<and> remembers (ms_receivedMessageIds s) i"
      "handle_service e info ws s = Inr (res, s')" for info ws s res s'
    using that handle_service_received [of e info ws s res s'] by simp
  show "map_ok (ms_receivedMessageIds s') \<and> remembers (ms_receivedMessageIds s') i"
    if "map_ok (ms_receivedMessageIds s) \<and> remembers (ms_receivedMessageIds s) i"
      "on_rpc_result e info ws b d s = Inr (res, b', s')" for info ws b d s res b' s'
    using that on_rpc_result_cases [of e info ws b d s res b' s'] by simp
  show "map_ok (ms_receivedMessageIds (snd (register_id j a s))) \<and>
      remembers (ms_receivedMessageIds (snd (register_id j a s))) i"
    if "map_ok (ms_receivedMessageIds s) \<and> remembers (ms_receivedMessageIds s) i" for j a s
    using that map_ok_registerMsgId [of "ms_receivedMessageIds s" j a]
      remembers_registerMsgId [of "ms_receivedMessageIds s" i j a]
    by (simp add: register_id_received)
qed (simp_all add: received_simps)

section \<open>The budget of unpacked bytes\<close>

text \<open>\<open>inflate\<close> writes no more bytes than it is given room for.\<close>

definition zlib_ok :: "'z zlib \<Rightarrow> bool" where
  "zlib_ok zl \<longleftrightarrow> (\<forall>z n. length (fst (snd (zl_inflate zl z n))) \<le> n)"

lemma zlib_okD: "zlib_ok zl \<Longrightarrow> zl_inflate zl z n = (c, bs, z') \<Longrightarrow> length bs \<le> n"
  by (metis fst_conv snd_conv zlib_ok_def)

lemma ungzip_loop_bound:
  "zlib_ok zl \<Longrightarrow> length out \<le> l \<Longrightarrow> ungzip_loop zl l z out = Some (bs, avail) \<Longrightarrow> length bs \<le> l"
proof (induction zl l z out rule: ungzip_loop.induct)
  case (1 zl l z out)
  note run = "1.prems"(3) [unfolded ungzip_loop.simps [of zl l z out] Let_def]
  show ?case
  proof (cases "l \<le> length out")
    case True
    with run "1.prems"(2) show ?thesis by (auto split: prod.splits if_splits)
  next
    case False
    let ?n = "min kUnpackedChunkSize (l - length out)"
    obtain c put z' where one: "zl_inflate zl z ?n = (c, put, z')" by (metis surj_pair)
    have put: "length out + length put \<le> l" using zlib_okD [OF "1.prems"(1) one] False by linarith
    show ?thesis
    proof (cases "c = Z_OK \<and> \<not> length put < ?n")
      case True
      with run False one have "ungzip_loop zl l z' (out @ put) = Some (bs, avail)"
        by (auto split: if_splits)
      from "1.IH" [OF False refl one [symmetric] refl _ _ _ "1.prems"(1) _ this] True put
      show ?thesis by simp
    next
      case other: False
      with run False one put show ?thesis by (cases c) (auto split: if_splits)
    qed
  qed
qed

lemma words_of_bytes_bound: "4 * length (words_of_bytes bs) \<le> length bs"
  by (induction bs rule: words_of_bytes.induct) simp_all

lemma ungzip_bound:
  assumes "zlib_ok (re_zlib e)"
  shows "4 * int (length (ungzip e ws b)) \<le> max 0 b"
proof (cases "ungzip e ws b = []")
  case True
  then show ?thesis by simp
next
  case False
  then obtain stream bs avail where b: "0 < b"
    and run: "ungzip_loop (re_zlib e) (nat b) stream [] = Some (bs, avail)"
    and bs: "ungzip e ws b = words_of_bytes bs"
    by (auto simp: ungzip_def split: if_splits option.splits prod.splits)
  have "length bs \<le> nat b" using ungzip_loop_bound [OF assms _ run] by simp
  then have "4 * int (length (words_of_bytes bs)) \<le> b"
    using words_of_bytes_bound [of bs] b by linarith
  with bs show ?thesis by simp
qed

lemma budget_invariant:
  assumes "zlib_ok (re_zlib e)"
  shows "receive_invariant e (\<lambda>b s. 0 \<le> b \<and> b \<le> limit)"
proof
  show "0 \<le> b' \<and> b' \<le> limit" if "0 \<le> b \<and> b \<le> limit"
    "on_rpc_result e info ws b d s = Inr (res, b', s')" for info ws b d s res b' s'
    using on_rpc_result_cases [OF that(2)] that(1) ungzip_bound [OF assms, of _ b] by force
  show "0 \<le> b - 4 * int (length (ungzip e ws b)) \<and>
      b - 4 * int (length (ungzip e ws b)) \<le> limit"
    if "0 \<le> b \<and> b \<le> limit" for ws b
    using that ungzip_bound [OF assms, of ws b] by simp
qed simp_all


section \<open>Contained messages are never empty\<close>

lemma handle_service_fault: "handle_service e info ws s = Inl f \<Longrightarrow> f = BadStateRequest"
  by (auto simp: handle_service_def Let_def on_msgs_state_info_def split: if_splits option.splits)

lemma on_rpc_result_fault: "on_rpc_result e info ws b d s = Inl f \<Longrightarrow> f = ReadPastEnd"
  by (auto simp: on_rpc_result_def Let_def split: if_splits option.splits prod.splits bool.splits)

lemma empty_message_by:
  shows "handleOneReceived x ws info b d s = Inl EmptyMessage \<Longrightarrow> ws = []"
    and "container_loop x n ws info b d s \<noteq> Inl EmptyMessage"
proof (induction x ws info b d s and x n ws info b d s
    rule: handleOneReceived_container_loop.induct)
  case (1 x ws info b d s)
  note run = "1.prems" [unfolded handleOneReceived.simps [of x ws info b d s] Let_def]
  show ?case
  proof (rule ccontr)
    assume some: "ws \<noteq> []"
    show False
    proof (cases "hd ws = mtpc_gzip_packed")
      case True
      with run some have "\<not> kMaxGzipNesting \<le> d" "ungzip x (tl ws) b \<noteq> []"
        "handleOneReceived x (ungzip x (tl ws) b) info
          (b - 4 * int (length (ungzip x (tl ws) b))) (Suc d) s = Inl EmptyMessage"
        by (auto split: if_splits)
      with "1.IH"(1) [OF some True _ refl] show False by blast
    next
      case packed: False
      show False
      proof (cases "hd ws = mtpc_msg_container")
        case True
        with run some packed have "\<not> length ws \<le> 1"
          "container_loop x (unat (ws ! 1)) (drop 2 ws) info b d s = Inl EmptyMessage"
          by (auto split: if_splits)
        with "1.IH"(2) [OF some packed True] show False by blast
      next
        case False
        with run some packed show False
          by (auto split: if_splits sum.splits dest: handle_service_fault on_rpc_result_fault)
      qed
    qed
  qed
next
  case (2 x n ws info b d s)
  show ?case
  proof
    assume prem: "container_loop x n ws info b d s = Inl EmptyMessage"
    note run = prem [unfolded container_loop.simps [of x n ws info b d s] Let_def]
    from run have n: "n \<noteq> 0" by (auto split: if_splits)
    from run n obtain h where head: "container_head (re_readers x) ws = Inr h"
      by (cases "container_head (re_readers x) ws") auto
    obtain i a m rest where h: "h = (i, a, m, rest)" by (cases h)
    let ?reg = "register_id i a (push_ack a i s)"
    from run n head h have room: "\<not> length rest < m" by (auto split: if_splits)
    from run n head h room have reg: "fst ?reg \<noteq> IdsTooOld" by (auto split: if_splits)
    note ih = "2.IH" [OF n head [unfolded h] refl refl refl refl room refl refl reg]
    show False
    proof (cases "fst ?reg = IdsDuplicate")
      case True
      from run n head h room reg True ih(1) [OF True] show False by simp
    next
      case dup: False
      have m: "1 \<le> m" using container_head_some(1) [OF head [unfolded h]] .
      with room have "take m rest \<noteq> []" by auto
      then have "handleOneReceived x (take m rest) info b d (snd ?reg) \<noteq> Inl EmptyMessage"
        using ih(2) [OF dup] by blast
      then obtain o1 where one: "handleOneReceived x (take m rest) info b d (snd ?reg) = Inr o1"
        using run n head h room reg dup
        by (cases "handleOneReceived x (take m rest) info b d (snd ?reg)") auto
      obtain r1 b1 s1 where o1: "o1 = (r1, b1, s1)" by (cases o1)
      from run n head h room reg dup one o1 have ok: "\<not> r1 \<noteq> Success"
        and "container_loop x (n - 1) (drop m rest) (info\<lparr>oi_badTime := False\<rparr>) b1 d s1 =
          Inl EmptyMessage" by (auto split: if_splits)
      with ih(3) [OF dup one [unfolded o1] refl refl] show False by simp
    qed
  qed
qed

text \<open>The assertion \<open>from < end\<close> fails for the outermost message only: what a container
  or a packed message holds is never empty.\<close>

lemma only_outer_message_empty:
  "handleOneReceived e ws info b d s = Inl EmptyMessage \<longleftrightarrow> ws = []"
  using empty_message_by(1) by (auto simp: handleOneReceived.simps [of _ "[]"])

end
