(* ===== verification/Mtp_Frame.thy ===== *)
theory Mtp_Frame
  imports Mtp_Replay
begin

text \<open>
  The frames a session receives: \<open>SessionPrivate::handleReceived\<close> of
  \<open>mtproto/session_private.cpp\<close>.  AES, SHA-256 and the clock are fields of
  \<open>frame_env\<close>.  \<open>open_frame\<close> is the first half of the loop body, up to the checks of
  the message identifier; \<open>handle_frame\<close> the rest.  \<open>restart()\<close> is an event, which
  stands for dropping the connection, the retry timer and the state that goes with it,
  followed by the reset of the session when one is due.  The timers of
  \<open>onReceivedSome\<close> and the HTTP wait after the loop are left out.

  The length checks compute in \<open>uint32\<close>: the padding can wrap around, as the comment in
  the code says, so the model keeps the words.
\<close>

section \<open>Opening a frame\<close>

record 'z frame_env =
  fe_recv :: "'z recv_env"
  fe_keyId :: "64 word"
  fe_decrypt :: "prime list \<Rightarrow> prime list \<Rightarrow> prime list" \<comment> \<open>\<open>aesIgeDecrypt\<close>: message key, data\<close>
  fe_msgKey :: "prime list \<Rightarrow> prime list" \<comment> \<open>bytes 8 to 23 of the SHA-256\<close>
  fe_clientTime :: int
  fe_freshSession :: "64 word"

record frame =
  fr_salt :: "64 word"
  fr_msgId :: msg_id
  fr_seqNo :: prime
  fr_body :: "prime list"

definition kExternalHeaderIntsCount :: nat where "kExternalHeaderIntsCount = 6"
definition kMinimalIntsCount :: nat where "kMinimalIntsCount = 6 + (8 + 4)"
definition kMaxMessageInts :: nat where "kMaxMessageInts = 16 * 1024 * 1024 div 4"
definition kMaxMessageLength :: "32 word" where "kMaxMessageLength = 16 * 1024 * 1024"
definition kMinPaddingSize :: "32 word" where "kMinPaddingSize = 12"
definition kMaxPaddingSize :: "32 word" where "kMaxPaddingSize = 1024"
definition kAckSendWaiting :: time where "kAckSendWaiting = 10 * 1000"

text \<open>\<open>None\<close> is \<open>restart()\<close>.\<close>

definition open_frame :: "'z frame_env \<Rightarrow> 64 word \<Rightarrow> prime list \<Rightarrow> frame option" where
  "open_frame e sessionId ints =
     (let intsCount = length ints in
      if intsCount < kMinimalIntsCount \<or> kMaxMessageInts < intsCount then None
      else if fe_keyId e \<noteq> read64 0 ints then None
      else
        let encryptedIntsCount =
              unat ((of_nat (intsCount - kExternalHeaderIntsCount) :: 32 word) AND NOT 3);
            msgKey = take 4 (drop 2 ints);
            decrypted = fe_decrypt e msgKey (take encryptedIntsCount (drop 6 ints));
            encryptedBytesCount = of_nat encryptedIntsCount * 4;
            messageLength = decrypted ! 7;
            fullDataLength = 32 + messageLength;
            paddingSize = encryptedBytesCount - fullDataLength
        in if fe_msgKey e decrypted \<noteq> msgKey then None
           else if kMaxMessageLength < messageLength \<or> messageLength AND 3 \<noteq> 0 \<or>
                   paddingSize < kMinPaddingSize \<or> kMaxPaddingSize < paddingSize then None
           else if read64 2 decrypted \<noteq> sessionId then None
           else if read64 4 decrypted AND 3 \<noteq> 1 \<and> read64 4 decrypted AND 3 \<noteq> 3 then None
           else Some \<lparr>fr_salt = read64 0 decrypted, fr_msgId = read64 4 decrypted,
                  fr_seqNo = decrypted ! 6,
                  fr_body = take (unat messageLength div 4) (drop 8 decrypted)\<rparr>)"

section \<open>Handling a frame\<close>

definition restart :: "'z frame_env \<Rightarrow> session \<Rightarrow> session" where
  "restart e s =
     (let s = emit RestartCall s
      in if ms_needSessionReset s then resetSession (fe_freshSession e) s else s)"

definition server_time :: "msg_id \<Rightarrow> int" where
  "server_time msgId = sint (ucast (drop_bit 32 msgId) :: 32 word)"

definition bad_time :: "'z frame_env \<Rightarrow> msg_id \<Rightarrow> bool" where
  "bad_time e msgId \<longleftrightarrow>
     fe_clientTime e + 60 < server_time msgId \<or> server_time msgId + 300 < fe_clientTime e"

definition take_salt :: "'z frame_env \<Rightarrow> bool \<Rightarrow> 64 word \<Rightarrow> session \<Rightarrow> 64 word \<times> session" where
  "take_salt e badTime salt s =
     (if salt \<noteq> ms_sessionSalt s
      then (salt,
        (if \<not> badTime
         then (case setState ConnectedState ConnectingState (s\<lparr>ms_sessionSalt := salt\<rparr>) of
                 (changed, s) \<Rightarrow> if changed then resendAll (re_session (fe_recv e)) s else s)
         else s))
      else (0, s))"

text \<open>The message of a frame: what it does to the session and whether the session
  restarts.\<close>

definition receive_body ::
    "'z frame_env \<Rightarrow> frame \<Rightarrow> session \<Rightarrow> fault + handle_result \<times> session" where
  "receive_body e fr s =
     (let badTime = bad_time e (fr_msgId fr);
          needs_ack = fr_seqNo fr AND 1 \<noteq> 0
      in case take_salt e badTime (fr_salt fr) s of
        (serverSalt, s) \<Rightarrow>
          let s = push_ack needs_ack (fr_msgId fr) s;
              registered = fst (register_id (fr_msgId fr) needs_ack s);
              s = snd (register_id (fr_msgId fr) needs_ack s)
          in if registered = IdsSuccess
             then (case handleOneReceived (fe_recv e) (fr_body fr)
                     \<lparr>oi_outerMsgId = fr_msgId fr, oi_serverSalt = serverSalt,
                      oi_serverTime = server_time (fr_msgId fr), oi_badTime = badTime\<rparr>
                     kMaxUnpackedMessageLength 0 s of
                   Inl f \<Rightarrow> Inl f
                 | Inr (res, _, s') \<Rightarrow> Inr (res, s'))
             else Inr (if registered = IdsTooOld then ResetSession else Success, s))"

definition finish_frame :: "'z frame_env \<Rightarrow> bool \<Rightarrow> handle_result \<Rightarrow> session \<Rightarrow> bool \<times> session" where
  "finish_frame e wasConnected res s =
     (let s = s\<lparr>ms_receivedMessageIds := shrink (ms_receivedMessageIds s)\<rparr>;
          s = (if ms_ackRequestData s \<noteq> [] then emit (QueueSendAnything kAckSendWaiting) s else s);
          s = (if ms_haveReceived s \<noteq> [] then emit QueueTryToReceive s else s)
      in if res \<noteq> Success \<and> res \<noteq> Ignored
         then (True, restart e
                (if res = DestroyTemporaryKey then emit DestroyTemporaryKeyCall s
                 else if res = ResetSession then s\<lparr>ms_needSessionReset := True\<rparr>
                 else s))
         else (False, if \<not> wasConnected \<and> ms_state s = ConnectedState
                      then emit QueueNeedToResumeAndSend s else s))"

definition handle_frame ::
    "'z frame_env \<Rightarrow> prime list \<Rightarrow> session \<Rightarrow> fault + bool \<times> session" where
  "handle_frame e ints s =
     (case open_frame e (ms_sessionId s) ints of
        None \<Rightarrow> Inr (True, restart e s)
      | Some fr \<Rightarrow>
          (case receive_body e fr s of
             Inl f \<Rightarrow> Inl f
           | Inr (res, s') \<Rightarrow> Inr (finish_frame e (ms_state s = ConnectedState) res s')))"

text \<open>The loop over the received frames; it ends with the first restart.\<close>

fun handleReceived :: "'z frame_env \<Rightarrow> prime list list \<Rightarrow> session \<Rightarrow> fault + bool \<times> session" where
  "handleReceived e [] s = Inr (False, s)"
| "handleReceived e (ints # frames) s =
     (case handle_frame e ints s of
        Inl f \<Rightarrow> Inl f
      | Inr (restarted, s') \<Rightarrow>
          if restarted then Inr (True, s') else handleReceived e frames s')"

section \<open>Bounds\<close>

text \<open>AES in IGE mode keeps the length.\<close>

definition decrypt_ok :: "'z frame_env \<Rightarrow> bool" where
  "decrypt_ok e \<longleftrightarrow> (\<forall>k ws. length (fe_decrypt e k ws) = length ws)"

lemma unat_and_not_3: "unat ((w :: 32 word) AND NOT 3) = 4 * (unat w div 4)"
proof -
  have "w AND NOT (mask 2) = push_bit 2 (drop_bit 2 w)"
  proof (rule bit_word_eqI)
    fix n
    show "bit (w AND NOT (mask 2)) n = bit (push_bit 2 (drop_bit 2 w)) n" if "n < LENGTH(32)"
    proof (cases "n < 2")
      case False
      then obtain m where "n = Suc (Suc m)" by (metis add_2_eq_Suc le_Suc_ex not_less)
      with that show ?thesis by (auto simp: bit_simps)
    qed (auto simp: bit_simps)
  qed
  then have "w AND NOT 3 = push_bit 2 (drop_bit 2 w)" by (simp add: mask_eq_exp_minus_1)
  moreover have d: "unat (drop_bit 2 w) = unat w div 4"
    by (simp only: unat_drop_bit_eq) (simp only: drop_bit_eq_div, simp)
  moreover have "unat (drop_bit 2 w) < 2 ^ 30"
    using unsigned_less [of w, where ?'a = nat] d by simp
  ultimately show ?thesis by (simp add: unat_push_2)
qed

text \<open>A padding of at most 1024 bytes has not wrapped around.\<close>

lemma padding_exact:
  fixes len :: "32 word"
  assumes "k \<le> 4194304" "unat len \<le> 16777216" "unat (of_nat k * 4 - (32 + len)) \<le> 1024"
  shows "4 * k = unat (of_nat k * 4 - (32 + len)) + (32 + unat len)"
proof -
  let ?pad = "of_nat k * 4 - (32 + len)"
  have "(of_nat k * 4 :: 32 word) = of_nat (4 * k)" by simp
  then have bytes: "unat (of_nat k * 4 :: 32 word) = 4 * k"
    using assms(1) by (simp only: unat_of_nat) simp
  have "unat (32 :: 32 word) + unat len < 2 ^ LENGTH(32)" using assms(2) by simp
  from iffD1 [OF unat_add_lem this] have full: "unat (32 + len) = 32 + unat len" by simp
  have "unat ?pad + unat (32 + len) < 2 ^ LENGTH(32)" using assms full by simp
  from iffD1 [OF unat_add_lem this] full bytes show ?thesis by simp
qed

text \<open>C15: The body of an accepted frame lies within the decrypted data with 12 to 1024
  bytes of padding behind it: the wrapping subtraction hides no shorter buffer.\<close>

theorem open_frame_bounds:
  assumes "decrypt_ok e" "open_frame e sessionId ints = Some fr"
  shows "\<exists>decrypted padding.
    decrypted = fe_decrypt e (take 4 (drop 2 ints))
      (take (4 * ((length ints - 6) div 4)) (drop 6 ints)) \<and>
    4 * length decrypted = 32 + 4 * length (fr_body fr) + padding \<and>
    12 \<le> padding \<and> padding \<le> 1024 \<and> 4 * length (fr_body fr) \<le> 16 * 1024 * 1024 \<and>
    fr_body fr = take (length (fr_body fr)) (drop 8 decrypted)"
proof -
  let ?n = "length ints - 6"
  define k where "k = unat ((of_nat ?n :: 32 word) AND NOT 3)"
  let ?d = "fe_decrypt e (take 4 (drop 2 ints)) (take k (drop 6 ints))"
  let ?len = "?d ! 7"
  let ?pad = "(of_nat k * 4 :: 32 word) - (32 + ?len)"
  have checks: "kMinimalIntsCount \<le> length ints" "length ints \<le> kMaxMessageInts"
    "?len \<le> kMaxMessageLength" "?len AND 3 = 0" "kMinPaddingSize \<le> ?pad" "?pad \<le> kMaxPaddingSize"
    "fr_body fr = take (unat ?len div 4) (drop 8 ?d)"
    using assms(2) unfolding k_def
    by (auto simp: open_frame_def Let_def kExternalHeaderIntsCount_def not_less split: if_splits)
  have size: "length ints \<le> 4194304" using checks(2) by (simp add: kMaxMessageInts_def)
  have "unat (of_nat ?n :: 32 word) = ?n" using size by (simp add: unat_of_nat)
  then have k: "k = 4 * (?n div 4)" by (simp only: k_def unat_and_not_3)
  have d: "length ?d = k"
    using assms(1) k by (simp add: decrypt_ok_def)
  have len: "unat ?len \<le> 16777216"
    using checks(3) by (simp add: kMaxMessageLength_def word_le_nat_alt)
  have four: "unat ?len mod 4 = 0" using checks(4) unat_and_3 [of ?len] by simp
  have pad: "12 \<le> unat ?pad" "unat ?pad \<le> 1024"
    using checks(5,6) by (simp_all add: kMinPaddingSize_def kMaxPaddingSize_def word_le_nat_alt)
  have kb: "k \<le> 4194304" using k size by linarith
  note sum = padding_exact [OF kb len pad(2)]
  obtain m where m: "unat ?len = 4 * m" using four by (metis dvd_def mod_eq_0_iff_dvd)
  have "m + 8 \<le> k" using sum m pad by linarith
  then have lm: "length (fr_body fr) = m" by (simp add: checks(7) m d)
  then have body: "4 * length (fr_body fr) = unat ?len" using m by simp
  show ?thesis
  proof (intro exI conjI)
    show "?d = fe_decrypt e (take 4 (drop 2 ints)) (take (4 * ((length ints - 6) div 4)) (drop 6 ints))"
      by (simp only: k)
    show "4 * length ?d = 32 + 4 * length (fr_body fr) + unat ?pad" using d sum body by simp
    show "4 * length (fr_body fr) \<le> 16 * 1024 * 1024" using body len by simp
    show "fr_body fr = take (length (fr_body fr)) (drop 8 ?d)" by (simp only: lm) (simp add: checks(7) m)
  qed (rule pad)+
qed

section \<open>Replayed frames\<close>

text \<open>
  The steps of a session between two restarts: a frame is handled in some
  surroundings of \<open>E\<close> (clock, libraries), the main thread takes the received
  messages, adds or cancels a request, or the timer checks the sent ones.
\<close>

inductive session_step :: "'z frame_env set \<Rightarrow> session \<Rightarrow> session \<Rightarrow> bool" for E where
  frame_step: "e \<in> E \<Longrightarrow> handle_frame e ints s = Inr (False, s') \<Longrightarrow> session_step E s s'"
| take_step: "session_step E s (s\<lparr>ms_haveReceived := []\<rparr>)"
| send_step: "session_step E s (sendPrepared r w s)"
| cancel_step: "session_step E s (cancel q i s)"
| check_step: "session_step E s (fst (checkSentRequests e t s))"

definition knows :: "msg_id \<Rightarrow> session \<Rightarrow> bool" where
  "knows i s \<longleftrightarrow> map_ok (ms_receivedMessageIds s) \<and> remembers (ms_receivedMessageIds s) i"

lemma take_salt_received:
  "ms_receivedMessageIds (snd (take_salt e b salt s)) = ms_receivedMessageIds s"
  by (auto simp: take_salt_def received_simps dest!: setState_keeps split: prod.split)

lemma resendAll_haveReceived: "ms_haveReceived (resendAll e s) = ms_haveReceived s"
proof -
  have "ms_haveReceived (fold (\<lambda>(i, r). requeue e i r) ps t) = ms_haveReceived t"
    for ps t by (induction ps arbitrary: t) (auto simp: requeue_def update_request_def Let_def)
  then show ?thesis by (simp add: resendAll_def emit_def)
qed

lemma take_salt_rest:
  "ms_haveReceived (snd (take_salt e b salt s)) = ms_haveReceived s"
  "pending (snd (take_salt e b salt s)) = pending s"
proof -
  have "ms_haveReceived t = ms_haveReceived s' \<and> pending t = pending s'"
    if "setState a c s' = (d, t)" for a c d t s'
    using that by (auto simp: setState_def Let_def emit_def pending_def split: if_splits)
  then show "ms_haveReceived (snd (take_salt e b salt s)) = ms_haveReceived s"
    "pending (snd (take_salt e b salt s)) = pending s"
    by (auto simp: take_salt_def resendAll_haveReceived resendAll_pending split: prod.split)
       (fastforce simp: pending_def)+
qed

lemma receive_body_knows:
  assumes run: "receive_body e fr s = Inr (res, s')" and ok: "map_ok (ms_receivedMessageIds s)"
  shows "knows i s \<Longrightarrow> knows i s'" and "res \<noteq> ResetSession \<Longrightarrow> knows (fr_msgId fr) s'"
proof -
  let ?a = "fr_seqNo fr AND 1 \<noteq> 0"
  let ?salt = "take_salt e (bad_time e (fr_msgId fr)) (fr_salt fr) s"
  let ?s1 = "push_ack ?a (fr_msgId fr) (snd ?salt)"
  let ?reg = "register_id (fr_msgId fr) ?a ?s1"
  let ?m = "ms_receivedMessageIds s"
  have m1: "ms_receivedMessageIds ?s1 = ?m" by (simp add: received_simps take_salt_received)
  then have m2: "ms_receivedMessageIds (snd ?reg) = snd (registerMsgId (fr_msgId fr) ?a ?m)"
    and res: "fst ?reg = fst (registerMsgId (fr_msgId fr) ?a ?m)"
    by (simp_all add: register_id_received) (simp add: register_id_def case_prod_beta)
  have ok2: "map_ok (ms_receivedMessageIds (snd ?reg))" using ok m2 by simp
  have known: "knows j s'" if "knows j (snd ?reg)" for j
  proof (cases "fst ?reg = IdsSuccess")
    case False
    with run that show ?thesis by (simp add: receive_body_def Let_def case_prod_beta)
  next
    case True
    with run obtain b where
      "handleOneReceived (fe_recv e) (fr_body fr)
         \<lparr>oi_outerMsgId = fr_msgId fr, oi_serverSalt = fst ?salt,
          oi_serverTime = server_time (fr_msgId fr), oi_badTime = bad_time e (fr_msgId fr)\<rparr>
         kMaxUnpackedMessageLength 0 (snd ?reg) = Inr (res, b, s')"
      by (auto simp: receive_body_def Let_def case_prod_beta split: sum.splits)
    from window.kept(1) [OF _ this, of j] that show ?thesis by (simp add: knows_def)
  qed
  show "knows i s'" if "knows i s"
    using known [of i] that remembers_registerMsgId [of ?m i "fr_msgId fr" ?a] ok2 m2
    by (simp add: knows_def)
  show "knows (fr_msgId fr) s'" if "res \<noteq> ResetSession"
  proof (rule known)
    have "fst ?reg \<noteq> IdsTooOld"
      using that run by (auto simp: receive_body_def Let_def case_prod_beta)
    then have "remembers (ms_receivedMessageIds (snd ?reg)) (fr_msgId fr)"
    proof (cases "fst ?reg = IdsSuccess")
      case True
      with registered_remembered [OF ok] res m2 show ?thesis by simp
    next
      case False
      then have "fst (registerMsgId (fr_msgId fr) ?a ?m) \<noteq> IdsSuccess" using res by simp
      then have "remembers ?m (fr_msgId fr)" using remembers_iff [OF ok] by blast
      from remembers_registerMsgId [OF ok this] m2 show ?thesis by simp
    qed
    with ok2 show "knows (fr_msgId fr) (snd ?reg)" by (simp add: knows_def)
  qed
qed

lemma finish_frame_knows:
  assumes "finish_frame e c res s = (False, s')" "knows i s"
  shows "knows i s'" "res \<noteq> ResetSession"
  using assms remembers_shrink [of "ms_receivedMessageIds s" i]
  by (auto simp: finish_frame_def knows_def Let_def split: if_splits)

lemma checkSentRequests_received:
  "ms_receivedMessageIds (fst (checkSentRequests e t s)) = ms_receivedMessageIds s"
proof -
  have "ms_receivedMessageIds (snd (snd (check_sent_loop e ps st))) =
      ms_receivedMessageIds (snd (snd st))" for ps st
    by (induction e ps st rule: check_sent_loop.induct) (simp_all add: Let_def)
  from this [of "ms_haveSent s" "(False, kCheckSentRequestTimeout, s)"] show ?thesis
    by (auto simp: checkSentRequests_def Let_def split: prod.split)
qed

lemma handle_frame_knows:
  assumes "handle_frame e ints s = Inr (False, s')" "map_ok (ms_receivedMessageIds s)"
  shows "knows i s \<Longrightarrow> knows i s'"
    and "open_frame e (ms_sessionId s) ints = Some fr \<Longrightarrow> knows (fr_msgId fr) s'"
proof -
  obtain fr' res s1 where fr': "open_frame e (ms_sessionId s) ints = Some fr'"
    and run: "receive_body e fr' s = Inr (res, s1)"
    and fin: "finish_frame e (ms_state s = ConnectedState) res s1 = (False, s')"
    using assms(1) by (auto simp: handle_frame_def split: option.splits sum.splits)
  show "knows i s'" if "knows i s"
    by (rule finish_frame_knows(1) [OF fin receive_body_knows(1) [OF run assms(2) that]])
  have "res \<noteq> ResetSession" using fin by (auto simp: finish_frame_def Let_def)
  then show "knows (fr_msgId fr) s'" if "open_frame e (ms_sessionId s) ints = Some fr"
    using finish_frame_knows(1) [OF fin receive_body_knows(2) [OF run assms(2)]] fr' that by simp
qed

lemma session_step_knows: "session_step E s s' \<Longrightarrow> knows i s \<Longrightarrow> knows i s'"
proof (induction rule: session_step.induct)
  case (frame_step e ints s s')
  from frame_step.prems have "map_ok (ms_receivedMessageIds s)" by (simp add: knows_def)
  from handle_frame_knows(1) [OF frame_step.hyps(2) this frame_step.prems] show ?case .
qed (simp_all add: knows_def sendPrepared_def cancel_def checkSentRequests_received Let_def)


end
