(* ===== verification/Mtp_Answers.thy ===== *)
theory Mtp_Answers
  imports Mtp_Frame
begin

text \<open>
  What a session promises of its answers and frames: when the answer to a sent request
  reaches the main thread, that a frame which is sealed as \<open>sendSecureRequest\<close> does it
  opens to the same message, and which messages end in a failed assertion.
\<close>

section \<open>Answers to sent requests\<close>

text \<open>The message identifier names a sent request and nothing else.\<close>

definition sent_only :: "session \<Rightarrow> msg_id \<Rightarrow> ref \<Rightarrow> bool" where
  "sent_only s i r \<longleftrightarrow>
     map_of (ms_haveSent s) i = Some r \<and> map_of (ms_sentContainers s) i = None \<and>
     map_of (ms_stateAndResend s) i = None \<and> map_of (ms_resendingIds s) i = None \<and>
     map_of (ms_ackedIds s) i = None \<and> i \<noteq> ms_pingMsgId s \<and> i \<noteq> ms_bindMsgId s"

lemma requestsAcked_sent:
  assumes "sent_only s i r"
  shows "requestsAcked e [i] True s =
    trim_acked (s\<lparr>ms_haveSent := remove_key i (ms_haveSent s),
      ms_ackedIds := emplace i (rq_requestId (ms_heap s r)) (ms_ackedIds s)\<rparr>)"
  using assms by (subst requestsAcked.simps) (simp add: ack_one_def Let_def sent_only_def)

lemma map_of_drop_last:
  assumes "map_ok m" "length m \<le> Suc n"
  shows "map_of (drop (length m - n) m) i =
    (if length m = Suc n \<and> m \<noteq> [] \<and> i = fst (hd m) then None else map_of m i)"
proof (cases "length m = Suc n")
  case True
  then obtain e m' where m: "m = e # m'" by (cases m) auto
  then have "map_of m' (fst e) = None"
    using assms(1) by (cases e) (auto simp: map_of_None_notin)
  with True m show ?thesis by (cases e) auto
next
  case False
  with assms(2) show ?thesis by auto
qed

lemma hd_emplace_new:
  assumes "map_ok m" "map_of m i = None" "m \<noteq> []"
  shows "fst (hd (emplace i v m)) = min i (fst (hd m))"
  using assms by (cases m) (auto simp: emplace_def min_def)

lemma trimmed_new:
  assumes ok: "map_ok m" and bounded: "length m \<le> n" "0 < n" and new: "map_of m i = None"
  shows "map_of (drop (length (emplace i v m) - n) (emplace i v m)) i =
    (if length m < n \<or> (\<exists>p \<in> set m. fst p < i) then Some v else None)"
proof -
  let ?m = "emplace i v m"
  have size: "length ?m = Suc (length m)" using new by (simp add: length_emplace)
  have own: "map_ok ?m" "map_of ?m i = Some v" using ok new by (simp_all add: map_of_emplace_fun)
  show ?thesis
  proof (cases "length m < n")
    case True
    with map_of_drop_last [OF own(1), of n i] size own show ?thesis by simp
  next
    case False
    with bounded have full: "length m = n" "m \<noteq> []" by auto
    then obtain p ps where m: "m = p # ps" by (metis neq_Nil_conv)
    then have "\<forall>x \<in> set ps. fst p < fst x" using ok by (cases p) simp
    then have least: "(\<exists>p \<in> set m. fst p < i) \<longleftrightarrow> fst (hd m) < i"
      using m by (auto intro: less_trans)
    have "i \<noteq> fst (hd m)" using new m by (auto split: if_splits)
    then have "i = fst (hd ?m) \<longleftrightarrow> \<not> fst (hd m) < i"
      using hd_emplace_new [OF ok new full(2), of v] by (auto simp: min_def)
    moreover have "?m \<noteq> []" using size by auto
    ultimately show ?thesis
      using map_of_drop_last [OF own(1), of n i] size own(2) full(1) least by simp
  qed
qed

text \<open>C6:
  The answer reaches the main thread exactly when the table of acknowledged messages
  has room or holds an older one: the table is trimmed from its least identifier, which
  may be the one that was just answered.
\<close>

theorem answer_delivered_iff:
  assumes sent: "sent_only s i r" and ok: "map_ok (ms_ackedIds s)"
    and bounded: "length (ms_ackedIds s) \<le> kIdsBufferSize"
    and q: "rq_requestId (ms_heap s r) \<noteq> 0" "rq_requestId (ms_heap s r) \<noteq> anyRequest"
    and reply: "hd reply \<noteq> mtpc_rpc_error"
    and s'_def: "s' = snd (deliver_result e info i reply s)"
  shows "map_of (ms_haveSent s') i = None \<and>
    ms_haveReceived s' = ms_haveReceived s @
      (if length (ms_ackedIds s) < kIdsBufferSize \<or> (\<exists>p \<in> set (ms_ackedIds s). fst p < i)
       then [\<lparr>rs_reply = reply, rs_outerMsgId = oi_outerMsgId info,
               rs_requestId = rq_requestId (ms_heap s r)\<rparr>]
       else [])"
proof -
  let ?q = "rq_requestId (ms_heap s r)"
  define kept where "kept \<longleftrightarrow>
    length (ms_ackedIds s) < kIdsBufferSize \<or> (\<exists>p \<in> set (ms_ackedIds s). fst p < i)"
  define t where "t = requestsAcked (re_session e) [i] True (emit NotifyConnectionInited s)"
  have t: "t = trim_acked (s\<lparr>ms_events := ms_events s @ [NotifyConnectionInited],
      ms_haveSent := remove_key i (ms_haveSent s), ms_ackedIds := emplace i ?q (ms_ackedIds s)\<rparr>)"
    using requestsAcked_sent [of "emit NotifyConnectionInited s" i r] sent
    by (simp add: t_def emit_def sent_only_def)
  have "map_of (ms_ackedIds s) i = None" using sent by (simp add: sent_only_def)
  from trimmed_new [OF ok bounded _ this, of ?q]
  have acked: "map_of (ms_ackedIds t) i = (if kept then Some ?q else None)"
    by (simp add: t trim_acked_def kept_def kIdsBufferSize_def)
  have rest: "ms_bindMsgId t = ms_bindMsgId s" "ms_pingMsgId t = ms_pingMsgId s"
    "ms_resendingIds t = ms_resendingIds s" "ms_sentContainers t = ms_sentContainers s"
    "ms_haveReceived t = ms_haveReceived s" "ms_haveSent t = remove_key i (ms_haveSent s)"
    by (simp_all add: t trim_acked_def)
  have bind: "handleBindResponse e i reply t = (Ignored, t)"
    using sent rest by (auto simp: handleBindResponse_def sent_only_def)
  have was: "wasSent t i = (if kept then ?q else 0)"
    using sent rest acked by (simp add: wasSent_def sent_only_def)
  have "s' = (if kept then push_received \<lparr>rs_reply = reply, rs_outerMsgId = oi_outerMsgId info,
      rs_requestId = ?q\<rparr> t else t)"
    using reply q bind was by (simp add: s'_def deliver_result_def t_def [symmetric])
  then show ?thesis using rest by (simp add: push_received_def kept_def)
qed

section \<open>Sealed frames\<close>

text \<open>The frame of a plaintext, in the layout \<open>handleReceived\<close> expects: key identifier,
  message key, encrypted data.\<close>

definition seal_frame ::
    "64 word \<Rightarrow> (prime list \<Rightarrow> prime list) \<Rightarrow> (prime list \<Rightarrow> prime list \<Rightarrow> prime list) \<Rightarrow>
       prime list \<Rightarrow> prime list" where
  "seal_frame keyId msgKey encrypt plain =
     [lo32 keyId, hi32 keyId] @ msgKey plain @ encrypt (msgKey plain) plain"

lemma secure_plaintext_some:
  assumes ok: "request_ok ws"
  obtains noise' where
    "secure_plaintext salt session random noise ws =
       Some (write64 2 session (write64 0 salt (ws @ noise')))"
    "3 \<le> length noise'" "length noise' \<le> 66" "(length ws + length noise') mod 4 = 0"
proof -
  let ?p = "unat (CountPaddingPrimesCount (lengthInts ws) False random)"
  let ?noise = "map noise [0..<?p]"
  have n: "unat (lengthInts ws) = length ws - 8" "8 < length ws" "length ws < 2 ^ 28"
    using ok lengthInts_ok [OF ok] by (simp_all add: request_ok_def has_body_def positions)
  then have small: "unat (lengthInts ws) < 2 ^ 28" by linarith
  note pad = padding_bounds [OF small, of random]
  have "unat (messageSize (ws @ ?noise)) = length ws - 4"
    using unat_messageSize [OF ok] n by (simp add: messageSize_def lengthInts_def nth_append positions)
  then have "secure_plaintext salt session random noise ws =
      Some (write64 2 session (write64 0 salt (ws @ ?noise)))"
    using n addPadding_shape [OF ok, of random noise] by (simp add: secure_plaintext_def Let_def)
  moreover have "(length ws + ?p) mod 4 = 0" using pad(3) n by simp
  ultimately show ?thesis using that [of ?noise] pad(1,2) by simp
qed

text \<open>What the cryptography promises.\<close>

definition sealed_by ::
    "'z frame_env \<Rightarrow> (prime list \<Rightarrow> prime list \<Rightarrow> prime list) \<Rightarrow> bool" where
  "sealed_by e encrypt \<longleftrightarrow>
     (\<forall>k ws. fe_decrypt e k (encrypt k ws) = ws \<and> length (encrypt k ws) = length ws) \<and>
     (\<forall>ws. length (fe_msgKey e ws) = 4)"

lemma padding_in_range:
  fixes len :: prime
  assumes n: "n = l + p" and l: "8 < l" and len: "unat len = 4 * (l - 8)" and p: "3 \<le> p" "p \<le> 66"
  shows "\<not> of_nat n * 4 - (32 + len) < kMinPaddingSize \<and> \<not> kMaxPaddingSize < of_nat n * 4 - (32 + len)"
proof -
  have "len = of_nat (unat len)" by simp
  then have "len = of_nat (4 * (l - 8))" by (simp only: len)
  moreover have "4 * n = 32 + 4 * (l - 8) + 4 * p" using n l by simp
  then have "(of_nat n * 4 :: prime) = of_nat (32 + 4 * (l - 8) + 4 * p)"
    by (metis mult.commute of_nat_mult of_nat_numeral)
  ultimately have padding: "of_nat n * 4 - (32 + len) = of_nat (4 * p)" by simp
  have "unat (of_nat n * 4 - (32 + len)) = 4 * p"
    using p(2) by (simp only: padding unat_of_nat) simp
  with p show ?thesis
    by (simp add: kMinPaddingSize_def kMaxPaddingSize_def word_less_nat_alt)
qed


section \<open>Frames without data\<close>

lemma fault_kept:
  "(case x of Inl f \<Rightarrow> Inl f | Inr (res, b, s) \<Rightarrow> Inr (res, s)) = Inl f \<longleftrightarrow> x = Inl f"
  by (auto split: sum.split)

text \<open>C30: The frames on which the assertion \<open>from < end\<close> of \<open>handleOneReceived\<close> fails are
  those that pass every check, carry no data and have a new identifier; no message within
  a container or a packed message makes it fail.\<close>

theorem empty_frame_fails_iff:
  "handle_frame e ints s = Inl EmptyMessage \<longleftrightarrow>
     (case open_frame e (ms_sessionId s) ints of
        None \<Rightarrow> False
      | Some fr \<Rightarrow> fr_body fr = [] \<and>
          fst (registerMsgId (fr_msgId fr) (fr_seqNo fr AND 1 \<noteq> 0) (ms_receivedMessageIds s)) =
            IdsSuccess)"
proof (cases "open_frame e (ms_sessionId s) ints")
  case None
  then show ?thesis by (simp add: handle_frame_def)
next
  case (Some fr)
  let ?a = "fr_seqNo fr AND 1 \<noteq> 0"
  obtain salt t where t: "take_salt e (bad_time e (fr_msgId fr)) (fr_salt fr) s = (salt, t)"
    by (metis surj_pair)
  have same: "ms_receivedMessageIds (push_ack ?a (fr_msgId fr) t) = ms_receivedMessageIds s"
    using take_salt_received [of e "bad_time e (fr_msgId fr)" "fr_salt fr" s] t
    by (simp add: received_simps)
  have reg: "fst (register_id (fr_msgId fr) ?a (push_ack ?a (fr_msgId fr) t)) =
      fst (registerMsgId (fr_msgId fr) ?a (ms_receivedMessageIds s))"
    by (simp add: register_id_def same case_prod_beta)
  have "receive_body e fr s = Inl EmptyMessage \<longleftrightarrow> fr_body fr = [] \<and>
      fst (register_id (fr_msgId fr) ?a (push_ack ?a (fr_msgId fr) t)) = IdsSuccess"
    by (simp add: receive_body_def t Let_def fault_kept only_outer_message_empty conj_commute)
  with Some reg show ?thesis
    by (auto simp: handle_frame_def split: sum.splits)
qed

end
