(* ===== verification/Mtp_Examples.thy ===== *)
theory Mtp_Examples
  imports Mtp_Answers
begin

text \<open>
  Concrete sessions, frames and libraries on which the promises of the MTProto
  theories are evaluated, and the inputs on which the code fails.
\<close>

section \<open>Libraries\<close>

text \<open>TL integers are little-endian words, a vector of longs is its count and its
  elements; zlib is replaced by a store that hands its bytes back.\<close>

definition ex_long :: "64 word reader" where
  "ex_long ws = (case ws of a # b # rest \<Rightarrow> Some (join64 a b, rest) | _ \<Rightarrow> None)"

definition ex_int :: "prime reader" where
  "ex_int ws = (case ws of a # rest \<Rightarrow> Some (a, rest) | _ \<Rightarrow> None)"

definition ex_fail :: "'a reader" where "ex_fail ws = None"

definition ex_readers :: mtp_readers where
  "ex_readers = \<lparr>mr_long = ex_long, mr_int = ex_int, mr_packed = \<lambda>ws. Some (replicate 8 CHR ''a'', []),
     mr_msgs_ack = ex_fail, mr_bad_msg_notification = ex_fail, mr_bad_server_salt = ex_fail,
     mr_msgs_state_info = ex_fail, mr_msgs_all_info = ex_fail, mr_msg_detailed_info = ex_fail,
     mr_msg_new_detailed_info = ex_fail, mr_new_session_created = ex_fail, mr_pong = ex_fail,
     mr_msgs_state_req = ex_fail, mr_msg_resend_req = ex_fail, mr_rpc_error = ex_fail\<rparr>"

definition ex_zlib :: "bytes zlib" where
  "ex_zlib = \<lparr>zl_init = Some,
     zl_inflate = \<lambda>z n. (if length z \<le> n then Z_STREAM_END else Z_OK, take n z, drop n z)\<rparr>"

definition ex_session_env :: session_env where
  "ex_session_env = \<lparr>se_now = 100, se_hasCallback = (\<lambda>q. q = 7)\<rparr>"

definition ex_recv :: "bytes recv_env" where
  "ex_recv = \<lparr>re_session = ex_session_env, re_readers = ex_readers, re_zlib = ex_zlib,
     re_protocol_error = [mtpc_rpc_error], re_bind = \<lambda>_. BindFailed, re_released = True,
     re_destroyOld = False\<rparr>"

definition ex_frame_env :: "bytes frame_env" where
  "ex_frame_env = \<lparr>fe_recv = ex_recv, fe_keyId = 5, fe_decrypt = (\<lambda>k ws. ws),
     fe_msgKey = (\<lambda>ws. [1, 2, 3, 4]), fe_clientTime = 50, fe_freshSession = 12\<rparr>"

section \<open>Sessions\<close>

definition ex_request :: "request_id \<Rightarrow> request_data" where
  "ex_request q = \<lparr>rq_words = Serialize [1], rq_after = None, rq_lastSentTime = 90,
     rq_requestId = q, rq_needsLayer = False, rq_forceSendInContainer = False\<rparr>"

text \<open>Request 7 was sent as message 20 in the container 24, request 8 waits.\<close>

definition ex_session :: session where
  "ex_session = \<lparr>ms_state = ConnectedState, ms_regular = True, ms_keyCreator = NoKeyCreator,
     ms_needSessionReset = False, ms_sessionId = 11, ms_sessionSalt = 9, ms_messagesCounter = 3,
     ms_pingId = 0, ms_pingMsgId = 0, ms_bindMsgId = 0, ms_ackRequestData = [],
     ms_resendRequestData = [], ms_stateRequestData = [], ms_receivedMessageIds = [],
     ms_resendingIds = [], ms_ackedIds = [(16, 3)], ms_stateAndResend = [],
     ms_sentContainers = [(24, \<lparr>sc_sent = 90, sc_messages = [20]\<rparr>)], ms_haveSent = [(20, 0)],
     ms_toSend = [(8, 1)], ms_haveReceived = [], ms_heap = (\<lambda>r. ex_request (if r = 0 then 7 else 8)),
     ms_syncDuration = 500, ms_events = []\<rparr>"

lemma ex_session_ok:
  "map_ok (ms_haveSent ex_session)" "map_ok (ms_receivedMessageIds ex_session)"
  "map_ok (ms_ackedIds ex_session)"
  by (simp_all add: ex_session_def)

lemma ex_pending: "pending ex_session = {7, 8}"
  by (auto simp: pending_def ex_session_def ex_request_def)

text \<open>The container is resent and its request waits again; an acknowledgement of the
  container leaves it sent, because its caller waits for an answer.\<close>

theorem resend_keeps_requests_witness:
  "pending (resend ex_session_env 24 0 ex_session) = {7, 8} \<and>
   pending (resendAll ex_session_env ex_session) = {7, 8} \<and>
   pending (fst (clearOldContainers ex_session_env ex_session)) = {7, 8}"
  using resend_keeps_requests [OF ex_session_ok(1), of ex_session_env 24 0] ex_pending by simp

theorem ack_keeps_awaiting_witness: "7 \<in> pending (requestsAcked ex_session_env [24, 20] False ex_session)"
  by (rule ack_keeps_awaiting [OF ex_session_ok(1)]) (simp_all add: ex_pending ex_session_env_def)

section \<open>Frames\<close>

text \<open>A frame of key 5 with an update for session 11: message 41 at second 50.\<close>

definition ex_body :: "prime list" where "ex_body = [0x11]"

definition ex_frame :: "prime list" where
  "ex_frame = [5, 0, 1, 2, 3, 4] @ [9, 0, 11, 0, 41, 50, 1, 4] @ ex_body @ [0, 0, 0]"

definition ex_opened :: frame where
  "ex_opened = \<lparr>fr_salt = 9, fr_msgId = join64 41 50, fr_seqNo = 1, fr_body = ex_body\<rparr>"

lemma ex_msg_id: "join64 41 50 AND 3 = 1"
  by code_simp

lemma ex_open: "open_frame ex_frame_env 11 ex_frame = Some ex_opened"
proof -
  have words: "join64 5 0 = 5" "join64 9 0 = 9" "join64 11 0 = 11" by code_simp+
  show ?thesis
    by (simp add: open_frame_def Let_def ex_frame_env_def ex_frame_def ex_body_def ex_opened_def
        read64_def words ex_msg_id kMinimalIntsCount_def kMaxMessageInts_def
        kExternalHeaderIntsCount_def kMaxMessageLength_def kMinPaddingSize_def kMaxPaddingSize_def)
qed

lemma ex_env_recv [simp]: "fe_recv ex_frame_env = ex_recv"
  by (simp add: ex_frame_env_def)

lemma ex_decrypt_ok: "decrypt_ok ex_frame_env"
  by (simp add: decrypt_ok_def ex_frame_env_def)

theorem open_frame_bounds_witness:
  "\<exists>decrypted padding.
    decrypted = fe_decrypt ex_frame_env (take 4 (drop 2 ex_frame))
      (take (4 * ((length ex_frame - 6) div 4)) (drop 6 ex_frame)) \<and>
    4 * length decrypted = 32 + 4 * length ex_body + padding \<and>
    12 \<le> padding \<and> padding \<le> 1024 \<and> 4 * length ex_body \<le> 16 * 1024 * 1024 \<and>
    ex_body = take (length ex_body) (drop 8 decrypted)"
  using open_frame_bounds [OF ex_decrypt_ok ex_open] by (simp add: ex_opened_def)

definition ex_received :: session where
  "ex_received = ex_session\<lparr>ms_ackRequestData := [join64 41 50],
     ms_receivedMessageIds := [(join64 41 50, True)],
     ms_haveReceived := [\<lparr>rs_reply = ex_body, rs_outerMsgId = join64 41 50, rs_requestId = 0\<rparr>],
     ms_events := [QueueSendAnything kAckSendWaiting, QueueTryToReceive]\<rparr>"

lemma ex_service: "handle_service ex_recv info ex_body s = Inr (on_update info ex_body s)"
  by (simp add: handle_service_def ex_body_def mtpc_msgs_ack_def mtpc_bad_msg_notification_def
      mtpc_bad_server_salt_def mtpc_msgs_state_info_def mtpc_msgs_all_info_def
      mtpc_msg_detailed_info_def mtpc_msg_new_detailed_info_def mtpc_new_session_created_def
      mtpc_pong_def)

lemma ex_update:
  "handleOneReceived ex_recv ex_body info b d s = Inr (fst (on_update info ex_body s), b, snd (on_update info ex_body s))"
proof -
  have "ex_body \<noteq> []" "hd ex_body \<noteq> mtpc_gzip_packed" "hd ex_body \<noteq> mtpc_msg_container"
    "hd ex_body \<noteq> mtpc_rpc_result"
    by (simp_all add: ex_body_def mtpc_gzip_packed_def mtpc_msg_container_def mtpc_rpc_result_def)
  then show ?thesis
    by (subst handleOneReceived.simps) (simp add: ex_service case_prod_beta)
qed

lemma ex_time: "server_time (join64 41 50) = 50" "bad_time ex_frame_env (join64 41 50) = False"
  by code_simp+

lemma ex_handled: "handle_frame ex_frame_env ex_frame ex_session = Inr (False, ex_received)"
proof -
  have "receive_body ex_frame_env ex_opened ex_session =
      Inr (Success, ex_received\<lparr>ms_events := []\<rparr>)"
    by (simp add: receive_body_def ex_opened_def ex_time take_salt_def push_ack_def register_id_def
        registerMsgId_def kIdsBufferSize_def emplace_def ex_session_def
        ex_received_def on_update_def push_received_def ex_update)
  moreover have "open_frame ex_frame_env (ms_sessionId ex_session) ex_frame = Some ex_opened"
    using ex_open by (simp add: ex_session_def)
  moreover have "finish_frame ex_frame_env (ms_state ex_session = ConnectedState) Success
      (ex_received\<lparr>ms_events := []\<rparr>) = (False, ex_received)"
    by (simp add: finish_frame_def ex_received_def ex_session_def shrink_drop emit_def
        kIdsBufferSize_def)
  ultimately show ?thesis by (simp add: handle_frame_def)
qed

text \<open>The main thread takes the update; then the frame comes again.\<close>

definition ex_taken :: session where "ex_taken = ex_received\<lparr>ms_haveReceived := []\<rparr>"

definition ex_again :: session where
  "ex_again = ex_taken\<lparr>ms_ackRequestData := [join64 41 50, join64 41 50],
     ms_events := ms_events ex_taken @ [QueueSendAnything kAckSendWaiting]\<rparr>"

lemma ex_replayed: "handle_frame ex_frame_env ex_frame ex_taken = Inr (False, ex_again)"
proof -
  have "receive_body ex_frame_env ex_opened ex_taken =
      Inr (Success, ex_again\<lparr>ms_events := ms_events ex_taken\<rparr>)"
    by (simp add: receive_body_def ex_opened_def ex_time take_salt_def push_ack_def register_id_def
        registerMsgId_def ex_session_def ex_received_def ex_taken_def ex_again_def Let_def
        ex_bool_eq)
  moreover have "open_frame ex_frame_env (ms_sessionId ex_taken) ex_frame = Some ex_opened"
    using ex_open by (simp add: ex_session_def ex_taken_def ex_received_def)
  moreover have "finish_frame ex_frame_env (ms_state ex_taken = ConnectedState) Success
      (ex_again\<lparr>ms_events := ms_events ex_taken\<rparr>) = (False, ex_again)"
    by (simp add: finish_frame_def ex_again_def ex_taken_def ex_received_def ex_session_def
        shrink_drop emit_def kIdsBufferSize_def)
  ultimately show ?thesis by (simp add: handle_frame_def)
qed


section \<open>Sealing\<close>

definition ex_message :: "prime list" where
  "ex_message = setSeqNo 1 (setMsgId (join64 41 50) (Serialize ex_body))"

lemma ex_sealed_by: "sealed_by ex_frame_env (\<lambda>k ws. ws)"
  by (simp add: sealed_by_def ex_frame_env_def)

lemma ex_message_ok: "request_ok ex_message" "has_body (Serialize ex_body)"
proof -
  have "request_ok (Serialize ex_body)" by (rule request_ok_Serialize) (simp_all add: ex_body_def)
  then show "request_ok ex_message" "has_body (Serialize ex_body)"
    by (simp_all only: ex_message_def request_ok_setMsgId request_ok_setSeqNo) (simp add: request_ok_def)
qed

lemma ex_message_fields:
  "getMsgId ex_message = join64 41 50" "getSeqNo ex_message = 1" "length ex_message = 9"
  "drop kBodyPosition ex_message = ex_body"
  using ex_message_ok(2)
  by (simp_all add: ex_message_def getMsgId_setMsgId getSeqNo_setSeqNo has_body_def)
     (simp_all add: setSeqNo_def setMsgId_def write64_def Serialize_def Prepare_def ex_body_def
       positions)


section \<open>Packed messages and answers\<close>

lemma ex_zlib_ok: "zlib_ok (re_zlib ex_recv)"
  by (simp add: zlib_ok_def ex_recv_def ex_zlib_def)

definition ex_info :: "bool \<Rightarrow> outer_info" where
  "ex_info bad = \<lparr>oi_outerMsgId = 41, oi_serverSalt = 0, oi_serverTime = 50, oi_badTime = bad\<rparr>"

lemma ex_ungzip: "ungzip ex_recv ws 100 = [0x61616161, 0x61616161]"
proof -
  have "ungzip_loop ex_zlib 100 (replicate 8 CHR ''a'') [] = Some (replicate 8 CHR ''a'', 92)"
    by (subst ungzip_loop.simps) (simp add: ex_zlib_def kUnpackedChunkSize_def)
  moreover have "words_of_bytes (replicate 8 CHR ''a'') = [0x61616161, 0x61616161]"
    by code_simp
  ultimately show ?thesis by (simp add: ungzip_def ex_recv_def ex_readers_def) (simp add: ex_zlib_def)
qed

definition ex_unpacked :: session where
  "ex_unpacked = push_received \<lparr>rs_reply = [0x61616161, 0x61616161], rs_outerMsgId = 41,
     rs_requestId = 0\<rparr> ex_session"

lemma ex_packed:
  "handleOneReceived ex_recv [mtpc_gzip_packed, 0] (ex_info False) 100 0 ex_session =
     Inr (Success, 92, ex_unpacked)"
proof -
  have "handleOneReceived ex_recv [0x61616161, 0x61616161] (ex_info False) 92 1 ex_session =
      Inr (Success, 92, ex_unpacked)"
    by (subst handleOneReceived.simps)
       (simp add: mtpc_gzip_packed_def mtpc_msg_container_def mtpc_rpc_result_def handle_service_def
        mtpc_msgs_ack_def mtpc_bad_msg_notification_def mtpc_bad_server_salt_def
        mtpc_msgs_state_info_def mtpc_msgs_all_info_def mtpc_msg_detailed_info_def
        mtpc_msg_new_detailed_info_def mtpc_new_session_created_def mtpc_pong_def
        on_update_def ex_info_def ex_session_def ex_unpacked_def)
  then show ?thesis
    by (subst handleOneReceived.simps) (simp add: ex_ungzip kMaxGzipNesting_def)
qed


theorem answer_delivered_iff_witness:
  "map_of (ms_haveSent (snd (deliver_result ex_recv (ex_info False) 20 [0x11] ex_session))) 20 = None \<and>
   ms_haveReceived (snd (deliver_result ex_recv (ex_info False) 20 [0x11] ex_session)) =
     [\<lparr>rs_reply = [0x11], rs_outerMsgId = 41, rs_requestId = 7\<rparr>]"
proof -
  have sent: "sent_only ex_session 20 0" by (simp add: sent_only_def ex_session_def)
  have size: "length (ms_ackedIds ex_session) \<le> kIdsBufferSize"
    by (simp add: ex_session_def kIdsBufferSize_def)
  have q: "rq_requestId (ms_heap ex_session 0) = 7" by (simp add: ex_session_def ex_request_def)
  have "hd [0x11] \<noteq> mtpc_rpc_error" by (simp add: mtpc_rpc_error_def)
  from answer_delivered_iff [OF sent ex_session_ok(3) size _ _ this refl, of ex_recv "ex_info False"]
  show ?thesis by (simp add: q anyRequest_def) (simp add: ex_session_def ex_info_def kIdsBufferSize_def)
qed

section \<open>Inputs on which the code fails\<close>

text \<open>A frame with no data and 16 bytes of padding passes every check and violates
  \<open>Expects(from < end)\<close>.\<close>

definition ex_empty_frame :: "prime list" where
  "ex_empty_frame = [5, 0, 1, 2, 3, 4] @ [9, 0, 11, 0, 41, 50, 1, 0] @ [0, 0, 0, 0]"

lemma ex_empty_open:
  "open_frame ex_frame_env 11 ex_empty_frame = Some (ex_opened\<lparr>fr_body := []\<rparr>)"
proof -
  have words: "join64 5 0 = 5" "join64 9 0 = 9" "join64 11 0 = 11" by code_simp+
  show ?thesis
    by (simp add: open_frame_def Let_def ex_frame_env_def ex_empty_frame_def ex_opened_def
        read64_def words ex_msg_id kMinimalIntsCount_def kMaxMessageInts_def
        kExternalHeaderIntsCount_def kMaxMessageLength_def kMinPaddingSize_def kMaxPaddingSize_def)
qed

lemma empty_frame_fails:
  "handle_frame ex_frame_env ex_empty_frame ex_session = Inl EmptyMessage"
proof -
  have "receive_body ex_frame_env (ex_opened\<lparr>fr_body := []\<rparr>) ex_session = Inl EmptyMessage"
    by (simp add: receive_body_def ex_opened_def ex_time take_salt_def push_ack_def register_id_def
        registerMsgId_def kIdsBufferSize_def ex_session_def
        handleOneReceived.simps [of _ "[]"])
  moreover have "open_frame ex_frame_env (ms_sessionId ex_session) ex_empty_frame =
      Some (ex_opened\<lparr>fr_body := []\<rparr>)"
    using ex_empty_open by (simp add: ex_session_def)
  ultimately show ?thesis by (simp add: handle_frame_def)
qed

text \<open>An answer of three primes has no result: the code reads the prime at \<open>end\<close>.\<close>

lemma short_answer_fails:
  "on_rpc_result ex_recv (ex_info False) [mtpc_rpc_result, a, b] budget d s = Inl ReadPastEnd"
  by (simp add: on_rpc_result_def ex_info_def ex_recv_def ex_readers_def ex_long_def)

text \<open>An update with a bad time resets the session; behind an empty container it is
  delivered, because the loop clears the flag after every handled message.\<close>

definition ex_smuggled :: "prime list" where
  "ex_smuggled = [mtpc_msg_container, 2,
     43, 0, 0, 8, mtpc_msg_container, 0,
     47, 0, 0, 4, 0x11]"

lemma ex_inner_ids: "join64 43 0 = 43" "join64 47 0 = 47"
  by code_simp+

lemma bad_time_resets:
  "handleOneReceived ex_recv ex_body (ex_info True) b d ex_session = Inr (ResetSession, b, ex_session)"
  by (simp add: ex_update on_update_def ex_info_def)

lemma ex_empty_container:
  "handleOneReceived ex_recv [mtpc_msg_container, 0] info b d s = Inr (Success, b, s)"
proof -
  have "container_loop ex_recv 0 [] info b d s = Inr (Success, b, s)"
    by (simp add: container_loop.simps [of _ 0])
  then show ?thesis
    by (subst handleOneReceived.simps) (simp add: mtpc_msg_container_def mtpc_gzip_packed_def)
qed

lemma ex_head_1:
  "container_head ex_readers [43, 0, 0, 8, mtpc_msg_container, 0, 47, 0, 0, 4, 0x11] =
     Inr (43, False, 2, [mtpc_msg_container, 0, 47, 0, 0, 4, 0x11])"
  by (simp add: container_head_def ex_readers_def ex_long_def ex_int_def ex_inner_ids)

lemma ex_head_2:
  "container_head ex_readers [47, 0, 0, 4, 0x11] = Inr (47, False, 1, [0x11])"
  by (simp add: container_head_def ex_readers_def ex_long_def ex_int_def ex_inner_ids)

definition ex_smuggled_in :: session where
  "ex_smuggled_in = push_received \<lparr>rs_reply = [0x11], rs_outerMsgId = 41, rs_requestId = 0\<rparr>
     (ex_session\<lparr>ms_receivedMessageIds := [(43, False), (47, False)]\<rparr>)"

lemma empty_container_clears_bad_time:
  "handleOneReceived ex_recv ex_smuggled (ex_info True) b d ex_session = Inr (Success, b, ex_smuggled_in)"
proof -
  let ?s1 = "ex_session\<lparr>ms_receivedMessageIds := [(43, False)]\<rparr>"
  let ?s2 = "ex_session\<lparr>ms_receivedMessageIds := [(43, False), (47, False)]\<rparr>"
  have readers: "re_readers ex_recv = ex_readers" by (simp add: ex_recv_def)
  have reg: "register_id 43 False ex_session = (IdsSuccess, ?s1)"
    "register_id 47 False ?s1 = (IdsSuccess, ?s2)"
    by (simp_all add: register_id_def registerMsgId_def emplace_def ex_session_def kIdsBufferSize_def)
  have last_one: "container_loop ex_recv 0 [] info b d s = Inr (Success, b, s)" for info s
    by (simp add: container_loop.simps [of _ 0])
  have update: "handleOneReceived ex_recv [0x11] (ex_info True\<lparr>oi_badTime := False\<rparr>) b d ?s2 =
      Inr (Success, b, ex_smuggled_in)"
    using ex_update [of "ex_info True\<lparr>oi_badTime := False\<rparr>" b d ?s2]
    by (simp add: ex_body_def on_update_def ex_info_def ex_smuggled_in_def)
       (simp add: ex_session_def push_received_def)
  have second: "container_loop ex_recv 1 [47, 0, 0, 4, 0x11] (ex_info True\<lparr>oi_badTime := False\<rparr>)
      b d ?s1 = Inr (Success, b, ex_smuggled_in)"
    by (subst container_loop.simps)
       (simp add: readers ex_head_2 push_ack_def reg update last_one)
  have "container_loop ex_recv 2 [43, 0, 0, 8, mtpc_msg_container, 0, 47, 0, 0, 4, 0x11]
      (ex_info True) b d ex_session = Inr (Success, b, ex_smuggled_in)"
    by (subst container_loop.simps)
       (simp add: readers ex_head_1 push_ack_def reg ex_empty_container second [unfolded One_nat_def])
  then show ?thesis
    by (subst handleOneReceived.simps)
       (simp add: ex_smuggled_def, simp add: mtpc_msg_container_def mtpc_gzip_packed_def)
qed

end
