(* ===== verification/Mtp_Send_Examples.thy ===== *)
theory Mtp_Send_Examples
  imports Mtp_Container Mtp_Examples
begin

text \<open>
  A container that is sent: a ping, a request that needs the connection's initialisation
  and is to follow the sent request 7.
\<close>

definition ex_send_env :: send_env where
  "ex_send_env = \<lparr>sv_session = ex_session_env, sv_fresh = (\<lambda>n. of_nat (100 + 4 * n)),
     sv_init = [0x55, 0x56]\<rparr>"

definition ex_send_session :: session where
  "ex_send_session = ex_session\<lparr>ms_heap :=
     (\<lambda>r. if r = 0 then (ex_request 7)\<lparr>rq_words := setMsgId 20 (Serialize [1])\<rparr>
          else if r = 1 then (ex_request 8)\<lparr>rq_after := Some 0, rq_needsLayer := True\<rparr>
          else (ex_request 0)\<lparr>rq_words := Serialize [0x7abe77ec, 5, 0]\<rparr>)\<rparr>"

definition ex_outgoing :: outgoing where
  "ex_outgoing = \<lparr>og_ping = Some 2, og_ack = None, og_resend = None, og_state = None,
     og_httpWait = None, og_bind = None\<rparr>"

text \<open>Neither request has an identifier yet.\<close>

lemma ex_no_ids: "getMsgId (Serialize [a]) = 0" "getMsgId (Serialize [a, b, c]) = 0"
  by (simp_all add: getMsgId_def Serialize_def Prepare_def resize_def read64_def join64_def
      positions nth_append)

lemma ex_words:
  "words_of ex_send_session (Suc 0) = Serialize [1]"
  "words_of ex_send_session 2 = Serialize [0x7abe77ec, 5, 0]"
  by (simp_all add: words_of_def ex_send_session_def ex_request_def ex_session_def)

lemma words_of_ping: "words_of (s\<lparr>ms_pingMsgId := i\<rparr>) q = words_of s q"
  by (simp add: words_of_def)

lemma ex_send_taken:
  "fst (snd (send_container ex_send_env ex_outgoing [(8, 1)] False (0, ex_send_session))) = 3"
  by (simp add: send_container_def ex_outgoing_def place_service_def placeToContainer_def
      taken_send_queued take_id_new ex_words ex_no_ids words_of_stamp note_ping_def words_of_ping
      erase_range_def Let_def nextRequestSeqNumber_def)

lemma ex_clock: "strict_mono_on {..<3} (sv_fresh ex_send_env)"
  by (auto simp: strict_mono_on_def ex_send_env_def numeral_3_eq_3 less_Suc_eq)


lemma ex_requests_ok: "request_ok (words_of ex_send_session r)"
proof -
  have "request_ok (Serialize [1])" "request_ok (Serialize [0x7abe77ec, 5, 0])"
    by (rule request_ok_Serialize; simp)+
  then show ?thesis by (simp add: words_of_def ex_send_session_def ex_request_def)
qed

lemma ex_need_ack: "needAck (Serialize [1])"
  by (simp add: needAck_def Serialize_def Prepare_def resize_def positions nth_append
      mtpc_msg_container_def mtpc_msgs_ack_def mtpc_http_wait_def mtpc_bad_msg_notification_def
      mtpc_msgs_all_info_def mtpc_msgs_state_info_def mtpc_msg_detailed_info_def
      mtpc_msg_new_detailed_info_def)

theorem container_well_framed_witness:
  "\<exists>ms. drop kBodyPosition
      (fst (send_container ex_send_env ex_outgoing [(8, 1)] False (0, ex_send_session))) =
      [mtpc_msg_container, of_nat (length ms)] @ concat ms \<and>
    length ms = 2 \<and> list_all framed ms"
proof -
  obtain ws k s where sent: "send_container ex_send_env ex_outgoing [(8, 1)] False (0, ex_send_session) =
      (ws, k, s)" by (metis surj_pair)
  have "\<forall>p \<in> set [(8, 1)]. rq_requestId (ms_heap ex_send_session (snd p)) \<noteq> 0 \<and>
      needAck (words_of ex_send_session (snd p))"
    using ex_need_ack by (simp add: ex_words, simp add: ex_send_session_def ex_request_def)
  from container_well_framed [OF ex_requests_ok this sent] sent show ?thesis
    by (auto simp: ex_outgoing_def services_def list_all_iff)
qed

end
