(* ===== verification/Spec2Isabelle.thy ===== *)
theory Spec2Isabelle
  imports Session_Allowlist Pts_Order Request_Safety Merged_Slice Messages_Builder
    Managed_Examples Managed_Texts Settings_Tail Sheet_Examples Chat_Catalog
    Mtp_Send_Examples
begin

text \<open>
  A verification library for Allowgram, a Telegram Desktop that lets an account talk only to
  the conversations of its allow-list.  File names are relative to
  \<open>src/Telegram/SourceFiles\<close>.

  \<^bold>\<open>The program.\<close>  An account gets its allow-list in one of two ways: the user picks chats once
  (\<open>window/window_allowlist.cpp\<close>), or a head signs policies that a managed client fetches
  (\<open>main/allowlist_managed_client.cpp\<close>).  The session keeps the list in its settings
  (\<open>main/main_session.cpp\<close>, \<open>main/main_session_settings.cpp\<close>).  Every request is shown to the
  request guard (\<open>mtproto/allowlist_request_guard.cpp\<close>) before the MTProto session
  (\<open>mtproto/session_private.cpp\<close>) may send it; the session also receives what the server sends.
  Updates pass the sequencer (\<open>data/data_pts_waiter.cpp\<close>), and the histories they build are
  read through sparse lists and viewers (\<open>storage/storage_sparse_ids_list.cpp\<close>,
  \<open>data/data_sparse_ids.cpp\<close>, \<open>data/data_messages.cpp\<close>).

  \<^bold>\<open>The theories.\<close>  \<open>Allow_Prelude\<close> has the shared types, maps as sorted association lists
  (\<open>map_ok\<close>, \<open>emplace\<close>, \<open>remove_key\<close>: \<open>std::map\<close> and \<open>base::flat_map\<close>) and the lemma
  collections.  Definitions keep the names of the code.

    \<^item> \<open>Peer_Ids\<close>: \<open>data/data_peer_id.cpp\<close>, \<open>data/data_msg_id.h\<close>; identifiers are 64-bit words,
      and packing and unpacking them are inverse.
    \<^item> \<open>Allowlist_Policy\<close>: \<open>main/allowlist_policy.cpp\<close>; a parsed list is the sorted set of the
      tokens, a failed parse gives nothing.
    \<^item> \<open>Chat_Picker\<close>, \<open>Session_Allowlist\<close>, \<open>Chat_Catalog\<close>: \<open>main/allowlist_picker.h\<close>,
      \<open>window/window_allowlist.cpp\<close> and the allow-list operations of \<open>main/main_session.cpp\<close>;
      the walk over the chats ends, saving configures the selection.
    \<^item> \<open>Tl_Objects\<close>, \<open>Content_Guard\<close>, \<open>Call_Guard\<close>, \<open>Group_Call_Guard\<close>, \<open>Request_Readers\<close>,
      \<open>Request_Tables\<close>, \<open>Request_Guard\<close>: \<open>mtproto/allowlist_request_guard.cpp\<close> and the tables
      it includes.  \<open>Request_Safety\<close>, \<open>Content_History\<close>, \<open>Call_Lifecycle\<close> and \<open>Call_Order\<close> hold
      the theorems: default denial, allowed destinations, clean content as a function of the
      history, the order of a call, and revocation that is final.  \<open>Revocation\<close> is the
      interface both call contexts provide.
    \<^item> \<open>Json_Keys\<close>, \<open>Managed_Policy\<close>, \<open>Managed_Client\<close>, \<open>Managed_Connection\<close>, \<open>Managed_Hub\<close>,
      \<open>Managed_Texts\<close>: \<open>main/allowlist_managed_policy.cpp\<close>, \<open>main/allowlist_managed_client.cpp\<close>
      and its two \<open>.inc\<close> files.  \<open>Managed_Run\<close> and \<open>Managed_Live\<close> are about runs of the
      client, over the interface \<open>managed_host\<close>; \<open>Managed_Session\<close> makes the session that host.
      Only signed policies are taken, nothing goes back, the client does not crash and keeps
      asking.  \<open>Managed_Sample\<close> and \<open>Managed_Examples\<close> are a concrete head and its policies.
    \<^item> \<open>Settings_Tail\<close>: the end of the session settings, byte by byte, and its round trip.
    \<^item> \<open>Sheet\<close>, \<open>Sheet_Resolver\<close>, \<open>Sheet_Examples\<close>: \<open>main/allowlist_sheet.cpp\<close>,
      \<open>main/allowlist_sheet_resolver.cpp\<close>; the answer is read the same in all pieces, the token
      goes only to the pinned certificate.
    \<^item> \<open>Pts_Waiter\<close>, \<open>Pts_Order\<close>: the update sequencer, and that a contiguous run of updates is
      applied in order whatever the order of arrival.
    \<^item> \<open>Slices\<close>, \<open>Id_Windows\<close>, \<open>Sparse_Ids_List\<close>, \<open>Messages_List\<close>: the sparse lists, and that
      all they say is so of the history; \<open>History_Store\<close> is the interface.  \<open>Slice_Builder\<close>,
      \<open>Builder_Windows\<close>, \<open>Builder_Merge\<close>, \<open>Sparse_Ids_Builder\<close>, \<open>Messages_Builder\<close>,
      \<open>Merged_Slice\<close>: the viewers over them, which stay exact and within their limits.
    \<^item> \<open>Mtp_Received_Ids\<close>, \<open>Mtp_Request\<close>, \<open>Mtp_Session\<close>, \<open>Mtp_Receive\<close>, \<open>Mtp_Frame\<close>,
      \<open>Mtp_Send\<close>: \<open>mtproto/details/mtproto_received_ids_manager.cpp\<close>,
      \<open>mtproto/details/mtproto_serialized_request.cpp\<close>, \<open>mtproto/session_private.cpp\<close> and the
      maps of \<open>mtproto/session.h\<close>, with the session as the record \<open>session\<close> and requests in a
      store, because the maps share them.  \<open>Mtp_Sent\<close> (no request is lost by resending or by an
      acknowledgement), \<open>Mtp_Replay\<close> (the interface \<open>receive_invariant\<close>, the window of received
      identifiers, the budget of unpacked bytes), \<open>Mtp_Answers\<close> (when an answer is delivered,
      sealed frames open again) and \<open>Mtp_Container\<close> (what is sent is framed and its
      identifiers are in order) hold the theorems; \<open>Mtp_Examples\<close> and \<open>Mtp_Send_Examples\<close>
      the concrete sessions, and the inputs on which the code fails.

  \<^bold>\<open>Interfaces.\<close>  \<open>revocation\<close> is interpreted for both call contexts, \<open>history_store\<close> for both
  sparse lists, \<open>managed_host\<close> for the session, \<open>receive_invariant\<close> for the window of
  received identifiers.

  \<^bold>\<open>Bounds and fuel.\<close>  Bounds of the code are kept: 8 wrappers around a request, 64 group
  calls, 400 remembered identifiers, JSON 16 deep with 32 keys an object, 10000 entries of a
  list, 1000 pages and 1000 chats of a walk, 64 nested packings, 32 MB unpacked and 16 MB
  received for one message.  Recursion that is not structural has a measure.  Fuel is used
  three times: the JSON scanner has twice the length of the text and one more
  (\<open>Json_Keys.unique_keys_ends\<close>); \<open>resend\<close> has one more than the number of containers, each
  nesting erasing one (\<open>Mtp_Sent.resend_fuel_enough\<close>, and \<open>resend_unfold\<close> is the equation of
  the code); the search for an unused identifier has one step more than the tables have
  entries (\<open>Mtp_Container.unused_id_unused\<close>).

  \<^bold>\<open>Parameters.\<close>  What is not under \<open>src/\<close> is an argument: generated TL readers (\<open>tl_readers\<close>,
  \<open>mtp_readers\<close>), Qt's text, JSON, base64 and URL code and OpenSSL (\<open>text_ops\<close>, \<open>managed_lib\<close>,
  \<open>hub_lib\<close>, \<open>sheet_lib\<close>), zlib (\<open>zlib\<close>), AES, SHA-256 and the clock (\<open>frame_env\<close>,
  \<open>send_env\<close>), the disk and the host of the client.  What theorems assume of them is named:
  \<open>zlib_ok\<close>, \<open>decrypt_ok\<close> and \<open>sealed_by\<close>, a clock that gives increasing identifiers.

  \<^bold>\<open>Not modelled.\<close>  The user interface, media and calls themselves (Qt, tgcalls), the API
  layer over generated types, files and caches, the choice of connections, the key
  exchange, proxies and data centres, the serialization of service requests and of
  \<open>initConnection\<close>, and timers other than as events.  Locks and threads are not modelled
  either: an operation of the model is one that runs under its lock, or to its end on its
  thread.
\<close>

end
